(* ===== verification/Rust_Prelude.thy ===== *)
theory Rust_Prelude
  imports Main "HOL-Library.Word" "HOL-Library.List_Lexorder" "HOL-Library.Product_Lexorder"
    "HOL-Library.Monad_Syntax"
begin

text \<open>
  Shared vocabulary of the development: bytes and byte strings, the three-way comparison of
  byte slices (\<^verbatim>\<open><[u8] as Ord>::cmp\<close>), results with the question-mark operator, the slice
  helpers the crates use, and the generic facts about sorted lists that the tree proofs share.
  A panic is the value \<^term>\<open>None\<close> of an option; a \<^verbatim>\<open>Result<T, E>\<close> is a sum whose left side is
  the error.
\<close>

named_theorems tree_simps \<open>equations of the tree operations used by the component proofs\<close>

named_theorems hash_simps \<open>digests of the hash tree constructors\<close>

subsection \<open>Bytes\<close>

type_synonym byte = "8 word"

type_synonym bytes = "byte list"

type_synonym hash = "bytes"

text \<open>The hash function is a parameter of everything that hashes: SHA-256 is not part of the
  repository. Its documented behaviour, that a digest has 32 bytes, is \<open>hash32\<close>.\<close>

definition hash32 :: "(bytes \<Rightarrow> hash) \<Rightarrow> bool" where
  "hash32 H \<longleftrightarrow> (\<forall>x. length (H x) = 32)"

text \<open>A function with 32-byte results, for the concrete instances of the properties.\<close>

definition pad_hash :: "bytes \<Rightarrow> hash" where
  "pad_hash x = take 32 (x @ replicate 32 0)"

definition str_bytes :: "string \<Rightarrow> bytes" where
  "str_bytes s = map (\<lambda>c. of_nat (of_char c)) s"

lemma str_bytes_code [code]: "str_bytes s = map of_char s"
  by (simp add: str_bytes_def of_nat_of_char)

lemma hash32D [simp]: "hash32 H \<Longrightarrow> length (H x) = 32"
  by (simp add: hash32_def)

lemma hash32_pad_hash [simp]: "hash32 pad_hash"
  by (simp add: hash32_def pad_hash_def min_def)

lemma str_bytes_Nil [simp]: "str_bytes [] = []"
  by (simp add: str_bytes_def)

lemma str_bytes_append [simp]: "str_bytes (s @ t) = str_bytes s @ str_bytes t"
  by (simp add: str_bytes_def)

lemma length_str_bytes [simp]: "length (str_bytes s) = length s"
  by (simp add: str_bytes_def)

lemma inj_byte_of_char: "inj (\<lambda>c::char. (of_nat (of_char c) :: byte))"
proof (rule injI)
  fix c d :: char
  assume "(of_nat (of_char c) :: byte) = of_nat (of_char d)"
  then have "unat (of_nat (of_char c) :: byte) = unat (of_nat (of_char d) :: byte)" by simp
  moreover have "(of_char x :: nat) < 256" for x :: char
    using nat_of_char_less_256 by simp
  ultimately have "(of_char c :: nat) = of_char d"
    by (simp add: unat_of_nat take_bit_nat_eq_self)
  then show "c = d" by simp
qed

lemma str_bytes_inject [simp]: "str_bytes s = str_bytes t \<longleftrightarrow> s = t"
  using inj_byte_of_char by (auto simp: str_bytes_def inj_map_eq_map)

subsection \<open>Three-way comparison of byte slices\<close>

datatype cmp_ordering = Less | Equal | Greater

fun bytes_cmp :: "bytes \<Rightarrow> bytes \<Rightarrow> cmp_ordering" where
  "bytes_cmp [] [] = Equal"
| "bytes_cmp [] (_ # _) = Less"
| "bytes_cmp (_ # _) [] = Greater"
| "bytes_cmp (x # xs) (y # ys) =
     (if x < y then Less else if y < x then Greater else bytes_cmp xs ys)"

lemma bytes_cmp_spec:
  "bytes_cmp a b = (if a < b then Less else if a = b then Equal else Greater)"
  by (induction a b rule: bytes_cmp.induct) auto

lemma bytes_cmp_iff [simp]:
  "bytes_cmp a b = Less \<longleftrightarrow> a < b"
  "bytes_cmp a b = Equal \<longleftrightarrow> a = b"
  "bytes_cmp a b = Greater \<longleftrightarrow> b < a"
  by (auto simp: bytes_cmp_spec)

lemma bytes_cmp_eqs [simp]:
  "a < b \<Longrightarrow> bytes_cmp a b = Less"
  "bytes_cmp a a = Equal"
  "b < a \<Longrightarrow> bytes_cmp a b = Greater"
  by simp_all

lemma bytes_cmp_cases [case_names Less Equal Greater]:
  assumes "a < b \<Longrightarrow> bytes_cmp a b = Less \<Longrightarrow> P"
    and "a = b \<Longrightarrow> bytes_cmp a b = Equal \<Longrightarrow> P"
    and "b < a \<Longrightarrow> bytes_cmp a b = Greater \<Longrightarrow> P"
  shows P
  using assms by (cases a b rule: linorder_cases) auto

subsection \<open>Results\<close>

text \<open>\<open>and_then r f\<close> is Rust's \<^verbatim>\<open>let x = r?; f x\<close>: an error returns at once.\<close>

fun and_then :: "'e + 'a \<Rightarrow> ('a \<Rightarrow> 'e + 'b) \<Rightarrow> 'e + 'b" where
  "and_then (Inl e) f = Inl e"
| "and_then (Inr x) f = f x"

fun ok_or :: "'a option \<Rightarrow> 'e \<Rightarrow> 'e + 'a" where
  "ok_or None e = Inl e"
| "ok_or (Some x) e = Inr x"

fun map_err :: "('e \<Rightarrow> 'f) \<Rightarrow> 'e + 'a \<Rightarrow> 'f + 'a" where
  "map_err f (Inl e) = Inl (f e)"
| "map_err f (Inr x) = Inr x"

lemma and_then_eq_Inr: "and_then r f = Inr y \<longleftrightarrow> (\<exists>x. r = Inr x \<and> f x = Inr y)"
  by (cases r) auto

lemma and_then_eq_Inl: "and_then r f = Inl e \<longleftrightarrow> r = Inl e \<or> (\<exists>x. r = Inr x \<and> f x = Inl e)"
  by (cases r) auto

lemma ok_or_eq_Inr [simp]: "ok_or x e = Inr y \<longleftrightarrow> x = Some y"
  by (cases x) auto

lemma map_err_eq_Inr [simp]: "map_err f r = Inr y \<longleftrightarrow> r = Inr y"
  by (cases r) auto

lemma and_then_cong [fundef_cong]:
  "r = r' \<Longrightarrow> (\<And>x. r' = Inr x \<Longrightarrow> f x = f' x) \<Longrightarrow> and_then r f = and_then r' f'"
  by (cases r') auto

lemma bind_eq_SomeI: "m = Some x \<Longrightarrow> f x = Some y \<Longrightarrow> m \<bind> f = Some y"
  by simp

subsection \<open>Slices\<close>

fun starts_with :: "'a list \<Rightarrow> 'a list \<Rightarrow> bool" where
  "starts_with _ [] = True"
| "starts_with [] (_ # _) = False"
| "starts_with (x # xs) (y # ys) = (x = y \<and> starts_with xs ys)"

definition ends_with :: "'a list \<Rightarrow> 'a list \<Rightarrow> bool" where
  "ends_with xs ys = starts_with (rev xs) (rev ys)"

definition slice_last :: "'a list \<Rightarrow> 'a option" where
  "slice_last xs = (if xs = [] then None else Some (last xs))"

definition slice_first :: "'a list \<Rightarrow> 'a option" where
  "slice_first xs = (case xs of [] \<Rightarrow> None | x # _ \<Rightarrow> Some x)"

definition slice_get :: "'a list \<Rightarrow> nat \<Rightarrow> 'a option" where
  "slice_get xs i = (if i < length xs then Some (xs ! i) else None)"

lemma starts_with_iff: "starts_with xs ys \<longleftrightarrow> (\<exists>zs. xs = ys @ zs)"
  by (induction xs ys rule: starts_with.induct) auto

lemma ends_with_iff: "ends_with xs ys \<longleftrightarrow> (\<exists>zs. xs = zs @ ys)"
  unfolding ends_with_def starts_with_iff
  by (metis rev_append rev_rev_ident)

lemma ends_with_single [simp]: "ends_with (xs @ [x]) [y] \<longleftrightarrow> x = y"
  by (simp add: ends_with_def)

lemma ends_with_Nil_single [simp]: "\<not> ends_with [] [y]"
  by (simp add: ends_with_def)

lemma slice_last_simps [simp]: "slice_last [] = None" "slice_last (xs @ [x]) = Some x"
  by (simp_all add: slice_last_def)

subsection \<open>Strictly sorted association lists\<close>

definition sorted_keys :: "('k::linorder \<times> 'v) list \<Rightarrow> bool" where
  "sorted_keys ps \<longleftrightarrow> sorted_wrt (\<lambda>p q. fst p < fst q) ps"

lemma sorted_keys_simps [simp]:
  "sorted_keys []"
  "sorted_keys ((k, v) # ys) \<longleftrightarrow> (\<forall>p \<in> set ys. k < fst p) \<and> sorted_keys ys"
  by (auto simp: sorted_keys_def)

lemma sorted_keys_append [simp]:
  "sorted_keys (xs @ (k, v) # ys) \<longleftrightarrow>
     sorted_keys xs \<and> sorted_keys ys \<and> (\<forall>p \<in> set xs. fst p < k) \<and> (\<forall>p \<in> set ys. k < fst p)"
  by (fastforce simp: sorted_keys_def sorted_wrt_append)

lemma sorted_keys_filter: "sorted_keys ps \<Longrightarrow> sorted_keys (filter P ps)"
  by (simp add: sorted_keys_def sorted_wrt_filter)

lemma sorted_keys_distinct: "sorted_keys ps \<Longrightarrow> distinct (map fst ps)"
  by (induction ps) fastforce+

lemma map_of_filter_key:
  "map_of (filter (\<lambda>p. P (fst p)) ps) x = (if P x then map_of ps x else None)"
  by (induction ps) auto

lemma map_of_None_keys: "(\<And>p. p \<in> set ps \<Longrightarrow> fst p \<noteq> k) \<Longrightarrow> map_of ps k = None"
  by (force simp: map_of_eq_None_iff)

lemma filter_id: "(\<And>p. p \<in> set ps \<Longrightarrow> P p) \<Longrightarrow> filter P ps = ps"
  by (simp add: filter_id_conv)

lemma filter_none: "(\<And>p. p \<in> set ps \<Longrightarrow> \<not> P p) \<Longrightarrow> filter P ps = []"
  by (simp add: filter_empty_conv)

end
