(* ===== verification/Hash_Tree.thy ===== *)
theory Hash_Tree
  imports Rust_Prelude
begin

text \<open>
  The hash tree of \<^verbatim>\<open>packages/ic-certification/src/hash_tree/mod.rs\<close>: its nodes, the domain
  separated digest, label, path and subtree lookup, and the listing of its paths. The wrapper
  struct \<^verbatim>\<open>HashTree { root }\<close> is erased, so a tree is its root node. Storage types are byte
  lists.
\<close>

subsection \<open>Data\<close>

datatype hash_tree =
    Empty
  | Fork hash_tree hash_tree
  | Labeled bytes hash_tree
  | Leaf bytes
  | Pruned hash

datatype lookup_result = LR_Absent | LR_Unknown | LR_Found bytes | LR_Error

datatype subtree_lookup_result = SLR_Absent | SLR_Unknown | SLR_Found hash_tree

datatype lookup_label_result =
    LLR_Absent
  | LLR_Unknown
  | LLR_Less
  | LLR_Greater
  | LLR_Found hash_tree

subsection \<open>Digest\<close>

fun node_separator :: "hash_tree \<Rightarrow> string option" where
  "node_separator Empty = Some ''ic-hashtree-empty''"
| "node_separator (Fork _ _) = Some ''ic-hashtree-fork''"
| "node_separator (Labeled _ _) = Some ''ic-hashtree-labeled''"
| "node_separator (Leaf _) = Some ''ic-hashtree-leaf''"
| "node_separator (Pruned _) = None"

definition domain_sep :: "string \<Rightarrow> bytes" where
  "domain_sep s = of_nat (length s) # str_bytes s"

fun node_domain_sep :: "hash_tree \<Rightarrow> bytes" where
  "node_domain_sep t = (case node_separator t of None \<Rightarrow> [] | Some s \<Rightarrow> domain_sep s)"

fun digest :: "(bytes \<Rightarrow> hash) \<Rightarrow> hash_tree \<Rightarrow> hash" where
  "digest H Empty = H (node_domain_sep Empty)"
| "digest H (Fork l r) = H (node_domain_sep (Fork l r) @ digest H l @ digest H r)"
| "digest H (Labeled lbl t) = H (node_domain_sep (Labeled lbl t) @ lbl @ digest H t)"
| "digest H (Leaf v) = H (node_domain_sep (Leaf v) @ v)"
| "digest H (Pruned d) = d"

definition fork_hash :: "(bytes \<Rightarrow> hash) \<Rightarrow> hash \<Rightarrow> hash \<Rightarrow> hash" where
  "fork_hash H l r = H (domain_sep ''ic-hashtree-fork'' @ l @ r)"

definition leaf_hash :: "(bytes \<Rightarrow> hash) \<Rightarrow> bytes \<Rightarrow> hash" where
  "leaf_hash H d = H (domain_sep ''ic-hashtree-leaf'' @ d)"

definition labeled_hash :: "(bytes \<Rightarrow> hash) \<Rightarrow> bytes \<Rightarrow> hash \<Rightarrow> hash" where
  "labeled_hash H lbl content_hash = H (domain_sep ''ic-hashtree-labeled'' @ lbl @ content_hash)"

subsection \<open>Lookup\<close>

fun lookup_label :: "hash_tree \<Rightarrow> bytes \<Rightarrow> lookup_label_result" where
  "lookup_label (Labeled l node) label =
     (case bytes_cmp label l of
        Greater \<Rightarrow> LLR_Greater
      | Equal \<Rightarrow> LLR_Found node
      | Less \<Rightarrow> LLR_Less)"
| "lookup_label (Fork l r) label =
     (case lookup_label l label of
        LLR_Greater \<Rightarrow>
          (case lookup_label r label of LLR_Less \<Rightarrow> LLR_Absent | result \<Rightarrow> result)
      | LLR_Unknown \<Rightarrow>
          (case lookup_label r label of LLR_Less \<Rightarrow> LLR_Unknown | result \<Rightarrow> result)
      | result \<Rightarrow> result)"
| "lookup_label (Pruned _) label = LLR_Unknown"
| "lookup_label _ label = LLR_Absent"

fun lookup_path :: "hash_tree \<Rightarrow> bytes list \<Rightarrow> lookup_result" where
  "lookup_path t (segment # path) =
     (case lookup_label t segment of
        LLR_Found node \<Rightarrow> lookup_path node path
      | LLR_Unknown \<Rightarrow> LR_Unknown
      | LLR_Absent \<Rightarrow> LR_Absent
      | LLR_Greater \<Rightarrow> LR_Absent
      | LLR_Less \<Rightarrow> LR_Absent)"
| "lookup_path t [] =
     (case t of
        Leaf v \<Rightarrow> LR_Found v
      | Empty \<Rightarrow> LR_Absent
      | Pruned _ \<Rightarrow> LR_Unknown
      | Labeled _ _ \<Rightarrow> LR_Error
      | Fork _ _ \<Rightarrow> LR_Error)"

fun lookup_subtree :: "hash_tree \<Rightarrow> bytes list \<Rightarrow> subtree_lookup_result" where
  "lookup_subtree t (segment # path) =
     (case lookup_label t segment of
        LLR_Found node \<Rightarrow> lookup_subtree node path
      | LLR_Unknown \<Rightarrow> SLR_Unknown
      | LLR_Absent \<Rightarrow> SLR_Absent
      | LLR_Greater \<Rightarrow> SLR_Absent
      | LLR_Less \<Rightarrow> SLR_Absent)"
| "lookup_subtree t [] = SLR_Found t"

fun list_paths_from :: "hash_tree \<Rightarrow> bytes list \<Rightarrow> bytes list list" where
  "list_paths_from Empty path = []"
| "list_paths_from (Fork l r) path = list_paths_from l path @ list_paths_from r path"
| "list_paths_from (Leaf _) path = [path]"
| "list_paths_from (Labeled l node) path = list_paths_from node (path @ [l])"
| "list_paths_from (Pruned _) path = []"

definition list_paths :: "hash_tree \<Rightarrow> bytes list list" where
  "list_paths t = list_paths_from t []"

subsection \<open>Digest equations\<close>

lemma digest_simps [simp, hash_simps]:
  "digest H (Fork l r) = fork_hash H (digest H l) (digest H r)"
  "digest H (Labeled lbl t) = labeled_hash H lbl (digest H t)"
  "digest H (Leaf v) = leaf_hash H v"
  by (simp_all add: fork_hash_def labeled_hash_def leaf_hash_def)

declare digest.simps(2-4) [simp del]

text \<open>The length invariant that the type \<^verbatim>\<open>[u8; 32]\<close> of a pruned node gives.\<close>

fun well_sized :: "hash_tree \<Rightarrow> bool" where
  "well_sized Empty = True"
| "well_sized (Fork l r) = (well_sized l \<and> well_sized r)"
| "well_sized (Labeled _ t) = well_sized t"
| "well_sized (Leaf _) = True"
| "well_sized (Pruned d) = (length d = 32)"

lemma length_digest [simp]: "hash32 H \<Longrightarrow> well_sized t \<Longrightarrow> length (digest H t) = 32"
  by (induction t) (simp_all add: fork_hash_def labeled_hash_def leaf_hash_def)

end
