(* ===== verification/Hash_Tree_Pruning.thy ===== *)
theory Hash_Tree_Pruning
  imports Hash_Tree
begin

text \<open>
  What a pruned hash tree proves. \<open>prunes H w t\<close> says that the witness \<open>w\<close> is \<open>t\<close> with some
  subtrees replaced by their digests. A pruning has the digest of the full tree, every lookup in
  it either answers as the full tree does or says \<open>Unknown\<close>, and, where the hash function has no
  collision on the inputs hashed, a tree with the digest of a full tree is a pruning of it.
  \<open>merge_hash_trees\<close> (\<^verbatim>\<open>packages/ic-certification/src/nested_rb_tree.rs\<close>) combines two
  prunings of one tree; its \<^verbatim>\<open>panic!\<close>s are \<^term>\<open>None\<close>.
\<close>

subsection \<open>Prunings\<close>

fun prunes :: "(bytes \<Rightarrow> hash) \<Rightarrow> hash_tree \<Rightarrow> hash_tree \<Rightarrow> bool" where
  "prunes H (Pruned d) t = (d = digest H t)"
| "prunes H Empty t = (t = Empty)"
| "prunes H (Leaf v) t = (t = Leaf v)"
| "prunes H (Fork l r) (Fork l' r') = (prunes H l l' \<and> prunes H r r')"
| "prunes H (Fork l r) _ = False"
| "prunes H (Labeled x s) (Labeled y s') = (x = y \<and> prunes H s s')"
| "prunes H (Labeled x s) _ = False"

lemma prunes_refl [simp, intro]: "prunes H t t"
  by (induction t) auto

lemma prunes_digest: "prunes H w t \<Longrightarrow> digest H w = digest H t"
  by (induction H w t rule: prunes.induct) auto

lemma prunes_trans: "prunes H u w \<Longrightarrow> prunes H w t \<Longrightarrow> prunes H u t"
proof (induction H u w arbitrary: t rule: prunes.induct)
  case (1 H d w)
  then show ?case by (simp add: prunes_digest)
next
  case (4 H l r l' r')
  then show ?case by (cases t) auto
next
  case (6 H x s y s')
  then show ?case by (cases t) auto
qed auto

lemma prunes_Labeled_iff:
  "prunes H w (Labeled y t) \<longleftrightarrow>
     w = Pruned (digest H (Labeled y t)) \<or> (\<exists>s. w = Labeled y s \<and> prunes H s t)"
  by (cases w) auto

lemma prunes_Fork_iff:
  "prunes H w (Fork l' r') \<longleftrightarrow>
     w = Pruned (digest H (Fork l' r')) \<or> (\<exists>l r. w = Fork l r \<and> prunes H l l' \<and> prunes H r r')"
  by (cases w) auto

subsection \<open>Sorted trees\<close>

text \<open>The labels at the fork level of a tree, and the well-formed full trees: labels strictly
  increasing from left to right, nothing but labelled subtrees under a fork. This is the sorted
  tree the lookup comments of the source ask for.\<close>

fun tree_labels :: "hash_tree \<Rightarrow> bytes list" where
  "tree_labels (Fork l r) = tree_labels l @ tree_labels r"
| "tree_labels (Labeled x _) = [x]"
| "tree_labels _ = []"

fun forkable :: "hash_tree \<Rightarrow> bool" where
  "forkable (Fork l r) = (forkable l \<and> forkable r)"
| "forkable (Labeled _ _) = True"
| "forkable _ = False"

fun sorted_tree :: "hash_tree \<Rightarrow> bool" where
  "sorted_tree (Fork l r) =
     (forkable l \<and> forkable r \<and> sorted_tree l \<and> sorted_tree r \<and>
      (\<forall>x \<in> set (tree_labels l). \<forall>y \<in> set (tree_labels r). x < y))"
| "sorted_tree (Labeled _ t) = sorted_tree t"
| "sorted_tree (Pruned _) = False"
| "sorted_tree _ = True"

lemma forkable_labels: "forkable t \<Longrightarrow> tree_labels t \<noteq> []"
  by (induction t) auto

lemma forkable_label_ex: "forkable t \<Longrightarrow> \<exists>x. x \<in> set (tree_labels t)"
  by (metis forkable_labels last_in_set)

text \<open>What each answer of the label lookup in a witness says of the full tree.\<close>

fun label_answer_ok :: "(bytes \<Rightarrow> hash) \<Rightarrow> lookup_label_result \<Rightarrow> hash_tree \<Rightarrow> bytes \<Rightarrow> bool" where
  "label_answer_ok H LLR_Unknown t x = True"
| "label_answer_ok H (LLR_Found n) t x = (\<exists>m. lookup_label t x = LLR_Found m \<and> prunes H n m)"
| "label_answer_ok H LLR_Less t x = (\<forall>y \<in> set (tree_labels t). x < y)"
| "label_answer_ok H LLR_Greater t x = (\<forall>y \<in> set (tree_labels t). y < x)"
| "label_answer_ok H LLR_Absent t x =
     (x \<notin> set (tree_labels t) \<and>
      (forkable t \<longrightarrow> (\<exists>y \<in> set (tree_labels t). y < x) \<and> (\<exists>y \<in> set (tree_labels t). x < y)))"

lemma lookup_label_all_less:
  "forkable t \<Longrightarrow> \<forall>y \<in> set (tree_labels t). y < x \<Longrightarrow> lookup_label t x = LLR_Greater"
  by (induction t) auto

lemma lookup_label_Found_mem: "lookup_label t x = LLR_Found m \<Longrightarrow> x \<in> set (tree_labels t)"
  by (induction t) (auto split: lookup_label_result.splits cmp_ordering.splits)

lemma lookup_label_not_Unknown: "sorted_tree t \<Longrightarrow> lookup_label t x \<noteq> LLR_Unknown"
  by (induction t) (auto split: lookup_label_result.splits cmp_ordering.splits)

lemma label_answer_ok_Fork:
  assumes full: "sorted_tree (Fork l r)"
    and l: "label_answer_ok H (lookup_label wl x) l x"
    and r: "label_answer_ok H (lookup_label wr x) r x"
  shows "label_answer_ok H (lookup_label (Fork wl wr) x) (Fork l r) x"
proof -
  from full have fl: "forkable l" and fr: "forkable r"
    and lt: "\<And>y z. y \<in> set (tree_labels l) \<Longrightarrow> z \<in> set (tree_labels r) \<Longrightarrow> y < z" by auto
  obtain a where a: "a \<in> set (tree_labels l)" using fl forkable_label_ex by blast
  obtain b where b: "b \<in> set (tree_labels r)" using fr forkable_label_ex by blast
  have right: "lookup_label (Fork l r) x = LLR_Found m" if "lookup_label r x = LLR_Found m" for m
  proof -
    from that have "x \<in> set (tree_labels r)" by (rule lookup_label_Found_mem)
    with lt have "\<forall>y \<in> set (tree_labels l). y < x" by blast
    with fl have "lookup_label l x = LLR_Greater" by (rule lookup_label_all_less)
    with that show ?thesis by simp
  qed
  show ?thesis
  proof (cases "lookup_label wl x")
    case LLR_Absent
    with l fl obtain y where y: "y \<in> set (tree_labels l)" "x < y" by auto
    then have "x \<notin> set (tree_labels r)" using lt less_asym by blast
    with LLR_Absent l fl show ?thesis by auto
  next
    case LLR_Less
    with l lt a b show ?thesis by (auto dest: less_trans)
  next
    case (LLR_Found n)
    with l show ?thesis by auto
  next
    case LLR_Unknown
    show ?thesis
    proof (cases "lookup_label wr x")
      case LLR_Absent
      with r fr obtain y where y: "y \<in> set (tree_labels r)" "y < x" by auto
      then have "x \<notin> set (tree_labels l)" using lt less_asym by blast
      with LLR_Unknown LLR_Absent r fr show ?thesis by auto
    next
      case LLR_Greater
      with r have gr: "\<forall>y \<in> set (tree_labels r). y < x" by simp
      then have "y < x" if "y \<in> set (tree_labels l)" for y
        using lt [OF that b] b less_trans by blast
      with gr LLR_Unknown LLR_Greater show ?thesis by auto
    next
      case (LLR_Found n)
      with LLR_Unknown r right show ?thesis by auto
    qed (use LLR_Unknown in auto)
  next
    case LLR_Greater
    with l have gl: "\<forall>y \<in> set (tree_labels l). y < x" by simp
    show ?thesis
    proof (cases "lookup_label wr x")
      case LLR_Less
      with LLR_Greater r gl a b show ?thesis by auto
    next
      case LLR_Absent
      with LLR_Greater r gl fr show ?thesis by auto
    next
      case (LLR_Found n)
      with LLR_Greater r right show ?thesis by auto
    qed (use LLR_Greater r gl in auto)
  qed
qed

lemma lookup_label_pruned:
  "prunes H w t \<Longrightarrow> sorted_tree t \<Longrightarrow> label_answer_ok H (lookup_label w x) t x"
proof (induction H w t rule: prunes.induct)
  case (4 H l r l' r')
  then show ?case by (intro label_answer_ok_Fork) auto
next
  case (6 H y s z s')
  then show ?case by (auto split: cmp_ordering.splits)
qed auto

subsection \<open>Lookups in a pruning\<close>

lemma sorted_tree_Found: "sorted_tree t \<Longrightarrow> lookup_label t x = LLR_Found m \<Longrightarrow> sorted_tree m"
  by (induction t) (auto split: lookup_label_result.splits cmp_ordering.splits)

lemma label_answer_absent:
  assumes "label_answer_ok H a t x" and "a = LLR_Absent \<or> a = LLR_Less \<or> a = LLR_Greater"
    and "sorted_tree t"
  shows "lookup_label t x \<in> {LLR_Absent, LLR_Less, LLR_Greater}"
proof -
  from assms(1,2) have "x \<notin> set (tree_labels t)" by auto
  then show ?thesis
    using lookup_label_Found_mem [of t x] lookup_label_not_Unknown [OF assms(3), of x]
    by (cases "lookup_label t x") auto
qed

lemma lookup_path_pruned:
  "prunes H w t \<Longrightarrow> sorted_tree t \<Longrightarrow>
     lookup_path w p = LR_Unknown \<or> lookup_path w p = lookup_path t p"
proof (induction p arbitrary: w t)
  case Nil
  then show ?case by (cases w; cases t) auto
next
  case (Cons x p)
  note ok = lookup_label_pruned [OF Cons.prems, of x]
  show ?case
  proof (cases "lookup_label w x")
    case (LLR_Found n)
    with ok obtain m where m: "lookup_label t x = LLR_Found m" "prunes H n m" by auto
    with Cons.prems(2) have "sorted_tree m" using sorted_tree_Found by blast
    with Cons.IH [OF m(2)] LLR_Found m show ?thesis by simp
  qed (use label_answer_absent [OF ok _ Cons.prems(2)] in auto)
qed

lemma lookup_subtree_pruned:
  "prunes H w t \<Longrightarrow> sorted_tree t \<Longrightarrow>
     lookup_subtree w p = SLR_Unknown \<or>
     (lookup_subtree w p = SLR_Absent \<and> lookup_subtree t p = SLR_Absent) \<or>
     (\<exists>n m. lookup_subtree w p = SLR_Found n \<and> lookup_subtree t p = SLR_Found m \<and> prunes H n m)"
proof (induction p arbitrary: w t)
  case Nil
  then show ?case by simp
next
  case (Cons x p)
  note ok = lookup_label_pruned [OF Cons.prems, of x]
  show ?case
  proof (cases "lookup_label w x")
    case (LLR_Found n)
    with ok obtain m where m: "lookup_label t x = LLR_Found m" "prunes H n m" by auto
    with Cons.prems(2) have "sorted_tree m" using sorted_tree_Found by blast
    with Cons.IH [OF m(2)] LLR_Found m show ?thesis by simp
  qed (use label_answer_absent [OF ok _ Cons.prems(2)] in auto)
qed

text \<open>Revealing more of a tree never loses an answer.\<close>

lemma lookup_label_mono:
  "prunes H a m \<Longrightarrow> prunes H m t \<Longrightarrow> sorted_tree t \<Longrightarrow>
     lookup_label m x = LLR_Unknown \<Longrightarrow> lookup_label a x = LLR_Unknown"
proof (induction H a m arbitrary: t rule: prunes.induct)
  case (4 H al ar ml mr)
  from "4.prems"(2,3) obtain l r where t: "t = Fork l r" by (cases t) auto
  with "4.prems" have pr: "prunes H al ml" "prunes H ar mr" "prunes H ml l" "prunes H mr r"
    and so: "sorted_tree l" "sorted_tree r" "forkable l" "forkable r" by auto
  note al = lookup_label_pruned [OF prunes_trans [OF pr(1,3)] so(1), of x]
  note ar = lookup_label_pruned [OF prunes_trans [OF pr(2,4)] so(2), of x]
  note ml = lookup_label_pruned [OF pr(3) so(1), of x]
  note mr = lookup_label_pruned [OF pr(4) so(2), of x]
  obtain b c where b: "b \<in> set (tree_labels l)" and c: "c \<in> set (tree_labels r)"
    using so forkable_label_ex by blast
  note IHl = "4.IH"(1) [OF pr(1,3) so(1)]
  note IHr = "4.IH"(2) [OF pr(2,4) so(2)]
  from "4.prems"(4) consider "lookup_label ml x = LLR_Greater" "lookup_label mr x = LLR_Unknown"
    | "lookup_label ml x = LLR_Unknown" "lookup_label mr x = LLR_Less"
    | "lookup_label ml x = LLR_Unknown" "lookup_label mr x = LLR_Unknown"
    by (auto split: lookup_label_result.splits)
  then show ?case
  proof cases
    case 1
    with ml have gl: "\<forall>y \<in> set (tree_labels l). y < x" by simp
    with al b have "lookup_label al x = LLR_Unknown \<or> lookup_label al x = LLR_Greater"
      using so(3) lookup_label_Found_mem [of l x]
      by (cases "lookup_label al x") (auto dest: less_asym)
    with IHr 1 show ?thesis by auto
  next
    case 2
    with mr have lr: "\<forall>y \<in> set (tree_labels r). x < y" by simp
    with ar c have "lookup_label ar x = LLR_Unknown \<or> lookup_label ar x = LLR_Less"
      using so(4) lookup_label_Found_mem [of r x]
      by (cases "lookup_label ar x") (auto dest: less_asym)
    with IHl 2 show ?thesis by auto
  next
    case 3
    with IHl IHr show ?thesis by auto
  qed
next
  case (6 H x s y s')
  then show ?case by (auto split: cmp_ordering.splits)
qed auto

lemma lookup_label_mono_Found:
  assumes am: "prunes H a m" and mt: "prunes H m t" and so: "sorted_tree t"
    and f: "lookup_label a x = LLR_Found n"
  shows "\<exists>n'. lookup_label m x = LLR_Found n' \<and> prunes H n n'"
  using am mt so f
proof (induction H a m arbitrary: t rule: prunes.induct)
  case (4 H al ar ml mr)
  from "4.prems"(2,3) obtain l r where t: "t = Fork l r" by (cases t) auto
  with "4.prems" have pr: "prunes H al ml" "prunes H ar mr" "prunes H ml l" "prunes H mr r"
    and so: "sorted_tree l" "sorted_tree r" "forkable l" "forkable r"
    and lt: "\<And>y z. y \<in> set (tree_labels l) \<Longrightarrow> z \<in> set (tree_labels r) \<Longrightarrow> y < z" by auto
  from "4.prems"(4) consider "lookup_label al x = LLR_Found n"
    | "lookup_label ar x = LLR_Found n" by (auto split: lookup_label_result.splits)
  then show ?case
  proof cases
    case 1
    with "4.IH"(1) [OF pr(1,3) so(1)] show ?thesis by auto
  next
    case 2
    with "4.IH"(2) [OF pr(2,4) so(2)] obtain n' where
      n': "lookup_label mr x = LLR_Found n'" "prunes H n n'" by auto
    have "x \<in> set (tree_labels r)"
      using lookup_label_pruned [OF prunes_trans [OF pr(2,4)] so(2), of x] 2
        lookup_label_Found_mem by auto
    with lt have "\<forall>y \<in> set (tree_labels l). y < x" by blast
    then have "lookup_label ml x = LLR_Unknown \<or> lookup_label ml x = LLR_Greater"
      using lookup_label_pruned [OF pr(3) so(1), of x] so(3) lookup_label_Found_mem [of l x]
        forkable_label_ex [OF so(3)]
      by (cases "lookup_label ml x") (auto dest: less_asym)
    with n' show ?thesis by auto
  qed
next
  case (6 H x s y s')
  then show ?case by (auto split: cmp_ordering.splits)
qed auto

text \<open>An answer in a pruning stays the answer once more of the tree is revealed.\<close>

lemma prunes_sorted_Found:
  assumes "prunes H m t" and "sorted_tree t" and "lookup_label m x = LLR_Found n"
  obtains k where "lookup_label t x = LLR_Found k" and "prunes H n k" and "sorted_tree k"
  using lookup_label_pruned [OF assms(1,2), of x] assms(3) sorted_tree_Found [OF assms(2)] by auto

lemma lookup_subtree_mono:
  assumes "prunes H a m" and "prunes H m t" and "sorted_tree t"
    and "lookup_subtree a p = SLR_Found n"
  shows "\<exists>n'. lookup_subtree m p = SLR_Found n' \<and> prunes H n n'"
  using assms
proof (induction p arbitrary: a m t)
  case Nil
  then show ?case by simp
next
  case (Cons x p)
  from Cons.prems(4) obtain b where b: "lookup_label a x = LLR_Found b" "lookup_subtree b p = SLR_Found n"
    by (auto split: lookup_label_result.splits)
  obtain b' where b': "lookup_label m x = LLR_Found b'" "prunes H b b'"
    using lookup_label_mono_Found [OF Cons.prems(1-3) b(1)] by blast
  obtain k where "prunes H b' k" "sorted_tree k"
    using prunes_sorted_Found [OF Cons.prems(2,3) b'(1)] by blast
  with Cons.IH [OF b'(2)] b b' show ?case by simp
qed

lemma lookup_subtree_mono_Absent:
  assumes "prunes H a m" and "prunes H m t" and "sorted_tree t"
    and "lookup_subtree a p = SLR_Absent"
  shows "lookup_subtree m p = SLR_Absent"
  using assms
proof (induction p arbitrary: a m t)
  case Nil
  then show ?case by simp
next
  case (Cons x p)
  show ?case
  proof (cases "lookup_label a x")
    case (LLR_Found b)
    obtain b' where b': "lookup_label m x = LLR_Found b'" "prunes H b b'"
      using lookup_label_mono_Found [OF Cons.prems(1-3) LLR_Found] by blast
    obtain k where "prunes H b' k" "sorted_tree k"
      using prunes_sorted_Found [OF Cons.prems(2,3) b'(1)] by blast
    with Cons.IH [OF b'(2)] LLR_Found b' Cons.prems(4) show ?thesis by simp
  next
    case LLR_Unknown
    with Cons.prems(4) show ?thesis by simp
  qed (use lookup_label_mono [OF Cons.prems(1-3), of x]
        label_answer_absent [OF lookup_label_pruned [OF prunes_trans [OF Cons.prems(1,2)] Cons.prems(3)]
          _ Cons.prems(3), of x]
        prunes_sorted_Found [OF Cons.prems(2,3), of x] in
      \<open>cases "lookup_label m x"; force\<close>)+
qed

subsection \<open>A digest determines the tree\<close>

text \<open>The byte strings hashed to compute a digest.\<close>

fun hash_inputs :: "(bytes \<Rightarrow> hash) \<Rightarrow> hash_tree \<Rightarrow> bytes list" where
  "hash_inputs H Empty = [domain_sep ''ic-hashtree-empty'']"
| "hash_inputs H (Fork l r) =
     (domain_sep ''ic-hashtree-fork'' @ digest H l @ digest H r) # hash_inputs H l @ hash_inputs H r"
| "hash_inputs H (Labeled x t) =
     (domain_sep ''ic-hashtree-labeled'' @ x @ digest H t) # hash_inputs H t"
| "hash_inputs H (Leaf v) = [domain_sep ''ic-hashtree-leaf'' @ v]"
| "hash_inputs H (Pruned d) = []"

fun unpruned :: "hash_tree \<Rightarrow> bool" where
  "unpruned (Fork l r) = (unpruned l \<and> unpruned r)"
| "unpruned (Labeled _ t) = unpruned t"
| "unpruned (Pruned _) = False"
| "unpruned _ = True"

lemma unpruned_well_sized: "unpruned t \<Longrightarrow> well_sized t"
  by (induction t) auto

lemma sorted_tree_unpruned: "sorted_tree t \<Longrightarrow> unpruned t"
  by (induction t) auto

lemma separators_distinct [simp]:
  "domain_sep ''ic-hashtree-empty'' \<noteq> domain_sep ''ic-hashtree-fork'' @ a"
  "domain_sep ''ic-hashtree-empty'' \<noteq> domain_sep ''ic-hashtree-labeled'' @ a"
  "domain_sep ''ic-hashtree-empty'' \<noteq> domain_sep ''ic-hashtree-leaf'' @ a"
  "domain_sep ''ic-hashtree-fork'' @ a \<noteq> domain_sep ''ic-hashtree-labeled'' @ b"
  "domain_sep ''ic-hashtree-fork'' @ a \<noteq> domain_sep ''ic-hashtree-leaf'' @ b"
  "domain_sep ''ic-hashtree-labeled'' @ a \<noteq> domain_sep ''ic-hashtree-leaf'' @ b"
  by (simp_all add: domain_sep_def str_bytes_def)

lemmas separators_distinct_sym [simp] = separators_distinct [symmetric]

lemma root_input:
  "unpruned t \<Longrightarrow> digest H t = H (hd (hash_inputs H t)) \<and> hd (hash_inputs H t) \<in> set (hash_inputs H t)"
  by (cases t) (auto simp: fork_hash_def labeled_hash_def leaf_hash_def)

lemma digest_binding:
  assumes "hash32 H" and "well_sized w" and "unpruned t"
    and "inj_on H (set (hash_inputs H w) \<union> set (hash_inputs H t))"
    and "digest H w = digest H t"
  shows "prunes H w t"
  using assms(2-)
proof (induction w arbitrary: t)
  case (Pruned d)
  then show ?case by simp
next
  case Empty
  with root_input [of t H] have "domain_sep ''ic-hashtree-empty'' = hd (hash_inputs H t)"
    by (auto dest: inj_onD)
  with Empty.prems(2) show ?case by (cases t) auto
next
  case (Leaf v)
  with root_input [of t H] have "domain_sep ''ic-hashtree-leaf'' @ v = hd (hash_inputs H t)"
    by (auto simp: leaf_hash_def dest: inj_onD)
  with Leaf.prems(2) show ?case by (cases t) auto
next
  case (Fork l r)
  with root_input [of t H]
  have eq: "domain_sep ''ic-hashtree-fork'' @ digest H l @ digest H r = hd (hash_inputs H t)"
    by (auto simp: fork_hash_def dest: inj_onD)
  with Fork.prems(2) obtain l' r' where t: "t = Fork l' r'" by (cases t) auto
  with Fork.prems assms(1) have "length (digest H l) = length (digest H l')"
    by (simp add: unpruned_well_sized)
  with eq t have "digest H l = digest H l'" "digest H r = digest H r'" by auto
  with Fork t show ?case by (auto intro!: Fork.IH intro: inj_on_subset)
next
  case (Labeled x s)
  with root_input [of t H]
  have eq: "domain_sep ''ic-hashtree-labeled'' @ x @ digest H s = hd (hash_inputs H t)"
    by (auto simp: labeled_hash_def dest: inj_onD)
  with Labeled.prems(2) obtain y s' where t: "t = Labeled y s'" by (cases t) auto
  with Labeled.prems assms(1) have "length (digest H s) = length (digest H s')"
    by (simp add: unpruned_well_sized)
  with eq t have "x = y" "digest H s = digest H s'" by auto
  with Labeled t show ?case by (auto intro!: Labeled.IH intro: inj_on_subset)
qed

subsection \<open>Merging\<close>

fun merge_hash_trees :: "hash_tree \<Rightarrow> hash_tree \<Rightarrow> hash_tree option" where
  "merge_hash_trees (Pruned l) (Pruned r) = (if l \<noteq> r then None else Some (Pruned l))"
| "merge_hash_trees (Pruned _) r = Some r"
| "merge_hash_trees l (Pruned _) = Some l"
| "merge_hash_trees (Fork l0 l1) (Fork r0 r1) =
     do { a \<leftarrow> merge_hash_trees l0 r0; b \<leftarrow> merge_hash_trees l1 r1; Some (Fork a b) }"
| "merge_hash_trees (Labeled l_label l) (Labeled r_label r) =
     (if l_label \<noteq> r_label then None
      else do { m \<leftarrow> merge_hash_trees l r; Some (Labeled l_label m) })"
| "merge_hash_trees Empty Empty = Some Empty"
| "merge_hash_trees Empty r = Some r"
| "merge_hash_trees l Empty = Some l"
| "merge_hash_trees (Leaf l) (Leaf r) = (if l \<noteq> r then None else Some (Leaf l))"
| "merge_hash_trees _ _ = None"

lemma merge_prunings:
  "prunes H a t \<Longrightarrow> prunes H b t \<Longrightarrow>
     \<exists>m. merge_hash_trees a b = Some m \<and> prunes H m t \<and> prunes H a m \<and> prunes H b m"
proof (induction t arbitrary: a b)
  case (Fork l r)
  note ab = Fork.prems
  show ?case
  proof (cases "\<exists>d. a = Pruned d \<or> b = Pruned d")
    case True
    with ab show ?thesis by (cases a; cases b) (auto simp: prunes_digest)
  next
    case False
    with ab obtain a0 a1 b0 b1 where "a = Fork a0 a1" "b = Fork b0 b1"
      "prunes H a0 l" "prunes H a1 r" "prunes H b0 l" "prunes H b1 r"
      by (auto simp: prunes_Fork_iff)
    with Fork.IH(1) [of a0 b0] Fork.IH(2) [of a1 b1] show ?thesis by auto
  qed
next
  case (Labeled x s)
  note ab = Labeled.prems
  show ?case
  proof (cases "\<exists>d. a = Pruned d \<or> b = Pruned d")
    case True
    with ab show ?thesis by (cases a; cases b) (auto simp: prunes_digest)
  next
    case False
    with ab obtain a0 b0 where "a = Labeled x a0" "b = Labeled x b0"
      "prunes H a0 s" "prunes H b0 s"
      by (auto simp: prunes_Labeled_iff)
    with Labeled.IH [of a0 b0] show ?thesis by auto
  qed
next
  case (Leaf v)
  then show ?case by (cases a; cases b) auto
next
  case (Pruned d)
  then show ?case by (cases a; cases b) auto
next
  case Empty
  then show ?case by (cases a; cases b) auto
qed

subsection \<open>Properties\<close>

text \<open>C5: A hash tree accepted only for its digest cannot lie: if it has the digest of a sorted full
  tree, and the hash function has no collision on the inputs the two trees hash, then every path
  lookup in it either gives the full tree's answer or says Unknown.\<close>

theorem hash_tree_lookup_sound:
  assumes "hash32 H" and "well_sized w" and "sorted_tree t"
    and "inj_on H (set (hash_inputs H w) \<union> set (hash_inputs H t))"
    and "digest H w = digest H t"
  shows "lookup_path w p = LR_Unknown \<or> lookup_path w p = lookup_path t p"
  by (rule lookup_path_pruned [OF digest_binding [OF assms(1,2) sorted_tree_unpruned [OF assms(3)]
      assms(4,5)] assms(3)])

theorem hash_tree_lookup_sound_witness:
  "lookup_path (Labeled [7] (Pruned (leaf_hash pad_hash [1]))) [[7]] = LR_Unknown \<or>
   lookup_path (Labeled [7] (Pruned (leaf_hash pad_hash [1]))) [[7]] =
     lookup_path (Labeled [7] (Leaf [1])) [[7]]"
proof -
  have ne: "pad_hash (domain_sep ''ic-hashtree-labeled'' @ x) \<noteq> pad_hash (domain_sep ''ic-hashtree-leaf'' @ y)"
    for x y by (simp add: pad_hash_def domain_sep_def str_bytes_def)
  show ?thesis
  proof (rule hash_tree_lookup_sound [of pad_hash])
    show "inj_on pad_hash (set (hash_inputs pad_hash (Labeled [7] (Pruned (leaf_hash pad_hash [1])))) \<union>
        set (hash_inputs pad_hash (Labeled [7] (Leaf [1]))))"
      using ne by (auto simp: inj_on_def dest: sym)
  qed (simp_all add: leaf_hash_def)
qed



text \<open>Label lookup stops at the first fork child that is neither a labelled node, a fork nor a
  pruned node: a label right of an empty subtree is reported as absent although the tree holds
  it, where the comment of the code asks to look into more forks.\<close>

theorem lookup_label_stops_at_empty:
  "lookup_label (Fork Empty (Labeled x t)) x = LLR_Absent \<and>
   lookup_label (Fork (Fork (Labeled y s) Empty) (Labeled x t)) x =
     (if y < x then LLR_Absent else if y = x then LLR_Found s else LLR_Less) \<and>
   x \<in> set (tree_labels (Fork Empty (Labeled x t))) \<and>
   x \<in> set (tree_labels (Fork (Fork (Labeled y s) Empty) (Labeled x t)))"
  by (cases x y rule: bytes_cmp_cases) auto

end
