(* ===== verification/Hash_Tree_Serde.thy ===== *)
theory Hash_Tree_Serde
  imports Hash_Tree
begin

text \<open>
  Serialisation of hash trees (\<^verbatim>\<open>mod serde_impl\<close> of
  \<^verbatim>\<open>packages/ic-certification/src/hash_tree/mod.rs\<close>) into the data model of the crate \<^verbatim>\<open>serde\<close>, as a
  format that is not human readable sees it, and the visitor that reads a tree back from a
  sequence.
\<close>

datatype serde =
    SU8 "8 word"
  | SBytes bytes
  | SStr bytes
  | SSeq "serde list"
  | SStruct "(bytes \<times> serde) list"

fun hash_tree_serialize :: "hash_tree \<Rightarrow> serde" where
  "hash_tree_serialize Empty = SSeq [SU8 0]"
| "hash_tree_serialize (Fork l r) = SSeq [SU8 1, hash_tree_serialize l, hash_tree_serialize r]"
| "hash_tree_serialize (Labeled label tree) = SSeq [SU8 2, SBytes label, hash_tree_serialize tree]"
| "hash_tree_serialize (Leaf leaf_bytes) = SSeq [SU8 3, SBytes leaf_bytes]"
| "hash_tree_serialize (Pruned d) = SSeq [SU8 4, SBytes d]"

datatype de_error =
    Invalid_Length nat
  | Invalid_Type
  | Unknown_Tag "8 word"
  | Unknown_Field bytes
  | Duplicate_Field bytes
  | Missing_Field bytes

fun de_u8 :: "serde \<Rightarrow> de_error + 8 word" where
  "de_u8 (SU8 n) = Inr n"
| "de_u8 _ = Inl Invalid_Type"

fun de_bytes :: "serde \<Rightarrow> de_error + bytes" where
  "de_bytes (SBytes b) = Inr b"
| "de_bytes _ = Inl Invalid_Type"

text \<open>\<open>seq.next_element()?.ok_or_else(invalid_length n)?\<close> is \<open>next_element\<close>; the sequence is the
  list of the elements still to be read.\<close>

definition next_element ::
  "(serde \<Rightarrow> de_error + 'a) \<Rightarrow> nat \<Rightarrow> serde list \<Rightarrow> de_error + ('a \<times> serde list)" where
  "next_element de n s =
     (case s of
        [] \<Rightarrow> Inl (Invalid_Length n)
      | x # rest \<Rightarrow> and_then (de x) (\<lambda>v. Inr (v, rest)))"

definition end_of_seq :: "nat \<Rightarrow> serde list \<Rightarrow> de_error + unit" where
  "end_of_seq n s = (if s = [] then Inr () else Inl (Invalid_Length n))"

lemma next_element_cong [fundef_cong]:
  "n = n' \<Longrightarrow> s = s' \<Longrightarrow> (\<And>x. x \<in> set s' \<Longrightarrow> de x = de' x) \<Longrightarrow>
     next_element de n s = next_element de' n' s'"
  by (auto simp: next_element_def split: list.splits)

lemma next_element_rest:
  "next_element de n s = Inr (v, rest) \<Longrightarrow> \<exists>x. s = x # rest \<and> de x = Inr v"
  by (auto simp: next_element_def and_then_eq_Inr split: list.splits)

lemma size_serde_mem: "x \<in> set b \<Longrightarrow> size (x :: serde) \<le> size_list size b"
  by (rule size_list_estimation') auto

function hash_tree_deserialize :: "serde \<Rightarrow> de_error + hash_tree" where
  "hash_tree_deserialize (SSeq s) =
     and_then (next_element de_u8 0 s) (\<lambda>(tag, s1).
       if tag = 0 then and_then (end_of_seq 2 s1) (\<lambda>_. Inr Empty)
       else if tag = 1 then
         and_then (next_element hash_tree_deserialize 1 s1) (\<lambda>(l, s2).
         and_then (next_element hash_tree_deserialize 2 s2) (\<lambda>(r, s3).
         and_then (end_of_seq 4 s3) (\<lambda>_. Inr (Fork l r))))
       else if tag = 2 then
         and_then (next_element de_bytes 1 s1) (\<lambda>(label, s2).
         and_then (next_element hash_tree_deserialize 2 s2) (\<lambda>(subtree, s3).
         and_then (end_of_seq 4 s3) (\<lambda>_. Inr (Labeled label subtree))))
       else if tag = 3 then
         and_then (next_element de_bytes 1 s1) (\<lambda>(b, s2).
         and_then (end_of_seq 3 s2) (\<lambda>_. Inr (Leaf b)))
       else if tag = 4 then
         and_then (next_element de_bytes 1 s1) (\<lambda>(d, s2).
         and_then (end_of_seq 3 s2) (\<lambda>_.
           if length d = 32 then Inr (Pruned d) else Inl (Invalid_Length (length d))))
       else Inl (Unknown_Tag tag))"
| "hash_tree_deserialize (SU8 n) = Inl Invalid_Type"
| "hash_tree_deserialize (SBytes b) = Inl Invalid_Type"
| "hash_tree_deserialize (SStr b) = Inl Invalid_Type"
| "hash_tree_deserialize (SStruct fs) = Inl Invalid_Type"
  by pat_completeness auto
termination
proof (relation "measure size")
qed (auto dest!: next_element_rest size_serde_mem simp: less_Suc_eq_le)

lemma next_element_Cons [simp]:
  "next_element de n (x # rest) = and_then (de x) (\<lambda>v. Inr (v, rest))"
  by (simp add: next_element_def)

lemma end_of_seq_Nil [simp]: "end_of_seq n [] = Inr ()"
  by (simp add: end_of_seq_def)

lemma deserialize_serialize: "well_sized t \<Longrightarrow> hash_tree_deserialize (hash_tree_serialize t) = Inr t"
  by (induction t) simp_all

end
