(* ===== verification/Rb_Tree.thy ===== *)
theory Rb_Tree
  imports Hash_Tree
begin

text \<open>
  The left-leaning red-black tree of \<^verbatim>\<open>packages/ic-certification/src/rb_tree/mod.rs\<close>: nodes that
  cache the hash of their subtree, rotations, insertion, deletion, traversal, key bounds and
  witnesses. A \<^verbatim>\<open>Box<Node>\<close> is a \<open>node\<close>, a \<^verbatim>\<open>NodeRef\<close> a \<open>node option\<close>. Keys are their byte
  strings (\<^verbatim>\<open>K: AsRef<[u8]>\<close>); the trait \<^verbatim>\<open>AsHashTree\<close> of the values is the pair of functions
  \<open>rh\<close> (\<^verbatim>\<open>root_hash\<close>) and \<open>aht\<close> (\<^verbatim>\<open>as_hash_tree\<close>). An operation that can panic (an
  \<^verbatim>\<open>unwrap\<close> of a missing child, a failed \<^verbatim>\<open>debug_assert!\<close>) returns an option, \<^term>\<open>None\<close>
  being the panic.
\<close>

subsection \<open>Data\<close>

datatype color = Red | Black

fun flip :: "color \<Rightarrow> color" where
  "flip Red = Black"
| "flip Black = Red"

datatype key_bound = Exact bytes | Neighbor bytes

fun bound_key :: "key_bound \<Rightarrow> bytes" where
  "bound_key (Exact key) = key"
| "bound_key (Neighbor key) = key"

datatype 'v node =
  Node (n_key: bytes) (n_value: 'v) (n_left: "'v node option") (n_right: "'v node option")
    (n_color: color) (n_hash: hash)

datatype 'v rb_tree = RbTree (root: "'v node option")

text \<open>The instances of \<^verbatim>\<open>AsHashTree\<close> for \<^verbatim>\<open>Vec<u8>\<close> and \<^verbatim>\<open>Hash\<close>.\<close>

definition vec_root_hash :: "(bytes \<Rightarrow> hash) \<Rightarrow> bytes \<Rightarrow> hash" where
  "vec_root_hash H v = leaf_hash H v"

definition vec_as_hash_tree :: "bytes \<Rightarrow> hash_tree" where
  "vec_as_hash_tree v = Leaf v"

subsection \<open>Nodes\<close>

definition new_node :: "(bytes \<Rightarrow> hash) \<Rightarrow> ('v \<Rightarrow> hash) \<Rightarrow> bytes \<Rightarrow> 'v \<Rightarrow> 'v node" where
  "new_node H rh k v = Node k v None None Red (labeled_hash H k (rh v))"

definition data_hash :: "(bytes \<Rightarrow> hash) \<Rightarrow> ('v \<Rightarrow> hash) \<Rightarrow> 'v node \<Rightarrow> hash" where
  "data_hash H rh n = labeled_hash H (n_key n) (rh (n_value n))"

definition left_hash_tree :: "'v node \<Rightarrow> hash_tree" where
  "left_hash_tree n = (case n_left n of None \<Rightarrow> Empty | Some l \<Rightarrow> Pruned (n_hash l))"

definition right_hash_tree :: "'v node \<Rightarrow> hash_tree" where
  "right_hash_tree n = (case n_right n of None \<Rightarrow> Empty | Some r \<Rightarrow> Pruned (n_hash r))"

definition data_tree :: "('v \<Rightarrow> hash_tree) \<Rightarrow> 'v node \<Rightarrow> hash_tree" where
  "data_tree aht n = Labeled (n_key n) (aht (n_value n))"

definition subtree_with :: "('v \<Rightarrow> hash_tree) \<Rightarrow> 'v node \<Rightarrow> hash_tree" where
  "subtree_with f n = Labeled (n_key n) (f (n_value n))"

definition witness_tree :: "('v \<Rightarrow> hash) \<Rightarrow> 'v node \<Rightarrow> hash_tree" where
  "witness_tree rh n = Labeled (n_key n) (Pruned (rh (n_value n)))"

fun three_way_fork :: "(bytes \<Rightarrow> hash) \<Rightarrow> hash_tree \<Rightarrow> hash_tree \<Rightarrow> hash_tree \<Rightarrow> hash_tree" where
  "three_way_fork H Empty m Empty = m"
| "three_way_fork H l m Empty = Fork l m"
| "three_way_fork H Empty m r = Fork m r"
| "three_way_fork H (Pruned lhash) (Pruned mhash) (Pruned rhash) =
     Pruned (fork_hash H lhash (fork_hash H mhash rhash))"
| "three_way_fork H l (Pruned mhash) (Pruned rhash) = Fork l (Pruned (fork_hash H mhash rhash))"
| "three_way_fork H l m r = Fork l (Fork m r)"

fun full_witness_tree ::
  "(bytes \<Rightarrow> hash) \<Rightarrow> ('v node \<Rightarrow> hash_tree) \<Rightarrow> 'v node option \<Rightarrow> hash_tree" where
  "full_witness_tree H f None = Empty"
| "full_witness_tree H f (Some (Node k v l r c h)) =
     three_way_fork H (full_witness_tree H f l) (f (Node k v l r c h)) (full_witness_tree H f r)"

fun visit :: "'v node option \<Rightarrow> (bytes \<Rightarrow> 'v \<Rightarrow> 's \<Rightarrow> 's) \<Rightarrow> 's \<Rightarrow> 's" where
  "visit None f s = s"
| "visit (Some (Node k v l r c h)) f s = visit r f (f k v (visit l f s))"

definition compute_subtree_hash :: "(bytes \<Rightarrow> hash) \<Rightarrow> ('v \<Rightarrow> hash) \<Rightarrow> 'v node \<Rightarrow> hash" where
  "compute_subtree_hash H rh n =
     (let h = data_hash H rh n in
      case (n_left n, n_right n) of
        (None, None) \<Rightarrow> h
      | (Some l, None) \<Rightarrow> fork_hash H (n_hash l) h
      | (None, Some r) \<Rightarrow> fork_hash H h (n_hash r)
      | (Some l, Some r) \<Rightarrow> fork_hash H (n_hash l) (fork_hash H h (n_hash r)))"

fun set_hash :: "hash \<Rightarrow> 'v node \<Rightarrow> 'v node" where
  "set_hash h (Node k v l r c _) = Node k v l r c h"

definition update_subtree_hash :: "(bytes \<Rightarrow> hash) \<Rightarrow> ('v \<Rightarrow> hash) \<Rightarrow> 'v node \<Rightarrow> 'v node" where
  "update_subtree_hash H rh n = set_hash (compute_subtree_hash H rh n) n"

fun set_color :: "color \<Rightarrow> 'v node \<Rightarrow> 'v node" where
  "set_color c (Node k v l r _ h) = Node k v l r c h"

fun set_left :: "'v node option \<Rightarrow> 'v node \<Rightarrow> 'v node" where
  "set_left l (Node k v _ r c h) = Node k v l r c h"

fun set_right :: "'v node option \<Rightarrow> 'v node \<Rightarrow> 'v node" where
  "set_right r (Node k v l _ c h) = Node k v l r c h"

fun set_entry :: "bytes \<Rightarrow> 'v \<Rightarrow> 'v node \<Rightarrow> 'v node" where
  "set_entry k v (Node _ _ l r c h) = Node k v l r c h"

subsection \<open>Rotations and balancing\<close>

fun is_red :: "'v node option \<Rightarrow> bool" where
  "is_red None = False"
| "is_red (Some h) = (n_color h = Red)"

definition rotate_right :: "(bytes \<Rightarrow> hash) \<Rightarrow> ('v \<Rightarrow> hash) \<Rightarrow> 'v node \<Rightarrow> 'v node option" where
  "rotate_right H rh h =
     (if \<not> is_red (n_left h) then None
      else do {
        x \<leftarrow> n_left h;
        let h1 = update_subtree_hash H rh (set_left (n_right x) h);
        Some (update_subtree_hash H rh
          (set_color (n_color h1) (set_right (Some (set_color Red h1)) x)))
      })"

definition rotate_left :: "(bytes \<Rightarrow> hash) \<Rightarrow> ('v \<Rightarrow> hash) \<Rightarrow> 'v node \<Rightarrow> 'v node option" where
  "rotate_left H rh h =
     (if \<not> is_red (n_right h) then None
      else do {
        x \<leftarrow> n_right h;
        let h1 = update_subtree_hash H rh (set_right (n_left x) h);
        Some (update_subtree_hash H rh
          (set_color (n_color h1) (set_left (Some (set_color Red h1)) x)))
      })"

definition flip_colors :: "'v node \<Rightarrow> 'v node option" where
  "flip_colors h =
     do {
       l \<leftarrow> n_left h;
       r \<leftarrow> n_right h;
       Some (set_color (flip (n_color h))
         (set_left (Some (set_color (flip (n_color l)) l))
           (set_right (Some (set_color (flip (n_color r)) r)) h)))
     }"

text \<open>\<^verbatim>\<open>is_red(&x.as_ref().unwrap().left)\<close>, with its unwrap.\<close>

definition left_is_red :: "'v node option \<Rightarrow> bool option" where
  "left_is_red x = do { n \<leftarrow> x; Some (is_red (n_left n)) }"

definition balance :: "(bytes \<Rightarrow> hash) \<Rightarrow> ('v \<Rightarrow> hash) \<Rightarrow> 'v node \<Rightarrow> 'v node option" where
  "balance H rh h =
     do {
       h \<leftarrow> (if is_red (n_right h) \<and> \<not> is_red (n_left h) then rotate_left H rh h else Some h);
       h \<leftarrow> (if is_red (n_left h)
             then do {
               ll \<leftarrow> left_is_red (n_left h);
               if ll then rotate_right H rh h else Some h }
             else Some h);
       if is_red (n_left h) \<and> is_red (n_right h) then flip_colors h else Some h
     }"

subsection \<open>Map operations\<close>

definition rb_new :: "'v rb_tree" where
  "rb_new = RbTree None"

definition rb_is_empty :: "'v rb_tree \<Rightarrow> bool" where
  "rb_is_empty t = (case root t of None \<Rightarrow> True | Some _ \<Rightarrow> False)"

fun get_from :: "'v node option \<Rightarrow> bytes \<Rightarrow> 'v option" where
  "get_from None key = None"
| "get_from (Some (Node k v l r c h)) key =
     (case bytes_cmp key k of
        Equal \<Rightarrow> Some v
      | Less \<Rightarrow> get_from l key
      | Greater \<Rightarrow> get_from r key)"

definition rb_get :: "'v rb_tree \<Rightarrow> bytes \<Rightarrow> 'v option" where
  "rb_get t key = get_from (root t) key"

text \<open>The closure of \<^verbatim>\<open>modify\<close> may panic, so it returns an option.\<close>

fun modify_go ::
  "(bytes \<Rightarrow> hash) \<Rightarrow> ('v \<Rightarrow> hash) \<Rightarrow> 'v node option \<Rightarrow> bytes \<Rightarrow> ('v \<Rightarrow> 'v option) \<Rightarrow>
     'v node option option" where
  "modify_go H rh None key f = Some None"
| "modify_go H rh (Some (Node k v l r c h)) key f =
     (case bytes_cmp key k of
        Equal \<Rightarrow> do {
          v' \<leftarrow> f v;
          Some (Some (update_subtree_hash H rh (Node k v' l r c h))) }
      | Less \<Rightarrow> do {
          l' \<leftarrow> modify_go H rh l key f;
          Some (Some (update_subtree_hash H rh (Node k v l' r c h))) }
      | Greater \<Rightarrow> do {
          r' \<leftarrow> modify_go H rh r key f;
          Some (Some (update_subtree_hash H rh (Node k v l r' c h))) })"

definition rb_modify ::
  "(bytes \<Rightarrow> hash) \<Rightarrow> ('v \<Rightarrow> hash) \<Rightarrow> 'v rb_tree \<Rightarrow> bytes \<Rightarrow> ('v \<Rightarrow> 'v option) \<Rightarrow>
     'v rb_tree option" where
  "rb_modify H rh t key f = do { n \<leftarrow> modify_go H rh (root t) key f; Some (RbTree n) }"

fun insert_go ::
  "(bytes \<Rightarrow> hash) \<Rightarrow> ('v \<Rightarrow> hash) \<Rightarrow> 'v node option \<Rightarrow> bytes \<Rightarrow> 'v \<Rightarrow> 'v node option" where
  "insert_go H rh None k v = Some (new_node H rh k v)"
| "insert_go H rh (Some (Node hk hv l r c hh)) k v =
     do {
       h \<leftarrow> (case bytes_cmp k hk of
               Equal \<Rightarrow> Some (Node hk v l r c hh)
             | Less \<Rightarrow> do { l' \<leftarrow> insert_go H rh l k v; Some (Node hk hv (Some l') r c hh) }
             | Greater \<Rightarrow> do { r' \<leftarrow> insert_go H rh r k v; Some (Node hk hv l (Some r') c hh) });
       balance H rh (update_subtree_hash H rh h)
     }"

definition rb_insert ::
  "(bytes \<Rightarrow> hash) \<Rightarrow> ('v \<Rightarrow> hash) \<Rightarrow> 'v rb_tree \<Rightarrow> bytes \<Rightarrow> 'v \<Rightarrow> 'v rb_tree option" where
  "rb_insert H rh t k v =
     do { n \<leftarrow> insert_go H rh (root t) k v; Some (RbTree (Some (set_color Black n))) }"

fun rb_from_list ::
  "(bytes \<Rightarrow> hash) \<Rightarrow> ('v \<Rightarrow> hash) \<Rightarrow> 'v rb_tree \<Rightarrow> (bytes \<times> 'v) list \<Rightarrow> 'v rb_tree option" where
  "rb_from_list H rh t [] = Some t"
| "rb_from_list H rh t ((k, v) # kvs) =
     do { t' \<leftarrow> rb_insert H rh t k v; rb_from_list H rh t' kvs }"

definition rb_from_iter ::
  "(bytes \<Rightarrow> hash) \<Rightarrow> ('v \<Rightarrow> hash) \<Rightarrow> (bytes \<times> 'v) list \<Rightarrow> 'v rb_tree option" where
  "rb_from_iter H rh kvs = rb_from_list H rh rb_new kvs"

end
