(* ===== verification/Rb_Delete.thy ===== *)
theory Rb_Delete
  imports Rb_Tree
begin

text \<open>
  Deletion from the left-leaning red-black tree (\<^verbatim>\<open>RbTree::delete\<close> and its local functions in
  \<^verbatim>\<open>packages/ic-certification/src/rb_tree/mod.rs\<close>) and the balance check of the tests. The
  recursion goes through rotated trees, so it terminates because rotations keep the number of
  nodes.
\<close>

subsection \<open>Sizes\<close>

fun node_count :: "'v node option \<Rightarrow> nat" where
  "node_count None = 0"
| "node_count (Some (Node k v l r c h)) = Suc (node_count l + node_count r)"

lemma node_ref_induct [case_names None Some]:
  assumes "P None" and "\<And>k v l r c h. P l \<Longrightarrow> P r \<Longrightarrow> P (Some (Node k v l r c h))"
  shows "P t"
  using assms
proof (induction t rule: node_count.induct)
  case 1
  then show ?case by simp
next
  case (2 k v l r c h)
  then show ?case by simp
qed

lemma node_ref_cases [case_names None Some]:
  assumes "t = None \<Longrightarrow> P" and "\<And>k v l r c h. t = Some (Node k v l r c h) \<Longrightarrow> P"
  shows P
  using assms by (cases t rule: node_count.cases) auto

lemma set_hash_sel [simp, tree_simps]:
  "n_key (set_hash x n) = n_key n" "n_value (set_hash x n) = n_value n"
  "n_left (set_hash x n) = n_left n" "n_right (set_hash x n) = n_right n"
  "n_color (set_hash x n) = n_color n" "n_hash (set_hash x n) = x"
  by (cases n; simp)+

lemma set_color_sel [simp, tree_simps]:
  "n_key (set_color x n) = n_key n" "n_value (set_color x n) = n_value n"
  "n_left (set_color x n) = n_left n" "n_right (set_color x n) = n_right n"
  "n_color (set_color x n) = x" "n_hash (set_color x n) = n_hash n"
  by (cases n; simp)+

lemma set_left_sel [simp, tree_simps]:
  "n_key (set_left x n) = n_key n" "n_value (set_left x n) = n_value n"
  "n_left (set_left x n) = x" "n_right (set_left x n) = n_right n"
  "n_color (set_left x n) = n_color n" "n_hash (set_left x n) = n_hash n"
  by (cases n; simp)+

lemma set_right_sel [simp, tree_simps]:
  "n_key (set_right x n) = n_key n" "n_value (set_right x n) = n_value n"
  "n_left (set_right x n) = n_left n" "n_right (set_right x n) = x"
  "n_color (set_right x n) = n_color n" "n_hash (set_right x n) = n_hash n"
  by (cases n; simp)+

lemma set_entry_sel [simp, tree_simps]:
  "n_key (set_entry k v n) = k" "n_value (set_entry k v n) = v"
  "n_left (set_entry k v n) = n_left n" "n_right (set_entry k v n) = n_right n"
  "n_color (set_entry k v n) = n_color n" "n_hash (set_entry k v n) = n_hash n"
  by (cases n; simp)+

lemma update_subtree_hash_sel [simp, tree_simps]:
  "n_key (update_subtree_hash H rh n) = n_key n"
  "n_value (update_subtree_hash H rh n) = n_value n"
  "n_left (update_subtree_hash H rh n) = n_left n"
  "n_right (update_subtree_hash H rh n) = n_right n"
  "n_color (update_subtree_hash H rh n) = n_color n"
  "n_hash (update_subtree_hash H rh n) = compute_subtree_hash H rh n"
  by (simp_all add: update_subtree_hash_def)

lemma node_count_Some: "node_count (Some n) = Suc (node_count (n_left n) + node_count (n_right n))"
  by (cases n) simp

lemma rotate_right_eq:
  "rotate_right H rh h = Some h' \<longleftrightarrow>
     (\<exists>x. n_left h = Some x \<and> n_color x = Red \<and>
       h' = update_subtree_hash H rh (set_color (n_color h)
         (set_right (Some (set_color Red (update_subtree_hash H rh (set_left (n_right x) h)))) x)))"
  by (cases "n_left h") (auto simp: rotate_right_def)

lemma rotate_left_eq:
  "rotate_left H rh h = Some h' \<longleftrightarrow>
     (\<exists>x. n_right h = Some x \<and> n_color x = Red \<and>
       h' = update_subtree_hash H rh (set_color (n_color h)
         (set_left (Some (set_color Red (update_subtree_hash H rh (set_right (n_left x) h)))) x)))"
  by (cases "n_right h") (auto simp: rotate_left_def)

lemma flip_colors_eq:
  "flip_colors h = Some h' \<longleftrightarrow>
     (\<exists>l r. n_left h = Some l \<and> n_right h = Some r \<and>
       h' = set_color (flip (n_color h))
         (set_left (Some (set_color (flip (n_color l)) l))
           (set_right (Some (set_color (flip (n_color r)) r)) h)))"
  by (cases "n_left h"; cases "n_right h") (auto simp: flip_colors_def)

lemma node_count_rotate_right: "rotate_right H rh h = Some h' \<Longrightarrow> node_count (Some h') = node_count (Some h)"
  by (auto simp: rotate_right_eq node_count_Some)

lemma node_count_rotate_left: "rotate_left H rh h = Some h' \<Longrightarrow> node_count (Some h') = node_count (Some h)"
  by (auto simp: rotate_left_eq node_count_Some)

lemma node_count_flip_colors: "flip_colors h = Some h' \<Longrightarrow> node_count (Some h') = node_count (Some h)"
  by (auto simp: flip_colors_eq node_count_Some)

subsection \<open>Deletion\<close>

definition move_red_left :: "(bytes \<Rightarrow> hash) \<Rightarrow> ('v \<Rightarrow> hash) \<Rightarrow> 'v node \<Rightarrow> 'v node option" where
  "move_red_left H rh h =
     do {
       h \<leftarrow> flip_colors h;
       rl \<leftarrow> left_is_red (n_right h);
       if rl then do {
         r \<leftarrow> n_right h;
         r' \<leftarrow> rotate_right H rh r;
         h \<leftarrow> rotate_left H rh (set_right (Some r') h);
         flip_colors h }
       else Some h
     }"

definition move_red_right :: "(bytes \<Rightarrow> hash) \<Rightarrow> ('v \<Rightarrow> hash) \<Rightarrow> 'v node \<Rightarrow> 'v node option" where
  "move_red_right H rh h =
     do {
       h \<leftarrow> flip_colors h;
       ll \<leftarrow> left_is_red (n_left h);
       if ll then do {
         h \<leftarrow> rotate_right H rh h;
         flip_colors h }
       else Some h
     }"

text \<open>The guards \<^verbatim>\<open>!is_red(&h.left) && !is_red(&h.left.as_ref().unwrap().left)\<close> and its mirror
  image, with the move they trigger.\<close>

definition ensure_red_left :: "(bytes \<Rightarrow> hash) \<Rightarrow> ('v \<Rightarrow> hash) \<Rightarrow> 'v node \<Rightarrow> 'v node option" where
  "ensure_red_left H rh h =
     do {
       ll \<leftarrow> (if is_red (n_left h) then Some True else left_is_red (n_left h));
       if \<not> ll then move_red_left H rh h else Some h
     }"

definition ensure_red_right :: "(bytes \<Rightarrow> hash) \<Rightarrow> ('v \<Rightarrow> hash) \<Rightarrow> 'v node \<Rightarrow> 'v node option" where
  "ensure_red_right H rh h =
     do {
       rl \<leftarrow> (if is_red (n_right h) then Some True else left_is_red (n_right h));
       if \<not> rl then move_red_right H rh h else Some h
     }"

lemma node_count_move_red_left: "move_red_left H rh h = Some h' \<Longrightarrow> node_count (Some h') = node_count (Some h)"
  by (auto simp: move_red_left_def node_count_Some bind_eq_Some_conv split: if_splits
      dest!: node_count_rotate_left node_count_rotate_right node_count_flip_colors)

lemma node_count_move_red_right: "move_red_right H rh h = Some h' \<Longrightarrow> node_count (Some h') = node_count (Some h)"
  by (auto simp: move_red_right_def node_count_Some bind_eq_Some_conv split: if_splits
      dest!: node_count_rotate_right node_count_flip_colors)

lemma node_count_ensure_red_left:
  "ensure_red_left H rh h = Some h' \<Longrightarrow> node_count (Some h') = node_count (Some h)"
  by (auto simp: ensure_red_left_def bind_eq_Some_conv split: if_splits
      dest: node_count_move_red_left)

lemma node_count_ensure_red_right:
  "ensure_red_right H rh h = Some h' \<Longrightarrow> node_count (Some h') = node_count (Some h)"
  by (auto simp: ensure_red_right_def bind_eq_Some_conv split: if_splits
      dest: node_count_move_red_right)

text \<open>The leftmost node, and writing the swapped entry into it.\<close>

fun min_entry :: "'v node \<Rightarrow> bytes \<times> 'v" where
  "min_entry (Node k v None r c h) = (k, v)"
| "min_entry (Node k v (Some l) r c h) = min_entry l"

fun set_min_entry :: "bytes \<Rightarrow> 'v \<Rightarrow> 'v node \<Rightarrow> 'v node" where
  "set_min_entry k' v' (Node k v None r c h) = Node k' v' None r c h"
| "set_min_entry k' v' (Node k v (Some l) r c h) = Node k v (Some (set_min_entry k' v' l)) r c h"

function delete_min :: "(bytes \<Rightarrow> hash) \<Rightarrow> ('v \<Rightarrow> hash) \<Rightarrow> 'v node \<Rightarrow> 'v node option option" where
  "delete_min H rh h =
     (if Option.is_none (n_left h)
      then (if Option.is_none (n_right h) then Some None else None)
      else do {
        h \<leftarrow> ensure_red_left H rh h;
        l \<leftarrow> n_left h;
        l' \<leftarrow> delete_min H rh l;
        h \<leftarrow> balance H rh (update_subtree_hash H rh (set_left l' h));
        Some (Some h)
      })"
  by pat_completeness auto
termination
proof (relation "measure (\<lambda>(H, rh, h). node_count (Some h))", goal_cases)
  case 1
  show ?case by simp
next
  case (2 H rh h h' l)
  then have "node_count (Some h') = node_count (Some h)"
    by (auto dest: node_count_ensure_red_left)
  with 2 show ?case by (simp add: node_count_Some)
qed

function delete_go ::
  "(bytes \<Rightarrow> hash) \<Rightarrow> ('v \<Rightarrow> hash) \<Rightarrow> 'v node \<Rightarrow> bytes \<Rightarrow> 'v node option option" where
  "delete_go H rh h key =
     (if key < n_key h
      then do {
        h \<leftarrow> ensure_red_left H rh h;
        l \<leftarrow> n_left h;
        l' \<leftarrow> delete_go H rh l key;
        h \<leftarrow> balance H rh (update_subtree_hash H rh (set_left l' h));
        Some (Some h)
      }
      else do {
        h \<leftarrow> (if is_red (n_left h) then rotate_right H rh h else Some h);
        if key = n_key h \<and> Option.is_none (n_right h)
        then (if Option.is_none (n_left h) then Some None else None)
        else do {
          h \<leftarrow> ensure_red_right H rh h;
          r \<leftarrow> n_right h;
          h \<leftarrow> (if key = n_key h
                then do {
                  r' \<leftarrow> delete_min H rh (set_min_entry (n_key h) (n_value h) r);
                  Some (set_right r' (set_entry (fst (min_entry r)) (snd (min_entry r)) h)) }
                else do {
                  r' \<leftarrow> delete_go H rh r key;
                  Some (set_right r' h) });
          h \<leftarrow> balance H rh (update_subtree_hash H rh h);
          Some (Some h)
        }
      })"
  by pat_completeness auto
termination
proof (relation "measure (\<lambda>(H, rh, h, key). node_count (Some h))", goal_cases)
  case 1
  show ?case by simp
next
  case (2 H rh h key h' l)
  then have "node_count (Some h') = node_count (Some h)"
    by (auto dest: node_count_ensure_red_left)
  with 2 show ?case by (simp add: node_count_Some)
next
  case (3 H rh h key h' h'' r)
  then have "node_count (Some h'') = node_count (Some h')" "node_count (Some h') = node_count (Some h)"
    by (auto dest: node_count_ensure_red_right node_count_rotate_right split: if_splits)
  with 3 show ?case by (simp add: node_count_Some)
qed

declare delete_min.simps [simp del] delete_go.simps [simp del]

definition rb_delete ::
  "(bytes \<Rightarrow> hash) \<Rightarrow> ('v \<Rightarrow> hash) \<Rightarrow> 'v rb_tree \<Rightarrow> bytes \<Rightarrow> 'v rb_tree option" where
  "rb_delete H rh t key =
     (if Option.is_none (rb_get t key) then Some t
      else do {
        n \<leftarrow> root t;
        let n' = (if \<not> is_red (n_left n) \<and> \<not> is_red (n_right n) then set_color Red n else n);
        m \<leftarrow> delete_go H rh n' key;
        let t' = RbTree (map_option (set_color Black) m);
        if Option.is_none (rb_get t' key) then Some t' else None
      })"

subsection \<open>The balance check of the tests\<close>

fun is_balanced_go :: "'v node option \<Rightarrow> nat \<Rightarrow> bool option" where
  "is_balanced_go None num_black = Some (num_black = 0)"
| "is_balanced_go (Some (Node k v l r c h)) num_black =
     (if c \<noteq> Red
      then (if 0 < num_black
            then do {
              a \<leftarrow> is_balanced_go l (num_black - 1);
              if a then is_balanced_go r (num_black - 1) else Some False }
            else None)
      else (if is_red l \<or> is_red r then None
            else do {
              a \<leftarrow> is_balanced_go l num_black;
              if a then is_balanced_go r num_black else Some False }))"

fun left_black_count :: "'v node option \<Rightarrow> nat" where
  "left_black_count None = 0"
| "left_black_count (Some (Node k v l r c h)) =
     (if c \<noteq> Red then Suc (left_black_count l) else left_black_count l)"

definition is_balanced :: "'v node option \<Rightarrow> bool option" where
  "is_balanced t = is_balanced_go t (left_black_count t)"

end
