(* ===== verification/Rb_Witness.thy ===== *)
theory Rb_Witness
  imports Rb_Tree
begin

text \<open>
  Key bounds, witnesses and iteration of the red-black tree
  (\<^verbatim>\<open>packages/ic-certification/src/rb_tree/mod.rs\<close>). A witness reveals the entries it proves and
  prunes everything else; absence of a key is proved by revealing the keys of its neighbours.
\<close>

subsection \<open>Key bounds\<close>

fun or_else :: "'a option \<Rightarrow> 'a option \<Rightarrow> 'a option" where
  "or_else None y = y"
| "or_else (Some x) y = Some x"

fun lower_bound_go :: "'v node option \<Rightarrow> bytes \<Rightarrow> key_bound option" where
  "lower_bound_go None key = None"
| "lower_bound_go (Some (Node k v l r c h)) key =
     (case bytes_cmp k key of
        Less \<Rightarrow> or_else (lower_bound_go r key) (Some (Neighbor k))
      | Equal \<Rightarrow> Some (Exact k)
      | Greater \<Rightarrow> lower_bound_go l key)"

fun upper_bound_go :: "'v node option \<Rightarrow> bytes \<Rightarrow> key_bound option" where
  "upper_bound_go None key = None"
| "upper_bound_go (Some (Node k v l r c h)) key =
     (case bytes_cmp k key of
        Less \<Rightarrow> upper_bound_go r key
      | Equal \<Rightarrow> Some (Exact k)
      | Greater \<Rightarrow> or_else (upper_bound_go l key) (Some (Neighbor k)))"

definition is_prefix_of :: "bytes \<Rightarrow> bytes \<Rightarrow> bool" where
  "is_prefix_of p x = (if length x < length p then False else take (length p) x = p)"

fun right_prefix_neighbor_go :: "'v node option \<Rightarrow> bytes \<Rightarrow> key_bound option" where
  "right_prefix_neighbor_go None pre = None"
| "right_prefix_neighbor_go (Some (Node k v l r c h)) pre =
     (case bytes_cmp k pre of
        Greater \<Rightarrow>
          (if is_prefix_of pre k then right_prefix_neighbor_go r pre
           else or_else (right_prefix_neighbor_go l pre) (Some (Neighbor k)))
      | Less \<Rightarrow> right_prefix_neighbor_go r pre
      | Equal \<Rightarrow> right_prefix_neighbor_go r pre)"

definition lower_bound :: "'v rb_tree \<Rightarrow> bytes \<Rightarrow> key_bound option" where
  "lower_bound t key = lower_bound_go (root t) key"

definition upper_bound :: "'v rb_tree \<Rightarrow> bytes \<Rightarrow> key_bound option" where
  "upper_bound t key = upper_bound_go (root t) key"

definition right_prefix_neighbor :: "'v rb_tree \<Rightarrow> bytes \<Rightarrow> key_bound option" where
  "right_prefix_neighbor t pre = right_prefix_neighbor_go (root t) pre"

subsection \<open>Range witnesses\<close>

fun witness_range_above_go ::
  "(bytes \<Rightarrow> hash) \<Rightarrow> ('v \<Rightarrow> hash) \<Rightarrow> 'v node option \<Rightarrow> key_bound \<Rightarrow> ('v node \<Rightarrow> hash_tree) \<Rightarrow>
     hash_tree" where
  "witness_range_above_go H rh None lo f = Empty"
| "witness_range_above_go H rh (Some (Node k v l r c h)) lo f =
     (let n = Node k v l r c h in
      case bytes_cmp k (bound_key lo) of
        Equal \<Rightarrow> three_way_fork H (left_hash_tree n)
          (case lo of Exact _ \<Rightarrow> f n | Neighbor _ \<Rightarrow> witness_tree rh n)
          (full_witness_tree H f r)
      | Less \<Rightarrow> three_way_fork H (left_hash_tree n) (Pruned (data_hash H rh n))
          (witness_range_above_go H rh r lo f)
      | Greater \<Rightarrow> three_way_fork H (witness_range_above_go H rh l lo f) (f n)
          (full_witness_tree H f r))"

fun witness_range_below_go ::
  "(bytes \<Rightarrow> hash) \<Rightarrow> ('v \<Rightarrow> hash) \<Rightarrow> 'v node option \<Rightarrow> key_bound \<Rightarrow> ('v node \<Rightarrow> hash_tree) \<Rightarrow>
     hash_tree" where
  "witness_range_below_go H rh None hi f = Empty"
| "witness_range_below_go H rh (Some (Node k v l r c h)) hi f =
     (let n = Node k v l r c h in
      case bytes_cmp k (bound_key hi) of
        Equal \<Rightarrow> three_way_fork H (full_witness_tree H f l)
          (case hi of Exact _ \<Rightarrow> f n | Neighbor _ \<Rightarrow> witness_tree rh n)
          (right_hash_tree n)
      | Greater \<Rightarrow> three_way_fork H (witness_range_below_go H rh l hi f)
          (Pruned (data_hash H rh n)) (right_hash_tree n)
      | Less \<Rightarrow> three_way_fork H (full_witness_tree H f l) (f n)
          (witness_range_below_go H rh r hi f))"

fun witness_range_between_go ::
  "(bytes \<Rightarrow> hash) \<Rightarrow> ('v \<Rightarrow> hash) \<Rightarrow> 'v node option \<Rightarrow> key_bound \<Rightarrow> key_bound \<Rightarrow>
     ('v node \<Rightarrow> hash_tree) \<Rightarrow> hash_tree" where
  "witness_range_between_go H rh None lo hi f = Empty"
| "witness_range_between_go H rh (Some (Node k v l r c h)) lo hi f =
     (let n = Node k v l r c h in
      case (bytes_cmp (bound_key lo) k, bytes_cmp k (bound_key hi)) of
        (Less, Less) \<Rightarrow> three_way_fork H (witness_range_between_go H rh l lo hi f) (f n)
          (witness_range_between_go H rh r lo hi f)
      | (Equal, Equal) \<Rightarrow> three_way_fork H (left_hash_tree n)
          (case (lo, hi) of
             (Exact _, _) \<Rightarrow> f n
           | (_, Exact _) \<Rightarrow> f n
           | _ \<Rightarrow> witness_tree rh n)
          (right_hash_tree n)
      | (_, Equal) \<Rightarrow> three_way_fork H (witness_range_between_go H rh l lo hi f)
          (case hi of Exact _ \<Rightarrow> f n | Neighbor _ \<Rightarrow> witness_tree rh n)
          (right_hash_tree n)
      | (Equal, _) \<Rightarrow> three_way_fork H (left_hash_tree n)
          (case lo of Exact _ \<Rightarrow> f n | Neighbor _ \<Rightarrow> witness_tree rh n)
          (witness_range_between_go H rh r lo hi f)
      | (Less, Greater) \<Rightarrow> three_way_fork H (witness_range_between_go H rh l lo hi f)
          (Pruned (data_hash H rh n)) (right_hash_tree n)
      | (Greater, Less) \<Rightarrow> three_way_fork H (left_hash_tree n) (Pruned (data_hash H rh n))
          (witness_range_between_go H rh r lo hi f)
      | _ \<Rightarrow> Pruned h)"

definition witness_range_between ::
  "(bytes \<Rightarrow> hash) \<Rightarrow> ('v \<Rightarrow> hash) \<Rightarrow> 'v rb_tree \<Rightarrow> key_bound \<Rightarrow> key_bound \<Rightarrow>
     ('v node \<Rightarrow> hash_tree) \<Rightarrow> hash_tree option" where
  "witness_range_between H rh t lo hi f =
     (if bound_key lo \<le> bound_key hi
      then Some (witness_range_between_go H rh (root t) lo hi f) else None)"

definition range_witness ::
  "(bytes \<Rightarrow> hash) \<Rightarrow> ('v \<Rightarrow> hash) \<Rightarrow> 'v rb_tree \<Rightarrow> key_bound option \<Rightarrow> key_bound option \<Rightarrow>
     ('v node \<Rightarrow> hash_tree) \<Rightarrow> hash_tree option" where
  "range_witness H rh t left right f =
     (case (left, right) of
        (None, None) \<Rightarrow> Some (full_witness_tree H f (root t))
      | (Some l, None) \<Rightarrow> Some (witness_range_above_go H rh (root t) l f)
      | (None, Some r) \<Rightarrow> Some (witness_range_below_go H rh (root t) r f)
      | (Some l, Some r) \<Rightarrow> witness_range_between H rh t l r f)"

subsection \<open>Witnesses\<close>

text \<open>The closure that builds the witness of the value found may panic, so it returns an option;
  the inner option is Rust's, \<^term>\<open>None\<close> when the key is not in the tree.\<close>

fun lookup_and_build_witness_go ::
  "(bytes \<Rightarrow> hash) \<Rightarrow> ('v \<Rightarrow> hash) \<Rightarrow> 'v node option \<Rightarrow> bytes \<Rightarrow> ('v \<Rightarrow> hash_tree option) \<Rightarrow>
     hash_tree option option" where
  "lookup_and_build_witness_go H rh None key f = Some None"
| "lookup_and_build_witness_go H rh (Some (Node k v l r c h)) key f =
     (let n = Node k v l r c h in
      case bytes_cmp key k of
        Equal \<Rightarrow> do {
          x \<leftarrow> f v;
          Some (Some (three_way_fork H (left_hash_tree n) (subtree_with (\<lambda>_. x) n)
            (right_hash_tree n))) }
      | Less \<Rightarrow> do {
          found \<leftarrow> lookup_and_build_witness_go H rh l key f;
          Some (map_option (\<lambda>subtree.
            three_way_fork H subtree (Pruned (data_hash H rh n)) (right_hash_tree n)) found) }
      | Greater \<Rightarrow> do {
          found \<leftarrow> lookup_and_build_witness_go H rh r key f;
          Some (map_option (\<lambda>subtree.
            three_way_fork H (left_hash_tree n) (Pruned (data_hash H rh n)) subtree) found) })"

definition rb_nested_witness ::
  "(bytes \<Rightarrow> hash) \<Rightarrow> ('v \<Rightarrow> hash) \<Rightarrow> 'v rb_tree \<Rightarrow> bytes \<Rightarrow> ('v \<Rightarrow> hash_tree option) \<Rightarrow>
     hash_tree option" where
  "rb_nested_witness H rh t key f =
     do {
       found \<leftarrow> lookup_and_build_witness_go H rh (root t) key f;
       case found of
         Some w \<Rightarrow> Some w
       | None \<Rightarrow> range_witness H rh t (lower_bound t key) (upper_bound t key) (witness_tree rh)
     }"

definition rb_witness ::
  "(bytes \<Rightarrow> hash) \<Rightarrow> ('v \<Rightarrow> hash) \<Rightarrow> ('v \<Rightarrow> hash_tree) \<Rightarrow> 'v rb_tree \<Rightarrow> bytes \<Rightarrow>
     hash_tree option" where
  "rb_witness H rh aht t key = rb_nested_witness H rh t key (\<lambda>v. Some (aht v))"

definition rb_keys ::
  "(bytes \<Rightarrow> hash) \<Rightarrow> ('v \<Rightarrow> hash) \<Rightarrow> 'v rb_tree \<Rightarrow> hash_tree" where
  "rb_keys H rh t = full_witness_tree H (witness_tree rh) (root t)"

definition rb_key_range ::
  "(bytes \<Rightarrow> hash) \<Rightarrow> ('v \<Rightarrow> hash) \<Rightarrow> 'v rb_tree \<Rightarrow> bytes \<Rightarrow> bytes \<Rightarrow> hash_tree option" where
  "rb_key_range H rh t first_key last_key =
     range_witness H rh t (lower_bound t first_key) (upper_bound t last_key) (witness_tree rh)"

definition rb_value_range ::
  "(bytes \<Rightarrow> hash) \<Rightarrow> ('v \<Rightarrow> hash) \<Rightarrow> ('v \<Rightarrow> hash_tree) \<Rightarrow> 'v rb_tree \<Rightarrow> bytes \<Rightarrow> bytes \<Rightarrow>
     hash_tree option" where
  "rb_value_range H rh aht t first_key last_key =
     range_witness H rh t (lower_bound t first_key) (upper_bound t last_key) (data_tree aht)"

definition rb_keys_with_prefix ::
  "(bytes \<Rightarrow> hash) \<Rightarrow> ('v \<Rightarrow> hash) \<Rightarrow> 'v rb_tree \<Rightarrow> bytes \<Rightarrow> hash_tree option" where
  "rb_keys_with_prefix H rh t pre =
     range_witness H rh t (lower_bound t pre) (right_prefix_neighbor t pre) (witness_tree rh)"

text \<open>\<^verbatim>\<open>AsHashTree for RbTree<K, V>\<close>.\<close>

definition rb_root_hash :: "(bytes \<Rightarrow> hash) \<Rightarrow> 'v rb_tree \<Rightarrow> hash" where
  "rb_root_hash H t = (case root t of None \<Rightarrow> digest H Empty | Some n \<Rightarrow> n_hash n)"

definition rb_as_hash_tree :: "(bytes \<Rightarrow> hash) \<Rightarrow> ('v \<Rightarrow> hash_tree) \<Rightarrow> 'v rb_tree \<Rightarrow> hash_tree" where
  "rb_as_hash_tree H aht t = full_witness_tree H (data_tree aht) (root t)"

subsection \<open>Iteration\<close>

datatype visit_kind = Pre | In | Post

text \<open>A pointer to a node is the path that leads to it from the root, \<^term>\<open>True\<close> being a left
  link: the comparison of the pointers of \<^verbatim>\<open>tip\<close> and of its parent's left child is a comparison
  of paths.\<close>

type_synonym 'v node_ptr = "bool list \<times> 'v node"

record 'v iter =
  it_visit :: visit_kind
  it_parents :: "'v node_ptr list"

definition left_ptr :: "'v node_ptr \<Rightarrow> 'v node_ptr option" where
  "left_ptr p = map_option (\<lambda>n. (fst p @ [True], n)) (n_left (snd p))"

definition right_ptr :: "'v node_ptr \<Rightarrow> 'v node_ptr option" where
  "right_ptr p = map_option (\<lambda>n. (fst p @ [False], n)) (n_right (snd p))"

definition iter_step :: "'v iter \<Rightarrow> bool \<times> 'v iter" where
  "iter_step it =
     (case slice_last (it_parents it) of
        None \<Rightarrow> (False, it)
      | Some tip \<Rightarrow>
          (True,
           case it_visit it of
             Pre \<Rightarrow>
               (case left_ptr tip of
                  Some l \<Rightarrow> it\<lparr>it_parents := it_parents it @ [l]\<rparr>
                | None \<Rightarrow> it\<lparr>it_visit := In\<rparr>)
           | In \<Rightarrow>
               (case right_ptr tip of
                  Some r \<Rightarrow> it\<lparr>it_parents := it_parents it @ [r], it_visit := Pre\<rparr>
                | None \<Rightarrow> it\<lparr>it_visit := Post\<rparr>)
           | Post \<Rightarrow>
               (let it' = it\<lparr>it_parents := butlast (it_parents it)\<rparr> in
                case slice_last (it_parents it') of
                  None \<Rightarrow> it'
                | Some parent \<Rightarrow>
                    (if map_option fst (left_ptr parent) = Some (fst tip)
                     then it'\<lparr>it_visit := In\<rparr> else it'))))"

text \<open>\<^verbatim>\<open>next\<close> loops over \<^verbatim>\<open>step\<close>; fuel bounds the loop, and running out of it is \<^term>\<open>None\<close>.\<close>

fun iter_next :: "nat \<Rightarrow> 'v iter \<Rightarrow> ((bytes \<times> 'v) option \<times> 'v iter) option" where
  "iter_next 0 it = None"
| "iter_next (Suc fuel) it =
     (let (more, it') = iter_step it in
      if \<not> more then Some (None, it')
      else if it_visit it' = In
      then Some (map_option (\<lambda>p. (n_key (snd p), n_value (snd p))) (slice_last (it_parents it')), it')
      else iter_next fuel it')"

definition rb_iter :: "'v rb_tree \<Rightarrow> 'v iter" where
  "rb_iter t =
     (case root t of
        None \<Rightarrow> \<lparr>it_visit = Pre, it_parents = []\<rparr>
      | Some n \<Rightarrow> \<lparr>it_visit = Pre, it_parents = [([], n)]\<rparr>)"

definition rb_for_each :: "'v rb_tree \<Rightarrow> (bytes \<Rightarrow> 'v \<Rightarrow> 's \<Rightarrow> 's) \<Rightarrow> 's \<Rightarrow> 's" where
  "rb_for_each t f s = visit (root t) f s"

end
