(* ===== verification/Rb_Map.thy ===== *)
theory Rb_Map
  imports Rb_Delete
begin

text \<open>
  The red-black tree as a map with a cached root hash: the entries of a tree in key order, the
  left-leaning invariants, and the proof that insertion and deletion keep them, act on the
  entries as the map update and removal, keep every cached hash exact, and never panic.
\<close>

subsection \<open>Entries\<close>

fun entries :: "'v node option \<Rightarrow> (bytes \<times> 'v) list" where
  "entries None = []"
| "entries (Some (Node k v l r c h)) = entries l @ (k, v) # entries r"

lemma entries_Some [simp]:
  "entries (Some n) = entries (n_left n) @ (n_key n, n_value n) # entries (n_right n)"
  by (cases n) simp

declare entries.simps(2) [simp del]

lemma entries_rotate_right: "rotate_right H rh h = Some h' \<Longrightarrow> entries (Some h') = entries (Some h)"
  by (auto simp: rotate_right_eq)

lemma entries_rotate_left: "rotate_left H rh h = Some h' \<Longrightarrow> entries (Some h') = entries (Some h)"
  by (auto simp: rotate_left_eq)

lemma entries_flip_colors: "flip_colors h = Some h' \<Longrightarrow> entries (Some h') = entries (Some h)"
  by (auto simp: flip_colors_eq)

lemmas entries_rotations = entries_rotate_right entries_rotate_left entries_flip_colors

lemma entries_balance: "balance H rh h = Some h' \<Longrightarrow> entries (Some h') = entries (Some h)"
  by (auto simp: balance_def bind_eq_Some_conv simp del: entries_Some split: if_splits
      dest!: entries_rotations)

lemma entries_set_color [simp]: "entries (map_option (set_color c) t) = entries t"
  by (cases t) auto

subsection \<open>Exact hashes\<close>

fun hash_ok :: "(bytes \<Rightarrow> hash) \<Rightarrow> ('v \<Rightarrow> hash) \<Rightarrow> 'v node option \<Rightarrow> bool" where
  "hash_ok H rh None = True"
| "hash_ok H rh (Some (Node k v l r c h)) =
     (h = compute_subtree_hash H rh (Node k v l r c h) \<and> hash_ok H rh l \<and> hash_ok H rh r)"

lemma hash_ok_Some [simp]:
  "hash_ok H rh (Some n) \<longleftrightarrow>
     n_hash n = compute_subtree_hash H rh n \<and> hash_ok H rh (n_left n) \<and> hash_ok H rh (n_right n)"
  by (cases n) simp

declare hash_ok.simps(2) [simp del]

lemma compute_subtree_hash_cong:
  "n_key n = n_key m \<Longrightarrow> n_value n = n_value m \<Longrightarrow>
     map_option n_hash (n_left n) = map_option n_hash (n_left m) \<Longrightarrow>
     map_option n_hash (n_right n) = map_option n_hash (n_right m) \<Longrightarrow>
     compute_subtree_hash H rh n = compute_subtree_hash H rh m"
  by (auto simp: compute_subtree_hash_def data_hash_def Let_def split: option.splits)

lemma compute_set_color [simp]:
  "compute_subtree_hash H rh (set_color c n) = compute_subtree_hash H rh n"
  "compute_subtree_hash H rh (set_hash x n) = compute_subtree_hash H rh n"
  "compute_subtree_hash H rh (update_subtree_hash H rh' n) = compute_subtree_hash H rh n"
  by (rule compute_subtree_hash_cong; simp)+

lemma hash_ok_set_color [simp]: "hash_ok H rh (map_option (set_color c) t) = hash_ok H rh t"
  by (cases t) auto

lemma hash_ok_rotate_right:
  "rotate_right H rh h = Some h' \<Longrightarrow> hash_ok H rh (n_left h) \<Longrightarrow> hash_ok H rh (n_right h) \<Longrightarrow>
     hash_ok H rh (Some h')"
  by (auto simp: rotate_right_eq)

lemma hash_ok_rotate_left:
  "rotate_left H rh h = Some h' \<Longrightarrow> hash_ok H rh (n_left h) \<Longrightarrow> hash_ok H rh (n_right h) \<Longrightarrow>
     hash_ok H rh (Some h')"
  by (auto simp: rotate_left_eq)

lemma hash_ok_flip_colors:
  "flip_colors h = Some h' \<Longrightarrow> hash_ok H rh (Some h) \<Longrightarrow> hash_ok H rh (Some h')"
  by (auto simp: flip_colors_eq compute_subtree_hash_def data_hash_def Let_def)

lemma hash_ok_balance:
  assumes "balance H rh h = Some h'" and "hash_ok H rh (Some h)"
  shows "hash_ok H rh (Some h')"
proof -
  from assms(1) obtain h1 h2 where
    1: "(if is_red (n_right h) \<and> \<not> is_red (n_left h) then rotate_left H rh h else Some h) = Some h1"
    and 2: "h2 = h1 \<or> rotate_right H rh h1 = Some h2"
    and 3: "h' = h2 \<or> flip_colors h2 = Some h'"
    by (auto simp: balance_def bind_eq_Some_conv split: if_splits)
  from 1 assms(2) have "hash_ok H rh (Some h1)"
    by (auto split: if_splits dest: hash_ok_rotate_left)
  with 2 have "hash_ok H rh (Some h2)" by (auto dest: hash_ok_rotate_right)
  with 3 show ?thesis by (auto dest: hash_ok_flip_colors)
qed

subsection \<open>Left-leaning red-black invariants\<close>

fun bheight :: "'v node option \<Rightarrow> nat" where
  "bheight None = 0"
| "bheight (Some (Node k v l r c h)) = (if c = Black then Suc (bheight l) else bheight l)"

fun invh :: "'v node option \<Rightarrow> bool" where
  "invh None = True"
| "invh (Some (Node k v l r c h)) = (bheight l = bheight r \<and> invh l \<and> invh r)"

fun llrb :: "'v node option \<Rightarrow> bool" where
  "llrb None = True"
| "llrb (Some (Node k v l r c h)) =
     (\<not> is_red r \<and> (c = Red \<longrightarrow> \<not> is_red l) \<and> llrb l \<and> llrb r)"

text \<open>The result of an insertion below a red node: a red node may have a red left child.\<close>

fun almost :: "'v node option \<Rightarrow> bool" where
  "almost None = True"
| "almost (Some (Node k v l r c h)) = (\<not> is_red r \<and> llrb l \<and> llrb r)"

lemma inv_Some [simp]:
  "bheight (Some n) = (if n_color n = Black then Suc (bheight (n_left n)) else bheight (n_left n))"
  "invh (Some n) = (bheight (n_left n) = bheight (n_right n) \<and> invh (n_left n) \<and> invh (n_right n))"
  "llrb (Some n) = (\<not> is_red (n_right n) \<and> (n_color n = Red \<longrightarrow> \<not> is_red (n_left n)) \<and>
     llrb (n_left n) \<and> llrb (n_right n))"
  "almost (Some n) = (\<not> is_red (n_right n) \<and> llrb (n_left n) \<and> llrb (n_right n))"
  by (cases n; simp)+

declare bheight.simps(2) [simp del] invh.simps(2) [simp del] llrb.simps(2) [simp del]
  almost.simps(2) [simp del]

lemma color_not [simp]: "c \<noteq> Black \<longleftrightarrow> c = Red" "c \<noteq> Red \<longleftrightarrow> c = Black"
  by (cases c; simp)+

lemma balance_total: "\<exists>h'. balance H rh h = Some h'"
proof -
  have red: "\<exists>x. t = Some x \<and> n_color x = Red" if "is_red t" for t :: "'a node option"
    using that by (cases t) auto
  show ?thesis
    by (auto simp: balance_def left_is_red_def rotate_left_def rotate_right_def flip_colors_def
        dest!: red split: option.splits)
qed

lemma balance_black:
  assumes "balance H rh h = Some h'" and "n_color h = Black"
    and "bheight (n_left h) = bheight (n_right h)" and "invh (n_left h)" and "invh (n_right h)"
    and "(almost (n_left h) \<and> \<not> is_red (n_right h)) \<or> llrb (n_left h)" and "llrb (n_right h)"
  shows "llrb (Some h') \<and> invh (Some h') \<and> bheight (Some h') = Suc (bheight (n_left h))"
  using assms
  by (cases "n_left h"; cases "n_right h")
    (auto simp: balance_def bind_eq_Some_conv left_is_red_def rotate_left_eq rotate_right_eq
      flip_colors_eq split: if_splits)

lemma balance_red:
  assumes "balance H rh h = Some h'" and "n_color h = Red"
    and "bheight (n_left h) = bheight (n_right h)" and "invh (n_left h)" and "invh (n_right h)"
    and "\<not> is_red (n_left h) \<or> \<not> is_red (n_right h)" and "llrb (n_left h)" and "llrb (n_right h)"
  shows "almost (Some h') \<and> invh (Some h') \<and> bheight (Some h') = bheight (n_left h)"
  using assms
  by (cases "n_left h"; cases "n_right h")
    (auto simp: balance_def bind_eq_Some_conv left_is_red_def rotate_left_eq rotate_right_eq
      flip_colors_eq split: if_splits)

lemma llrb_almost: "llrb t \<Longrightarrow> almost t"
  by (cases t rule: node_ref_cases) auto

subsection \<open>Insertion\<close>

definition upd_entry :: "bytes \<Rightarrow> 'v \<Rightarrow> (bytes \<times> 'v) list \<Rightarrow> (bytes \<times> 'v) list" where
  "upd_entry k v ps = filter (\<lambda>p. fst p < k) ps @ (k, v) # filter (\<lambda>p. k < fst p) ps"

definition del_entry :: "bytes \<Rightarrow> (bytes \<times> 'v) list \<Rightarrow> (bytes \<times> 'v) list" where
  "del_entry k ps = filter (\<lambda>p. fst p \<noteq> k) ps"

lemma filter_keys_above:
  fixes a :: "'k::linorder"
  assumes "\<And>p. p \<in> set ps \<Longrightarrow> a < fst p" and "k \<le> a"
  shows "filter (\<lambda>p. fst p < k) ps = []" and "filter (\<lambda>p. k < fst p) ps = ps"
    and "filter (\<lambda>p. fst p \<noteq> k) ps = ps"
proof -
  have gt: "k < fst p" if "p \<in> set ps" for p
    using assms(1) [OF that] assms(2) by (rule le_less_trans [rotated])
  then show "filter (\<lambda>p. fst p < k) ps = []" by (auto simp: filter_empty_conv dest: less_asym)
  show "filter (\<lambda>p. k < fst p) ps = ps" using gt by (auto simp: filter_id_conv)
  show "filter (\<lambda>p. fst p \<noteq> k) ps = ps" using gt by (auto simp: filter_id_conv)
qed

lemma filter_keys_below:
  fixes a :: "'k::linorder"
  assumes "\<And>p. p \<in> set ps \<Longrightarrow> fst p < a" and "a \<le> k"
  shows "filter (\<lambda>p. fst p < k) ps = ps" and "filter (\<lambda>p. k < fst p) ps = []"
    and "filter (\<lambda>p. fst p \<noteq> k) ps = ps"
proof -
  have lt: "fst p < k" if "p \<in> set ps" for p
    using assms(1) [OF that] assms(2) by (rule less_le_trans)
  then show "filter (\<lambda>p. fst p < k) ps = ps" by (auto simp: filter_id_conv)
  show "filter (\<lambda>p. k < fst p) ps = []" using lt by (auto simp: filter_empty_conv dest: less_asym)
  show "filter (\<lambda>p. fst p \<noteq> k) ps = ps" using lt by (auto simp: filter_id_conv)
qed

lemma upd_entry_simps:
  assumes "sorted_keys (ps @ (a, b) # qs)"
  shows "k < a \<Longrightarrow> upd_entry k v (ps @ (a, b) # qs) = upd_entry k v ps @ (a, b) # qs"
    and "k = a \<Longrightarrow> upd_entry k v (ps @ (a, b) # qs) = ps @ (a, v) # qs"
    and "a < k \<Longrightarrow> upd_entry k v (ps @ (a, b) # qs) = ps @ (a, b) # upd_entry k v qs"
  using assms filter_keys_above [of qs a k] filter_keys_below [of ps a k]
  by (simp_all add: upd_entry_def less_imp_le less_not_sym)

lemma del_entry_simps:
  assumes "sorted_keys (ps @ (a, b) # qs)"
  shows "k < a \<Longrightarrow> del_entry k (ps @ (a, b) # qs) = del_entry k ps @ (a, b) # qs"
    and "k = a \<Longrightarrow> del_entry k (ps @ (a, b) # qs) = ps @ qs"
    and "a < k \<Longrightarrow> del_entry k (ps @ (a, b) # qs) = ps @ (a, b) # del_entry k qs"
  using assms filter_keys_above [of qs a k] filter_keys_below [of ps a k]
  by (simp_all add: del_entry_def less_imp_le less_imp_neq [symmetric] less_imp_neq)

lemma sorted_keys_upd_entry: "sorted_keys ps \<Longrightarrow> sorted_keys (upd_entry k v ps)"
  by (auto simp: upd_entry_def sorted_keys_filter)

lemma sorted_keys_del_entry: "sorted_keys ps \<Longrightarrow> sorted_keys (del_entry k ps)"
  by (simp add: del_entry_def sorted_keys_filter)

lemma map_of_upd_entry: "map_of (upd_entry k v ps) = (map_of ps)(k \<mapsto> v)"
proof (rule ext)
  fix x
  note f = map_of_filter_key [of "\<lambda>y. y < k" ps] map_of_filter_key [of "\<lambda>y. k < y" ps]
  show "map_of (upd_entry k v ps) x = ((map_of ps)(k \<mapsto> v)) x"
    by (cases x k rule: linorder_cases)
      (auto simp: upd_entry_def map_add_def f split: option.splits)
qed

lemma map_of_del_entry: "map_of (del_entry k ps) = (map_of ps)(k := None)"
  by (rule ext) (simp add: del_entry_def map_of_filter_key [of "\<lambda>y. y \<noteq> k"])

lemma insert_go_total: "\<exists>n. insert_go H rh t k v = Some n"
proof (induction t rule: node_ref_induct)
  case None
  then show ?case by simp
next
  case (Some hk hv l r c h)
  then obtain l' r' where "insert_go H rh l k v = Some l'" "insert_go H rh r k v = Some r'" by auto
  then show ?case by (cases k hk rule: bytes_cmp_cases) (simp_all add: balance_total)
qed

lemma insert_go_entries:
  "sorted_keys (entries t) \<Longrightarrow> insert_go H rh t k v = Some n \<Longrightarrow>
     entries (Some n) = upd_entry k v (entries t)"
proof (induction t arbitrary: n rule: node_ref_induct)
  case None
  then show ?case by (auto simp: new_node_def upd_entry_def)
next
  case (Some hk hv l r c h)
  note u = upd_entry_simps [of "entries l" hk hv "entries r" k]
  show ?case
  proof (cases k hk rule: bytes_cmp_cases)
    case Less
    with Some.prems obtain l' where l': "insert_go H rh l k v = Some l'"
      and b: "balance H rh (update_subtree_hash H rh (Node hk hv (Some l') r c h)) = Some n"
      by (auto simp: bind_eq_Some_conv)
    show ?thesis
      using entries_balance [OF b] Some.IH(1) [OF _ l'] u(1) Less Some.prems(1) by simp
  next
    case Equal
    with Some.prems have b: "balance H rh (update_subtree_hash H rh (Node hk v l r c h)) = Some n"
      by simp
    show ?thesis
      using entries_balance [OF b] u(2) Equal Some.prems(1) by simp
  next
    case Greater
    with Some.prems obtain r' where r': "insert_go H rh r k v = Some r'"
      and b: "balance H rh (update_subtree_hash H rh (Node hk hv l (Some r') c h)) = Some n"
      by (auto simp: bind_eq_Some_conv)
    show ?thesis
      using entries_balance [OF b] Some.IH(2) [OF _ r'] u(3) Greater Some.prems(1) by simp
  qed
qed

lemma insert_go_hash_ok:
  "hash_ok H rh t \<Longrightarrow> insert_go H rh t k v = Some n \<Longrightarrow> hash_ok H rh (Some n)"
proof (induction t arbitrary: n rule: node_ref_induct)
  case None
  then show ?case by (auto simp: new_node_def compute_subtree_hash_def data_hash_def)
next
  case (Some hk hv l r c h)
  obtain m where b: "balance H rh (update_subtree_hash H rh m) = Some n"
    and "hash_ok H rh (n_left m)" and "hash_ok H rh (n_right m)"
    using Some by (cases k hk rule: bytes_cmp_cases) (force simp: bind_eq_Some_conv)+
  with hash_ok_balance [OF b] show ?case by simp
qed

lemma insert_go_inv:
  "llrb t \<Longrightarrow> invh t \<Longrightarrow> insert_go H rh t k v = Some n \<Longrightarrow>
     invh (Some n) \<and> bheight (Some n) = bheight t \<and> almost (Some n) \<and>
     (\<not> is_red t \<longrightarrow> llrb (Some n))"
proof (induction t arbitrary: n rule: node_ref_induct)
  case None
  then show ?case by (auto simp: new_node_def)
next
  case (Some hk hv l r c h)
  obtain m where m: "balance H rh (update_subtree_hash H rh m) = Some n"
    and col: "n_color m = c" and bh: "bheight (n_left m) = bheight (n_right m)"
      "bheight (n_left m) = bheight l"
    and ih: "invh (n_left m)" "invh (n_right m)" and lr: "llrb (n_right m)"
    and al: "c = Black \<Longrightarrow> (almost (n_left m) \<and> \<not> is_red (n_right m)) \<or> llrb (n_left m)"
    and rd: "c = Red \<Longrightarrow> llrb (n_left m) \<and> (\<not> is_red (n_left m) \<or> \<not> is_red (n_right m))"
  proof (cases k hk rule: bytes_cmp_cases)
    case Less
    with Some.prems(3) obtain l' where l': "insert_go H rh l k v = Some l'"
      and b: "balance H rh (update_subtree_hash H rh (Node hk hv (Some l') r c h)) = Some n"
      by (auto simp: bind_eq_Some_conv)
    show thesis
      by (rule that [OF b]) (use Some.IH(1) [OF _ _ l'] Some.prems(1,2) in auto)
  next
    case Equal
    with Some.prems(3) have b: "balance H rh (update_subtree_hash H rh (Node hk v l r c h)) = Some n"
      by simp
    show thesis
      by (rule that [OF b]) (use Some.prems(1,2) in auto)
  next
    case Greater
    with Some.prems(3) obtain r' where r': "insert_go H rh r k v = Some r'"
      and b: "balance H rh (update_subtree_hash H rh (Node hk hv l (Some r') c h)) = Some n"
      by (auto simp: bind_eq_Some_conv)
    show thesis
      by (rule that [OF b]) (use Some.IH(2) [OF _ _ r'] Some.prems(1,2) in auto)
  qed
  show ?case
  proof (cases c)
    case Red
    with balance_red [OF m] col bh ih lr rd show ?thesis by simp
  next
    case Black
    with balance_black [OF m] col bh ih lr al show ?thesis by (simp add: llrb_almost)
  qed
qed

end
