(* ===== verification/Rb_Delete_Correct.thy ===== *)
theory Rb_Delete_Correct
  imports Rb_Map
begin

text \<open>
  Deletion is correct: on a left-leaning red-black tree it removes exactly the given key, keeps
  the invariants and the cached hashes exact, and reaches none of its panics.
\<close>

subsection \<open>Entries\<close>

lemma entries_move_red_left: "move_red_left H rh h = Some h' \<Longrightarrow> entries (Some h') = entries (Some h)"
  by (auto simp: move_red_left_def bind_eq_Some_conv split: if_splits dest!: entries_rotations)

lemma entries_move_red_right: "move_red_right H rh h = Some h' \<Longrightarrow> entries (Some h') = entries (Some h)"
  by (auto simp: move_red_right_def bind_eq_Some_conv simp del: entries_Some split: if_splits
      dest!: entries_rotations)

lemma entries_ensure_red_left: "ensure_red_left H rh h = Some h' \<Longrightarrow> entries (Some h') = entries (Some h)"
  by (auto simp: ensure_red_left_def bind_eq_Some_conv simp del: entries_Some split: if_splits
      dest!: entries_move_red_left)

lemma entries_ensure_red_right: "ensure_red_right H rh h = Some h' \<Longrightarrow> entries (Some h') = entries (Some h)"
  by (auto simp: ensure_red_right_def bind_eq_Some_conv simp del: entries_Some split: if_splits
      dest!: entries_move_red_right)

lemma min_entry_hd: "min_entry n = hd (entries (Some n)) \<and> entries (Some (set_min_entry k v n)) = (k, v) # tl (entries (Some n))"
  by (induction n rule: min_entry.induct) (auto simp: hd_append)

lemma delete_min_entries:
  "delete_min H rh h = Some m \<Longrightarrow> entries m = tl (entries (Some h))"
proof (induction H rh h arbitrary: m rule: delete_min.induct)
  case (1 H rh h)
  show ?case
  proof (cases "Option.is_none (n_left h)")
    case True
    with "1.prems" show ?thesis
      by (auto simp: delete_min.simps [of H rh h] Option.is_none_def split: if_splits)
  next
    case False
    with "1.prems" obtain h' l l' h'' where ex: "ensure_red_left H rh h = Some h'"
      "n_left h' = Some l" "delete_min H rh l = Some l'"
      and b: "balance H rh (update_subtree_hash H rh (set_left l' h')) = Some h''" "m = Some h''"
      by (auto simp: delete_min.simps [of H rh h] bind_eq_Some_conv)
    from "1.IH" [OF False ex] have "entries l' = tl (entries (Some l))" .
    with entries_balance [OF b(1)] b(2) have "entries m = tl (entries (Some h'))"
      using ex(2) by (cases "entries (n_left l)") auto
    with entries_ensure_red_left [OF ex(1)] show ?thesis by simp
  qed
qed

lemma key_ensure_red_left:
  assumes "ensure_red_left H rh h = Some h'" and "sorted_keys (entries (Some h))"
  shows "n_key h \<le> n_key h'"
  using assms
  by (auto simp: ensure_red_left_def move_red_left_def bind_eq_Some_conv rotate_left_eq
      rotate_right_eq flip_colors_eq less_imp_le split: if_splits)

lemma key_ensure_red_right:
  assumes "ensure_red_right H rh h = Some h'" and "sorted_keys (entries (Some h))"
  shows "n_key h' \<le> n_key h"
  using assms
  by (auto simp: ensure_red_right_def move_red_right_def bind_eq_Some_conv rotate_left_eq
      rotate_right_eq flip_colors_eq less_imp_le split: if_splits)

lemma key_rotate_right:
  assumes "rotate_right H rh h = Some h'" and "sorted_keys (entries (Some h))"
  shows "n_key h' \<le> n_key h"
  using assms by (auto simp: rotate_right_eq intro: less_imp_le)

text \<open>The four ways a deletion step can succeed.\<close>

lemma delete_go_cases [consumes 1, case_names left base swap right]:
  assumes "delete_go H rh h key = Some m"
  obtains (left) h' l l' h'' where "key < n_key h" "ensure_red_left H rh h = Some h'"
      "n_left h' = Some l" "delete_go H rh l key = Some l'"
      "balance H rh (update_subtree_hash H rh (set_left l' h')) = Some h''" "m = Some h''"
    | (base) h1 where "\<not> key < n_key h"
      "(if is_red (n_left h) then rotate_right H rh h else Some h) = Some h1"
      "key = n_key h1" "n_right h1 = None" "n_left h1 = None" "m = None"
    | (swap) h1 h2 r r' h3 where "\<not> key < n_key h"
      "(if is_red (n_left h) then rotate_right H rh h else Some h) = Some h1"
      "ensure_red_right H rh h1 = Some h2" "n_right h2 = Some r" "key = n_key h2"
      "delete_min H rh (set_min_entry (n_key h2) (n_value h2) r) = Some r'"
      "balance H rh (update_subtree_hash H rh
         (set_right r' (set_entry (fst (min_entry r)) (snd (min_entry r)) h2))) = Some h3"
      "m = Some h3"
    | (right) h1 h2 r r' h3 where "\<not> key < n_key h"
      "(if is_red (n_left h) then rotate_right H rh h else Some h) = Some h1"
      "ensure_red_right H rh h1 = Some h2" "n_right h2 = Some r" "key \<noteq> n_key h2"
      "delete_go H rh r key = Some r'"
      "balance H rh (update_subtree_hash H rh (set_right r' h2)) = Some h3" "m = Some h3"
proof (cases "key < n_key h")
  case True
  with assms left show thesis by (auto simp: delete_go.simps [of H rh h] bind_eq_Some_conv)
next
  case ge: False
  with assms obtain h1 where
    r1: "(if is_red (n_left h) then rotate_right H rh h else Some h) = Some h1"
    by (auto simp: delete_go.simps [of H rh h] bind_eq_Some_conv)
  show thesis
  proof (cases "key = n_key h1 \<and> Option.is_none (n_right h1)")
    case True
    with assms ge r1 base [OF ge r1] show thesis
      by (auto simp: delete_go.simps [of H rh h] Option.is_none_def split: if_splits)
  next
    case False
    with assms ge r1 obtain h2 r where h2: "ensure_red_right H rh h1 = Some h2" "n_right h2 = Some r"
      by (auto simp: delete_go.simps [of H rh h] bind_eq_Some_conv split: if_splits)
    show thesis
    proof (cases "key = n_key h2")
      case True
      with assms ge r1 h2 False obtain r' h3 where
        "delete_min H rh (set_min_entry (n_key h2) (n_value h2) r) = Some r'"
        and "balance H rh (update_subtree_hash H rh
          (set_right r' (set_entry (fst (min_entry r)) (snd (min_entry r)) h2))) = Some h3"
        and "m = Some h3"
        by (fastforce simp: delete_go.simps [of H rh h] bind_eq_Some_conv split: if_splits)
      with swap [OF ge r1 h2 True] show thesis by blast
    next
      case neq: False
      with assms ge r1 h2 False obtain r' h3 where "delete_go H rh r key = Some r'"
        and "balance H rh (update_subtree_hash H rh (set_right r' h2)) = Some h3" and "m = Some h3"
        by (fastforce simp: delete_go.simps [of H rh h] bind_eq_Some_conv split: if_splits)
      with right [OF ge r1 h2 neq] show thesis by blast
    qed
  qed
qed

lemma entries_maybe_rotate_right:
  assumes "(if is_red (n_left h) then rotate_right H rh h else Some h) = Some h1"
  shows "entries (Some h1) = entries (Some h)"
  using assms entries_rotate_right by (auto simp del: entries_Some split: if_splits)

lemma key_maybe_rotate_right:
  assumes "(if is_red (n_left h) then rotate_right H rh h else Some h) = Some h1"
    and "sorted_keys (entries (Some h))"
  shows "n_key h1 \<le> n_key h"
  using assms key_rotate_right by (auto simp del: entries_Some split: if_splits)

lemma delete_go_entries:
  "delete_go H rh h key = Some m \<Longrightarrow> sorted_keys (entries (Some h)) \<Longrightarrow>
     entries m = del_entry key (entries (Some h))"
proof (induction "node_count (Some h)" arbitrary: h m rule: less_induct)
  case less
  note d = del_entry_simps
  show ?case
    using less.prems(1)
  proof (cases rule: delete_go_cases)
    case (left h' l l' h'')
    note e = entries_ensure_red_left [OF left(2)]
    have lt: "key < n_key h'" using key_ensure_red_left [OF left(2) less.prems(2)] left(1) by simp
    from e less.prems(2) have s: "sorted_keys (entries (Some h'))" by metis
    have "node_count (Some l) < node_count (Some h)"
      using node_count_ensure_red_left [OF left(2)] left(3) by (simp add: node_count_Some)
    with less.hyps left(3,4) s have "entries l' = del_entry key (entries (Some l))" by simp
    with entries_balance [OF left(5)] left(3,6) lt d(1) [OF s [unfolded entries_Some], of key]
    have "entries m = del_entry key (entries (Some h'))" by simp
    with e show ?thesis by simp
  next
    case (base h1)
    then have "entries (Some h1) = [(key, n_value h1)]" by simp
    then have "del_entry key (entries (Some h1)) = []" by (simp only: del_entry_def) simp
    with entries_maybe_rotate_right [OF base(2)] base(6) show ?thesis by (simp only: entries.simps)
  next
    case (swap h1 h2 r r' h3)
    note e2 = entries_ensure_red_right [OF swap(3)] entries_maybe_rotate_right [OF swap(2)]
    with less.prems(2) have s2: "sorted_keys (entries (Some h2))" by metis
    have "entries r' = tl (entries (Some (set_min_entry (n_key h2) (n_value h2) r)))"
      by (rule delete_min_entries [OF swap(6)])
    with min_entry_hd [of r] have "min_entry r # entries r' = entries (Some r)"
      by (metis append_is_Nil_conv entries_Some list.discI list.exhaust_sel list.sel(3))
    then have "entries m = del_entry key (entries (Some h2))"
      using entries_balance [OF swap(7)] swap(4,5,8) d(2) [OF s2 [unfolded entries_Some], of key]
      by (cases h2) simp
    with e2 show ?thesis by simp
  next
    case (right h1 h2 r r' h3)
    note e2 = entries_ensure_red_right [OF right(3)] entries_maybe_rotate_right [OF right(2)]
    with less.prems(2) have s1: "sorted_keys (entries (Some h1))" and
      s2: "sorted_keys (entries (Some h2))" by metis+
    have gt: "n_key h2 < key"
      using right(1,5) key_ensure_red_right [OF right(3) s1]
        key_maybe_rotate_right [OF right(2) less.prems(2)] by simp
    have "node_count (Some h2) = node_count (Some h)"
      using node_count_ensure_red_right [OF right(3)] right(2) node_count_rotate_right
      by (auto split: if_splits)
    with right(4) have "node_count (Some r) < node_count (Some h)" by (simp add: node_count_Some)
    with less.hyps right(4,6) s2 have "entries r' = del_entry key (entries (Some r))" by simp
    with entries_balance [OF right(7)] right(4,8) gt d(3) [OF s2 [unfolded entries_Some], of key]
    have "entries m = del_entry key (entries (Some h2))" by simp
    with e2 show ?thesis by simp
  qed
qed

subsection \<open>Invariants\<close>

text \<open>The shape a deletion step starts from: the node is red, or its left child is; or, after a
  rotation on the way to the right, a black node leaning to the right whose key is not above the
  deleted one.\<close>

definition ready :: "'v node \<Rightarrow> bool" where
  "ready h \<longleftrightarrow> invh (Some h) \<and> llrb (Some h) \<and> (n_color h = Red \<or> is_red (n_left h))"

definition leaning :: "'v node \<Rightarrow> bool" where
  "leaning h \<longleftrightarrow> invh (Some h) \<and> n_color h = Black \<and> \<not> is_red (n_left h) \<and> is_red (n_right h) \<and>
     llrb (n_left h) \<and> llrb (n_right h)"

definition shrunk :: "'v node \<Rightarrow> 'v node option \<Rightarrow> bool" where
  "shrunk h m \<longleftrightarrow> invh m \<and> llrb m \<and> bheight m = bheight (Some h) \<and>
     (n_color h = Black \<longrightarrow> \<not> is_red m)"

lemma balance_color:
  assumes "balance H rh h = Some h'" and "n_color h = Black"
    and "llrb (n_left h)" and "llrb (n_right h)"
    and "\<not> is_red (n_left h) \<or> \<not> is_red (n_right h)"
  shows "n_color h' = Black"
  using assms
  by (cases "n_left h"; cases "n_right h")
    (auto simp: balance_def bind_eq_Some_conv left_is_red_def rotate_left_eq rotate_right_eq
      flip_colors_eq split: if_splits)

lemma balance_shrunk:
  assumes b: "balance H rh (update_subtree_hash H rh h) = Some h'"
    and "bheight (n_left h) = bheight (n_right h)" and "invh (n_left h)" and "invh (n_right h)"
    and "llrb (n_left h)" and "llrb (n_right h)"
    and red: "n_color h = Red \<Longrightarrow> \<not> is_red (n_left h) \<and> \<not> is_red (n_right h)"
  shows "invh (Some h') \<and> llrb (Some h') \<and>
    bheight (Some h') = (if n_color h = Black then Suc else id) (bheight (n_left h)) \<and>
    (n_color h = Black \<and> (\<not> is_red (n_left h) \<or> \<not> is_red (n_right h)) \<longrightarrow> n_color h' = Black)"
proof (cases "n_color h")
  case Red
  with red b have "h' = update_subtree_hash H rh h" by (auto simp: balance_def)
  with Red red assms show ?thesis by auto
next
  case Black
  then show ?thesis
    using balance_black [OF b] balance_color [OF b] assms by simp
qed

lemma ensure_red_left_ready:
  assumes h: "ready h" and l: "n_left h = Some l"
  obtains h' l' where "ensure_red_left H rh h = Some h'" "n_left h' = Some l'" "ready l'"
    "invh (Some h')" "llrb (n_right h')" "bheight (Some h') = bheight (Some h)"
    "n_color h' = Red \<longrightarrow> n_color l' = Black \<and> \<not> is_red (n_right h')"
    "n_color h = Black \<longrightarrow> n_color h' = Black \<and> \<not> is_red (n_right h')"
proof (cases "is_red (n_left h) \<or> is_red (n_left l)")
  case True
  with h l have "ensure_red_left H rh h = Some h" "ready l"
    by (auto simp: ensure_red_left_def left_is_red_def ready_def)
  with h l that [of h l] show thesis by (auto simp: ready_def)
next
  case False
  with h l have red: "n_color h = Red" and bl: "n_color l = Black" by (auto simp: ready_def)
  with h l obtain r where r: "n_right h = Some r" "n_color r = Black"
    by (cases "n_right h") (auto simp: ready_def)
  show thesis
  proof (cases "is_red (n_left r)")
    case T: True
    then obtain rl where rl: "n_left r = Some rl" "n_color rl = Red" by (cases "n_left r") auto
    show thesis
      using h l red bl r rl False that
      by (auto simp: ensure_red_left_def move_red_left_def left_is_red_def ready_def
          rotate_left_def rotate_right_def flip_colors_def Let_def split: if_splits)
  next
    case F: False
    show thesis
      by (rule that [of "set_color Black (set_left (Some (set_color Red l))
            (set_right (Some (set_color Red r)) h))" "set_color Red l"])
        (use h l red bl r F False in \<open>auto simp: ensure_red_left_def move_red_left_def
          left_is_red_def ready_def flip_colors_def\<close>)
  qed
qed


lemma shrink_left:
  assumes h: "invh (Some h')" "llrb (n_right h')" and l: "n_left h' = Some l'"
    and col: "n_color h' = Red \<longrightarrow> n_color l' = Black \<and> \<not> is_red (n_right h')"
    and m: "shrunk l' m" and b: "balance H rh (update_subtree_hash H rh (set_left m h')) = Some n"
  shows "invh (Some n) \<and> llrb (Some n) \<and> bheight (Some n) = bheight (Some h') \<and>
    (n_color h' = Black \<and> \<not> is_red (n_right h') \<longrightarrow> n_color n = Black)"
  using balance_shrunk [OF b] h l m col by (auto simp: shrunk_def)

lemma shrink_right:
  assumes h: "invh (Some h')" "llrb (n_left h')" and r: "n_right h' = Some r'"
    and col: "n_color h' = Red \<longrightarrow> n_color r' = Black \<and> \<not> is_red (n_left h')"
    and m: "shrunk r' m"
    and k: "n_left k = n_left h'" "n_color k = n_color h'" "n_right k = m"
    and b: "balance H rh (update_subtree_hash H rh k) = Some n"
  shows "invh (Some n) \<and> llrb (Some n) \<and> bheight (Some n) = bheight (Some h') \<and>
    (n_color h' = Black \<and> \<not> is_red (n_left h') \<longrightarrow> n_color n = Black)"
  using balance_shrunk [OF b] h r m col k by (auto simp: shrunk_def)

lemma delete_min_shrunk:
  "ready h \<Longrightarrow> \<exists>m. delete_min H rh h = Some m \<and> shrunk h m"
proof (induction "node_count (Some h)" arbitrary: h rule: less_induct)
  case less
  show ?case
  proof (cases "n_left h")
    case None
    with less.prems have "n_right h = None" "n_color h = Red"
      by (cases "n_right h"; auto simp: ready_def split: if_splits)+
    with None show ?thesis by (auto simp: delete_min.simps [of H rh h] shrunk_def)
  next
    case (Some l)
    from less.prems Some obtain h' l' where e: "ensure_red_left H rh h = Some h'"
      and l': "n_left h' = Some l'" and r: "ready l'"
      and inv: "invh (Some h')" "llrb (n_right h')" "bheight (Some h') = bheight (Some h)"
      and red: "n_color h' = Red \<longrightarrow> n_color l' = Black \<and> \<not> is_red (n_right h')"
      and black: "n_color h = Black \<longrightarrow> n_color h' = Black \<and> \<not> is_red (n_right h')"
      by (rule ensure_red_left_ready [where H = H and rh = rh])
    have "node_count (Some l') < node_count (Some h)"
      using node_count_ensure_red_left [OF e] l' by (simp add: node_count_Some)
    with less.hyps r obtain m where m: "delete_min H rh l' = Some m" "shrunk l' m" by blast
    obtain n where n: "balance H rh (update_subtree_hash H rh (set_left m h')) = Some n"
      using balance_total by blast
    have "delete_min H rh h = Some (Some n)"
      using Some e l' m(1) n by (simp add: delete_min.simps [of H rh h])
    moreover have "shrunk h (Some n)"
      using shrink_left [OF inv(1,2) l' red m(2) n] inv(3) black by (auto simp: shrunk_def)
    ultimately show ?thesis by blast
  qed
qed


lemma maybe_rotate_right_ready:
  assumes "ready h \<or> leaning h"
  obtains h1 where "(if is_red (n_left h) then rotate_right H rh h else Some h) = Some h1"
    "leaning h1 \<or> ready h1 \<and> n_color h1 = Red" "bheight (Some h1) = bheight (Some h)"
    "n_color h1 = n_color h"
proof (cases "is_red (n_left h)")
  case True
  then obtain x where "n_left h = Some x" "n_color x = Red" by (cases "n_left h") auto
  with True assms that show thesis
    by (auto simp: rotate_right_def ready_def leaning_def Let_def)
next
  case False
  with assms that [of h] show thesis by (auto simp: ready_def)
qed

lemma ensure_red_right_ready:
  assumes h: "leaning h \<or> ready h \<and> n_color h = Red" and r: "n_right h = Some r"
  obtains h' r' where "ensure_red_right H rh h = Some h'" "n_right h' = Some r'"
    "ready r' \<and> n_key h' = n_key h \<or>
       leaning r' \<and> n_key r' = n_key h \<and> (\<exists>x. n_left h = Some x \<and> n_key h' = n_key x)"
    "invh (Some h')" "llrb (n_left h')" "bheight (Some h') = bheight (Some h)"
    "n_color h' = Red \<longrightarrow> n_color r' = Black \<and> \<not> is_red (n_left h')"
    "n_color h = Black \<longrightarrow> n_color h' = Black \<and> \<not> is_red (n_left h')"
proof (cases "is_red (n_right h) \<or> is_red (n_left r)")
  case True
  with h r have "ensure_red_right H rh h = Some h" "ready r"
    by (auto simp: ensure_red_right_def left_is_red_def ready_def leaning_def)
  with h r that [of h r] show thesis by (auto simp: ready_def leaning_def)
next
  case False
  with h r have red: "n_color h = Red" and bl: "n_color r = Black"
    by (auto simp: ready_def leaning_def)
  with h r obtain l where l: "n_left h = Some l" "n_color l = Black"
    by (cases "n_left h") (auto simp: ready_def leaning_def)
  show thesis
  proof (cases "is_red (n_left l)")
    case T: True
    then obtain ll where ll: "n_left l = Some ll" "n_color ll = Red" by (cases "n_left l") auto
    define h2 where "h2 = update_subtree_hash H rh (set_left (n_right l)
      (set_color Black (set_left (Some (set_color Red l)) (set_right (Some (set_color Red r)) h))))"
    define h' where "h' = set_color Red (set_left (Some (set_color Black ll))
      (set_right (Some (set_color Black (set_color Red h2)))
        (update_subtree_hash H rh (set_color Black (set_right (Some (set_color Red h2))
          (set_color Red l))))))"
    have "ensure_red_right H rh h = Some h'"
      using r red bl l ll False T
      by (simp add: ensure_red_right_def move_red_right_def left_is_red_def rotate_right_def
          flip_colors_def Let_def h'_def h2_def)
    then show thesis
      by (rule that [of h' "set_color Black (set_color Red h2)"])
        (use h r red bl l ll False T in \<open>auto simp: ready_def leaning_def h'_def h2_def\<close>)
  next
    case F: False
    show thesis
      by (rule that [of "set_color Black (set_left (Some (set_color Red l))
            (set_right (Some (set_color Red r)) h))" "set_color Red r"])
        (use h l r red bl F False in \<open>auto simp: ensure_red_right_def move_red_right_def
          left_is_red_def ready_def leaning_def flip_colors_def\<close>)
  qed
qed

lemma set_min_entry_shape:
  "n_color (set_min_entry k v n) = n_color n"
  "is_red (n_left (set_min_entry k v n)) = is_red (n_left n)"
  "is_red (n_right (set_min_entry k v n)) = is_red (n_right n)"
  "bheight (Some (set_min_entry k v n)) = bheight (Some n)"
  "invh (Some (set_min_entry k v n)) = invh (Some n)"
  "llrb (Some (set_min_entry k v n)) = llrb (Some n)"
proof (induction k v n rule: set_min_entry.induct)
  case (2 k' v' k v l r c h)
  { case 1 show ?case by simp }
  { case 2 show ?case using "2.IH"(1) by simp }
  { case 3 show ?case by simp }
  { case 4 show ?case using "2.IH"(4) by simp }
  { case 5 show ?case using "2.IH"(4,5) by simp }
  { case 6 show ?case using "2.IH"(1,6) by simp }
qed auto

lemma ready_set_min_entry [simp]: "ready (set_min_entry k v n) = ready n"
  by (simp only: ready_def set_min_entry_shape)


lemma sorted_entries_less:
  assumes e: "entries (Some h') = entries (Some h)"
    and s: "sorted_keys (entries (Some h))" and k: "key \<in> fst ` set (entries (Some h))"
  shows "n_left h' = l \<Longrightarrow> key < n_key h' \<Longrightarrow>
      key \<in> fst ` set (entries l) \<and> sorted_keys (entries l)"
    and "n_right h' = r \<Longrightarrow> n_key h' < key \<Longrightarrow>
      key \<in> fst ` set (entries r) \<and> sorted_keys (entries r)"
proof -
  have "sorted_keys (entries (Some h'))" unfolding e by (rule s)
  then have s': "sorted_keys (entries (n_left h'))" "sorted_keys (entries (n_right h'))"
    "\<forall>p \<in> set (entries (n_left h')). fst p < n_key h'"
    "\<forall>p \<in> set (entries (n_right h')). n_key h' < fst p" by simp_all
  from k obtain p where p: "p \<in> set (entries (Some h'))" "key = fst p" unfolding e [symmetric] by blast
  show "key \<in> fst ` set (entries l) \<and> sorted_keys (entries l)" if "n_left h' = l" "key < n_key h'"
    using p s' that by (auto dest: less_asym)
  show "key \<in> fst ` set (entries r) \<and> sorted_keys (entries r)" if "n_right h' = r" "n_key h' < key"
    using p s' that by (auto dest: less_asym)
qed

lemma delete_go_shrunk:
  assumes "sorted_keys (entries (Some h))" and "key \<in> fst ` set (entries (Some h))"
    and "ready h \<or> leaning h \<and> n_key h \<le> key"
  shows "\<exists>m. delete_go H rh h key = Some m \<and> shrunk h m"
  using assms
proof (induction "node_count (Some h)" arbitrary: h rule: less_induct)
  case less
  show ?case
  proof (cases "key < n_key h")
    case True
    with less.prems(3) have rdy: "ready h" by auto
    from sorted_entries_less(1) [OF refl less.prems(1,2) refl True]
    obtain l where "n_left h = Some l" by (cases "n_left h") auto
    with rdy obtain h' l' where e: "ensure_red_left H rh h = Some h'"
      and l': "n_left h' = Some l'" and r: "ready l'"
      and inv: "invh (Some h')" "llrb (n_right h')" "bheight (Some h') = bheight (Some h)"
      and red: "n_color h' = Red \<longrightarrow> n_color l' = Black \<and> \<not> is_red (n_right h')"
      and black: "n_color h = Black \<longrightarrow> n_color h' = Black \<and> \<not> is_red (n_right h')"
      by (rule ensure_red_left_ready [where H = H and rh = rh])
    note ent = entries_ensure_red_left [OF e]
    have "key < n_key h'" using key_ensure_red_left [OF e less.prems(1)] True by simp
    then have key: "key \<in> fst ` set (entries (Some l'))" and sl: "sorted_keys (entries (Some l'))"
      using sorted_entries_less(1) [OF ent less.prems(1,2) l'] by blast+
    have "node_count (Some l') < node_count (Some h)"
      using node_count_ensure_red_left [OF e] l' by (simp add: node_count_Some)
    with less.hyps r key sl obtain m where m: "delete_go H rh l' key = Some m" "shrunk l' m"
      by blast
    obtain n where n: "balance H rh (update_subtree_hash H rh (set_left m h')) = Some n"
      using balance_total by blast
    have "delete_go H rh h key = Some (Some n)"
      using True e l' m(1) n by (simp add: delete_go.simps [of H rh h])
    moreover have "shrunk h (Some n)"
      using shrink_left [OF inv(1,2) l' _ m(2) n] red inv(3) black by (auto simp: shrunk_def)
    ultimately show ?thesis by blast
  next
    case ge: False
    from less.prems(3) have "ready h \<or> leaning h" by blast
    then obtain h1 where h1: "(if is_red (n_left h) then rotate_right H rh h else Some h) = Some h1"
      and shape: "leaning h1 \<or> ready h1 \<and> n_color h1 = Red"
      and same: "bheight (Some h1) = bheight (Some h)" "n_color h1 = n_color h"
      by (rule maybe_rotate_right_ready [where H = H and rh = rh])
    note ent1 = entries_maybe_rotate_right [OF h1]
    with less.prems have s1: "sorted_keys (entries (Some h1))"
      and k1: "key \<in> fst ` set (entries (Some h1))" by simp_all
    have c1: "node_count (Some h1) = node_count (Some h)"
      using h1 node_count_rotate_right by (auto split: if_splits)
    have le: "n_key h1 \<le> key"
      using key_maybe_rotate_right [OF h1 less.prems(1)] ge by simp
    show ?thesis
    proof (cases "n_right h1")
      case None
      with shape have c: "n_color h1 = Red" "n_left h1 = None"
        by (cases "n_left h1"; auto simp: leaning_def ready_def split: if_splits)+
      with None k1 have "key = n_key h1" by simp
      with None c ge h1 same show ?thesis
        by (auto simp: delete_go.simps [of H rh h] shrunk_def)
    next
      case (Some r1)
      with shape obtain h2 r where e: "ensure_red_right H rh h1 = Some h2"
        and r: "n_right h2 = Some r"
        and ready: "ready r \<and> n_key h2 = n_key h1 \<or> leaning r \<and> n_key r = n_key h1 \<and>
          (\<exists>x. n_left h1 = Some x \<and> n_key h2 = n_key x)"
        and inv: "invh (Some h2)" "llrb (n_left h2)" "bheight (Some h2) = bheight (Some h1)"
        and red: "n_color h2 = Red \<longrightarrow> n_color r = Black \<and> \<not> is_red (n_left h2)"
        and black: "n_color h1 = Black \<longrightarrow> n_color h2 = Black \<and> \<not> is_red (n_left h2)"
        by (rule ensure_red_right_ready [where H = H and rh = rh])
      note ent2 = entries_ensure_red_right [OF e]
      obtain m where m: "shrunk r m"
        and go: "delete_go H rh h key =
          do { h \<leftarrow> (if key = n_key h2 then Some (set_right m (set_entry (fst (min_entry r))
                   (snd (min_entry r)) h2)) else Some (set_right m h2));
            h \<leftarrow> balance H rh (update_subtree_hash H rh h); Some (Some h) }"
      proof (cases "key = n_key h2")
        case True
        have rr: "ready r"
        proof (rule ccontr)
          assume "\<not> ready r"
          with ready obtain x where "n_left h1 = Some x" "n_key h2 = n_key x" by blast
          with s1 True le show False by auto
        qed
        with delete_min_shrunk [of "set_min_entry (n_key h2) (n_value h2) r"] obtain m where
          m: "delete_min H rh (set_min_entry (n_key h2) (n_value h2) r) = Some m"
            "shrunk (set_min_entry (n_key h2) (n_value h2) r) m" by auto
        show thesis
          by (rule that [of m])
            (use m True ge h1 Some e r in \<open>simp_all add: shrunk_def set_min_entry_shape
              delete_go.simps [of H rh h] del: inv_Some\<close>)
      next
        case False
        have gt: "n_key h2 < key" and pre: "ready r \<or> leaning r \<and> n_key r \<le> key"
          using ready False le s1 by auto
        then have key: "key \<in> fst ` set (entries (Some r))" and sr: "sorted_keys (entries (Some r))"
          using sorted_entries_less(2) [OF ent2 s1 k1 r] by blast+
        have "node_count (Some r) < node_count (Some h)"
          using node_count_ensure_red_right [OF e] c1 r by (simp add: node_count_Some)
        with less.hyps pre key sr obtain m where m: "delete_go H rh r key = Some m" "shrunk r m"
          by blast
        show thesis
          by (rule that [of m])
            (use m False ge h1 Some e r in \<open>simp_all add: delete_go.simps [of H rh h]\<close>)
      qed
      define k where "k = (if key = n_key h2
        then set_right m (set_entry (fst (min_entry r)) (snd (min_entry r)) h2) else set_right m h2)"
      then have k: "n_left k = n_left h2" "n_color k = n_color h2" "n_right k = m" by simp_all
      from go have go': "delete_go H rh h key =
          do { h \<leftarrow> balance H rh (update_subtree_hash H rh k); Some (Some h) }"
        by (simp add: k_def split: if_splits)
      obtain n where n: "balance H rh (update_subtree_hash H rh k) = Some n"
        using balance_total by blast
      have "shrunk h (Some n)"
        using shrink_right [OF inv(1,2) r _ m k n] red inv(3) same black by (auto simp: shrunk_def)
      with go' n show ?thesis by auto
    qed
  qed
qed


subsection \<open>Hashes\<close>

definition kids_ok :: "(bytes \<Rightarrow> hash) \<Rightarrow> ('v \<Rightarrow> hash) \<Rightarrow> 'v node \<Rightarrow> bool" where
  "kids_ok H rh h \<longleftrightarrow> hash_ok H rh (n_left h) \<and> hash_ok H rh (n_right h)"

text \<open>While the minimum of a subtree is being replaced, the hashes of its left spine are stale.\<close>

fun spine_ok :: "(bytes \<Rightarrow> hash) \<Rightarrow> ('v \<Rightarrow> hash) \<Rightarrow> 'v node option \<Rightarrow> bool" where
  "spine_ok H rh None = True"
| "spine_ok H rh (Some (Node k v l r c h)) = (spine_ok H rh l \<and> hash_ok H rh r)"

lemma spine_ok_Some [simp]:
  "spine_ok H rh (Some n) \<longleftrightarrow> spine_ok H rh (n_left n) \<and> hash_ok H rh (n_right n)"
  by (cases n) simp

declare spine_ok.simps(2) [simp del]

lemma hash_ok_flip_kids: "flip_colors h = Some h' \<Longrightarrow> kids_ok H rh h \<Longrightarrow> kids_ok H rh h'"
  by (auto simp: flip_colors_eq kids_ok_def)

lemma hash_ok_kids: "hash_ok H rh (Some h) \<Longrightarrow> kids_ok H rh h"
  by (simp add: kids_ok_def)

lemma kids_ok_rotate_right: "rotate_right H rh h = Some h' \<Longrightarrow> kids_ok H rh h \<Longrightarrow> kids_ok H rh h'"
  using hash_ok_rotate_right [of H rh h h'] by (auto simp: kids_ok_def)

lemma kids_ok_maybe_rotate_right:
  assumes "(if is_red (n_left h) then rotate_right H rh h else Some h) = Some h1" "kids_ok H rh h"
  shows "kids_ok H rh h1"
  using assms hash_ok_rotate_right [of H rh h h1] by (auto simp: kids_ok_def split: if_splits)

lemma kids_ok_ensure_red_right:
  assumes "ensure_red_right H rh h = Some h'" and "kids_ok H rh h"
  shows "kids_ok H rh h'"
  using assms
  by (auto simp: ensure_red_right_def move_red_right_def bind_eq_Some_conv split: if_splits
      dest!: hash_ok_flip_kids [of _ _ H rh] kids_ok_rotate_right)

lemma kids_ok_ensure_red_left:
  assumes "ensure_red_left H rh h = Some h'" and "kids_ok H rh h"
  shows "kids_ok H rh h'"
  using assms
  by (auto simp: ensure_red_left_def move_red_left_def bind_eq_Some_conv kids_ok_def
      flip_colors_eq rotate_right_eq rotate_left_eq split: if_splits)

lemma spine_ok_ensure_red_left:
  assumes "ensure_red_left H rh h = Some h'" and "spine_ok H rh (Some h)"
  shows "spine_ok H rh (Some h')"
  using assms
  by (auto simp: ensure_red_left_def move_red_left_def bind_eq_Some_conv
      flip_colors_eq rotate_right_eq rotate_left_eq split: if_splits)

lemma hash_ok_balance_update:
  assumes "balance H rh (update_subtree_hash H rh h) = Some h'" and "kids_ok H rh h"
  shows "hash_ok H rh (Some h')"
  by (rule hash_ok_balance [OF assms(1)]) (use assms(2) in \<open>simp add: kids_ok_def\<close>)

lemma delete_min_hash_ok:
  "delete_min H rh h = Some m \<Longrightarrow> spine_ok H rh (Some h) \<Longrightarrow> hash_ok H rh m"
proof (induction H rh h arbitrary: m rule: delete_min.induct)
  case (1 H rh h)
  show ?case
  proof (cases "Option.is_none (n_left h)")
    case True
    with "1.prems" show ?thesis by (auto simp: delete_min.simps [of H rh h] split: if_splits)
  next
    case False
    with "1.prems"(1) obtain h' l l' h'' where ex: "ensure_red_left H rh h = Some h'"
      "n_left h' = Some l" "delete_min H rh l = Some l'"
      and b: "balance H rh (update_subtree_hash H rh (set_left l' h')) = Some h''" "m = Some h''"
      by (auto simp: delete_min.simps [of H rh h] bind_eq_Some_conv)
    from spine_ok_ensure_red_left [OF ex(1) "1.prems"(2)] ex(2)
    have "spine_ok H rh (Some l)" "hash_ok H rh (n_right h')" by simp_all
    with "1.IH" [OF False ex] have "kids_ok H rh (set_left l' h')" by (simp add: kids_ok_def)
    with hash_ok_balance_update [OF b(1)] b(2) show ?thesis by simp
  qed
qed

lemma hash_ok_spine: "hash_ok H rh t \<Longrightarrow> spine_ok H rh t"
  by (induction t rule: node_ref_induct) auto

lemma spine_ok_set_min_entry: "spine_ok H rh (Some n) \<Longrightarrow> spine_ok H rh (Some (set_min_entry k v n))"
  by (induction k v n rule: set_min_entry.induct) auto

lemma delete_go_hash_ok:
  "delete_go H rh h key = Some m \<Longrightarrow> kids_ok H rh h \<Longrightarrow> hash_ok H rh m"
proof (induction "node_count (Some h)" arbitrary: h m rule: less_induct)
  case less
  show ?case
    using less.prems(1)
  proof (cases rule: delete_go_cases)
    case (left h' l l' h'')
    note k = kids_ok_ensure_red_left [OF left(2) less.prems(2)]
    have "node_count (Some l) < node_count (Some h)"
      using node_count_ensure_red_left [OF left(2)] left(3) by (simp add: node_count_Some)
    with less.hyps left(3,4) k have "hash_ok H rh l'" by (auto simp: kids_ok_def)
    with k hash_ok_balance_update [OF left(5)] left(6) show ?thesis by (simp add: kids_ok_def)
  next
    case (base h1)
    then show ?thesis by simp
  next
    case (swap h1 h2 r r' h3)
    note k = kids_ok_ensure_red_right [OF swap(3) kids_ok_maybe_rotate_right [OF swap(2) less.prems(2)]]
    with swap(4) have "spine_ok H rh (Some (set_min_entry (n_key h2) (n_value h2) r))"
      by (intro spine_ok_set_min_entry hash_ok_spine) (simp add: kids_ok_def)
    then have "hash_ok H rh r'" by (rule delete_min_hash_ok [OF swap(6)])
    with k hash_ok_balance_update [OF swap(7)] swap(8) show ?thesis by (simp add: kids_ok_def)
  next
    case (right h1 h2 r r' h3)
    note k = kids_ok_ensure_red_right [OF right(3) kids_ok_maybe_rotate_right [OF right(2) less.prems(2)]]
    have "node_count (Some h2) = node_count (Some h)"
      using node_count_ensure_red_right [OF right(3)] right(2) node_count_rotate_right
      by (auto split: if_splits)
    with right(4) have "node_count (Some r) < node_count (Some h)" by (simp add: node_count_Some)
    with less.hyps right(4,6) k have "hash_ok H rh r'" by (auto simp: kids_ok_def)
    with k hash_ok_balance_update [OF right(7)] right(8) show ?thesis by (simp add: kids_ok_def)
  qed
qed

end
