(* ===== verification/Rb_Correct.thy ===== *)
theory Rb_Correct
  imports Rb_Delete_Correct
begin

text \<open>
  The contract of the red-black tree as a map with a cached root hash. The locale
  \<open>hashed_map\<close> is the interface its client, the nested tree, relies on; it is
  interpreted on the operations of \<^verbatim>\<open>RbTree\<close>, which discharges its laws from the lemmas on
  insertion, deletion and modification.
\<close>

subsection \<open>Lookup and modification\<close>

lemma get_from_entries: "sorted_keys (entries t) \<Longrightarrow> get_from t key = map_of (entries t) key"
proof (induction t rule: node_ref_induct)
  case None
  then show ?case by simp
next
  case (Some k v l r c h)
  have no: "map_of (entries l) key = None" if "k \<le> key"
    using Some.prems that by (intro map_of_None_keys) auto
  have no': "map_of (entries r) key = None" if "key \<le> k"
    using Some.prems that by (intro map_of_None_keys) auto
  show ?case
    by (cases key k rule: bytes_cmp_cases)
      (use Some.IH Some.prems no no' less_imp_le [of key k] less_imp_le [of k key] in \<open>auto simp: map_add_def split: option.splits\<close>)
qed

definition mod_entry :: "bytes \<Rightarrow> 'v \<Rightarrow> (bytes \<times> 'v) list \<Rightarrow> (bytes \<times> 'v) list" where
  "mod_entry key v' = map (\<lambda>(k, v). (k, if k = key then v' else v))"

lemma map_of_mod_entry:
  "map_of (mod_entry key v' ps) x = (if x = key then map_option (\<lambda>_. v') (map_of ps x) else map_of ps x)"
  by (induction ps) (auto simp: mod_entry_def)

lemma mod_entry_id: "(\<And>p. p \<in> set ps \<Longrightarrow> fst p \<noteq> key) \<Longrightarrow> mod_entry key v' ps = ps"
  unfolding mod_entry_def by (rule map_idI) auto

lemma sorted_keys_mod_entry: "sorted_keys (mod_entry key v' ps) = sorted_keys ps"
  by (simp add: sorted_keys_def mod_entry_def sorted_wrt_map case_prod_unfold)

lemma mod_entry_append:
  "mod_entry key v' (ps @ (k, v) # qs) =
     mod_entry key v' ps @ (k, if k = key then v' else v) # mod_entry key v' qs"
  by (simp add: mod_entry_def)

lemma modify_go_absent:
  "sorted_keys (entries t) \<Longrightarrow> hash_ok H rh t \<Longrightarrow> map_of (entries t) key = None \<Longrightarrow>
     modify_go H rh t key f = Some t"
proof (induction t rule: node_ref_induct)
  case None
  then show ?case by simp
next
  case (Some k v l r c h)
  have "update_subtree_hash H rh (Node k v l r c h) = Node k v l r c h"
    using Some.prems(2) by (simp add: update_subtree_hash_def)
  with Some show ?case
    by (cases key k rule: bytes_cmp_cases) (auto simp: map_add_def split: option.splits if_splits)
qed

lemma modify_go_present:
  "sorted_keys (entries t) \<Longrightarrow> map_of (entries t) key = Some v \<Longrightarrow> f v = Some v' \<Longrightarrow>
     \<exists>t'. modify_go H rh t key f = Some t' \<and> entries t' = mod_entry key v' (entries t) \<and>
       (hash_ok H rh t \<longrightarrow> hash_ok H rh t') \<and> is_red t' = is_red t \<and> bheight t' = bheight t \<and>
       invh t' = invh t \<and> llrb t' = llrb t"
proof (induction t rule: node_ref_induct)
  case None
  then show ?case by simp
next
  case (Some k w l r c h)
  have no: "map_of (entries l) key = None" "mod_entry key v' (entries l) = entries l" if "k \<le> key"
    using Some.prems(1) that by (auto intro!: map_of_None_keys mod_entry_id)
  have no': "map_of (entries r) key = None" "mod_entry key v' (entries r) = entries r" if "key \<le> k"
    using Some.prems(1) that by (auto intro!: map_of_None_keys mod_entry_id)
  show ?case
  proof (cases key k rule: bytes_cmp_cases)
    case Less
    with Some.prems(2) no'(1) less_imp_le [OF Less(1)] have "map_of (entries l) key = Some v"
      by (auto simp: map_add_def split: option.splits if_splits)
    with Some.IH(1) Some.prems Less no' show ?thesis by (auto simp: mod_entry_append)
  next
    case Equal
    with Some.prems no no' show ?thesis by (auto simp: mod_entry_append map_add_def)
  next
    case Greater
    with Some.prems no have "map_of (entries r) key = Some v"
      by (auto simp: map_add_def split: option.splits if_splits)
    with Some.IH(2) Some.prems Greater no show ?thesis by (auto simp: mod_entry_append)
  qed
qed

subsection \<open>Well-formed trees\<close>

definition rb_wf :: "(bytes \<Rightarrow> hash) \<Rightarrow> ('v \<Rightarrow> hash) \<Rightarrow> 'v rb_tree \<Rightarrow> bool" where
  "rb_wf H rh t \<longleftrightarrow> sorted_keys (entries (root t)) \<and> llrb (root t) \<and> invh (root t) \<and>
     \<not> is_red (root t) \<and> hash_ok H rh (root t)"

definition rb_abs :: "'v rb_tree \<Rightarrow> bytes \<rightharpoonup> 'v" where
  "rb_abs t = map_of (entries (root t))"

lemma rb_wf_new: "rb_wf H rh rb_new" "rb_abs rb_new = Map.empty"
  by (simp_all add: rb_wf_def rb_new_def rb_abs_def)

lemma rb_get_abs: "rb_wf H rh t \<Longrightarrow> rb_get t key = rb_abs t key"
  by (simp add: rb_wf_def rb_get_def rb_abs_def get_from_entries)

lemma rb_insert_entries:
  assumes "rb_wf H rh t"
  obtains t' where "rb_insert H rh t k v = Some t'" "rb_wf H rh t'"
    "entries (root t') = upd_entry k v (entries (root t))"
proof -
  obtain n where n: "insert_go H rh (root t) k v = Some n" using insert_go_total [of H rh "root t" k v] by blast
  let ?t' = "RbTree (Some (set_color Black n))"
  have e: "entries (Some n) = upd_entry k v (entries (root t))"
    using insert_go_entries [OF _ n] assms by (simp add: rb_wf_def)
  then have "sorted_keys (entries (root ?t'))"
    using assms sorted_keys_upd_entry [of "entries (root t)" k v] by (simp add: rb_wf_def)
  moreover have "llrb (Some (set_color Black n)) \<and> invh (Some (set_color Black n))"
    using insert_go_inv [OF _ _ n] assms by (auto simp: rb_wf_def)
  moreover have "hash_ok H rh (Some (set_color Black n))"
    using insert_go_hash_ok [OF _ n] assms by (auto simp: rb_wf_def)
  ultimately have "rb_wf H rh ?t'" by (simp add: rb_wf_def)
  with n e show thesis by (intro that [of ?t']) (simp_all add: rb_insert_def)
qed

lemma rb_delete_entries:
  assumes "rb_wf H rh t"
  obtains t' where "rb_delete H rh t k = Some t'" "rb_wf H rh t'"
    "entries (root t') = del_entry k (entries (root t))"
proof (cases "rb_get t k")
  case None
  then have "map_of (entries (root t)) k = None"
    using rb_get_abs [OF assms] by (simp add: rb_abs_def)
  then have "del_entry k (entries (root t)) = entries (root t)"
    by (force simp: del_entry_def filter_id_conv map_of_eq_None_iff)
  with None assms that [of t] show thesis by (simp add: rb_delete_def)
next
  case (Some v)
  then obtain n where n: "root t = Some n" by (cases "root t") (auto simp: rb_get_def)
  define n' where "n' = (if \<not> is_red (n_left n) \<and> \<not> is_red (n_right n) then set_color Red n else n)"
  have e: "entries (Some n') = entries (root t)" by (simp add: n n'_def)
  have s: "sorted_keys (entries (Some n'))" using assms unfolding e by (simp add: rb_wf_def)
  have key: "k \<in> fst ` set (entries (Some n'))"
    unfolding e using Some rb_get_abs [OF assms, of k]
    by (metis domI dom_map_of_conv_image_fst rb_abs_def)
  have "ready n'" using assms by (auto simp: n n'_def ready_def rb_wf_def)
  with delete_go_shrunk [OF s key] obtain m where m: "delete_go H rh n' k = Some m" "shrunk n' m"
    by blast
  let ?t' = "RbTree (map_option (set_color Black) m)"
  have em: "entries m = del_entry k (entries (root t))"
    using delete_go_entries [OF m(1) s] unfolding e .
  have "hash_ok H rh m"
    by (rule delete_go_hash_ok [OF m(1)]) (use assms in \<open>simp add: n n'_def kids_ok_def rb_wf_def\<close>)
  moreover have "sorted_keys (entries (root ?t'))"
    using em assms sorted_keys_del_entry [of "entries (root t)" k] by (simp add: rb_wf_def)
  ultimately have wf: "rb_wf H rh ?t'"
    using m(2) by (cases m) (auto simp: rb_wf_def shrunk_def)
  then have "rb_get ?t' k = None"
    using rb_get_abs [OF wf, of k] em map_of_del_entry [of k "entries (root t)"] by (simp add: rb_abs_def)
  with Some n m(1) have "rb_delete H rh t k = Some ?t'" by (simp add: rb_delete_def n'_def)
  with wf em show thesis by (intro that [of ?t']) simp_all
qed

lemma rb_modify_entries:
  assumes "rb_wf H rh t" and "\<And>v. rb_abs t k = Some v \<Longrightarrow> f v \<noteq> None"
  obtains t' where "rb_modify H rh t k f = Some t'" "rb_wf H rh t'"
    "rb_abs t' = (rb_abs t)(k := Option.bind (rb_abs t k) f)"
proof (cases "rb_abs t k")
  case None
  with assms have "rb_modify H rh t k f = Some t"
    by (simp add: rb_modify_def rb_abs_def rb_wf_def modify_go_absent)
  with None assms show thesis by (intro that) auto
next
  case (Some v)
  with assms obtain v' where v': "f v = Some v'" by auto
  from assms have s: "sorted_keys (entries (root t))" by (simp add: rb_wf_def)
  from modify_go_present [where f = f, OF s Some [unfolded rb_abs_def] v', of H rh] obtain t' where t':
    "modify_go H rh (root t) k f = Some t'" "entries t' = mod_entry k v' (entries (root t))"
    "hash_ok H rh (root t) \<longrightarrow> hash_ok H rh t'" "is_red t' = is_red (root t)"
    "invh t' = invh (root t)" "llrb t' = llrb (root t)" by blast
  then have "rb_wf H rh (RbTree t')"
    using assms(1) by (simp add: rb_wf_def sorted_keys_mod_entry)
  moreover have "rb_abs (RbTree t') = (rb_abs t)(k := Option.bind (rb_abs t k) f)"
    using Some v' by (auto simp: rb_abs_def t'(2) map_of_mod_entry)
  ultimately show thesis using t'(1) by (intro that [of "RbTree t'"]) (simp_all add: rb_modify_def)
qed


subsection \<open>The map interface\<close>

datatype 'v map_op = Put bytes 'v | Del bytes

fun run_ops ::
  "('m \<Rightarrow> bytes \<Rightarrow> 'v \<Rightarrow> 'm option) \<Rightarrow> ('m \<Rightarrow> bytes \<Rightarrow> 'm option) \<Rightarrow> 'v map_op list \<Rightarrow> 'm \<Rightarrow>
     'm option" where
  "run_ops put del [] t = Some t"
| "run_ops put del (Put k v # ops) t = do { t' \<leftarrow> put t k v; run_ops put del ops t' }"
| "run_ops put del (Del k # ops) t = do { t' \<leftarrow> del t k; run_ops put del ops t' }"

fun map_spec :: "'v map_op list \<Rightarrow> (bytes \<rightharpoonup> 'v) \<Rightarrow> (bytes \<rightharpoonup> 'v)" where
  "map_spec [] m = m"
| "map_spec (Put k v # ops) m = map_spec ops (m(k \<mapsto> v))"
| "map_spec (Del k # ops) m = map_spec ops (m(k := None))"

locale hashed_map =
  fixes wf :: "'m \<Rightarrow> bool" and abs :: "'m \<Rightarrow> bytes \<rightharpoonup> 'v"
    and new :: 'm
    and get :: "'m \<Rightarrow> bytes \<Rightarrow> 'v option"
    and put :: "'m \<Rightarrow> bytes \<Rightarrow> 'v \<Rightarrow> 'm option"
    and del :: "'m \<Rightarrow> bytes \<Rightarrow> 'm option"
    and upd :: "'m \<Rightarrow> bytes \<Rightarrow> ('v \<Rightarrow> 'v option) \<Rightarrow> 'm option"
  assumes wf_new: "wf new" and abs_new: "abs new = Map.empty"
    and get_abs: "wf t \<Longrightarrow> get t k = abs t k"
    and put_law: "wf t \<Longrightarrow> \<exists>t'. put t k v = Some t' \<and> wf t' \<and> abs t' = (abs t)(k \<mapsto> v)"
    and del_law: "wf t \<Longrightarrow> \<exists>t'. del t k = Some t' \<and> wf t' \<and> abs t' = (abs t)(k := None)"
    and upd_law: "wf t \<Longrightarrow> (\<And>v. abs t k = Some v \<Longrightarrow> f v \<noteq> None) \<Longrightarrow>
      \<exists>t'. upd t k f = Some t' \<and> wf t' \<and> abs t' = (abs t)(k := Option.bind (abs t k) f)"
begin

lemma putE:
  assumes "wf t"
  obtains t' where "put t k v = Some t'" "wf t'" "abs t' = (abs t)(k \<mapsto> v)"
  using put_law [OF assms] by blast

lemma delE:
  assumes "wf t"
  obtains t' where "del t k = Some t'" "wf t'" "abs t' = (abs t)(k := None)"
  using del_law [OF assms] by blast

lemma get_put: "wf t \<Longrightarrow> put t k v = Some t' \<Longrightarrow> get t' x = (if x = k then Some v else get t x)"
  using put_law [of t k v] by (auto simp: get_abs)

lemma get_del: "wf t \<Longrightarrow> del t k = Some t' \<Longrightarrow> get t' x = (if x = k then None else get t x)"
  using del_law [of t k] by (auto simp: get_abs)

lemma run_ops_spec:
  "wf t \<Longrightarrow> \<exists>t'. run_ops put del ops t = Some t' \<and> wf t' \<and> get t' = map_spec ops (abs t)"
proof (induction ops arbitrary: t)
  case Nil
  then show ?case by (auto simp: get_abs)
next
  case (Cons a ops)
  show ?case
  proof (cases a)
    case (Put k v)
    from put_law [OF Cons.prems] obtain t' where
      t': "put t k v = Some t'" "wf t'" "abs t' = (abs t)(k \<mapsto> v)" by blast
    with Cons.IH [OF t'(2)] Put show ?thesis by (simp add: fun_upd_def)
  next
    case (Del k)
    from del_law [OF Cons.prems] obtain t' where
      t': "del t k = Some t'" "wf t'" "abs t' = (abs t)(k := None)" by blast
    with Cons.IH [OF t'(2)] Del show ?thesis by (simp add: fun_upd_def)
  qed
qed

end

interpretation rb: hashed_map "rb_wf H rh" rb_abs rb_new rb_get "rb_insert H rh" "rb_delete H rh"
  "rb_modify H rh" for H rh
proof (unfold_locales, goal_cases)
  case 1 show ?case by (rule rb_wf_new)
next
  case 2 show ?case by (rule rb_wf_new)
next
  case (3 t k) then show ?case by (rule rb_get_abs)
next
  case (4 t k v)
  then show ?case
    by (rule rb_insert_entries [where k = k and v = v]) (auto simp: rb_abs_def map_of_upd_entry)
next
  case (5 t k)
  then show ?case
    by (rule rb_delete_entries [where k = k]) (auto simp: rb_abs_def map_of_del_entry)
next
  case (6 t k f)
  then show ?case by (rule rb_modify_entries) auto
qed

subsection \<open>Balance\<close>

lemma left_black_count_bheight: "left_black_count t = bheight t"
  by (induction t rule: node_ref_induct) auto

lemma is_balanced_go_inv: "invh t \<Longrightarrow> llrb t \<Longrightarrow> is_balanced_go t (bheight t) = Some True"
  by (induction t rule: node_ref_induct) auto

lemma is_balanced_wf: "rb_wf H rh t \<Longrightarrow> is_balanced (root t) = Some True"
  by (simp add: is_balanced_def left_black_count_bheight is_balanced_go_inv rb_wf_def)

fun tree_height :: "'v node option \<Rightarrow> nat" where
  "tree_height None = 0"
| "tree_height (Some (Node k v l r c h)) = Suc (max (tree_height l) (tree_height r))"

lemma bheight_node_count: "invh t \<Longrightarrow> 2 ^ bheight t \<le> Suc (node_count t)"
  by (induction t rule: node_ref_induct) (auto split: if_splits)

lemma height_bheight:
  "invh t \<Longrightarrow> llrb t \<Longrightarrow> tree_height t \<le> 2 * bheight t + (if is_red t then 1 else 0)"
proof (induction t rule: node_ref_induct)
  case None
  then show ?case by simp
next
  case (Some k v l r c h)
  then show ?case by (cases c) (auto split: if_splits)
qed

lemma height_bound:
  assumes "rb_wf H rh t"
  shows "2 ^ ((tree_height (root t) + 1) div 2) \<le> Suc (node_count (root t))"
proof -
  from assms have inv: "invh (root t)" "llrb (root t)" "\<not> is_red (root t)" by (simp_all add: rb_wf_def)
  from height_bheight [OF inv(1,2)] inv(3) have "(tree_height (root t) + 1) div 2 \<le> bheight (root t)"
    by simp
  then have "(2::nat) ^ ((tree_height (root t) + 1) div 2) \<le> 2 ^ bheight (root t)" by simp
  also have "\<dots> \<le> Suc (node_count (root t))" by (rule bheight_node_count [OF inv(1)])
  finally show ?thesis .
qed

subsection \<open>Properties\<close>

text \<open>C7: Every sequence of insertions and deletions on an empty red-black tree runs without
  reaching a panic or a failed debug assertion; afterwards lookup is that of the map of the
  operations, the balance check of the tests succeeds, and the height is at most twice the
  logarithm of the number of entries.\<close>

theorem rb_tree_history:
  "\<exists>t. run_ops (rb_insert H rh) (rb_delete H rh) ops rb_new = Some t \<and>
    rb_get t = map_spec ops Map.empty \<and> is_balanced (root t) = Some True \<and>
    2 ^ ((tree_height (root t) + 1) div 2) \<le> Suc (node_count (root t))"
proof -
  from rb.run_ops_spec [OF rb_wf_new(1), of H rh ops] obtain t where
    t: "run_ops (rb_insert H rh) (rb_delete H rh) ops rb_new = Some t" "rb_wf H rh t"
    "rb_get t = map_spec ops (rb_abs (rb_new :: 'a rb_tree))" by blast
  then show ?thesis using is_balanced_wf [OF t(2)] height_bound [OF t(2)] by (auto simp: rb_wf_new)
qed

text \<open>Deleting a key from a well-formed tree removes exactly the entry of that key, keeps the
  order of the others, the red-black invariants and every cached hash, and cannot panic.\<close>

theorem rb_delete_exact:
  assumes "rb_wf H rh t"
  shows "\<exists>t'. rb_delete H rh t k = Some t' \<and> rb_wf H rh t' \<and>
    entries (root t') = filter (\<lambda>p. fst p \<noteq> k) (entries (root t))"
  using rb_delete_entries [OF assms, of k] by (auto simp: del_entry_def)

theorem rb_delete_exact_witness:
  "\<exists>t'. rb_delete (\<lambda>x. x) (\<lambda>v. v) (RbTree (Some (set_color Black
      (new_node (\<lambda>x. x) (\<lambda>v. v) [1] [2])))) [1] = Some t' \<and> rb_wf (\<lambda>x. x) (\<lambda>v. v) t' \<and>
    entries (root t') = []"
  using rb_delete_exact [of "\<lambda>x. x" "\<lambda>v. v" "RbTree (Some (set_color Black
      (new_node (\<lambda>x. x) (\<lambda>v. v) [1] [2])))" "[1]"]
  by (simp add: rb_wf_def new_node_def compute_subtree_hash_def data_hash_def)

text \<open>Modifying a value in place, when the closure does not panic on it, changes that value
  only and leaves a well-formed tree with exact hashes.\<close>

theorem rb_modify_exact:
  assumes "rb_wf H rh t" and "\<And>v. rb_get t k = Some v \<Longrightarrow> f v \<noteq> None"
  shows "\<exists>t'. rb_modify H rh t k f = Some t' \<and> rb_wf H rh t' \<and>
    rb_get t' = (rb_get t)(k := Option.bind (rb_get t k) f)"
proof -
  have "rb_abs t = rb_get t" using rb_get_abs [OF assms(1)] by auto
  with rb_modify_entries [OF assms(1), of k f] assms(2) obtain t' where
    t': "rb_modify H rh t k f = Some t'" "rb_wf H rh t'"
    "rb_abs t' = (rb_get t)(k := Option.bind (rb_get t k) f)" by metis
  then have "rb_get t' = rb_abs t'" using rb_get_abs [OF t'(2)] by auto
  with t' show ?thesis by metis
qed

theorem rb_modify_exact_witness:
  "\<exists>t'. rb_modify (\<lambda>x. x) (\<lambda>v. v) (RbTree (Some (set_color Black
      (new_node (\<lambda>x. x) (\<lambda>v. v) [1] [2])))) [1] (\<lambda>_. Some [3]) = Some t' \<and> rb_get t' [1] = Some [3]"
proof -
  let ?t = "RbTree (Some (set_color Black (new_node (\<lambda>x. x) (\<lambda>v. v) [1] [2])))"
  have "rb_wf (\<lambda>x. x) (\<lambda>v. v) ?t"
    by (simp add: rb_wf_def new_node_def compute_subtree_hash_def data_hash_def)
  moreover have "rb_get ?t [1] = Some [2]" by (simp add: rb_get_def new_node_def)
  ultimately show ?thesis using rb_modify_exact [of "\<lambda>x. x" "\<lambda>v. v" ?t "[1]" "\<lambda>_. Some [3]"] by auto
qed

end
