(* ===== verification/Rb_Witness_Correct.thy ===== *)
theory Rb_Witness_Correct
  imports Rb_Witness Rb_Correct Hash_Tree_Pruning
begin

text \<open>
  What the witnesses of the red-black tree prove. Every witness is a pruning of the tree's full
  hash tree, so its digest is the root hash; a witness for a key shows its value or its absence,
  and a range or prefix witness answers for every key of the range.
\<close>

subsection \<open>The full hash tree\<close>

definition values_ok :: "(bytes \<Rightarrow> hash) \<Rightarrow> ('v \<Rightarrow> hash) \<Rightarrow> ('v \<Rightarrow> hash_tree) \<Rightarrow> 'v node option \<Rightarrow> bool" where
  "values_ok H rh aht t \<longleftrightarrow>
     (\<forall>p \<in> set (entries t). digest H (aht (snd p)) = rh (snd p) \<and> sorted_tree (aht (snd p)))"

lemma values_ok_Some [simp]:
  "values_ok H rh aht (Some (Node k v l r c h)) \<longleftrightarrow>
     digest H (aht v) = rh v \<and> sorted_tree (aht v) \<and> values_ok H rh aht l \<and> values_ok H rh aht r"
  by (auto simp: values_ok_def)

lemma values_ok_None [simp]: "values_ok H rh aht None"
  by (simp add: values_ok_def)

abbreviation keys_of :: "'v node option \<Rightarrow> bytes set" where
  "keys_of t \<equiv> fst ` set (entries t)"

abbreviation full_tree :: "(bytes \<Rightarrow> hash) \<Rightarrow> ('v \<Rightarrow> hash_tree) \<Rightarrow> 'v node option \<Rightarrow> hash_tree" where
  "full_tree H aht t \<equiv> full_witness_tree H (data_tree aht) t"

lemma data_tree_Node [simp]: "data_tree aht (Node k v l r c h) = Labeled k (aht v)"
  by (simp add: data_tree_def)

lemma three_way_Labeled:
  "three_way_fork H l (Labeled k x) r =
     (if r = Empty then (if l = Empty then Labeled k x else Fork l (Labeled k x))
      else if l = Empty then Fork (Labeled k x) r else Fork l (Fork (Labeled k x) r))"
  by (cases l; cases r) auto

lemma three_way_Pruned:
  "three_way_fork H l (Pruned d) r =
     (if r = Empty then (if l = Empty then Pruned d else Fork l (Pruned d))
      else if l = Empty then Fork (Pruned d) r
      else case r of
        Pruned e \<Rightarrow> (case l of Pruned b \<Rightarrow> Pruned (fork_hash H b (fork_hash H d e))
                     | _ \<Rightarrow> Fork l (Pruned (fork_hash H d e)))
      | _ \<Rightarrow> Fork l (Fork (Pruned d) r))"
  by (cases l; cases r) auto

lemma full_tree_Empty [simp]:
  "full_tree H aht t = Empty \<longleftrightarrow> t = None" "Empty = full_tree H aht t \<longleftrightarrow> t = None"
  by (cases t rule: node_ref_cases; auto simp: three_way_Labeled)+

lemma full_tree_labels: "tree_labels (full_tree H aht t) = map fst (entries t)"
  by (induction t rule: node_ref_induct) (auto simp: three_way_Labeled)

lemma full_tree_forkable: "t \<noteq> None \<Longrightarrow> forkable (full_tree H aht t)"
  by (induction t rule: node_ref_induct) (auto simp: three_way_Labeled)

lemma full_tree_sorted:
  "sorted_keys (entries t) \<Longrightarrow> values_ok H rh aht t \<Longrightarrow> sorted_tree (full_tree H aht t)"
proof (induction t rule: node_ref_induct)
  case None
  then show ?case by simp
next
  case (Some k v l r c h)
  from Some.prems(1) have lt: "fst p < k" if "p \<in> set (entries l)" for p using that by simp
  from Some.prems(1) have gt: "k < fst q" if "q \<in> set (entries r)" for q using that by simp
  have "fst p < fst q" if "p \<in> set (entries l)" "q \<in> set (entries r)" for p q
    using lt [OF that(1)] gt [OF that(2)] by simp
  with Some lt gt show ?case
    by (cases "l = None"; cases "r = None")
      (simp_all add: three_way_Labeled full_tree_labels full_tree_forkable)
qed

lemma full_tree_digest:
  "hash_ok H rh t \<Longrightarrow> values_ok H rh aht t \<Longrightarrow>
     digest H (full_tree H aht t) = (case t of None \<Rightarrow> digest H Empty | Some n \<Rightarrow> n_hash n)"
proof (induction t rule: node_ref_induct)
  case None
  then show ?case by simp
next
  case (Some k v l r c h)
  then show ?case
    by (cases l; cases r) (auto simp: three_way_Labeled compute_subtree_hash_def data_hash_def Let_def)
qed

lemma full_tree_lookup:
  assumes "sorted_keys (entries t)" and "map_of (entries t) key = Some v"
  shows "lookup_label (full_tree H aht t) key = LLR_Found (aht v)"
  using assms
proof (induction t rule: node_ref_induct)
  case None
  then show ?case by simp
next
  case (Some k w l r c h)
  have no: "map_of (entries l) key = None" if "k \<le> key"
    using Some.prems(1) that by (intro map_of_None_keys) auto
  have no': "map_of (entries r) key = None" if "key \<le> k"
    using Some.prems(1) that by (intro map_of_None_keys) auto
  have gt: "l = None \<or> lookup_label (full_tree H aht l) key = LLR_Greater" if "k \<le> key"
  proof (cases "l = None")
    case False
    have "fst p < key" if "p \<in> set (entries l)" for p
      using Some.prems(1) that \<open>k \<le> key\<close> less_le_trans [of "fst p" k key] by simp
    with lookup_label_all_less [OF full_tree_forkable [OF False]] show ?thesis
      by (simp add: full_tree_labels)
  qed simp
  show ?case
  proof (cases key k rule: bytes_cmp_cases)
    case Less
    with Some.prems no' have "map_of (entries l) key = Some v"
      by (auto simp: map_add_def less_imp_le split: option.splits if_splits)
    with Some.IH(1) Some.prems(1) Less show ?thesis by (cases "l = None") (auto simp: three_way_Labeled)
  next
    case Equal
    with Some.prems no no' gt show ?thesis by (auto simp: three_way_Labeled map_add_def)
  next
    case Greater
    with Some.prems no have "map_of (entries r) key = Some v"
      by (auto simp: map_add_def less_imp_le split: option.splits if_splits)
    with Some.IH(2) Some.prems(1) Greater gt show ?thesis
      by (cases "r = None") (auto simp: three_way_Labeled less_imp_le)
  qed
qed

subsection \<open>Witnesses are prunings\<close>

lemma prunes_three_way:
  assumes "prunes H wl l" "l = Empty \<longrightarrow> wl = Empty" "prunes H wr r" "r = Empty \<longrightarrow> wr = Empty"
    and "prunes H wm (Labeled k x)"
  shows "prunes H (three_way_fork H wl wm wr) (three_way_fork H l (Labeled k x) r)"
  using assms
  by (cases wm) (auto simp: three_way_Labeled three_way_Pruned split: hash_tree.splits)


text \<open>The functions that turn a node into its revealed part: \<open>data_tree\<close> shows the whole value,
  \<open>witness_tree\<close> the key only.\<close>

definition node_pruner ::
  "(bytes \<Rightarrow> hash) \<Rightarrow> ('v \<Rightarrow> hash) \<Rightarrow> ('v \<Rightarrow> hash_tree) \<Rightarrow> ('v node \<Rightarrow> hash_tree) \<Rightarrow> bool" where
  "node_pruner H rh aht f \<longleftrightarrow>
     (\<forall>n. digest H (aht (n_value n)) = rh (n_value n) \<longrightarrow>
       (\<exists>x. f n = Labeled (n_key n) x \<and> prunes H x (aht (n_value n))))"

lemma node_pruners: "node_pruner H rh aht (data_tree aht)" "node_pruner H rh aht (witness_tree rh)"
  by (auto simp: node_pruner_def data_tree_def witness_tree_def)

lemma node_prunerD:
  assumes "node_pruner H rh aht f" and "digest H (aht v) = rh v"
  shows "prunes H (f (Node k v l r c h)) (Labeled k (aht v))"
  using assms(1) [unfolded node_pruner_def, rule_format, of "Node k v l r c h"] assms(2) by auto

lemma witness_tree_Node [simp]: "witness_tree rh (Node k v l r c h) = Labeled k (Pruned (rh v))"
  by (simp add: witness_tree_def)

lemma full_tree_Node:
  "full_tree H aht (Some (Node k v l r c h)) =
     three_way_fork H (full_tree H aht l) (Labeled k (aht v)) (full_tree H aht r)"
  by simp

lemma side_trees_prune:
  assumes "hash_ok H rh (Some n)" and "values_ok H rh aht (Some n)"
  shows "prunes H (left_hash_tree n) (full_tree H aht (n_left n))"
    and "prunes H (right_hash_tree n) (full_tree H aht (n_right n))"
    and "left_hash_tree n = Empty \<longleftrightarrow> n_left n = None" and "right_hash_tree n = Empty \<longleftrightarrow> n_right n = None"
    and "prunes H (Pruned (data_hash H rh n)) (Labeled (n_key n) (aht (n_value n)))"
  using assms
  by (cases n; auto simp: left_hash_tree_def right_hash_tree_def full_tree_digest data_hash_def
      split: option.splits)+

text \<open>Every recursive witness function returns a pruning of the full tree, \<^term>\<open>Empty\<close> exactly
  for an empty tree.\<close>

definition pruning_of :: "(bytes \<Rightarrow> hash) \<Rightarrow> ('v \<Rightarrow> hash_tree) \<Rightarrow> 'v node option \<Rightarrow> hash_tree \<Rightarrow> bool" where
  "pruning_of H aht t w \<longleftrightarrow> prunes H w (full_tree H aht t) \<and> (w = Empty \<longleftrightarrow> t = None)"

lemma three_way_Empty [simp]: "m \<noteq> Empty \<Longrightarrow> three_way_fork H l m r \<noteq> Empty"
  by (cases "(H, l, m, r)" rule: three_way_fork.cases) auto

lemma pruning_of_three_way:
  assumes "pruning_of H aht l wl" "pruning_of H aht r wr" "prunes H wm (Labeled k (aht v))"
  shows "pruning_of H aht (Some (Node k v l r c h)) (three_way_fork H wl wm wr)"
proof -
  from assms(3) have "wm \<noteq> Empty" by auto
  with assms prunes_three_way [of H wl "full_tree H aht l" wr "full_tree H aht r" wm k "aht v"]
  show ?thesis by (simp add: pruning_of_def)
qed

lemma pruning_of_sides:
  assumes "hash_ok H rh (Some n)" and "values_ok H rh aht (Some n)"
  shows "pruning_of H aht (n_left n) (left_hash_tree n)" "pruning_of H aht (n_right n) (right_hash_tree n)"
  using side_trees_prune [OF assms] by (simp_all add: pruning_of_def)

lemma full_witness_tree_prunes:
  "values_ok H rh aht t \<Longrightarrow> node_pruner H rh aht f \<Longrightarrow> pruning_of H aht t (full_witness_tree H f t)"
proof (induction t rule: node_ref_induct)
  case None
  then show ?case by (simp add: pruning_of_def)
next
  case (Some k v l r c h)
  then show ?case using node_prunerD [of H rh aht f v k l r c h]
    by (simp add: pruning_of_three_way)
qed

lemma pruning_step:
  assumes "hash_ok H rh (Some (Node k v l r c h))" and "values_ok H rh aht (Some (Node k v l r c h))"
    and "node_pruner H rh aht f"
  shows "pruning_of H aht l (left_hash_tree (Node k v l r c h))"
    and "pruning_of H aht r (right_hash_tree (Node k v l r c h))"
    and "prunes H (f (Node k v l r c h)) (Labeled k (aht v))"
    and "prunes H (Labeled k (Pruned (rh v))) (Labeled k (aht v))"
    and "prunes H (Pruned (data_hash H rh (Node k v l r c h))) (Labeled k (aht v))"
    and "pruning_of H aht l (full_witness_tree H f l)" and "pruning_of H aht r (full_witness_tree H f r)"
  using pruning_of_sides [OF assms(1,2)] side_trees_prune(5) [OF assms(1,2)]
    node_prunerD [OF assms(3)] assms full_witness_tree_prunes [of H rh aht _ f] by simp_all

lemma witness_range_above_prunes:
  "hash_ok H rh t \<Longrightarrow> values_ok H rh aht t \<Longrightarrow> node_pruner H rh aht f \<Longrightarrow>
     pruning_of H aht t (witness_range_above_go H rh t lo f)"
proof (induction t rule: node_ref_induct)
  case None
  then show ?case by (simp add: pruning_of_def)
next
  case (Some k v l r c h)
  note step = pruning_step [OF Some.prems]
  show ?case
    using Some step
    by (auto simp: Let_def simp del: full_witness_tree.simps split: cmp_ordering.splits key_bound.splits
        intro!: pruning_of_three_way)
qed

lemma witness_range_below_prunes:
  "hash_ok H rh t \<Longrightarrow> values_ok H rh aht t \<Longrightarrow> node_pruner H rh aht f \<Longrightarrow>
     pruning_of H aht t (witness_range_below_go H rh t hi f)"
proof (induction t rule: node_ref_induct)
  case None
  then show ?case by (simp add: pruning_of_def)
next
  case (Some k v l r c h)
  note step = pruning_step [OF Some.prems]
  show ?case
    using Some step
    by (auto simp: Let_def simp del: full_witness_tree.simps split: cmp_ordering.splits key_bound.splits
        intro!: pruning_of_three_way)
qed

lemma witness_range_between_prunes:
  "hash_ok H rh t \<Longrightarrow> values_ok H rh aht t \<Longrightarrow> node_pruner H rh aht f \<Longrightarrow>
     pruning_of H aht t (witness_range_between_go H rh t lo hi f)"
proof (induction t rule: node_ref_induct)
  case None
  then show ?case by (simp add: pruning_of_def)
next
  case (Some k v l r c h)
  note step = pruning_step [OF Some.prems]
  have whole: "pruning_of H aht (Some (Node k v l r c h)) (Pruned h)"
    using full_tree_digest [OF Some.prems(1,2)] by (simp add: pruning_of_def)
  show ?case
    using Some step whole
    by (auto simp: Let_def simp del: full_witness_tree.simps split: cmp_ordering.splits key_bound.splits
        intro!: pruning_of_three_way)
qed

lemma lookup_and_build_witness_None:
  "get_from t key = None \<Longrightarrow> lookup_and_build_witness_go H rh t key f = Some None"
  by (induction t rule: node_ref_induct) (auto simp: Let_def split: cmp_ordering.splits)

lemma lookup_in_right:
  assumes "lookup_label wr key = LLR_Found x"
  shows "lookup_label (three_way_fork H (left_hash_tree n) (Pruned d) wr) key = LLR_Found x"
  using assms by (auto simp: three_way_Pruned left_hash_tree_def split: option.splits hash_tree.splits)

lemma lookup_in_left:
  assumes "lookup_label wl key = LLR_Found x"
  shows "lookup_label (three_way_fork H wl m wr) key = LLR_Found x"
  using assms
  by (cases "(H, wl, m, wr)" rule: three_way_fork.cases) (auto split: lookup_label_result.splits)

lemma lookup_here:
  "lookup_label (three_way_fork H (left_hash_tree n) (Labeled key x) (right_hash_tree n)) key = LLR_Found x"
  by (auto simp: three_way_Labeled left_hash_tree_def split: option.splits)

lemma lookup_and_build_witness_Some:
  "get_from t key = Some v \<Longrightarrow> f v = Some x \<Longrightarrow> hash_ok H rh t \<Longrightarrow> values_ok H rh aht t \<Longrightarrow>
     prunes H x (aht v) \<Longrightarrow>
     \<exists>w. lookup_and_build_witness_go H rh t key f = Some (Some w) \<and> lookup_label w key = LLR_Found x \<and>
       pruning_of H aht t w"
proof (induction t rule: node_ref_induct)
  case None
  then show ?case by simp
next
  case (Some k v' l r c h)
  note step = pruning_step [OF Some.prems(3,4) node_pruners(1)]
  show ?case
  proof (cases key k rule: bytes_cmp_cases)
    case Less
    with Some.IH(1) Some.prems step show ?thesis
      by (auto simp: Let_def lookup_in_left intro!: pruning_of_three_way)
  next
    case Equal
    with Some.prems step lookup_here [of H "Node k v' l r c h" key x] show ?thesis
      by (auto simp: Let_def subtree_with_def intro!: pruning_of_three_way)
  next
    case Greater
    with Some.IH(2) Some.prems step show ?thesis
      by (auto simp: Let_def lookup_in_right intro!: pruning_of_three_way)
  qed
qed

subsection \<open>Answers of a range witness\<close>

text \<open>\<open>covers w K R key x\<close>: the witness \<open>w\<close> of a subtree with the keys \<open>K\<close>, of which those in \<open>R\<close>
  are revealed, answers the lookup of \<open>key\<close>: it finds \<open>x\<close> if the key is there, and shows its
  absence by the revealed neighbours otherwise.\<close>

definition covers :: "hash_tree \<Rightarrow> bytes set \<Rightarrow> bytes set \<Rightarrow> bytes \<Rightarrow> hash_tree \<Rightarrow> bool" where
  "covers w K R key x \<longleftrightarrow>
     (key \<in> K \<longrightarrow> lookup_label w key = LLR_Found x) \<and>
     (key \<notin> K \<longrightarrow>
       ((\<exists>k \<in> K \<inter> R. k < key) \<and> (\<exists>k \<in> K \<inter> R. key < k) \<longrightarrow> lookup_label w key = LLR_Absent) \<and>
       ((\<exists>k \<in> K \<inter> R. k < key) \<and> (\<forall>k \<in> K. k < key) \<longrightarrow> lookup_label w key = LLR_Greater) \<and>
       ((\<exists>k \<in> K \<inter> R. key < k) \<and> (\<forall>k \<in> K. key < k) \<longrightarrow> lookup_label w key = LLR_Less))"

definition convex :: "bytes set \<Rightarrow> bool" where
  "convex R \<longleftrightarrow> (\<forall>x \<in> R. \<forall>y \<in> R. \<forall>z. x \<le> z \<and> z \<le> y \<longrightarrow> z \<in> R)"

lemma covers_hidden: "key \<in> R \<Longrightarrow> K \<inter> R = {} \<Longrightarrow> covers w K R key x"
  by (auto simp: covers_def)

lemma look_label_less:
  "key < k \<Longrightarrow> lookup_label (three_way_fork H wl (Labeled k y) wr) key =
     (if wl = Empty then LLR_Less
      else case lookup_label wl key of LLR_Greater \<Rightarrow> LLR_Absent | a \<Rightarrow> a)"
  by (auto simp: three_way_Labeled split: lookup_label_result.splits)

lemma look_label_geq:
  "k \<le> key \<Longrightarrow> wl = Empty \<or> lookup_label wl key = LLR_Unknown \<or> lookup_label wl key = LLR_Greater \<Longrightarrow>
     lookup_label (three_way_fork H wl (Labeled k y) wr) key =
       (if key = k then LLR_Found y else if wr = Empty then LLR_Greater
        else case lookup_label wr key of LLR_Less \<Rightarrow> LLR_Absent | a \<Rightarrow> a)"
  by (cases key k rule: bytes_cmp_cases)
    (auto simp: three_way_Labeled split: lookup_label_result.splits)

lemma look_pruned_left:
  "wl \<noteq> Empty \<Longrightarrow> lookup_label wl key \<noteq> LLR_Unknown \<Longrightarrow> lookup_label wl key \<noteq> LLR_Greater \<Longrightarrow>
     lookup_label (three_way_fork H wl (Pruned d) wr) key = lookup_label wl key"
  by (auto simp: three_way_Pruned split: lookup_label_result.splits hash_tree.splits)

lemma look_pruned_right:
  "wr \<noteq> Empty \<Longrightarrow> lookup_label wr key \<noteq> LLR_Unknown \<Longrightarrow> lookup_label wr key \<noteq> LLR_Less \<Longrightarrow>
     wl = Empty \<or> lookup_label wl key = LLR_Unknown \<or> lookup_label wl key = LLR_Greater \<Longrightarrow>
     lookup_label (three_way_fork H wl (Pruned d) wr) key = lookup_label wr key"
  by (cases wr) (auto simp: three_way_Pruned split: lookup_label_result.splits)

lemma convexD: "convex R \<Longrightarrow> x \<in> R \<Longrightarrow> y \<in> R \<Longrightarrow> x \<le> z \<Longrightarrow> z \<le> y \<Longrightarrow> z \<in> R"
  unfolding convex_def by blast

lemma coversI_absent:
  "key \<notin> K \<Longrightarrow> k \<in> K \<Longrightarrow> key < k \<Longrightarrow> a \<in> K \<Longrightarrow> a < key \<Longrightarrow> lookup_label w key = LLR_Absent \<Longrightarrow>
     covers w K R key x"
  unfolding covers_def by (meson less_asym)

lemma coversI_less:
  "key \<notin> K \<Longrightarrow> k \<in> K \<Longrightarrow> key < k \<Longrightarrow> \<not> (\<exists>a \<in> K \<inter> R. a < key) \<Longrightarrow>
     (\<forall>a \<in> K. key < a \<Longrightarrow> lookup_label w key = LLR_Less) \<Longrightarrow> covers w K R key x"
  unfolding covers_def by blast

lemma coversI_greater:
  "key \<notin> K \<Longrightarrow> k \<in> K \<Longrightarrow> k < key \<Longrightarrow> \<not> (\<exists>a \<in> K \<inter> R. key < a) \<Longrightarrow>
     (\<forall>a \<in> K. a < key \<Longrightarrow> lookup_label w key = LLR_Greater) \<Longrightarrow> covers w K R key x"
  unfolding covers_def by blast

lemma coversD:
  assumes "covers w K R key x"
  shows "key \<in> K \<Longrightarrow> lookup_label w key = LLR_Found x"
    and "key \<notin> K \<Longrightarrow> a \<in> K \<inter> R \<Longrightarrow> a < key \<Longrightarrow> b \<in> K \<inter> R \<Longrightarrow> key < b \<Longrightarrow>
      lookup_label w key = LLR_Absent"
    and "key \<notin> K \<Longrightarrow> a \<in> K \<inter> R \<Longrightarrow> \<forall>k \<in> K. k < key \<Longrightarrow> lookup_label w key = LLR_Greater"
    and "key \<notin> K \<Longrightarrow> a \<in> K \<inter> R \<Longrightarrow> \<forall>k \<in> K. key < k \<Longrightarrow> lookup_label w key = LLR_Less"
  using assms unfolding covers_def by blast+

lemma coversI_found: "lookup_label w key = LLR_Found x \<Longrightarrow> key \<in> K \<Longrightarrow> covers w K R key x"
  by (simp add: covers_def)

definition honest :: "hash_tree \<Rightarrow> bytes set \<Rightarrow> bytes \<Rightarrow> bool" where
  "honest w K key \<longleftrightarrow> (w = Empty \<longleftrightarrow> K = {}) \<and>
     (w \<noteq> Empty \<and> (\<forall>a \<in> K. a < key) \<longrightarrow>
       lookup_label w key = LLR_Unknown \<or> lookup_label w key = LLR_Greater)"

lemma honest_pruning:
  assumes "pruning_of H aht t w" and "sorted_keys (entries t)" and "values_ok H rh aht t"
  shows "honest w (keys_of t) key"
proof (cases "t = None")
  case True
  with assms(1) show ?thesis by (simp add: honest_def pruning_of_def)
next
  case False
  have "label_answer_ok H (lookup_label w key) (full_tree H aht t) key"
    using lookup_label_pruned full_tree_sorted [OF assms(2,3)] assms(1)
    by (simp add: pruning_of_def)
  moreover have "forkable (full_tree H aht t)" by (rule full_tree_forkable [OF False])
  moreover have "entries t \<noteq> []" using False by (cases t) auto
  ultimately show ?thesis
    using assms(1) False lookup_label_Found_mem [of "full_tree H aht t" key]
    by (cases "lookup_label w key")
      (auto simp: honest_def pruning_of_def full_tree_labels dest: less_asym)
qed

lemma covers_three_way_Labeled:
  assumes l: "covers wl Kl R key x" "honest wl Kl key" "\<forall>a \<in> Kl. a < k"
    and r: "covers wr Kr R key x" "honest wr Kr key" "\<forall>a \<in> Kr. k < a"
    and R: "convex R" "key \<in> R" and m: "k = key \<longrightarrow> y = x" and kR: "k \<in> R"
  shows "covers (three_way_fork H wl (Labeled k y) wr) (Kl \<union> {k} \<union> Kr) R key x"
proof (cases "key < k")
  case True
  have nr: "\<forall>a \<in> Kr. key < a" using r(3) True by (auto dest: less_trans)
  have cv: "a \<in> R" if "a \<in> Kl" "key < a" for a
    using convexD [OF R kR] l(3) that by (auto dest: less_imp_le)
  note look = look_label_less [OF True, of H wl y wr]
  show ?thesis
  proof (cases "key \<in> Kl")
    case T: True
    with l(2) have "wl \<noteq> Empty" by (auto simp: honest_def)
    with T look coversD(1) [OF l(1)] show ?thesis by (simp add: coversI_found)
  next
    case F: False
    have nK: "key \<notin> Kl \<union> {k} \<union> Kr" using F True nr by auto
    show ?thesis
    proof (cases "\<exists>a \<in> Kl \<inter> R. a < key")
      case A: True
      then obtain a where a: "a \<in> Kl \<inter> R" "a < key" by blast
      have "lookup_label wl key = LLR_Absent \<or> lookup_label wl key = LLR_Greater"
      proof (cases "\<exists>b \<in> Kl. key < b")
        case True
        with cv obtain b where "b \<in> Kl \<inter> R" "key < b" by blast
        with coversD(2) [OF l(1) F a] show ?thesis by blast
      next
        case False
        with F have "\<forall>b \<in> Kl. b < key" by (metis linorder_neqE)
        with coversD(3) [OF l(1) F a(1)] show ?thesis by blast
      qed
      moreover from a l(2) have "wl \<noteq> Empty" unfolding honest_def by blast
      ultimately have "lookup_label (three_way_fork H wl (Labeled k y) wr) key = LLR_Absent"
        using look by auto
      with nK True a show ?thesis by (intro coversI_absent [of key _ k a]) auto
    next
      case nA: False
      have "lookup_label (three_way_fork H wl (Labeled k y) wr) key = LLR_Less"
        if "\<forall>a \<in> Kl. key < a"
      proof (cases "Kl = {}")
        case True
        with l(2) look show ?thesis by (simp add: honest_def)
      next
        case False
        then obtain a where "a \<in> Kl" by blast
        moreover from this that have "a \<in> R" by (intro cv) simp_all
        ultimately have "a \<in> Kl \<inter> R" by simp
        then have "lookup_label wl key = LLR_Less" using coversD(4) [OF l(1) F _ that] by blast
        then show ?thesis unfolding look by simp
      qed
      moreover have "\<not> (\<exists>a \<in> (Kl \<union> {k} \<union> Kr) \<inter> R. a < key)"
        using nA nr True by (auto dest: less_asym)
      ultimately show ?thesis using nK True by (intro coversI_less [of key _ k]) auto
    qed
  qed
next
  case False
  have hl: "wl = Empty \<or> lookup_label wl key = LLR_Unknown \<or> lookup_label wl key = LLR_Greater"
    using l(2,3) False by (fastforce simp: honest_def)
  note look = look_label_geq [OF _ hl, of k H y wr]
  show ?thesis
  proof (cases "key = k")
    case True
    with look m show ?thesis by (auto simp: covers_def)
  next
    case neq: False
    with False have gt: "k < key" by simp
    with look neq have look: "lookup_label (three_way_fork H wl (Labeled k y) wr) key =
        (if wr = Empty then LLR_Greater
         else case lookup_label wr key of LLR_Less \<Rightarrow> LLR_Absent | a \<Rightarrow> a)" by simp
    have nl: "\<forall>a \<in> Kl. a < key" using l(3) gt by (auto dest: less_trans)
    have cv: "a \<in> R" if "a \<in> Kr" "a < key" for a
      using convexD [OF R(1) kR R(2)] r(3) that by (auto dest: less_imp_le)
    show ?thesis
    proof (cases "key \<in> Kr")
      case T: True
      with r(2) have "wr \<noteq> Empty" by (auto simp: honest_def)
      with T look coversD(1) [OF r(1)] show ?thesis by (simp add: coversI_found)
    next
      case F: False
      have nK: "key \<notin> Kl \<union> {k} \<union> Kr" using F gt nl by auto
      show ?thesis
      proof (cases "\<exists>a \<in> Kr \<inter> R. key < a")
        case B: True
        then obtain b where b: "b \<in> Kr \<inter> R" "key < b" by blast
        have "lookup_label wr key = LLR_Absent \<or> lookup_label wr key = LLR_Less"
        proof (cases "\<exists>a \<in> Kr. a < key")
          case True
          with cv obtain a where "a \<in> Kr \<inter> R" "a < key" by blast
          with coversD(2) [OF r(1) F _ _ b] show ?thesis by blast
        next
          case False
          with F have "\<forall>a \<in> Kr. key < a" by (metis linorder_neqE)
          with coversD(4) [OF r(1) F b(1)] show ?thesis by blast
        qed
        moreover from b r(2) have "wr \<noteq> Empty" unfolding honest_def by blast
        ultimately have "lookup_label (three_way_fork H wl (Labeled k y) wr) key = LLR_Absent"
          using look by auto
        with nK gt b show ?thesis by (intro coversI_absent [of key _ b k]) auto
      next
        case nB: False
        have "lookup_label (three_way_fork H wl (Labeled k y) wr) key = LLR_Greater"
          if "\<forall>a \<in> Kr. a < key"
        proof (cases "Kr = {}")
          case True
          with r(2) look show ?thesis by (simp add: honest_def)
        next
          case False
          then obtain a where "a \<in> Kr" by blast
          moreover from this that have "a \<in> R" by (intro cv) simp_all
          ultimately have "a \<in> Kr \<inter> R" by simp
          then have "lookup_label wr key = LLR_Greater" using coversD(3) [OF r(1) F _ that] by blast
          then show ?thesis unfolding look by simp
        qed
        moreover have "\<not> (\<exists>a \<in> (Kl \<union> {k} \<union> Kr) \<inter> R. key < a)"
          using nB nl gt by (auto dest: less_asym)
        ultimately show ?thesis using nK gt by (intro coversI_greater [of key _ k]) auto
      qed
    qed
  qed
qed

lemma covers_three_way_Pruned:
  assumes l: "covers wl Kl R key x" "honest wl Kl key" "\<forall>a \<in> Kl. a < k"
    and r: "covers wr Kr R key x" "honest wr Kr key" "\<forall>a \<in> Kr. k < a"
    and R: "convex R" "key \<in> R" and kR: "k \<notin> R"
  shows "covers (three_way_fork H wl (Pruned d) wr) (Kl \<union> {k} \<union> Kr) R key x"
proof (cases "key < k")
  case True
  have "a \<notin> R" if "a \<in> Kr" for a
    using convexD [OF R(1,2), of a k] kR True r(3) that by (auto dest: less_imp_le)
  with R(2) kR have eq: "(Kl \<union> {k} \<union> Kr) \<inter> R = Kl \<inter> R" "key \<notin> Kr" by auto
  have look: "lookup_label (three_way_fork H wl (Pruned d) wr) key = lookup_label wl key"
    if "lookup_label wl key \<noteq> LLR_Unknown" "lookup_label wl key \<noteq> LLR_Greater" "Kl \<noteq> {}"
    using look_pruned_left that l(2) by (simp add: honest_def)
  have nk: "\<not> (\<forall>a \<in> Kl \<union> {k} \<union> Kr. a < key)" using True by (auto dest: less_asym)
  show ?thesis
  proof (cases "key \<in> Kl")
    case T: True
    with coversD(1) [OF l(1)] look show ?thesis by (intro coversI_found) auto
  next
    case F: False
    note c = coversD(2,4) [OF l(1) F]
    have "lookup_label (three_way_fork H wl (Pruned d) wr) key = LLR_Absent"
      if "a \<in> Kl \<inter> R" "a < key" "b \<in> Kl \<inter> R" "key < b" for a b
      using c(1) [OF that] look that by auto
    moreover have "lookup_label (three_way_fork H wl (Pruned d) wr) key = LLR_Less"
      if "b \<in> Kl \<inter> R" "\<forall>a \<in> Kl. key < a" for b
      using c(2) [OF that] look that by auto
    ultimately show ?thesis using F eq(2) True nk unfolding covers_def eq(1) by blast
  qed
next
  case False
  with kR R(2) have gt: "k < key" by (metis linorder_neqE)
  have "a \<notin> R" if "a \<in> Kl" for a
    using convexD [OF R(1) _ R(2), of a k] kR gt l(3) that by (auto dest: less_imp_le)
  with R(2) kR have eq: "(Kl \<union> {k} \<union> Kr) \<inter> R = Kr \<inter> R" "key \<notin> Kl" by auto
  have hl: "wl = Empty \<or> lookup_label wl key = LLR_Unknown \<or> lookup_label wl key = LLR_Greater"
    using l(2,3) gt by (fastforce simp: honest_def)
  have look: "lookup_label (three_way_fork H wl (Pruned d) wr) key = lookup_label wr key"
    if "lookup_label wr key \<noteq> LLR_Unknown" "lookup_label wr key \<noteq> LLR_Less" "Kr \<noteq> {}"
    using look_pruned_right that r(2) hl by (simp add: honest_def)
  have nk: "\<not> (\<forall>a \<in> Kl \<union> {k} \<union> Kr. key < a)" using gt by (auto dest: less_asym)
  show ?thesis
  proof (cases "key \<in> Kr")
    case T: True
    with coversD(1) [OF r(1)] look show ?thesis by (intro coversI_found) auto
  next
    case F: False
    note c = coversD(2,3) [OF r(1) F]
    have "lookup_label (three_way_fork H wl (Pruned d) wr) key = LLR_Absent"
      if "a \<in> Kr \<inter> R" "a < key" "b \<in> Kr \<inter> R" "key < b" for a b
      using c(1) [OF that] look that by auto
    moreover have "lookup_label (three_way_fork H wl (Pruned d) wr) key = LLR_Greater"
      if "b \<in> Kr \<inter> R" "\<forall>a \<in> Kr. a < key" for b
      using c(2) [OF that] look that by auto
    ultimately show ?thesis using F eq(2) gt nk unfolding covers_def eq(1) by blast
  qed
qed


subsection \<open>Range and prefix witnesses\<close>

text \<open>The keys a range witness reveals, and what a node revealer shows of the key looked up.\<close>

definition in_range :: "key_bound option \<Rightarrow> key_bound option \<Rightarrow> bytes set" where
  "in_range lo hi =
     {k. (case lo of None \<Rightarrow> True | Some b \<Rightarrow> bound_key b \<le> k) \<and>
         (case hi of None \<Rightarrow> True | Some b \<Rightarrow> k \<le> bound_key b)}"

lemma convex_in_range: "convex (in_range lo hi)"
  by (force simp: convex_def in_range_def split: option.splits intro: order_trans)

definition shows_key :: "('v node \<Rightarrow> hash_tree) \<Rightarrow> 'v node option \<Rightarrow> bytes \<Rightarrow> hash_tree \<Rightarrow> bool" where
  "shows_key f t key x \<longleftrightarrow>
     (\<forall>n. \<exists>y. f n = Labeled (n_key n) y \<and>
       (n_key n = key \<and> (n_key n, n_value n) \<in> set (entries t) \<longrightarrow> y = x))"

lemma shows_keyD:
  assumes "shows_key f t key x"
  obtains y where "f n = Labeled (n_key n) y"
    "n_key n = key \<Longrightarrow> (n_key n, n_value n) \<in> set (entries t) \<Longrightarrow> y = x"
  using assms unfolding shows_key_def by blast

lemma shows_key_mono: "shows_key f t key x \<Longrightarrow> set (entries s) \<subseteq> set (entries t) \<Longrightarrow> shows_key f s key x"
  unfolding shows_key_def by blast

lemma shows_key_Some:
  assumes "shows_key f (Some (Node k v l r c h)) key x"
  shows "shows_key f l key x" "shows_key f r key x"
    and "\<exists>y. f (Node k v l r c h) = Labeled k y \<and> (k = key \<longrightarrow> y = x)"
proof -
  show "shows_key f l key x" "shows_key f r key x"
    by (rule shows_key_mono [OF assms], auto)+
  show "\<exists>y. f (Node k v l r c h) = Labeled k y \<and> (k = key \<longrightarrow> y = x)"
    using shows_keyD [OF assms, of "Node k v l r c h"] by fastforce
qed

lemma keys_of_Some [simp]: "keys_of (Some (Node k v l r c h)) = keys_of l \<union> {k} \<union> keys_of r"
  by auto

lemma covers_shown:
  assumes R: "convex R" "key \<in> R" and "sorted_keys (entries (Some (Node k v l r c h)))"
    and "values_ok H rh aht (Some (Node k v l r c h))"
    and "pruning_of H aht l wl" and "pruning_of H aht r wr"
    and "covers wl (keys_of l) R key x" and "covers wr (keys_of r) R key x"
    and "k \<in> R" and "k = key \<longrightarrow> y = x"
  shows "covers (three_way_fork H wl (Labeled k y) wr) (keys_of (Some (Node k v l r c h))) R key x"
  unfolding keys_of_Some
  by (rule covers_three_way_Labeled)
    (use assms R honest_pruning [of H aht l wl rh key] honest_pruning [of H aht r wr rh key]
      in auto)

lemma covers_hidden_node:
  assumes R: "convex R" "key \<in> R" and "sorted_keys (entries (Some (Node k v l r c h)))"
    and "values_ok H rh aht (Some (Node k v l r c h))"
    and "pruning_of H aht l wl" and "pruning_of H aht r wr"
    and "covers wl (keys_of l) R key x" and "covers wr (keys_of r) R key x"
    and "k \<notin> R"
  shows "covers (three_way_fork H wl (Pruned d) wr) (keys_of (Some (Node k v l r c h))) R key x"
  unfolding keys_of_Some
  by (rule covers_three_way_Pruned)
    (use assms R honest_pruning [of H aht l wl rh key] honest_pruning [of H aht r wr rh key]
      in auto)

lemma covers_full:
  "convex R \<Longrightarrow> key \<in> R \<Longrightarrow> sorted_keys (entries t) \<Longrightarrow> values_ok H rh aht t \<Longrightarrow> node_pruner H rh aht f \<Longrightarrow>
     shows_key f t key x \<Longrightarrow> keys_of t \<subseteq> R \<Longrightarrow>
     covers (full_witness_tree H f t) (keys_of t) R key x"
proof (induction t rule: node_ref_induct)
  case None
  then show ?case by (simp add: covers_def)
next
  case (Some k v l r c h)
  from shows_key_Some [OF Some.prems(6)] obtain y where y: "f (Node k v l r c h) = Labeled k y"
    "k = key \<longrightarrow> y = x" "shows_key f l key x" "shows_key f r key x" by blast
  from Some.prems(3,4) have ok: "values_ok H rh aht l" "values_ok H rh aht r"
    "sorted_keys (entries l)" "sorted_keys (entries r)" by simp_all
  from Some.prems(7) have sub: "keys_of l \<subseteq> R" "keys_of r \<subseteq> R" "k \<in> R" by auto
  have "covers (three_way_fork H (full_witness_tree H f l) (Labeled k y) (full_witness_tree H f r))
      (keys_of (Some (Node k v l r c h))) R key x"
    by (rule covers_shown [OF Some.prems(1-4)])
      (use full_witness_tree_prunes [of H rh aht _ f] ok Some.prems(1,2,5) Some.IH y sub in blast)+
  with y(1) show ?case by simp
qed

text \<open>The hypotheses shared by the coverage lemmas: the tree, its values, the node revealer and
  the range, whose neighbour bounds are not the key looked up.\<close>

definition range_case ::
  "(bytes \<Rightarrow> hash) \<Rightarrow> ('v \<Rightarrow> hash) \<Rightarrow> ('v \<Rightarrow> hash_tree) \<Rightarrow> ('v node \<Rightarrow> hash_tree) \<Rightarrow> 'v node option \<Rightarrow>
     key_bound option \<Rightarrow> key_bound option \<Rightarrow> bytes \<Rightarrow> hash_tree \<Rightarrow> bool" where
  "range_case H rh aht f t lo hi key x \<longleftrightarrow>
     sorted_keys (entries t) \<and> values_ok H rh aht t \<and> hash_ok H rh t \<and> node_pruner H rh aht f \<and>
     shows_key f t key x \<and> key \<in> in_range lo hi \<and>
     lo \<noteq> Some (Neighbor key) \<and> hi \<noteq> Some (Neighbor key)"

lemma range_case_Some:
  assumes "range_case H rh aht f (Some (Node k v l r c h)) lo hi key x"
  shows "range_case H rh aht f l lo hi key x" "range_case H rh aht f r lo hi key x"
  using assms shows_key_Some [of f k v l r c h key x] by (simp_all add: range_case_def)

lemma range_case_steps:
  assumes "range_case H rh aht f (Some (Node k v l r c h)) lo hi key x"
    and "pruning_of H aht l wl" and "pruning_of H aht r wr"
    and "covers wl (keys_of l) (in_range lo hi) key x"
    and "covers wr (keys_of r) (in_range lo hi) key x"
  shows "k \<in> in_range lo hi \<Longrightarrow> k = key \<longrightarrow> y = x \<Longrightarrow>
      covers (three_way_fork H wl (Labeled k y) wr) (keys_of (Some (Node k v l r c h)))
        (in_range lo hi) key x"
    and "k \<notin> in_range lo hi \<Longrightarrow>
      covers (three_way_fork H wl (Pruned d) wr) (keys_of (Some (Node k v l r c h)))
        (in_range lo hi) key x"
  using covers_shown [of "in_range lo hi" key k v l r c h H rh aht wl wr x y]
    covers_hidden_node [of "in_range lo hi" key k v l r c h H rh aht wl wr x d]
    assms convex_in_range by (simp_all add: range_case_def del: keys_of_Some entries_Some)

lemma range_case_hidden:
  assumes "range_case H rh aht f (Some (Node k v l r c h)) lo hi key x"
  shows "(case lo of None \<Rightarrow> False | Some b \<Rightarrow> k \<le> bound_key b) \<Longrightarrow>
      covers w (keys_of l) (in_range lo hi) key x"
    and "(case hi of None \<Rightarrow> False | Some b \<Rightarrow> bound_key b \<le> k) \<Longrightarrow>
      covers w (keys_of r) (in_range lo hi) key x"
proof -
  from assms have key: "key \<in> in_range lo hi"
    and l: "\<forall>a \<in> keys_of l. a < k" and r: "\<forall>a \<in> keys_of r. k < a"
    by (auto simp: range_case_def)
  { assume "case lo of None \<Rightarrow> False | Some b \<Rightarrow> k \<le> bound_key b"
    then obtain b where b: "lo = Some b" "k \<le> bound_key b" by (cases lo) auto
    have "a \<notin> in_range lo hi" if "a \<in> keys_of l" for a
      using less_le_trans [OF bspec [OF l that] b(2)] b(1) by (auto simp: in_range_def)
    then show "covers w (keys_of l) (in_range lo hi) key x"
      by (intro covers_hidden [OF key]) blast }
  { assume "case hi of None \<Rightarrow> False | Some b \<Rightarrow> bound_key b \<le> k"
    then obtain b where b: "hi = Some b" "bound_key b \<le> k" by (cases hi) auto
    have "a \<notin> in_range lo hi" if "a \<in> keys_of r" for a
      using le_less_trans [OF b(2) bspec [OF r that]] b(1) by (auto simp: in_range_def)
    then show "covers w (keys_of r) (in_range lo hi) key x"
      by (intro covers_hidden [OF key]) blast }
qed

lemma range_case_node:
  assumes "range_case H rh aht f (Some (Node k v l r c h)) lo hi key x"
  obtains y where "f (Node k v l r c h) = Labeled k y" "k = key \<longrightarrow> y = x"
    and "pruning_of H aht l (left_hash_tree (Node k v l r c h))"
    and "pruning_of H aht r (right_hash_tree (Node k v l r c h))"
    and "pruning_of H aht l (full_witness_tree H f l)" "pruning_of H aht r (full_witness_tree H f r)"
proof -
  from assms have p: "hash_ok H rh (Some (Node k v l r c h))"
    "values_ok H rh aht (Some (Node k v l r c h))" "node_pruner H rh aht f"
    "shows_key f (Some (Node k v l r c h)) key x" by (simp_all only: range_case_def)
  from shows_key_Some(3) [OF p(4)] pruning_step [OF p(1-3)] show thesis using that by blast
qed


lemma covers_above:
  "range_case H rh aht f t (Some lo) None key x \<Longrightarrow>
     covers (witness_range_above_go H rh t lo f) (keys_of t) (in_range (Some lo) None) key x"
proof (induction t rule: node_ref_induct)
  case None
  then show ?case by (simp add: covers_def)
next
  case (Some k v l r c h)
  note sub = range_case_Some [OF Some.prems] and step = range_case_steps [OF Some.prems]
  from Some.prems have lo: "lo = Neighbor a \<Longrightarrow> a \<noteq> key" for a by (auto simp: range_case_def)
  obtain y where y: "f (Node k v l r c h) = Labeled k y" "k = key \<longrightarrow> y = x"
    and pr: "pruning_of H aht l (left_hash_tree (Node k v l r c h))"
      "pruning_of H aht r (full_witness_tree H f r)" by (rule range_case_node [OF Some.prems])
  have pg: "pruning_of H aht t (witness_range_above_go H rh t lo f)"
    if "range_case H rh aht f t (Some lo) None key x" for t
    using that by (intro witness_range_above_prunes) (simp_all add: range_case_def)
  have full: "covers (full_witness_tree H f r) (keys_of r) (in_range (Some lo) None) key x"
    if "bound_key lo \<le> k"
    by (rule covers_full [of _ key r H rh aht, OF convex_in_range])
      (use sub(2) Some.prems that in \<open>auto simp: range_case_def in_range_def intro: order_trans less_imp_le\<close>)
  note hid = range_case_hidden(1) [OF Some.prems]
  show ?case
  proof (cases k "bound_key lo" rule: bytes_cmp_cases)
    case Less
    then have "k \<notin> in_range (Some lo) None" by (auto simp: in_range_def)
    with step(2) [OF pr(1) pg hid Some.IH(2)] sub Less show ?thesis
      by (simp add: Let_def less_imp_le del: keys_of_Some)
  next
    case Equal
    then have "k \<in> in_range (Some lo) None" by (auto simp: in_range_def)
    with step(1) [OF pr(1) pr(2) hid full] Equal y lo show ?thesis
      by (cases lo) (simp_all add: Let_def del: keys_of_Some full_witness_tree.simps)
  next
    case Greater
    then have "k \<in> in_range (Some lo) None" by (auto simp: in_range_def)
    with step(1) [OF pg pr(2) Some.IH(1) full] sub Greater y show ?thesis
      by (simp add: Let_def less_imp_le del: keys_of_Some full_witness_tree.simps)
  qed
qed


lemma covers_below:
  "range_case H rh aht f t None (Some hi) key x \<Longrightarrow>
     covers (witness_range_below_go H rh t hi f) (keys_of t) (in_range None (Some hi)) key x"
proof (induction t rule: node_ref_induct)
  case None
  then show ?case by (simp add: covers_def)
next
  case (Some k v l r c h)
  note sub = range_case_Some [OF Some.prems] and step = range_case_steps [OF Some.prems]
  from Some.prems have hi: "hi = Neighbor a \<Longrightarrow> a \<noteq> key" for a by (auto simp: range_case_def)
  obtain y where y: "f (Node k v l r c h) = Labeled k y" "k = key \<longrightarrow> y = x"
    and pr: "pruning_of H aht r (right_hash_tree (Node k v l r c h))"
      "pruning_of H aht l (full_witness_tree H f l)" by (rule range_case_node [OF Some.prems])
  have pg: "pruning_of H aht t (witness_range_below_go H rh t hi f)"
    if "range_case H rh aht f t None (Some hi) key x" for t
    using that by (intro witness_range_below_prunes) (simp_all add: range_case_def)
  have full: "covers (full_witness_tree H f l) (keys_of l) (in_range None (Some hi)) key x"
    if "k \<le> bound_key hi"
    by (rule covers_full [of _ key l H rh aht, OF convex_in_range])
      (use sub(1) Some.prems that in \<open>auto simp: range_case_def in_range_def intro: order_trans less_imp_le\<close>)
  note hid = range_case_hidden(2) [OF Some.prems]
  show ?case
  proof (cases k "bound_key hi" rule: bytes_cmp_cases)
    case Less
    then have "k \<in> in_range None (Some hi)" by (auto simp: in_range_def)
    with step(1) [OF pr(2) pg full Some.IH(2)] sub Less y show ?thesis
      by (simp add: Let_def less_imp_le del: keys_of_Some full_witness_tree.simps)
  next
    case Equal
    then have "k \<in> in_range None (Some hi)" by (auto simp: in_range_def)
    with step(1) [OF pr(2) pr(1) full hid] Equal y hi show ?thesis
      by (cases hi) (simp_all add: Let_def del: keys_of_Some full_witness_tree.simps)
  next
    case Greater
    then have "k \<notin> in_range None (Some hi)" by (auto simp: in_range_def)
    with step(2) [OF pg pr(1) Some.IH(1) hid] sub Greater show ?thesis
      by (simp add: Let_def less_imp_le del: keys_of_Some)
  qed
qed

lemma covers_between:
  "range_case H rh aht f t (Some lo) (Some hi) key x \<Longrightarrow>
     covers (witness_range_between_go H rh t lo hi f) (keys_of t) (in_range (Some lo) (Some hi)) key x"
proof (induction t rule: node_ref_induct)
  case None
  then show ?case by (simp add: covers_def)
next
  case (Some k v l r c h)
  note sub = range_case_Some [OF Some.prems] and step = range_case_steps [OF Some.prems]
  from Some.prems have key: "bound_key lo \<le> key" "key \<le> bound_key hi"
    and lo: "\<And>a. lo = Neighbor a \<Longrightarrow> a \<noteq> key" and hi: "\<And>a. hi = Neighbor a \<Longrightarrow> a \<noteq> key"
    by (auto simp: range_case_def in_range_def)
  obtain y where y: "f (Node k v l r c h) = Labeled k y" "k = key \<longrightarrow> y = x"
    and pl: "pruning_of H aht l (left_hash_tree (Node k v l r c h))"
    and pr: "pruning_of H aht r (right_hash_tree (Node k v l r c h))"
    by (rule range_case_node [OF Some.prems])
  have pg: "pruning_of H aht t (witness_range_between_go H rh t lo hi f)"
    if "range_case H rh aht f t (Some lo) (Some hi) key x" for t
    using that by (intro witness_range_between_prunes) (simp_all add: range_case_def)
  note hid = range_case_hidden [OF Some.prems]
  note simps = Let_def less_imp_le
  show ?case
  proof (cases "bound_key lo" k rule: bytes_cmp_cases)
    case lo_less: Less
    show ?thesis
    proof (cases k "bound_key hi" rule: bytes_cmp_cases)
      case Less
      with lo_less have "k \<in> in_range (Some lo) (Some hi)" by (auto simp: in_range_def)
      with step(1) [OF pg pg Some.IH] sub Less lo_less y show ?thesis
        by (simp add: simps del: keys_of_Some)
    next
      case Equal
      with lo_less have "k \<in> in_range (Some lo) (Some hi)" by (auto simp: in_range_def)
      with step(1) [OF pg pr Some.IH(1) hid(2)] sub Equal lo_less y hi show ?thesis
        by (cases hi) (simp_all add: simps del: keys_of_Some)
    next
      case Greater
      then have "k \<notin> in_range (Some lo) (Some hi)" by (auto simp: in_range_def)
      with step(2) [OF pg pr Some.IH(1) hid(2)] sub Greater lo_less show ?thesis
        by (simp add: simps del: keys_of_Some)
    qed
  next
    case lo_eq: Equal
    show ?thesis
    proof (cases k "bound_key hi" rule: bytes_cmp_cases)
      case Less
      with lo_eq have "k \<in> in_range (Some lo) (Some hi)" by (auto simp: in_range_def)
      with step(1) [OF pl pg hid(1) Some.IH(2)] sub Less lo_eq y lo show ?thesis
        by (cases lo) (simp_all add: simps del: keys_of_Some)
    next
      case Equal
      with lo_eq key have "k = key" "k \<in> in_range (Some lo) (Some hi)" by (auto simp: in_range_def)
      with step(1) [OF pl pr hid(1) hid(2)] Equal lo_eq y lo show ?thesis
        by (cases lo) (simp_all add: simps del: keys_of_Some)
    next
      case Greater
      with lo_eq key show ?thesis by auto
    qed
  next
    case lo_greater: Greater
    with key have less: "k < bound_key hi" by (meson le_less_trans less_le_trans)
    from lo_greater have "k \<notin> in_range (Some lo) (Some hi)" by (auto simp: in_range_def)
    with step(2) [OF pl pg hid(1) Some.IH(2)] sub less lo_greater show ?thesis
      by (simp add: simps del: keys_of_Some)
  qed
qed


lemma range_witness_answers:
  assumes rc: "range_case H rh aht f (root t) lo hi key x"
    and lo: "\<And>b. lo = Some b \<Longrightarrow> bound_key b \<in> keys_of (root t)"
    and hi: "\<And>b. hi = Some b \<Longrightarrow> bound_key b \<in> keys_of (root t)"
  obtains w where "range_witness H rh t lo hi f = Some w" "pruning_of H aht (root t) w"
    "key \<in> keys_of (root t) \<Longrightarrow> lookup_label w key = LLR_Found x"
    "key \<notin> keys_of (root t) \<Longrightarrow>
       lookup_label w key = LLR_Absent \<or> lookup_label w key = LLR_Less \<or> lookup_label w key = LLR_Greater"
proof -
  let ?K = "keys_of (root t)" and ?R = "in_range lo hi"
  from rc have key: "key \<in> ?R" and wf: "hash_ok H rh (root t)" "values_ok H rh aht (root t)"
    "node_pruner H rh aht f" "sorted_keys (entries (root t))" "shows_key f (root t) key x"
    by (simp_all add: range_case_def)
  have le: "bound_key a \<le> bound_key b" if "lo = Some a" "hi = Some b" for a b
    using key that by (auto simp: in_range_def)
  have "\<exists>w. range_witness H rh t lo hi f = Some w \<and> pruning_of H aht (root t) w \<and>
      covers w ?K ?R key x"
    using rc le covers_above covers_below covers_between
      witness_range_above_prunes [OF wf(1-3)] witness_range_below_prunes [OF wf(1-3)]
      witness_range_between_prunes [OF wf(1-3)] full_witness_tree_prunes [OF wf(2,3)]
      covers_full [OF convex_in_range key wf(4,2,3,5)]
    by (cases lo; cases hi)
      (auto simp: range_witness_def witness_range_between_def in_range_def)
  then obtain w where w: "range_witness H rh t lo hi f = Some w" "pruning_of H aht (root t) w"
    and cov: "covers w ?K ?R key x" by blast
  have below: "\<exists>a \<in> ?K \<inter> ?R. a < key" if "k \<in> ?K" "k < key" "key \<notin> ?K" for k
  proof (cases lo)
    case None
    with that key have "k \<in> ?R" by (auto simp: in_range_def split: option.splits)
    with that show ?thesis by blast
  next
    case (Some b)
    have "bound_key b \<noteq> key" using lo [OF Some] that(3) by metis
    with key Some have "bound_key b \<in> ?R" "bound_key b < key"
      by (auto simp: in_range_def order_le_less split: option.splits)
    with lo [OF Some] show ?thesis by blast
  qed
  have above: "\<exists>a \<in> ?K \<inter> ?R. key < a" if "k \<in> ?K" "key < k" "key \<notin> ?K" for k
  proof (cases hi)
    case None
    with that key have "k \<in> ?R" by (auto simp: in_range_def split: option.splits)
    with that show ?thesis by blast
  next
    case (Some b)
    have "bound_key b \<noteq> key" using hi [OF Some] that(3) by metis
    with key Some have "bound_key b \<in> ?R" "key < bound_key b"
      by (auto simp: in_range_def order_le_less split: option.splits)
    with hi [OF Some] show ?thesis by blast
  qed
  have "lookup_label w key = LLR_Absent \<or> lookup_label w key = LLR_Less \<or>
      lookup_label w key = LLR_Greater" if nK: "key \<notin> ?K"
  proof (cases "root t = None")
    case True
    with w(2) show ?thesis by (simp add: pruning_of_def)
  next
    case False
    then obtain k where k: "k \<in> ?K" by (cases "root t" rule: node_ref_cases) auto
    note ans = coversD(2-4) [OF cov nK]
    show ?thesis
    proof (cases "\<exists>a \<in> ?K. a < key")
      case A: True
      with below nK obtain a where a: "a \<in> ?K \<inter> ?R" "a < key" by blast
      show ?thesis
      proof (cases "\<exists>b \<in> ?K. key < b")
        case True
        with above nK obtain b where "b \<in> ?K \<inter> ?R" "key < b" by blast
        with ans(1) a show ?thesis by blast
      next
        case False
        with nK have "\<forall>b \<in> ?K. b < key" by (metis linorder_neqE)
        with ans(2) a(1) show ?thesis by blast
      qed
    next
      case B: False
      with nK have all: "\<forall>b \<in> ?K. key < b" by (metis linorder_neqE)
      with k above nK obtain b where "b \<in> ?K \<inter> ?R" by blast
      with ans(3) all show ?thesis by blast
    qed
  qed
  with w coversD(1) [OF cov] that show thesis by blast
qed

subsection \<open>Bounds\<close>

lemma or_else_Some [simp]: "or_else x (Some y) = Some z \<longleftrightarrow> (case x of None \<Rightarrow> y = z | Some a \<Rightarrow> a = z)"
  by (cases x) auto

lemma or_else_None [simp]: "or_else x (Some y) \<noteq> None"
  by (cases x) auto

lemma lower_bound_mem:
  "sorted_keys (entries t) \<Longrightarrow> lower_bound_go t key = Some b \<Longrightarrow>
     bound_key b \<in> keys_of t \<and> bound_key b \<le> key \<and> b \<noteq> Neighbor key"
  by (induction t rule: node_ref_induct)
    (auto simp: less_imp_le split: cmp_ordering.splits option.splits)

lemma upper_bound_mem:
  "sorted_keys (entries t) \<Longrightarrow> upper_bound_go t key = Some b \<Longrightarrow>
     bound_key b \<in> keys_of t \<and> key \<le> bound_key b \<and> b \<noteq> Neighbor key"
  by (induction t rule: node_ref_induct)
    (auto simp: less_imp_le split: cmp_ordering.splits option.splits)

lemma lower_bound_Neighbor:
  "sorted_keys (entries t) \<Longrightarrow> lower_bound_go t key = Some (Neighbor b) \<Longrightarrow> b < key"
  by (induction t rule: node_ref_induct)
    (auto simp: less_imp_le split: cmp_ordering.splits option.splits)

lemma upper_bound_Neighbor:
  "sorted_keys (entries t) \<Longrightarrow> upper_bound_go t key = Some (Neighbor b) \<Longrightarrow> key < b"
  by (induction t rule: node_ref_induct)
    (auto simp: less_imp_le split: cmp_ordering.splits option.splits)

lemma right_prefix_neighbor_mem:
  "right_prefix_neighbor_go t pre = Some b \<Longrightarrow>
     \<exists>k. b = Neighbor k \<and> k \<in> keys_of t \<and> pre < k \<and> \<not> is_prefix_of pre k"
  by (induction t rule: node_ref_induct)
    (auto split: cmp_ordering.splits if_splits option.splits)

lemma is_prefix_of_iff: "is_prefix_of pre k \<longleftrightarrow> (\<exists>z. k = pre @ z)"
  by (auto simp: is_prefix_of_def not_less) (metis append_take_drop_id)

lemma prefix_le: "pre \<le> pre @ (z :: bytes)"
  by (induction pre) auto

lemma prefix_less:
  "pre < k \<Longrightarrow> \<not> is_prefix_of pre k \<Longrightarrow> pre @ z < k"
proof (induction pre arbitrary: k)
  case Nil
  then show ?case by (simp add: is_prefix_of_def)
next
  case (Cons a pre)
  then show ?case by (cases k) (auto simp: is_prefix_of_iff)
qed

subsection \<open>What the witnesses prove\<close>

abbreviation rb_values_ok ::
  "(bytes \<Rightarrow> hash) \<Rightarrow> ('v \<Rightarrow> hash) \<Rightarrow> ('v \<Rightarrow> hash_tree) \<Rightarrow> 'v rb_tree \<Rightarrow> bool" where
  "rb_values_ok H rh aht t \<equiv> values_ok H rh aht (root t)"

lemma rb_pruning:
  assumes "rb_wf H rh t" and "rb_values_ok H rh aht t" and "pruning_of H aht (root t) w"
  shows "prunes H w (rb_as_hash_tree H aht t)" and "digest H w = rb_root_hash H t"
proof -
  show p: "prunes H w (rb_as_hash_tree H aht t)"
    using assms(3) by (simp add: pruning_of_def rb_as_hash_tree_def)
  show "digest H w = rb_root_hash H t"
    using prunes_digest [OF p] full_tree_digest [of H rh "root t" aht] assms(1,2)
    by (simp add: rb_as_hash_tree_def rb_root_hash_def rb_wf_def)
qed

lemma rb_keys_of_get: "rb_wf H rh t \<Longrightarrow> key \<in> keys_of (root t) \<longleftrightarrow> rb_get t key \<noteq> None"
  by (simp add: rb_get_abs rb_abs_def map_of_eq_None_iff)

lemma shows_key_data:
  assumes "rb_wf H rh t"
  shows "shows_key (data_tree aht) (root t) key (case rb_get t key of None \<Rightarrow> Empty | Some v \<Rightarrow> aht v)"
    and "shows_key (witness_tree rh) (root t) key
      (case rb_get t key of None \<Rightarrow> Empty | Some v \<Rightarrow> Pruned (rh v))"
proof -
  have "rb_get t key = Some v" if "(key, v) \<in> set (entries (root t))" for v
  proof -
    have "distinct (map fst (entries (root t)))"
      using assms sorted_keys_distinct [of "entries (root t)"] by (simp add: rb_wf_def)
    with that show ?thesis by (simp add: rb_get_abs [OF assms] rb_abs_def)
  qed
  then show "shows_key (data_tree aht) (root t) key (case rb_get t key of None \<Rightarrow> Empty | Some v \<Rightarrow> aht v)"
    and "shows_key (witness_tree rh) (root t) key
      (case rb_get t key of None \<Rightarrow> Empty | Some v \<Rightarrow> Pruned (rh v))"
    by (auto simp: shows_key_def data_tree_def witness_tree_def)
qed


text \<open>The generic statement behind every witness: a range of keys with exact or neighbour bounds
  taken from the tree answers for each of its keys.\<close>

lemma rb_range_proves:
  assumes wf: "rb_wf H rh t" "rb_values_ok H rh aht t" and f: "node_pruner H rh aht f"
    and x: "shows_key f (root t) key (case rb_get t key of None \<Rightarrow> Empty | Some v \<Rightarrow> g v)"
    and key: "key \<in> in_range lo hi" "lo \<noteq> Some (Neighbor key)" "hi \<noteq> Some (Neighbor key)"
    and lo: "\<And>b. lo = Some b \<Longrightarrow> bound_key b \<in> keys_of (root t)"
    and hi: "\<And>b. hi = Some b \<Longrightarrow> bound_key b \<in> keys_of (root t)"
  obtains w where "range_witness H rh t lo hi f = Some w" "pruning_of H aht (root t) w"
    "lookup_subtree w [key] = (case rb_get t key of None \<Rightarrow> SLR_Absent | Some v \<Rightarrow> SLR_Found (g v))"
proof -
  have rc: "range_case H rh aht f (root t) lo hi key
      (case rb_get t key of None \<Rightarrow> Empty | Some v \<Rightarrow> g v)"
    using wf f x key by (simp add: range_case_def rb_wf_def)
  from range_witness_answers [OF rc lo hi] obtain w where
    w: "range_witness H rh t lo hi f = Some w" "pruning_of H aht (root t) w"
    and ans: "key \<in> keys_of (root t) \<Longrightarrow>
        lookup_label w key = LLR_Found (case rb_get t key of None \<Rightarrow> Empty | Some v \<Rightarrow> g v)"
      "key \<notin> keys_of (root t) \<Longrightarrow>
        lookup_label w key = LLR_Absent \<or> lookup_label w key = LLR_Less \<or> lookup_label w key = LLR_Greater"
    by blast
  have "lookup_subtree w [key] = (case rb_get t key of None \<Rightarrow> SLR_Absent | Some v \<Rightarrow> SLR_Found (g v))"
    using ans rb_keys_of_get [OF wf(1), of key] by (cases "rb_get t key") auto
  with w that show thesis by blast
qed

lemma rb_sorted: "rb_wf H rh t \<Longrightarrow> sorted_keys (entries (root t))"
  by (simp add: rb_wf_def)

lemma rb_bounds_range:
  assumes wf: "rb_wf H rh t" "rb_values_ok H rh aht t" and f: "node_pruner H rh aht f"
    and x: "shows_key f (root t) key (case rb_get t key of None \<Rightarrow> Empty | Some v \<Rightarrow> g v)"
    and key: "a \<le> key" "key \<le> b"
  obtains w where "range_witness H rh t (lower_bound t a) (upper_bound t b) f = Some w"
    "pruning_of H aht (root t) w"
    "lookup_subtree w [key] = (case rb_get t key of None \<Rightarrow> SLR_Absent | Some v \<Rightarrow> SLR_Found (g v))"
proof -
  note lo = lower_bound_mem [OF rb_sorted [OF wf(1)], of a]
  note hi = upper_bound_mem [OF rb_sorted [OF wf(1)], of b]
  have "key \<in> in_range (lower_bound t a) (upper_bound t b)"
    using lo hi key by (auto simp: in_range_def lower_bound_def upper_bound_def
        intro: order_trans split: option.splits)
  moreover have "lower_bound t a \<noteq> Some (Neighbor key)" "upper_bound t b \<noteq> Some (Neighbor key)"
    using lower_bound_Neighbor [OF rb_sorted [OF wf(1)], of a key]
      upper_bound_Neighbor [OF rb_sorted [OF wf(1)], of b key] key
    by (auto simp: lower_bound_def upper_bound_def)
  ultimately show thesis
    by (rule rb_range_proves [OF wf f x]) (use lo hi that in \<open>auto simp: lower_bound_def upper_bound_def\<close>)
qed

text \<open>\<open>nested_witness\<close>: the subtree of the key is the closure's witness, or the key is shown to
  be absent. Clients that nest trees rely on this form.\<close>

lemma rb_nested_witness_proves:
  assumes wf: "rb_wf H rh t" "rb_values_ok H rh aht t"
    and f: "\<And>v. rb_get t key = Some v \<Longrightarrow> \<exists>x. f v = Some x \<and> prunes H x (aht v)"
  obtains w where "rb_nested_witness H rh t key f = Some w" "pruning_of H aht (root t) w"
    "lookup_subtree w [key] =
       (case rb_get t key of None \<Rightarrow> SLR_Absent | Some v \<Rightarrow> SLR_Found (the (f v)))"
proof (cases "rb_get t key")
  case None
  from rb_bounds_range [OF wf node_pruners(2) shows_key_data(2) [OF wf(1)], of key key key]
  obtain w where w: "range_witness H rh t (lower_bound t key) (upper_bound t key) (witness_tree rh) = Some w"
    "pruning_of H aht (root t) w"
    "lookup_subtree w [key] = (case rb_get t key of None \<Rightarrow> SLR_Absent | Some v \<Rightarrow> SLR_Found (Pruned (rh v)))"
    by auto
  have "lookup_and_build_witness_go H rh (root t) key f = Some None"
    using None by (simp add: rb_get_def lookup_and_build_witness_None)
  with w None that show thesis by (simp add: rb_nested_witness_def)
next
  case (Some v)
  with f obtain x where x: "f v = Some x" "prunes H x (aht v)" by blast
  from lookup_and_build_witness_Some [of "root t" key v f x H rh aht] Some x wf
  obtain w where w: "lookup_and_build_witness_go H rh (root t) key f = Some (Some w)"
    "lookup_label w key = LLR_Found x" "pruning_of H aht (root t) w"
    by (auto simp: rb_get_def rb_wf_def)
  with Some x that show thesis by (simp add: rb_nested_witness_def)
qed


text \<open>The prefix range runs to the first key above the prefix that does not carry it.\<close>

lemma rb_prefix_range:
  assumes wf: "rb_wf H rh t" "rb_values_ok H rh aht t"
  obtains w where "rb_keys_with_prefix H rh t pre = Some w" "pruning_of H aht (root t) w"
    "lookup_subtree w [pre @ z] =
       (case rb_get t (pre @ z) of None \<Rightarrow> SLR_Absent | Some v \<Rightarrow> SLR_Found (Pruned (rh v)))"
proof -
  let ?lo = "lower_bound t pre" and ?hi = "right_prefix_neighbor t pre"
  note lo = lower_bound_mem [OF rb_sorted [OF wf(1)], of pre]
  have hi: "\<exists>k. ?hi = Some (Neighbor k) \<and> k \<in> keys_of (root t) \<and> pre @ z < k" if "?hi = Some b" for b
    using right_prefix_neighbor_mem [of "root t" pre b] prefix_less [of pre _ z] that
    by (auto simp: right_prefix_neighbor_def)
  have key: "pre @ z \<in> in_range ?lo ?hi"
    using lo hi prefix_le [of pre z]
    by (fastforce simp: in_range_def lower_bound_def intro: order_trans less_imp_le split: option.splits)
  have nl: "?lo \<noteq> Some (Neighbor (pre @ z))"
    using lower_bound_Neighbor [OF rb_sorted [OF wf(1)], of pre "pre @ z"] prefix_le [of pre z]
    by (auto simp: lower_bound_def)
  have nh: "?hi \<noteq> Some (Neighbor (pre @ z))" using hi by force
  show thesis
    by (rule rb_range_proves [OF wf node_pruners(2) shows_key_data(2) [OF wf(1)] key nl nh])
      (use lo hi that in \<open>force simp: lower_bound_def rb_keys_with_prefix_def\<close>)+
qed

subsection \<open>The contract of hashed values\<close>

text \<open>The trait \<^verbatim>\<open>AsHashTree\<close>: the root hash of a value is the digest of its hash tree. The tree
  of any valid value is sorted, so lookups in its prunings are trustworthy. A tree of valid
  values is again such a value.\<close>

locale as_hash_tree =
  fixes H :: "bytes \<Rightarrow> hash" and rh :: "'v \<Rightarrow> hash" and aht :: "'v \<Rightarrow> hash_tree"
    and valid :: "'v \<Rightarrow> bool"
  assumes digest_tree: "valid v \<Longrightarrow> digest H (aht v) = rh v"
    and tree_sorted: "valid v \<Longrightarrow> sorted_tree (aht v)"
begin

lemma witness_digest: "valid v \<Longrightarrow> prunes H w (aht v) \<Longrightarrow> digest H w = rh v"
  by (simp add: prunes_digest digest_tree)

lemma witness_lookup:
  "valid v \<Longrightarrow> prunes H w (aht v) \<Longrightarrow>
     lookup_path w p = LR_Unknown \<or> lookup_path w p = lookup_path (aht v) p"
  by (rule lookup_path_pruned) (simp_all add: tree_sorted)

lemma witness_binding:
  assumes "valid v" and "hash32 H" and "well_sized w" and "digest H w = rh v"
    and "inj_on H (set (hash_inputs H w) \<union> set (hash_inputs H (aht v)))"
  shows "prunes H w (aht v)"
  using digest_binding [of H w "aht v"] assms sorted_tree_unpruned [OF tree_sorted]
  by (simp add: digest_tree)

lemma merge_witnesses:
  assumes "valid v" and "prunes H a (aht v)" and "prunes H b (aht v)"
  shows "\<exists>m. merge_hash_trees a b = Some m \<and> digest H m = rh v \<and> prunes H m (aht v) \<and>
    prunes H a m \<and> prunes H b m"
  using merge_prunings [OF assms(2,3)] assms(1) by (auto intro: witness_digest)

end

lemma rb_as_hash_tree_ok:
  assumes "rb_wf H rh t" and "rb_values_ok H rh aht t"
  shows "digest H (rb_as_hash_tree H aht t) = rb_root_hash H t" and "sorted_tree (rb_as_hash_tree H aht t)"
  using rb_pruning(2) [OF assms, of "rb_as_hash_tree H aht t"] full_tree_sorted [of "root t" H rh aht]
    assms by (simp_all add: rb_as_hash_tree_def pruning_of_def rb_wf_def)

interpretation vec: as_hash_tree H "vec_root_hash H" vec_as_hash_tree "\<lambda>_. True" for H
  by unfold_locales (simp_all add: vec_root_hash_def vec_as_hash_tree_def)

interpretation rbt: as_hash_tree H "rb_root_hash H" "rb_as_hash_tree H aht"
  "\<lambda>t. rb_wf H rh t \<and> rb_values_ok H rh aht t" for H rh aht
  by unfold_locales (auto simp: rb_as_hash_tree_ok)

subsection \<open>Properties\<close>

lemma vec_values_ok: "rb_values_ok H (vec_root_hash H) vec_as_hash_tree t"
  by (simp add: values_ok_def vec.digest_tree vec.tree_sorted)

lemma rb_run_vec:
  obtains t where "run_ops (rb_insert H (vec_root_hash H)) (rb_delete H (vec_root_hash H)) ops rb_new = Some t"
    "rb_wf H (vec_root_hash H) t" "rb_get t = map_spec ops Map.empty"
  using rb.run_ops_spec [OF rb_wf_new(1), of H "vec_root_hash H" ops] by (auto simp: rb_wf_new(2))

lemma lookup_path_single:
  assumes "lookup_subtree w [key] = (case m of None \<Rightarrow> SLR_Absent | Some v \<Rightarrow> SLR_Found (g v))"
  shows "lookup_path w [key] = (case m of None \<Rightarrow> LR_Absent | Some v \<Rightarrow> lookup_path (g v) [])"
  using assms by (cases m) (auto split: lookup_label_result.splits)

text \<open>The cached root hash of a tree reached by insertions and deletions is the digest of its
  full hash tree, and that tree is sorted.\<close>

theorem rb_root_hash_exact:
  "\<exists>t. run_ops (rb_insert H (vec_root_hash H)) (rb_delete H (vec_root_hash H)) ops rb_new = Some t \<and>
    rb_root_hash H t = digest H (rb_as_hash_tree H vec_as_hash_tree t) \<and>
    sorted_tree (rb_as_hash_tree H vec_as_hash_tree t) \<and>
    tree_labels (rb_as_hash_tree H vec_as_hash_tree t) = map fst (entries (root t))"
proof -
  obtain t where t: "run_ops (rb_insert H (vec_root_hash H)) (rb_delete H (vec_root_hash H)) ops rb_new = Some t"
    "rb_wf H (vec_root_hash H) t" by (rule rb_run_vec)
  with rbt.digest_tree [of H "vec_root_hash H" t vec_as_hash_tree]
    rbt.tree_sorted [of H "vec_root_hash H" t vec_as_hash_tree] vec_values_ok [of H t]
  show ?thesis by (auto simp: rb_as_hash_tree_def full_tree_labels)
qed

text \<open>C22: The witness of any key has the tree's root hash and proves the value of the key or its
  absence, as the map of the operations has it.\<close>

theorem rb_witness_proves:
  "\<exists>t w. run_ops (rb_insert H (vec_root_hash H)) (rb_delete H (vec_root_hash H)) ops rb_new = Some t \<and>
    rb_witness H (vec_root_hash H) vec_as_hash_tree t key = Some w \<and> digest H w = rb_root_hash H t \<and>
    lookup_path w [key] =
      (case map_spec ops Map.empty key of None \<Rightarrow> LR_Absent | Some v \<Rightarrow> LR_Found v)"
proof -
  obtain t where t: "run_ops (rb_insert H (vec_root_hash H)) (rb_delete H (vec_root_hash H)) ops rb_new = Some t"
    "rb_wf H (vec_root_hash H) t" "rb_get t = map_spec ops Map.empty" by (rule rb_run_vec)
  obtain w where w: "rb_nested_witness H (vec_root_hash H) t key (\<lambda>v. Some (vec_as_hash_tree v)) = Some w"
    "pruning_of H vec_as_hash_tree (root t) w"
    "lookup_subtree w [key] = (case rb_get t key of None \<Rightarrow> SLR_Absent
       | Some v \<Rightarrow> SLR_Found (the (Some (vec_as_hash_tree v))))"
    by (rule rb_nested_witness_proves [OF t(2) vec_values_ok, where f = "\<lambda>v. Some (vec_as_hash_tree v)"]) auto
  show ?thesis
    using t w(1) rb_pruning(2) [OF t(2) vec_values_ok w(2)] lookup_path_single [OF w(3)]
    by (auto simp: rb_witness_def vec_as_hash_tree_def split: option.splits)
qed

text \<open>C36: The witness of a range of values has the tree's root hash and answers every key of the
  range, bounds included: it finds the value of each key of the range that is in the tree and
  shows every other key of the range to be absent.\<close>

theorem rb_value_range_proves:
  assumes "lo \<le> key" and "key \<le> hi"
  shows "\<exists>t w. run_ops (rb_insert H (vec_root_hash H)) (rb_delete H (vec_root_hash H)) ops rb_new = Some t \<and>
    rb_value_range H (vec_root_hash H) vec_as_hash_tree t lo hi = Some w \<and>
    digest H w = rb_root_hash H t \<and>
    lookup_path w [key] =
      (case map_spec ops Map.empty key of None \<Rightarrow> LR_Absent | Some v \<Rightarrow> LR_Found v)"
proof -
  obtain t where t: "run_ops (rb_insert H (vec_root_hash H)) (rb_delete H (vec_root_hash H)) ops rb_new = Some t"
    "rb_wf H (vec_root_hash H) t" "rb_get t = map_spec ops Map.empty" by (rule rb_run_vec)
  obtain w where w: "rb_value_range H (vec_root_hash H) vec_as_hash_tree t lo hi = Some w"
    "pruning_of H vec_as_hash_tree (root t) w"
    "lookup_subtree w [key] = (case rb_get t key of None \<Rightarrow> SLR_Absent | Some v \<Rightarrow> SLR_Found (vec_as_hash_tree v))"
    unfolding rb_value_range_def
    by (rule rb_bounds_range [OF t(2) vec_values_ok node_pruners(1) shows_key_data(1) [OF t(2)] assms])
  show ?thesis
    using t w(1) rb_pruning(2) [OF t(2) vec_values_ok w(2)] lookup_path_single [OF w(3)]
    by (auto simp: vec_as_hash_tree_def split: option.splits)
qed

theorem rb_value_range_proves_witness:
  "\<exists>t w. run_ops (rb_insert (\<lambda>x. x) (vec_root_hash (\<lambda>x. x))) (rb_delete (\<lambda>x. x) (vec_root_hash (\<lambda>x. x)))
      [Put [1] [10], Put [3] [30], Put [5] [50]] rb_new = Some t \<and>
    rb_value_range (\<lambda>x. x) (vec_root_hash (\<lambda>x. x)) vec_as_hash_tree t [2] [4] = Some w \<and>
    lookup_path w [[3]] = LR_Found [30]"
  using rb_value_range_proves [of "[2]" "[3]" "[4]" "\<lambda>x. x" "[Put [1] [10], Put [3] [30], Put [5] [50]]"]
  by auto

text \<open>The witness for a key prefix has the tree's root hash and answers every key with the
  prefix: it shows a present key with its value's hash, and any other such key as absent.\<close>

theorem rb_keys_with_prefix_proves:
  "\<exists>t w. run_ops (rb_insert H (vec_root_hash H)) (rb_delete H (vec_root_hash H)) ops rb_new = Some t \<and>
    rb_keys_with_prefix H (vec_root_hash H) t pre = Some w \<and> digest H w = rb_root_hash H t \<and>
    lookup_subtree w [pre @ z] =
      (case map_spec ops Map.empty (pre @ z) of None \<Rightarrow> SLR_Absent
       | Some v \<Rightarrow> SLR_Found (Pruned (leaf_hash H v)))"
proof -
  obtain t where t: "run_ops (rb_insert H (vec_root_hash H)) (rb_delete H (vec_root_hash H)) ops rb_new = Some t"
    "rb_wf H (vec_root_hash H) t" "rb_get t = map_spec ops Map.empty" by (rule rb_run_vec)
  obtain w where "rb_keys_with_prefix H (vec_root_hash H) t pre = Some w"
    "pruning_of H vec_as_hash_tree (root t) w"
    "lookup_subtree w [pre @ z] = (case rb_get t (pre @ z) of None \<Rightarrow> SLR_Absent
       | Some v \<Rightarrow> SLR_Found (Pruned (vec_root_hash H v)))"
    by (rule rb_prefix_range [OF t(2) vec_values_ok])
  with t rb_pruning(2) [OF t(2) vec_values_ok] show ?thesis
    unfolding vec_root_hash_def by auto
qed

end
