(* ===== verification/Rb_Iter.thy ===== *)
theory Rb_Iter
  imports Rb_Witness Rb_Correct
begin

text \<open>
  The iterator of the red-black tree (\<^verbatim>\<open>Iter\<close> of \<^verbatim>\<open>packages/ic-certification/src/rb_tree/mod.rs\<close>), a state
  machine over a stack of nodes, yields the entries of the tree in key order; the comparisons of trees
  and their construction from an iterator are built on it.
\<close>

subsection \<open>Running the iterator\<close>

text \<open>\<^verbatim>\<open>for\<close> over the iterator: \<open>items\<close> bounds the number of calls of \<^verbatim>\<open>next\<close>, \<open>fuel\<close> the steps of
  each; \<^term>\<open>None\<close> is running out of either.\<close>

fun iter_collect :: "nat \<Rightarrow> nat \<Rightarrow> 'v iter \<Rightarrow> (bytes \<times> 'v) list option" where
  "iter_collect 0 fuel it = None"
| "iter_collect (Suc items) fuel it =
     (case iter_next fuel it of
        None \<Rightarrow> None
      | Some (None, _) \<Rightarrow> Some []
      | Some (Some e, it') \<Rightarrow> map_option (\<lambda>es. e # es) (iter_collect items fuel it'))"

definition rb_items :: "'v rb_tree \<Rightarrow> (bytes \<times> 'v) list option" where
  "rb_items t = iter_collect (node_count (root t) + 1) (3 * node_count (root t) + 1) (rb_iter t)"

text \<open>\<^verbatim>\<open>PartialEq\<close> and \<^verbatim>\<open>Ord\<close>; \<open>vcmp\<close> compares the values.\<close>

definition rb_eq :: "'v rb_tree \<Rightarrow> 'v rb_tree \<Rightarrow> bool option" where
  "rb_eq t u = do { xs \<leftarrow> rb_items t; ys \<leftarrow> rb_items u; Some (xs = ys) }"

fun iter_cmp :: "('v \<Rightarrow> 'v \<Rightarrow> cmp_ordering) \<Rightarrow> (bytes \<times> 'v) list \<Rightarrow> (bytes \<times> 'v) list \<Rightarrow> cmp_ordering" where
  "iter_cmp vcmp [] [] = Equal"
| "iter_cmp vcmp [] (_ # _) = Less"
| "iter_cmp vcmp (_ # _) [] = Greater"
| "iter_cmp vcmp ((k, v) # xs) ((l, w) # ys) =
     (case bytes_cmp k l of
        Equal \<Rightarrow> (case vcmp v w of Equal \<Rightarrow> iter_cmp vcmp xs ys | c \<Rightarrow> c)
      | c \<Rightarrow> c)"

definition rb_cmp :: "('v \<Rightarrow> 'v \<Rightarrow> cmp_ordering) \<Rightarrow> 'v rb_tree \<Rightarrow> 'v rb_tree \<Rightarrow> cmp_ordering option" where
  "rb_cmp vcmp t u = do { xs \<leftarrow> rb_items t; ys \<leftarrow> rb_items u; Some (iter_cmp vcmp xs ys) }"

subsection \<open>What an iterator has left\<close>

text \<open>On the reversed stack: what follows once the subtree of the tip is done, and how many steps that
  takes. Each node takes three steps.\<close>

fun left_child :: "'v node_ptr \<Rightarrow> 'v node_ptr \<Rightarrow> bool" where
  "left_child tip parent \<longleftrightarrow> map_option fst (left_ptr parent) = Some (fst tip)"

fun pending :: "'v node_ptr list \<Rightarrow> (bytes \<times> 'v) list" where
  "pending (tip # parent # ps) =
     (if left_child tip parent
      then (n_key (snd parent), n_value (snd parent)) # entries (n_right (snd parent))
      else []) @ pending (parent # ps)"
| "pending _ = []"

fun pending_steps :: "'v node_ptr list \<Rightarrow> nat" where
  "pending_steps (tip # parent # ps) =
     (if left_child tip parent then 2 + 3 * node_count (n_right (snd parent)) else 1) +
     pending_steps (parent # ps)"
| "pending_steps _ = 0"

fun chained :: "'v node_ptr list \<Rightarrow> bool" where
  "chained (tip # parent # ps) \<longleftrightarrow>
     (left_ptr parent = Some tip \<or> right_ptr parent = Some tip) \<and> chained (parent # ps)"
| "chained _ \<longleftrightarrow> True"

definition remaining :: "'v iter \<Rightarrow> (bytes \<times> 'v) list" where
  "remaining it =
     (case rev (it_parents it) of
        [] \<Rightarrow> []
      | tip # ps \<Rightarrow>
          (case it_visit it of
             Pre \<Rightarrow> entries (Some (snd tip))
           | In \<Rightarrow> entries (n_right (snd tip))
           | Post \<Rightarrow> []) @ pending (tip # ps))"

definition steps_left :: "'v iter \<Rightarrow> nat" where
  "steps_left it =
     (case rev (it_parents it) of
        [] \<Rightarrow> 0
      | tip # ps \<Rightarrow>
          (case it_visit it of
             Pre \<Rightarrow> 3 * node_count (Some (snd tip))
           | In \<Rightarrow> 2 + 3 * node_count (n_right (snd tip))
           | Post \<Rightarrow> 1) + pending_steps (tip # ps))"

lemma slice_last_rev: "slice_last xs = (case rev xs of [] \<Rightarrow> None | x # _ \<Rightarrow> Some x)"
  by (cases xs rule: rev_cases) (simp_all add: slice_last_def)

text \<open>A step that arrives at an inner visit yields the entry of the tip.\<close>

lemma iter_step_exact:
  assumes "chained (rev (it_parents it))" and "iter_step it = (True, it')"
  shows "chained (rev (it_parents it')) \<and> steps_left it = Suc (steps_left it') \<and>
    (if it_visit it' = In
     then \<exists>tip. slice_last (it_parents it') = Some tip \<and>
       remaining it = (n_key (snd tip), n_value (snd tip)) # remaining it'
     else remaining it = remaining it')"
proof -
  from assms(2) obtain tip ps where rev: "rev (it_parents it) = tip # ps"
    by (auto simp: iter_step_def slice_last_rev split: list.splits)
  then have parents: "it_parents it = rev ps @ [tip]" by (metis rev.simps(2) rev_rev_ident)
  have ends: "slice_last (rev ps @ [tip]) = Some tip" by (simp add: slice_last_rev)
  show ?thesis
  proof (cases "it_visit it")
    case Pre
    show ?thesis
    proof (cases "left_ptr tip")
      case None
      then have "n_left (snd tip) = None" by (simp add: left_ptr_def)
      with None Pre assms rev parents ends show ?thesis
        by (cases tip) (auto simp: iter_step_def remaining_def steps_left_def node_count_Some)
    next
      case (Some l)
      then have "n_left (snd tip) = Some (snd l)" by (auto simp: left_ptr_def)
      with Some Pre assms rev parents ends show ?thesis
        by (auto simp: iter_step_def remaining_def steps_left_def node_count_Some)
    qed
  next
    case In
    show ?thesis
    proof (cases "right_ptr tip")
      case None
      then have "n_right (snd tip) = None" by (simp add: right_ptr_def)
      with None In assms rev parents ends show ?thesis
        by (auto simp: iter_step_def remaining_def steps_left_def)
    next
      case (Some r)
      then have "n_right (snd tip) = Some (snd r)" "\<not> left_child r tip"
        by (auto simp: right_ptr_def left_ptr_def)
      with Some In assms rev parents ends show ?thesis
        by (auto simp: iter_step_def remaining_def steps_left_def)
    qed
  next
    case Post
    show ?thesis
    proof (cases ps)
      case Nil
      with Post assms rev parents ends show ?thesis
        by (auto simp: iter_step_def remaining_def steps_left_def slice_last_rev)
    next
      case (Cons parent rest)
      then have last: "slice_last (rev ps) = Some parent" by (simp add: slice_last_rev)
      have "it' = (if left_child tip parent then it\<lparr>it_parents := rev ps, it_visit := In\<rparr>
          else it\<lparr>it_parents := rev ps\<rparr>)"
        using assms(2) by (auto simp: iter_step_def parents ends Post last split: if_splits)
      with Post assms(1) rev Cons last show ?thesis
        by (cases parent) (auto simp: remaining_def steps_left_def slice_last_rev simp del: left_child.simps)
    qed
  qed
qed

lemma iter_step_done:
  "iter_step it = (False, it') \<Longrightarrow> it' = it \<and> it_parents it = []"
  by (auto simp: iter_step_def slice_last_rev split: option.splits list.splits)

lemma iter_next_exact:
  assumes "chained (rev (it_parents it))" and "steps_left it < fuel"
  shows "\<exists>r it'. iter_next fuel it = Some (r, it') \<and> chained (rev (it_parents it')) \<and>
    steps_left it' \<le> steps_left it \<and>
    (case r of None \<Rightarrow> remaining it = [] | Some e \<Rightarrow> remaining it = e # remaining it')"
  using assms
proof (induction fuel arbitrary: it)
  case (Suc fuel)
  obtain more it1 where step: "iter_step it = (more, it1)" by (cases "iter_step it")
  show ?case
  proof (cases more)
    case False
    with step iter_step_done [of it it1] have "it1 = it" "it_parents it = []" by simp_all
    with step False show ?thesis by (simp add: remaining_def)
  next
    case True
    with step iter_step_exact [OF Suc.prems(1)] have it1: "chained (rev (it_parents it1))"
      "steps_left it = Suc (steps_left it1)" by auto
    show ?thesis
    proof (cases "it_visit it1 = In")
      case In: True
      with step True iter_step_exact [OF Suc.prems(1)] obtain tip where "slice_last (it_parents it1) = Some tip"
        "remaining it = (n_key (snd tip), n_value (snd tip)) # remaining it1" by fastforce
      with step True In it1 show ?thesis by simp
    next
      case other: False
      with step True iter_step_exact [OF Suc.prems(1)] have "remaining it = remaining it1" by auto
      moreover have "iter_next (Suc fuel) it = iter_next fuel it1" using step True other by simp
      moreover have "steps_left it1 < fuel" using Suc.prems(2) it1(2) by simp
      moreover from Suc.IH [OF it1(1) this] obtain r it' where
        "iter_next fuel it1 = Some (r, it')" "chained (rev (it_parents it'))" "steps_left it' \<le> steps_left it1"
        "case r of None \<Rightarrow> remaining it1 = [] | Some e \<Rightarrow> remaining it1 = e # remaining it'" by blast
      ultimately show ?thesis using it1(2) by (intro exI [of _ r] exI [of _ it'], cases r) (simp_all del: iter_next.simps)
    qed
  qed
qed simp

lemma iter_collect_exact:
  assumes "chained (rev (it_parents it))" and "steps_left it < fuel" and "length (remaining it) < items"
  shows "iter_collect items fuel it = Some (remaining it)"
  using assms
proof (induction items arbitrary: it)
  case (Suc items)
  from iter_next_exact [OF Suc.prems(1,2)] obtain r it' where
    r: "iter_next fuel it = Some (r, it')" "chained (rev (it_parents it'))" "steps_left it' \<le> steps_left it"
    "case r of None \<Rightarrow> remaining it = [] | Some e \<Rightarrow> remaining it = e # remaining it'" by blast
  show ?case
  proof (cases r)
    case (Some e)
    with r Suc.prems(2,3) Suc.IH [OF r(2)] show ?thesis by simp
  qed (use r in simp)
qed simp

lemma entries_count: "length (entries t) = node_count t"
  by (induction t rule: node_ref_induct) simp_all

lemma rb_items_entries: "rb_items t = Some (entries (root t))"
proof (cases "root t")
  case None
  then show ?thesis by (simp add: rb_items_def rb_iter_def iter_step_def slice_last_def)
next
  case (Some n)
  have "iter_collect (node_count (root t) + 1) (3 * node_count (root t) + 1) (rb_iter t) = Some (remaining (rb_iter t))"
    using Some by (intro iter_collect_exact)
      (simp_all add: rb_iter_def steps_left_def remaining_def entries_count del: entries_Some)
  with Some show ?thesis by (simp add: rb_items_def rb_iter_def remaining_def)
qed

subsection \<open>Comparisons and construction\<close>

lemma sorted_keys_sorted: "sorted_keys xs \<Longrightarrow> sorted (map fst xs)"
  by (induction xs) (fastforce intro: less_imp_le)+

text \<open>Sorted entry lists are equal when their lookups are.\<close>

lemma sorted_entries_eqI:
  assumes "sorted_keys xs" and "sorted_keys ys" and eq: "map_of xs = map_of ys"
  shows "xs = ys"
proof -
  note keys = sorted_keys_distinct [OF assms(1)] sorted_keys_distinct [OF assms(2)]
  have "set xs = set ys"
    using map_of_eq_Some_iff [OF keys(1)] map_of_eq_Some_iff [OF keys(2)] eq by auto
  then show ?thesis
    using map_sorted_distinct_set_unique [of fst xs ys] keys assms(1,2)
    by (simp add: sorted_keys_sorted distinct_map)
qed

text \<open>On well-formed trees \<open>==\<close> is equality of the maps, whatever the shapes of the trees.\<close>

lemma rb_eq_abs:
  assumes "rb_wf H rh t" and "rb_wf H rh u"
  shows "rb_eq t u = Some (rb_abs t = rb_abs u)"
  using assms sorted_entries_eqI [of "entries (root t)" "entries (root u)"]
  by (auto simp: rb_eq_def rb_items_entries rb_wf_def rb_abs_def)

text \<open>The order of the trees is the lexicographic order of their entries. It is a preorder: trees of
  different shapes may hold the same entries.\<close>

instantiation rb_tree :: (linorder) preorder
begin

definition less_eq_rb_tree :: "'a rb_tree \<Rightarrow> 'a rb_tree \<Rightarrow> bool" where
  "t \<le> u \<longleftrightarrow> entries (root t) \<le> entries (root u)"

definition less_rb_tree :: "'a rb_tree \<Rightarrow> 'a rb_tree \<Rightarrow> bool" where
  "t < u \<longleftrightarrow> entries (root t) < entries (root u)"

instance
  by standard (auto simp: less_eq_rb_tree_def less_rb_tree_def)

end

definition linorder_cmp :: "'v::linorder \<Rightarrow> 'v \<Rightarrow> cmp_ordering" where
  "linorder_cmp v w = (if v < w then Less else if v = w then Equal else Greater)"

lemma iter_cmp_lex: "iter_cmp linorder_cmp xs ys = linorder_cmp xs (ys :: (bytes \<times> 'a::linorder) list)"
  by (induction "linorder_cmp :: 'a \<Rightarrow> _" xs ys rule: iter_cmp.induct)
    (auto simp: linorder_cmp_def bytes_cmp_spec)

lemma rb_cmp_order:
  "rb_cmp linorder_cmp t u = Some (if t < u then Less else if u < t then Greater else Equal)"
  by (auto simp: rb_cmp_def rb_items_entries iter_cmp_lex linorder_cmp_def less_rb_tree_def)

text \<open>\<open>collect\<close> never panics and builds the map of the pairs, the last of a key winning.\<close>

lemma rb_from_list_abs:
  "rb_wf H rh t \<Longrightarrow> \<exists>t'. rb_from_list H rh t xs = Some t' \<and> rb_wf H rh t' \<and> rb_abs t' = rb_abs t ++ map_of (rev xs)"
proof (induction xs arbitrary: t)
  case (Cons x xs)
  obtain k v where x: "x = (k, v)" by (cases x)
  obtain t1 where t1: "rb_insert H rh t k v = Some t1" "rb_wf H rh t1" "rb_abs t1 = (rb_abs t)(k \<mapsto> v)"
    using rb.put_law [OF Cons.prems] by blast
  have "rb_abs t ++ map_of (rev (x # xs)) = rb_abs t1 ++ map_of (rev xs)"
    unfolding t1(3) x by (simp del: fun_upd_apply)
  with Cons.IH [OF t1(2)] show ?case by (simp add: x t1(1) del: rev.simps)
qed simp

lemma rb_from_iter_abs:
  obtains t where "rb_from_iter H rh xs = Some t" "rb_wf H rh t" "rb_abs t = map_of (rev xs)"
  using rb_from_list_abs [OF rb_wf_new(1), of H rh xs] by (auto simp: rb_from_iter_def rb_wf_new(2))

lemma rb_for_each_items: "rb_for_each t f s = fold (\<lambda>(k, v). f k v) (entries (root t)) s"
proof -
  have "visit n f s = fold (\<lambda>(k, v). f k v) (entries n) s" for n s
    by (induction n arbitrary: s rule: node_ref_induct) simp_all
  then show ?thesis by (simp add: rb_for_each_def)
qed

lemma run_ops_wf:
  obtains t where "run_ops (rb_insert H rh) (rb_delete H rh) ops rb_new = Some t" "rb_wf H rh t"
    "rb_abs t = map_spec ops Map.empty"
proof -
  from rb.run_ops_spec [OF rb.wf_new, of H rh ops] obtain t where
    t: "run_ops (rb_insert H rh) (rb_delete H rh) ops rb_new = Some t" "rb_wf H rh t"
      "rb_get t = map_spec ops Map.empty" by (auto simp: rb.abs_new)
  with rb_get_abs [OF t(2)] show thesis by (intro that [of t]) (auto simp: fun_eq_iff)
qed

text \<open>C23: iterating over a tree reached by any inserts and deletes finishes and yields its entries once
  each, in key order; \<^verbatim>\<open>for_each\<close> visits the same entries in the same order, collecting them builds an
  equal tree, and \<open>==\<close> on two such trees tells whether they hold the same entries, however they were
  built.\<close>

theorem rb_iteration_exact:
  "\<exists>t u es t'. run_ops (rb_insert H rh) (rb_delete H rh) ops rb_new = Some t \<and>
     run_ops (rb_insert H rh) (rb_delete H rh) ops' rb_new = Some u \<and>
     rb_items t = Some es \<and> sorted (map fst es) \<and> distinct (map fst es) \<and>
     map_of es = map_spec ops Map.empty \<and>
     rb_for_each t f s = fold (\<lambda>(k, v). f k v) es s \<and>
     rb_from_iter H rh es = Some t' \<and> rb_eq t' t = Some True \<and>
     rb_eq t u = Some (map_spec ops Map.empty = map_spec ops' Map.empty)"
proof -
  obtain t where t: "run_ops (rb_insert H rh) (rb_delete H rh) ops rb_new = Some t" "rb_wf H rh t"
    "rb_abs t = map_spec ops Map.empty" by (rule run_ops_wf)
  obtain u where u: "run_ops (rb_insert H rh) (rb_delete H rh) ops' rb_new = Some u" "rb_wf H rh u"
    "rb_abs u = map_spec ops' Map.empty" by (rule run_ops_wf)
  define es where "es = entries (root t)"
  obtain t' where t': "rb_from_iter H rh es = Some t'" "rb_wf H rh t'" "rb_abs t' = map_of (rev es)"
    by (rule rb_from_iter_abs)
  have keys: "sorted (map fst es)" "distinct (map fst es)"
    using t(2) by (simp_all add: es_def rb_wf_def sorted_keys_sorted sorted_keys_distinct)
  then have "map_of (rev es) = map_of es" by (simp add: map_of_inject_set rev_map [symmetric])
  with t t' u keys show ?thesis
    by (intro exI [of _ t] exI [of _ u] exI [of _ es] exI [of _ t'])
      (simp add: rb_items_entries rb_for_each_items rb_eq_abs [of H rh] es_def [symmetric] rb_abs_def)
qed

end
