(* ===== verification/Nested_Tree.thy ===== *)
theory Nested_Tree
  imports Rb_Witness_Correct
begin

text \<open>
  The nested tree of \<^verbatim>\<open>packages/ic-certification/src/nested_rb_tree.rs\<close>: a tree of red-black trees
  indexed by paths. Its values of type \<^verbatim>\<open>V: AsHashTree\<close> come with their root hash \<open>vrh\<close> and hash
  tree \<open>vaht\<close>. The lemmas give the meaning of insertion and deletion on paths, the absence of
  panics, and what a witness for a path proves.
\<close>

subsection \<open>Data and operations\<close>

datatype 'v nested_tree = NLeaf 'v | Nested "'v nested_tree rb_tree"

definition nt_default :: "'v nested_tree" where
  "nt_default = Nested rb_new"

fun nt_root_hash :: "(bytes \<Rightarrow> hash) \<Rightarrow> ('v \<Rightarrow> hash) \<Rightarrow> 'v nested_tree \<Rightarrow> hash" where
  "nt_root_hash H vrh (NLeaf a) = vrh a"
| "nt_root_hash H vrh (Nested tree) = rb_root_hash H tree"

lemma full_witness_cong:
  "(\<And>p. p \<in> set (entries t) \<Longrightarrow> aht (snd p) = aht' (snd p)) \<Longrightarrow>
     full_witness_tree H (data_tree aht) t = full_witness_tree H (data_tree aht') t"
proof (induction t rule: node_ref_induct)
  case None
  then show ?case by simp
next
  case (Some k v l r c h)
  have "aht v = aht' v" using Some.prems [of "(k, v)"] by simp
  with Some show ?case by simp
qed

lemma rb_as_hash_tree_cong [fundef_cong]:
  "H = H' \<Longrightarrow> t = t' \<Longrightarrow> (\<And>p. p \<in> set (entries (root t')) \<Longrightarrow> aht (snd p) = aht' (snd p)) \<Longrightarrow>
     rb_as_hash_tree H aht t = rb_as_hash_tree H' aht' t'"
  unfolding rb_as_hash_tree_def by (auto intro: full_witness_cong)

lemma size_entries:
  "p \<in> set (entries t) \<Longrightarrow> size (snd p) < size_option (size_node size) (t :: 'v nested_tree node option)"
  by (induction t rule: node_ref_induct) (auto intro: less_trans)

function nt_as_hash_tree :: "(bytes \<Rightarrow> hash) \<Rightarrow> ('v \<Rightarrow> hash_tree) \<Rightarrow> 'v nested_tree \<Rightarrow> hash_tree" where
  "nt_as_hash_tree H vaht (NLeaf a) = vaht a"
| "nt_as_hash_tree H vaht (Nested tree) =
     rb_as_hash_tree H (\<lambda>child. nt_as_hash_tree H vaht child) tree"
  by pat_completeness auto
termination
proof (relation "measure (\<lambda>(H, vaht, t). size t)", goal_cases)
  case 1
  show ?case by simp
next
  case (2 H vaht tree p)
  then show ?case using size_entries [of p "root tree"] by (cases tree) simp
qed

fun nt_get :: "'v nested_tree \<Rightarrow> bytes list \<Rightarrow> 'v option" where
  "nt_get t (key # path) =
     (case t of
        NLeaf _ \<Rightarrow> None
      | Nested tree \<Rightarrow> Option.bind (rb_get tree key) (\<lambda>child. nt_get child path))"
| "nt_get t [] = (case t of NLeaf v \<Rightarrow> Some v | Nested _ \<Rightarrow> None)"

fun nt_contains_leaf :: "'v nested_tree \<Rightarrow> bytes list \<Rightarrow> bool" where
  "nt_contains_leaf t (key # path) =
     (case t of
        NLeaf _ \<Rightarrow> False
      | Nested tree \<Rightarrow>
          (case rb_get tree key of None \<Rightarrow> False | Some child \<Rightarrow> nt_contains_leaf child path))"
| "nt_contains_leaf t [] = (case t of NLeaf _ \<Rightarrow> True | Nested _ \<Rightarrow> False)"

fun nt_contains_path :: "'v nested_tree \<Rightarrow> bytes list \<Rightarrow> bool" where
  "nt_contains_path t (key # path) =
     (case t of
        NLeaf _ \<Rightarrow> False
      | Nested tree \<Rightarrow>
          (case rb_get tree key of None \<Rightarrow> False | Some child \<Rightarrow> nt_contains_path child path))"
| "nt_contains_path t [] = True"

definition nt_clear :: "'v nested_tree \<Rightarrow> 'v nested_tree" where
  "nt_clear t = nt_default"

text \<open>\<^verbatim>\<open>insert\<close> calls itself on the same path after turning a leaf into an empty tree or adding an
  empty subtree, so it runs on fuel; \<^term>\<open>None\<close> is a panic of the tree operations or the end of
  the fuel.\<close>

fun nt_insert ::
  "nat \<Rightarrow> (bytes \<Rightarrow> hash) \<Rightarrow> ('v \<Rightarrow> hash) \<Rightarrow> 'v nested_tree \<Rightarrow> bytes list \<Rightarrow> 'v \<Rightarrow> 'v nested_tree option" where
  "nt_insert 0 H vrh t path value = None"
| "nt_insert (Suc fuel) H vrh t (key # path) value =
     (case t of
        NLeaf _ \<Rightarrow> nt_insert fuel H vrh (nt_clear t) (key # path) value
      | Nested tree \<Rightarrow>
          (if \<not> Option.is_none (rb_get tree key)
           then do {
             tree \<leftarrow> rb_modify H (nt_root_hash H vrh) tree key
               (\<lambda>child. nt_insert fuel H vrh child path value);
             Some (Nested tree) }
           else do {
             tree \<leftarrow> rb_insert H (nt_root_hash H vrh) tree key nt_default;
             nt_insert fuel H vrh (Nested tree) (key # path) value }))"
| "nt_insert (Suc fuel) H vrh t [] value = Some (NLeaf value)"

fun nt_delete ::
  "(bytes \<Rightarrow> hash) \<Rightarrow> ('v \<Rightarrow> hash) \<Rightarrow> 'v nested_tree \<Rightarrow> bytes list \<Rightarrow> 'v nested_tree option" where
  "nt_delete H vrh t (key # path) =
     (case t of
        NLeaf _ \<Rightarrow> Some t
      | Nested tree \<Rightarrow>
          do {
            tree \<leftarrow> rb_modify H (nt_root_hash H vrh) tree key (\<lambda>child. nt_delete H vrh child path);
            case rb_get tree key of
              Some (Nested nested_tree) \<Rightarrow>
                (if rb_is_empty nested_tree
                 then do { tree \<leftarrow> rb_delete H (nt_root_hash H vrh) tree key; Some (Nested tree) }
                 else Some (Nested tree))
            | _ \<Rightarrow> Some (Nested tree)
          })"
| "nt_delete H vrh t [] = Some (nt_clear t)"

fun nt_witness ::
  "(bytes \<Rightarrow> hash) \<Rightarrow> ('v \<Rightarrow> hash) \<Rightarrow> ('v \<Rightarrow> hash_tree) \<Rightarrow> 'v nested_tree \<Rightarrow> bytes list \<Rightarrow>
     hash_tree option" where
  "nt_witness H vrh vaht t (key # path) =
     (case t of
        NLeaf value \<Rightarrow> Some (vaht value)
      | Nested tree \<Rightarrow>
          rb_nested_witness H (nt_root_hash H vrh) tree key
            (\<lambda>child. nt_witness H vrh vaht child path))"
| "nt_witness H vrh vaht t [] = Some (nt_as_hash_tree H vaht t)"


subsection \<open>Well-formed nested trees\<close>

inductive nt_wf ::
  "(bytes \<Rightarrow> hash) \<Rightarrow> ('v \<Rightarrow> hash) \<Rightarrow> ('v \<Rightarrow> bool) \<Rightarrow> 'v nested_tree \<Rightarrow> bool"
  for H :: "bytes \<Rightarrow> hash" and vrh :: "'v \<Rightarrow> hash" and vok :: "'v \<Rightarrow> bool" where
  nt_wf_leaf: "vok v \<Longrightarrow> nt_wf H vrh vok (NLeaf v)"
| nt_wf_nested: "rb_wf H (nt_root_hash H vrh) tree \<Longrightarrow>
    (\<And>k c. rb_abs tree k = Some c \<Longrightarrow> nt_wf H vrh vok c) \<Longrightarrow> nt_wf H vrh vok (Nested tree)"

inductive_simps nt_wf_simps [simp]: "nt_wf H vrh vok (NLeaf v)" "nt_wf H vrh vok (Nested tree)"

lemma nt_wf_default [simp]: "nt_wf H vrh vok nt_default"
  by (simp add: nt_default_def rb_wf_new)

lemma nt_get_default [simp]: "nt_get nt_default p = None" "nt_get (Nested rb_new) p = None"
  by (cases p; simp add: nt_default_def rb_new_def rb_get_def)+

lemma rb_get_new [simp]: "rb_get rb_new k = None" "rb_abs rb_new k = None"
  by (simp_all add: rb_new_def rb_get_def rb_abs_def)

fun nt_empty :: "'v nested_tree \<Rightarrow> bool" where
  "nt_empty (NLeaf _) = False"
| "nt_empty (Nested tree) = rb_is_empty tree"

text \<open>No empty subtree below the root.\<close>

inductive nt_tidy :: "'v nested_tree \<Rightarrow> bool" where
  nt_tidy_leaf: "nt_tidy (NLeaf v)"
| nt_tidy_nested: "(\<And>k c. rb_abs tree k = Some c \<Longrightarrow> nt_tidy c) \<Longrightarrow>
    (\<And>k c. rb_abs tree k = Some c \<Longrightarrow> \<not> nt_empty c) \<Longrightarrow> nt_tidy (Nested tree)"

inductive_simps nt_tidy_simps [simp]: "nt_tidy (NLeaf v)" "nt_tidy (Nested tree)"

lemma nt_tidy_default [simp]: "nt_tidy nt_default"
  by (simp add: nt_default_def)

lemma rb_is_empty_abs: "rb_is_empty tree \<longleftrightarrow> rb_abs tree = Map.empty"
  by (cases "root tree" rule: node_ref_cases) (auto simp: rb_is_empty_def rb_abs_def)

lemma nt_tidy_leaf_below:
  "nt_tidy t \<Longrightarrow> nt_wf H vrh vok t \<Longrightarrow> \<not> nt_empty t \<Longrightarrow> \<exists>q v. nt_get t q = Some v"
proof (induction t rule: nt_tidy.induct)
  case (nt_tidy_leaf v)
  have "nt_get (NLeaf v) [] = Some v" by simp
  then show ?case by blast
next
  case (nt_tidy_nested tree)
  then have rb: "rb_wf H (nt_root_hash H vrh) tree" by simp
  from nt_tidy_nested.prems(2) obtain k c where kc: "rb_abs tree k = Some c"
    by (auto simp: rb_is_empty_abs fun_eq_iff)
  with nt_tidy_nested.prems(1) have "nt_wf H vrh vok c" by simp
  with nt_tidy_nested.IH [OF kc] nt_tidy_nested.hyps(2) [OF kc] obtain q v where
    "nt_get c q = Some v" by blast
  then have "nt_get (Nested tree) (k # q) = Some v" using kc rb.get_abs [OF rb] by simp
  then show ?case by blast
qed

subsection \<open>Insertion\<close>

text \<open>The meaning of an insertion: the value at its path, nothing above or below it.\<close>

definition ins_spec :: "bytes list \<Rightarrow> 'v \<Rightarrow> (bytes list \<Rightarrow> 'v option) \<Rightarrow> bytes list \<Rightarrow> 'v option" where
  "ins_spec path v g p =
     (if p = path then Some v
      else if starts_with p path \<or> starts_with path p then None else g p)"

definition tidy_but :: "bytes \<Rightarrow> 'v nested_tree rb_tree \<Rightarrow> bool" where
  "tidy_but key tree \<longleftrightarrow>
     (\<forall>k c. rb_abs tree k = Some c \<longrightarrow> nt_tidy c \<and> (k \<noteq> key \<longrightarrow> \<not> nt_empty c))"

lemma nt_insert_present:
  assumes wf: "nt_wf H vrh vok (Nested tree)" and child: "rb_get tree key = Some child"
    and ins: "nt_insert fuel H vrh child path v = Some child'" "nt_wf H vrh vok child'"
      "nt_get child' = ins_spec path v (nt_get child)"
      "nt_tidy child \<longrightarrow> nt_tidy child' \<and> \<not> nt_empty child'"
  shows "\<exists>t'. nt_insert (Suc fuel) H vrh (Nested tree) (key # path) v = Some t' \<and> nt_wf H vrh vok t' \<and>
    nt_get t' = ins_spec (key # path) v (nt_get (Nested tree)) \<and>
    (tidy_but key tree \<longrightarrow> nt_tidy t' \<and> \<not> nt_empty t')"
proof -
  from wf have rb: "rb_wf H (nt_root_hash H vrh) tree" by simp
  note get = rb.get_abs [OF rb]
  from child get have abs: "rb_abs tree key = Some child" by simp
  from rb.upd_law [OF rb, of key "\<lambda>child. nt_insert fuel H vrh child path v"] ins(1) abs
  obtain tree' where t': "rb_modify H (nt_root_hash H vrh) tree key
      (\<lambda>child. nt_insert fuel H vrh child path v) = Some tree'"
    "rb_wf H (nt_root_hash H vrh) tree'" "rb_abs tree' = (rb_abs tree)(key \<mapsto> child')" by auto
  have "nt_wf H vrh vok (Nested tree')" using t' ins(2) wf by (auto split: if_splits)
  moreover have "nt_get (Nested tree') p = ins_spec (key # path) v (nt_get (Nested tree)) p" for p
    using t' ins(3) get abs rb.get_abs [OF t'(2)] by (cases p) (auto simp: ins_spec_def)
  moreover have "nt_tidy (Nested tree') \<and> \<not> nt_empty (Nested tree')" if "tidy_but key tree"
    using that ins(4) abs t'(3) by (auto simp: tidy_but_def rb_is_empty_abs fun_eq_iff split: if_splits)
  ultimately show ?thesis using child t'(1) by auto
qed

lemma nt_insert_absent:
  assumes wf: "nt_wf H vrh vok (Nested tree)" and child: "rb_get tree key = None"
  obtains tree' where "nt_insert (Suc fuel) H vrh (Nested tree) (key # path) v =
      nt_insert fuel H vrh (Nested tree') (key # path) v"
    "nt_wf H vrh vok (Nested tree')" "nt_get (Nested tree') = nt_get (Nested tree)"
    "rb_get tree' key = Some nt_default" "nt_tidy (Nested tree) \<longrightarrow> tidy_but key tree'"
proof -
  from wf have rb: "rb_wf H (nt_root_hash H vrh) tree" by simp
  note get = rb.get_abs [OF rb]
  obtain tree' where t': "rb_insert H (nt_root_hash H vrh) tree key nt_default = Some tree'"
    "rb_wf H (nt_root_hash H vrh) tree'" "rb_abs tree' = (rb_abs tree)(key \<mapsto> nt_default)"
    by (rule rb.putE [OF rb])
  note get' = rb.get_abs [OF t'(2)]
  have "nt_wf H vrh vok (Nested tree')" using t' wf by (auto split: if_splits)
  moreover have "nt_get (Nested tree') p = nt_get (Nested tree) p" for p
    using t' get get' child by (cases p) auto
  moreover have "nt_tidy (Nested tree) \<longrightarrow> tidy_but key tree'"
    using t'(3) by (auto simp: tidy_but_def)
  ultimately show thesis using child t' get' by (intro that [of tree']) auto
qed

definition inserted ::
  "(bytes \<Rightarrow> hash) \<Rightarrow> ('v \<Rightarrow> hash) \<Rightarrow> ('v \<Rightarrow> bool) \<Rightarrow> 'v nested_tree \<Rightarrow> bytes list \<Rightarrow> 'v \<Rightarrow>
     'v nested_tree option \<Rightarrow> bool" where
  "inserted H vrh vok t path v result \<longleftrightarrow>
     (\<exists>t'. result = Some t' \<and> nt_wf H vrh vok t' \<and> nt_get t' = ins_spec path v (nt_get t) \<and>
       (nt_tidy t \<longrightarrow> nt_tidy t' \<and> \<not> nt_empty t'))"

lemma ins_spec_cong:
  "(\<And>p. p \<noteq> [] \<Longrightarrow> g p = g' p) \<Longrightarrow> ins_spec (key # path) v g = ins_spec (key # path) v g'"
proof
  show "ins_spec (key # path) v g p = ins_spec (key # path) v g' p" if "\<And>p. p \<noteq> [] \<Longrightarrow> g p = g' p" for p
    using that by (cases p) (auto simp: ins_spec_def)
qed

lemma nt_insert_total:
  "nt_wf H vrh vok t \<Longrightarrow> vok v \<Longrightarrow> 3 * length path + 1 \<le> fuel \<Longrightarrow>
     inserted H vrh vok t path v (nt_insert fuel H vrh t path v)"
proof (induction path arbitrary: t fuel)
  case Nil
  have "nt_get (NLeaf v) p = ins_spec [] v (nt_get t) p" for p by (cases p) (auto simp: ins_spec_def)
  moreover from Nil obtain n where "fuel = Suc n" by (cases fuel) auto
  ultimately show ?case using Nil by (auto simp: inserted_def)
next
  case (Cons key path)
  have present: "\<exists>t'. nt_insert n H vrh (Nested tree) (key # path) v = Some t' \<and>
      nt_wf H vrh vok t' \<and> nt_get t' = ins_spec (key # path) v (nt_get (Nested tree)) \<and>
      (tidy_but key tree \<longrightarrow> nt_tidy t' \<and> \<not> nt_empty t')"
    if n: "3 * length path + 2 \<le> n" and wf: "nt_wf H vrh vok (Nested tree)"
      and child: "rb_get tree key = Some child" for n tree child
  proof -
    from n obtain m where m: "n = Suc m" by (cases n) auto
    from wf child rb.get_abs have "nt_wf H vrh vok child" by (metis nt_wf_simps(2))
    with Cons.IH [OF _ Cons.prems(2), of child m] n m obtain child' where
      "nt_insert m H vrh child path v = Some child'" "nt_wf H vrh vok child'"
      "nt_get child' = ins_spec path v (nt_get child)"
      "nt_tidy child \<longrightarrow> nt_tidy child' \<and> \<not> nt_empty child'" by (auto simp: inserted_def)
    from nt_insert_present [OF wf child this] show ?thesis unfolding m .
  qed
  have nested: "inserted H vrh vok (Nested tree) (key # path) v
      (nt_insert n H vrh (Nested tree) (key # path) v)"
    if n: "3 * length path + 3 \<le> n" and wf: "nt_wf H vrh vok (Nested tree)" for n tree
  proof (cases "rb_get tree key")
    case None
    from n obtain m where m: "n = Suc m" by (cases n) auto
    from nt_insert_absent [OF wf None, of m path v] obtain tree' where
      "nt_insert n H vrh (Nested tree) (key # path) v = nt_insert m H vrh (Nested tree') (key # path) v"
      "nt_wf H vrh vok (Nested tree')" "nt_get (Nested tree') = nt_get (Nested tree)"
      "rb_get tree' key = Some nt_default" "nt_tidy (Nested tree) \<longrightarrow> tidy_but key tree'"
      unfolding m by metis
    with present [of m tree'] n m show ?thesis unfolding inserted_def by auto
  next
    case (Some child)
    have "tidy_but key tree" if "nt_tidy (Nested tree)" using that by (auto simp: tidy_but_def)
    with present [OF _ wf Some, of n] n show ?thesis unfolding inserted_def by fastforce
  qed
  show ?case
  proof (cases t)
    case (Nested tree)
    with nested Cons.prems show ?thesis by simp
  next
    case (NLeaf w)
    from Cons.prems(3) obtain m where m: "fuel = Suc m" by (cases fuel) auto
    have "ins_spec (key # path) v (nt_get (Nested rb_new)) = ins_spec (key # path) v (nt_get t)"
    proof (rule ins_spec_cong)
      show "nt_get (Nested rb_new) p = nt_get t p" if "p \<noteq> []" for p
        using that NLeaf by (cases p) auto
    qed
    with nested [of m rb_new] Cons.prems(3) NLeaf m show ?thesis
      by (auto simp: inserted_def nt_clear_def nt_default_def rb_wf_new)
  qed
qed

subsection \<open>Deletion\<close>

text \<open>A deletion removes every value at or below its path, and leaves no empty subtree behind.\<close>

definition del_spec :: "bytes list \<Rightarrow> (bytes list \<Rightarrow> 'v option) \<Rightarrow> bytes list \<Rightarrow> 'v option" where
  "del_spec path g p = (if starts_with p path then None else g p)"

lemma nt_delete_total:
  "nt_wf H vrh vok t \<Longrightarrow>
     \<exists>t'. nt_delete H vrh t path = Some t' \<and> nt_wf H vrh vok t' \<and>
       nt_get t' = del_spec path (nt_get t) \<and> (nt_tidy t \<longrightarrow> nt_tidy t')"
proof (induction path arbitrary: t)
  case Nil
  then show ?case by (auto simp: nt_clear_def del_spec_def)
next
  case (Cons key path)
  show ?case
  proof (cases t)
    case (NLeaf v)
    have "nt_get t = del_spec (key # path) (nt_get t)"
    proof
      show "nt_get t p = del_spec (key # path) (nt_get t) p" for p
        using NLeaf by (cases p) (auto simp: del_spec_def)
    qed
    with NLeaf Cons.prems show ?thesis by auto
  next
    case (Nested tree)
    with Cons.prems have rb: "rb_wf H (nt_root_hash H vrh) tree"
      and kids: "\<And>k c. rb_abs tree k = Some c \<Longrightarrow> nt_wf H vrh vok c" by auto
    note get = rb.get_abs [OF rb]
    let ?f = "\<lambda>child. nt_delete H vrh child path"
    from rb.upd_law [OF rb, of key ?f] Cons.IH [OF kids] obtain tree' where
      t': "rb_modify H (nt_root_hash H vrh) tree key ?f = Some tree'"
      "rb_wf H (nt_root_hash H vrh) tree'"
      "rb_abs tree' = (rb_abs tree)(key := Option.bind (rb_abs tree key) ?f)" by force
    note get' = rb.get_abs [OF t'(2)]
    have kids': "nt_wf H vrh vok c" if "rb_abs tree' k = Some c" for k c
    proof (cases "k = key")
      case True
      with that t'(3) obtain d where d: "rb_abs tree key = Some d" "nt_delete H vrh d path = Some c"
        by (auto simp: bind_eq_Some_conv)
      with Cons.IH [OF kids [OF d(1)]] show ?thesis by simp
    next
      case False
      with that t'(3) kids show ?thesis by simp
    qed
    have child: "nt_get c = del_spec path (nt_get d) \<and> (nt_tidy d \<longrightarrow> nt_tidy c)"
      if "rb_abs tree key = Some d" "rb_abs tree' key = Some c" for c d
      using that t'(3) Cons.IH [OF kids [OF that(1)]] by auto
    have get_eq: "nt_get (Nested tree') p = del_spec (key # path) (nt_get t) p" for p
    proof (cases p)
      case Nil
      then show ?thesis using Nested by (simp add: del_spec_def)
    next
      case p: (Cons k q)
      have other: "rb_abs tree' k = rb_abs tree k" if "k \<noteq> key" using t'(3) that by simp
      show ?thesis
      proof (cases "rb_abs tree key")
        case None
        with t'(3) have "rb_abs tree' = rb_abs tree" by auto
        with None p Nested get get' show ?thesis by (simp add: del_spec_def)
      next
        case (Some d)
        with t'(3) Cons.IH [OF kids [OF Some]] obtain c where c: "rb_abs tree' key = Some c" by auto
        from child [OF Some c] have "nt_get c = del_spec path (nt_get d)" by simp
        with Some c other p Nested get get' show ?thesis
          by (cases "k = key") (simp_all add: del_spec_def)
      qed
    qed
    show ?thesis
    proof (cases "\<exists>sub. rb_get tree' key = Some (Nested sub) \<and> rb_is_empty sub")
      case True
      then obtain sub where sub: "rb_get tree' key = Some (Nested sub)" "rb_is_empty sub" by blast
      obtain tree'' where t'': "rb_delete H (nt_root_hash H vrh) tree' key = Some tree''"
        "rb_wf H (nt_root_hash H vrh) tree''" "rb_abs tree'' = (rb_abs tree')(key := None)"
        by (rule rb.delE [OF t'(2)])
      note get'' = rb.get_abs [OF t''(2)]
      have none: "nt_get (Nested sub) q = None" for q
        using sub kids' get' rb.get_abs by (cases q) (fastforce simp: rb_is_empty_def rb_get_def split: option.splits)+
      have "nt_delete H vrh t (key # path) = Some (Nested tree'')"
        using Nested t'(1) t''(1) sub by simp
      moreover have "nt_wf H vrh vok (Nested tree'')" using t'' kids' by (auto split: if_splits)
      moreover have "nt_get (Nested tree'') p = nt_get (Nested tree') p" for p
        using t''(3) get' get'' sub none by (cases p) auto
      moreover have "nt_tidy (Nested tree'')" if "nt_tidy t"
        using that Nested t'(3) t''(3) by (auto split: if_splits)
      ultimately show ?thesis using get_eq by auto
    next
      case False
      then have "nt_delete H vrh t (key # path) = Some (Nested tree')"
        using Nested t'(1) by (auto split: option.splits nested_tree.splits)
      moreover have "nt_wf H vrh vok (Nested tree')" using t' kids' by auto
      moreover have "nt_tidy (Nested tree')" if tidy: "nt_tidy t"
      proof -
        have "nt_tidy c \<and> \<not> nt_empty c" if "rb_abs tree' k = Some c" for k c
        proof (cases "k = key")
          case True
          with that obtain d where d: "rb_abs tree key = Some d" using t'(3)
            by (auto simp: bind_eq_Some_conv)
          from tidy Nested d have "nt_tidy d" by simp
          with child [OF d] that True have "nt_tidy c" by simp
          moreover from that True False get' have "\<not> nt_empty c" by (cases c) auto
          ultimately show ?thesis by simp
        next
          case neq: False
          with that t'(3) tidy Nested show ?thesis by auto
        qed
        then show ?thesis by auto
      qed
      ultimately show ?thesis using get_eq by auto
    qed
  qed
qed


subsection \<open>Hash tree and witnesses\<close>

definition leaves_ok :: "(bytes \<Rightarrow> hash) \<Rightarrow> ('v \<Rightarrow> hash) \<Rightarrow> ('v \<Rightarrow> hash_tree) \<Rightarrow> ('v \<Rightarrow> bool) \<Rightarrow> bool" where
  "leaves_ok H vrh vaht vok \<longleftrightarrow>
     (\<forall>v. vok v \<longrightarrow> digest H (vaht v) = vrh v \<and> sorted_tree (vaht v))"

lemma rb_abs_entries:
  assumes "rb_wf H rh t" and "p \<in> set (entries (root t))"
  shows "rb_abs t (fst p) = Some (snd p)"
  using assms sorted_keys_distinct [of "entries (root t)"] by (cases p) (simp add: rb_wf_def rb_abs_def)

lemma nt_contract:
  assumes "leaves_ok H vrh vaht vok"
  shows "nt_wf H vrh vok t \<Longrightarrow>
    digest H (nt_as_hash_tree H vaht t) = nt_root_hash H vrh t \<and> sorted_tree (nt_as_hash_tree H vaht t)"
proof (induction t rule: nt_wf.induct)
  case (nt_wf_leaf v)
  with assms show ?case by (simp add: leaves_ok_def)
next
  case (nt_wf_nested tree)
  have "rb_values_ok H (nt_root_hash H vrh) (nt_as_hash_tree H vaht) tree"
    using rb_abs_entries [OF nt_wf_nested.hyps(1)] nt_wf_nested.IH by (fastforce simp: values_ok_def)
  with rbt.digest_tree [of H "nt_root_hash H vrh" tree "nt_as_hash_tree H vaht"]
    rbt.tree_sorted [of H "nt_root_hash H vrh" tree "nt_as_hash_tree H vaht"] nt_wf_nested.hyps(1)
  show ?case by simp
qed

lemma nt_values_ok:
  assumes "leaves_ok H vrh vaht vok" and "nt_wf H vrh vok (Nested tree)"
  shows "rb_values_ok H (nt_root_hash H vrh) (nt_as_hash_tree H vaht) tree"
proof -
  from assms(2) have wf: "rb_wf H (nt_root_hash H vrh) tree" by simp
  show ?thesis
    using rb_abs_entries [OF wf] nt_contract [OF assms(1)] assms(2)
    by (fastforce simp: values_ok_def)
qed

interpretation ntree: as_hash_tree H "nt_root_hash H vrh" "nt_as_hash_tree H vaht"
  "\<lambda>t. leaves_ok H vrh vaht vok \<and> nt_wf H vrh vok t" for H vrh vaht vok
  by unfold_locales (auto simp: nt_contract)

lemma full_tree_lookup_label:
  assumes "rb_wf H rh tree" and "rb_values_ok H rh aht tree"
  shows "lookup_subtree (rb_as_hash_tree H aht tree) (key # path) =
    (case rb_get tree key of None \<Rightarrow> SLR_Absent | Some c \<Rightarrow> lookup_subtree (aht c) path)"
proof (cases "rb_get tree key")
  case None
  then have "key \<notin> set (tree_labels (rb_as_hash_tree H aht tree))"
    using rb_keys_of_get [OF assms(1), of key] by (simp add: rb_as_hash_tree_def full_tree_labels)
  moreover have "lookup_label (rb_as_hash_tree H aht tree) key \<noteq> LLR_Unknown"
    by (rule lookup_label_not_Unknown) (simp add: rb_as_hash_tree_ok [OF assms])
  ultimately show ?thesis using None lookup_label_Found_mem [of "rb_as_hash_tree H aht tree" key]
    by (cases "lookup_label (rb_as_hash_tree H aht tree) key") auto
next
  case (Some c)
  then have "lookup_label (rb_as_hash_tree H aht tree) key = LLR_Found (aht c)"
    using full_tree_lookup [of "root tree" key c H aht] rb_get_abs [OF assms(1), of key] assms(1)
    by (simp add: rb_as_hash_tree_def rb_abs_def rb_wf_def)
  with Some show ?thesis by simp
qed

lemma lookup_subtree_Cons:
  "lookup_subtree w (key # path) =
     (case lookup_subtree w [key] of SLR_Found n \<Rightarrow> lookup_subtree n path | a \<Rightarrow> a)"
  by (auto split: lookup_label_result.splits)

lemma lookup_path_subtree:
  "lookup_path w p =
     (case lookup_subtree w p of SLR_Found n \<Rightarrow> lookup_path n [] | SLR_Unknown \<Rightarrow> LR_Unknown
      | SLR_Absent \<Rightarrow> LR_Absent)"
  by (induction p arbitrary: w) (auto split: lookup_label_result.splits)

text \<open>The witness of a path is a pruning of the full tree that answers the path, and everything
  below it, exactly as the full tree does.\<close>

lemma nt_witness_total:
  assumes ok: "leaves_ok H vrh vaht vok"
  shows "nt_wf H vrh vok t \<Longrightarrow>
    \<exists>w. nt_witness H vrh vaht t path = Some w \<and> prunes H w (nt_as_hash_tree H vaht t) \<and>
      (\<forall>rest. lookup_subtree w (path @ rest) = lookup_subtree (nt_as_hash_tree H vaht t) (path @ rest))"
proof (induction path arbitrary: t)
  case Nil
  then show ?case by auto
next
  case (Cons key path)
  show ?case
  proof (cases t)
    case (NLeaf v)
    then show ?thesis by auto
  next
    case (Nested tree)
    with Cons.prems have rb: "rb_wf H (nt_root_hash H vrh) tree"
      and kids: "\<And>k c. rb_abs tree k = Some c \<Longrightarrow> nt_wf H vrh vok c" by auto
    note vals = nt_values_ok [OF ok Cons.prems [unfolded Nested]]
    let ?f = "\<lambda>child. nt_witness H vrh vaht child path"
    have f: "\<exists>x. ?f c = Some x \<and> prunes H x (nt_as_hash_tree H vaht c)" if "rb_get tree key = Some c" for c
      using Cons.IH [OF kids] that rb.get_abs [OF rb] by force
    obtain w where w: "rb_nested_witness H (nt_root_hash H vrh) tree key ?f = Some w"
      "pruning_of H (nt_as_hash_tree H vaht) (root tree) w"
      "lookup_subtree w [key] =
         (case rb_get tree key of None \<Rightarrow> SLR_Absent | Some c \<Rightarrow> SLR_Found (the (?f c)))"
      by (rule rb_nested_witness_proves [OF rb vals f])
    have "prunes H w (nt_as_hash_tree H vaht t)" using rb_pruning(1) [OF rb vals w(2)] Nested by simp
    moreover have "lookup_subtree w (key # path @ rest) =
        lookup_subtree (nt_as_hash_tree H vaht t) (key # path @ rest)" for rest
    proof (cases "rb_get tree key")
      case None
      with w(3) lookup_subtree_Cons [of w key "path @ rest"] full_tree_lookup_label [OF rb vals] Nested
      show ?thesis by simp
    next
      case (Some c)
      with Cons.IH [OF kids] rb.get_abs [OF rb] obtain x where "?f c = Some x"
        "lookup_subtree x (path @ rest) = lookup_subtree (nt_as_hash_tree H vaht c) (path @ rest)" by force
      with Some w(3) lookup_subtree_Cons [of w key "path @ rest"] full_tree_lookup_label [OF rb vals] Nested
      show ?thesis by simp
    qed
    ultimately show ?thesis using w(1) Nested by simp
  qed
qed

text \<open>For byte-string leaves, path lookup in the full tree is \<^verbatim>\<open>get\<close>.\<close>

lemma nt_lookup_get:
  assumes "nt_wf H (vec_root_hash H) (\<lambda>_. True) t"
  shows "lookup_path (nt_as_hash_tree H vec_as_hash_tree t) p = LR_Found v \<longleftrightarrow> nt_get t p = Some v"
  using assms
proof (induction p arbitrary: t)
  case Nil
  have no_leaf: "lookup_path w [] \<noteq> LR_Found v" if "forkable w \<or> w = Empty" for w
    using that by (cases w) auto
  have "lookup_path (rb_as_hash_tree H aht tree) [] \<noteq> LR_Found v"
    for aht :: "bytes nested_tree \<Rightarrow> hash_tree" and tree
    by (rule no_leaf) (use full_tree_forkable [of "root tree" H aht] in \<open>auto simp: rb_as_hash_tree_def\<close>)
  then show ?case by (cases t) (auto simp: vec_as_hash_tree_def)
next
  case (Cons key p)
  show ?case
  proof (cases t)
    case (NLeaf w)
    then show ?thesis by (simp add: vec_as_hash_tree_def)
  next
    case (Nested tree)
    with Cons.prems have rb: "rb_wf H (nt_root_hash H (vec_root_hash H)) tree"
      and kids: "\<And>k c. rb_abs tree k = Some c \<Longrightarrow> nt_wf H (vec_root_hash H) (\<lambda>_. True) c" by auto
    have ok: "leaves_ok H (vec_root_hash H) vec_as_hash_tree (\<lambda>_. True)"
      by (simp add: leaves_ok_def vec.digest_tree vec.tree_sorted)
    note vals = nt_values_ok [OF ok Cons.prems [unfolded Nested]]
    have look: "lookup_path (nt_as_hash_tree H vec_as_hash_tree t) (key # p) =
        (case rb_get tree key of None \<Rightarrow> LR_Absent
         | Some c \<Rightarrow> lookup_path (nt_as_hash_tree H vec_as_hash_tree c) p)"
      using full_tree_lookup_label [OF rb vals, of key p] Nested
      by (subst (1 2) lookup_path_subtree) (simp split: option.splits)
    show ?thesis
      unfolding look using Nested rb.get_abs [OF rb] Cons.IH [OF kids]
      by (cases "rb_get tree key") simp_all
  qed
qed

lemma nt_lookup_contains:
  assumes "nt_wf H (vec_root_hash H) (\<lambda>_. True) t"
  shows "lookup_subtree (nt_as_hash_tree H vec_as_hash_tree t) p \<noteq> SLR_Unknown \<and>
    (lookup_subtree (nt_as_hash_tree H vec_as_hash_tree t) p = SLR_Absent \<longleftrightarrow> \<not> nt_contains_path t p)"
  using assms
proof (induction p arbitrary: t)
  case Nil
  then show ?case by simp
next
  case (Cons key p)
  show ?case
  proof (cases t)
    case (NLeaf w)
    then show ?thesis by (simp add: vec_as_hash_tree_def)
  next
    case (Nested tree)
    with Cons.prems have rb: "rb_wf H (nt_root_hash H (vec_root_hash H)) tree"
      and kids: "\<And>k c. rb_abs tree k = Some c \<Longrightarrow> nt_wf H (vec_root_hash H) (\<lambda>_. True) c" by auto
    have ok: "leaves_ok H (vec_root_hash H) vec_as_hash_tree (\<lambda>_. True)"
      by (simp add: leaves_ok_def vec.digest_tree vec.tree_sorted)
    note look = full_tree_lookup_label [OF rb nt_values_ok [OF ok Cons.prems [unfolded Nested]], of key p]
    show ?thesis
      using look Nested rb.get_abs [OF rb] Cons.IH [OF kids] by (cases "rb_get tree key") simp_all
  qed
qed

subsection \<open>Histories\<close>

datatype 'v nt_op = NtInsert "bytes list" 'v | NtDelete "bytes list"

fun nt_run ::
  "(bytes \<Rightarrow> hash) \<Rightarrow> ('v \<Rightarrow> hash) \<Rightarrow> 'v nt_op list \<Rightarrow> 'v nested_tree \<Rightarrow> 'v nested_tree option" where
  "nt_run H vrh [] t = Some t"
| "nt_run H vrh (NtInsert path v # ops) t =
     do { t' \<leftarrow> nt_insert (3 * length path + 1) H vrh t path v; nt_run H vrh ops t' }"
| "nt_run H vrh (NtDelete path # ops) t =
     do { t' \<leftarrow> nt_delete H vrh t path; nt_run H vrh ops t' }"

fun nt_spec :: "'v nt_op list \<Rightarrow> (bytes list \<Rightarrow> 'v option) \<Rightarrow> bytes list \<Rightarrow> 'v option" where
  "nt_spec [] g = g"
| "nt_spec (NtInsert path v # ops) g = nt_spec ops (ins_spec path v g)"
| "nt_spec (NtDelete path # ops) g = nt_spec ops (del_spec path g)"

lemma nt_run_total:
  "nt_wf H vrh (\<lambda>_. True) t \<Longrightarrow> nt_tidy t \<Longrightarrow>
     \<exists>t'. nt_run H vrh ops t = Some t' \<and> nt_wf H vrh (\<lambda>_. True) t' \<and> nt_tidy t' \<and>
       nt_get t' = nt_spec ops (nt_get t)"
proof (induction ops arbitrary: t)
  case Nil
  then show ?case by simp
next
  case (Cons a ops)
  show ?case
  proof (cases a)
    case (NtInsert path v)
    from nt_insert_total [OF Cons.prems(1), where v = v and path = path and fuel = "3 * length path + 1"] obtain t' where
      "nt_insert (3 * length path + 1) H vrh t path v = Some t'" "nt_wf H vrh (\<lambda>_. True) t'"
      "nt_get t' = ins_spec path v (nt_get t)" "nt_tidy t'"
      using Cons.prems(2) unfolding inserted_def by blast
    with Cons.IH [of t'] NtInsert show ?thesis by (simp del: nt_insert.simps)
  next
    case (NtDelete path)
    from nt_delete_total [OF Cons.prems(1), of path] obtain t' where
      "nt_delete H vrh t path = Some t'" "nt_wf H vrh (\<lambda>_. True) t'"
      "nt_get t' = del_spec path (nt_get t)" "nt_tidy t'" using Cons.prems(2) by blast
    with Cons.IH [of t'] NtDelete show ?thesis by simp
  qed
qed

lemma nt_get_default_eq: "nt_get nt_default = (\<lambda>_. None)"
  by (rule ext) simp

text \<open>C6: Every sequence of insertions and deletions on an empty nested tree runs without a panic
  and within its fuel; the values found afterwards are those of the path map of the operations,
  and no subtree below the root is empty, so every key on the way leads to a value.\<close>

theorem nested_tree_history:
  "\<exists>t. nt_run H vrh ops nt_default = Some t \<and> nt_get t = nt_spec ops (\<lambda>_. None) \<and> nt_tidy t \<and>
    (nt_empty t \<or> (\<exists>q v. nt_get t q = Some v))"
proof -
  obtain t where t: "nt_run H vrh ops nt_default = Some t" "nt_wf H vrh (\<lambda>_. True) t" "nt_tidy t"
    "nt_get t = nt_spec ops (\<lambda>_. None)"
    using nt_run_total [of H vrh nt_default ops] by (auto simp: nt_get_default_eq)
  with nt_tidy_leaf_below [OF t(3,2)] show ?thesis by blast
qed

text \<open>C16: The witness of any path in a nested tree of byte strings is built without a panic, has the
  tree's root hash, finds exactly the values the tree has at the path and below it, and never
  leaves the path unknown: it shows absence exactly when the tree does not contain the path.\<close>

theorem nested_tree_witness:
  "\<exists>t w. nt_run H (vec_root_hash H) ops nt_default = Some t \<and>
    nt_witness H (vec_root_hash H) vec_as_hash_tree t path = Some w \<and>
    digest H w = nt_root_hash H (vec_root_hash H) t \<and>
    (\<forall>rest v. lookup_path w (path @ rest) = LR_Found v \<longleftrightarrow> nt_get t (path @ rest) = Some v) \<and>
    lookup_subtree w path \<noteq> SLR_Unknown \<and>
    (lookup_subtree w path = SLR_Absent \<longleftrightarrow> \<not> nt_contains_path t path)"
proof -
  obtain t where t: "nt_run H (vec_root_hash H) ops nt_default = Some t"
    "nt_wf H (vec_root_hash H) (\<lambda>_. True) t"
    using nt_run_total [of H "vec_root_hash H" nt_default ops] by auto
  have ok: "leaves_ok H (vec_root_hash H) vec_as_hash_tree (\<lambda>_. True)"
    by (simp add: leaves_ok_def vec.digest_tree vec.tree_sorted)
  obtain w where w: "nt_witness H (vec_root_hash H) vec_as_hash_tree t path = Some w"
    "prunes H w (nt_as_hash_tree H vec_as_hash_tree t)"
    "\<And>rest. lookup_subtree w (path @ rest) =
       lookup_subtree (nt_as_hash_tree H vec_as_hash_tree t) (path @ rest)"
    using nt_witness_total [OF ok t(2), of path] by blast
  have "digest H w = nt_root_hash H (vec_root_hash H) t"
    using ntree.witness_digest [OF _ w(2)] ok t(2) by blast
  moreover have "lookup_path w (path @ rest) = LR_Found v \<longleftrightarrow> nt_get t (path @ rest) = Some v" for rest v
    using lookup_path_subtree [of w "path @ rest"] nt_lookup_get [OF t(2), of "path @ rest" v]
      lookup_path_subtree [of "nt_as_hash_tree H vec_as_hash_tree t" "path @ rest"] w(3) by simp
  ultimately show ?thesis
    using t(1) w(1) w(3) [of "[]"] nt_lookup_contains [OF t(2), of path] by auto
qed

end
