(* ===== verification/Rep_Indep_Hash.thy ===== *)
theory Rep_Indep_Hash
  imports Rust_Prelude "HOL-Library.Multiset"
begin

text \<open>
  The representation-independent hash of \<^verbatim>\<open>packages/ic-representation-independent-hash\<close>. Rust
  strings are their UTF-8 bytes. The crate \<^verbatim>\<open>leb128\<close> is not part of the repository: its
  \<^verbatim>\<open>write::unsigned\<close> is the parameter \<open>leb\<close>. The lemmas show that the hash does not depend on
  the order of the map and, for a hash function without collisions on the inputs, that it binds
  the map.
\<close>

datatype rih_value =
    VString bytes
  | VNumber "64 word"
  | VBytes bytes
  | VArray "rih_value list"

definition sha_hash :: "(bytes \<Rightarrow> hash) \<Rightarrow> bytes \<Rightarrow> hash" where
  "sha_hash H data = H data"

fun hash_value :: "(bytes \<Rightarrow> hash) \<Rightarrow> (64 word \<Rightarrow> bytes) \<Rightarrow> rih_value \<Rightarrow> hash" where
  "hash_value H leb (VString v) = sha_hash H v"
| "hash_value H leb (VBytes v) = sha_hash H v"
| "hash_value H leb (VNumber n) = H (leb n)"
| "hash_value H leb (VArray es) = H (concat (map (\<lambda>e. hash_value H leb e) es))"

definition hash_array :: "(bytes \<Rightarrow> hash) \<Rightarrow> (64 word \<Rightarrow> bytes) \<Rightarrow> rih_value list \<Rightarrow> hash" where
  "hash_array H leb es = H (concat (map (hash_value H leb) es))"

definition rih_pairs ::
  "(bytes \<Rightarrow> hash) \<Rightarrow> (64 word \<Rightarrow> bytes) \<Rightarrow> (bytes \<times> rih_value) list \<Rightarrow> (hash \<times> hash) list" where
  "rih_pairs H leb m = sort (map (\<lambda>(key, value). (sha_hash H key, hash_value H leb value)) m)"

definition representation_independent_hash ::
  "(bytes \<Rightarrow> hash) \<Rightarrow> (64 word \<Rightarrow> bytes) \<Rightarrow> (bytes \<times> rih_value) list \<Rightarrow> hash" where
  "representation_independent_hash H leb m =
     H (concat (map (\<lambda>(key_hash, value_hash). key_hash @ value_hash) (rih_pairs H leb m)))"

subsection \<open>Order independence\<close>

lemma hash_value_array: "hash_value H leb (VArray es) = hash_array H leb es"
  by (simp add: hash_array_def)

lemma rih_pairs_mset: "mset m = mset m' \<Longrightarrow> rih_pairs H leb m = rih_pairs H leb m'"
  unfolding rih_pairs_def by (rule properties_for_sort) simp_all

lemma rih_perm:
  "mset m = mset m' \<Longrightarrow> representation_independent_hash H leb m = representation_independent_hash H leb m'"
  by (simp add: representation_independent_hash_def rih_pairs_mset [of m m'])

lemma rih_pairs_hashes:
  "rih_pairs H leb m = sort (map (\<lambda>(k, y). (sha_hash H k, y)) (map (\<lambda>(k, v). (k, hash_value H leb v)) m))"
  by (simp add: rih_pairs_def comp_def case_prod_unfold)

lemma rih_same_entries:
  assumes "mset (map (\<lambda>(k, v). (k, hash_value H leb v)) m) = mset (map (\<lambda>(k, v). (k, hash_value H leb v)) m')"
  shows "representation_independent_hash H leb m = representation_independent_hash H leb m'"
proof -
  have "mset (map f xs) = mset (map f ys)" if "mset xs = mset ys" for f :: "bytes \<times> hash \<Rightarrow> hash \<times> hash" and xs ys
    using that by simp
  from this [OF assms] have "rih_pairs H leb m = rih_pairs H leb m'"
    unfolding rih_pairs_hashes by (intro properties_for_sort) simp_all
  then show ?thesis by (simp add: representation_independent_hash_def)
qed

subsection \<open>Binding\<close>

lemma concat_fixed_inj:
  assumes "\<And>x. x \<in> set xs \<Longrightarrow> length x = n" and "\<And>y. y \<in> set ys \<Longrightarrow> length y = n"
    and "concat xs = concat ys" and "0 < n"
  shows "xs = ys"
  using assms
proof (induction xs arbitrary: ys)
  case Nil
  then show ?case by (cases ys) auto
next
  case (Cons x xs)
  then obtain y ys' where ys: "ys = y # ys'" by (cases ys) auto
  with Cons.prems have "x @ concat xs = y @ concat ys'" "length x = length y" by auto
  then have "x = y" "concat xs = concat ys'" by (auto simp: append_eq_append_conv)
  with Cons.IH [of ys'] Cons.prems ys show ?case by auto
qed

lemma concat_pairs_inj:
  assumes "\<And>p. p \<in> set xs \<Longrightarrow> length (fst p) = 32 \<and> length (snd p) = 32"
    and "\<And>p. p \<in> set ys \<Longrightarrow> length (fst p) = 32 \<and> length (snd p) = 32"
    and "concat (map (\<lambda>(a, b). a @ b) xs) = concat (map (\<lambda>(a, b). a @ b) ys)"
  shows "xs = (ys :: (hash \<times> hash) list)"
proof -
  have eq: "map (\<lambda>(a, b). a @ b) xs = map (\<lambda>(a, b). a @ b) ys"
    by (rule concat_fixed_inj [of _ 64]) (use assms in \<open>fastforce+\<close>)
  have "inj_on (\<lambda>(a, b). a @ b) (set xs \<union> set ys)"
  proof (rule inj_onI)
    fix p q
    assume "p \<in> set xs \<union> set ys" "q \<in> set xs \<union> set ys"
      and app: "(case p of (a, b) \<Rightarrow> a @ b) = (case q of (a, b) \<Rightarrow> a @ b)"
    with assms(1,2) have "length (fst p) = length (fst q)" by (metis Un_iff)
    with app show "p = q" by (auto simp: append_eq_append_conv split: prod.splits)
  qed
  with eq show ?thesis by (rule map_inj_on)
qed

lemma image_mset_inj:
  assumes "image_mset f A = image_mset f B" and "inj_on f (set_mset A \<union> set_mset B)"
  shows "A = B"
proof -
  let ?g = "inv_into (set_mset A \<union> set_mset B) f"
  have "image_mset (?g \<circ> f) C = C" if "set_mset C \<subseteq> set_mset A \<union> set_mset B" for C
    using that assms(2) by (intro multiset.map_ident_strong) (auto intro!: inv_into_f_f)
  then show ?thesis
    using arg_cong [OF assms(1), of "image_mset ?g"] by (simp add: multiset.map_comp)
qed

lemma length_hash_value [simp]: "hash32 H \<Longrightarrow> length (hash_value H leb v) = 32"
  by (cases v) (simp_all add: sha_hash_def)

text \<open>The input of the outer hash.\<close>

definition rih_input ::
  "(bytes \<Rightarrow> hash) \<Rightarrow> (64 word \<Rightarrow> bytes) \<Rightarrow> (bytes \<times> rih_value) list \<Rightarrow> bytes" where
  "rih_input H leb m = concat (map (\<lambda>(a, b). a @ b) (rih_pairs H leb m))"

lemma rih_binding:
  assumes H: "hash32 H"
    and inj: "inj_on H ({rih_input H leb m, rih_input H leb m'} \<union> fst ` set m \<union> fst ` set m')"
    and eq: "representation_independent_hash H leb m = representation_independent_hash H leb m'"
  shows "mset (map (\<lambda>(k, v). (k, hash_value H leb v)) m) = mset (map (\<lambda>(k, v). (k, hash_value H leb v)) m')"
proof -
  let ?f = "\<lambda>(k, v). (sha_hash H k, hash_value H leb v)"
  let ?h = "\<lambda>(k, y). (H k, y :: hash)" and ?g = "\<lambda>(k, v). (k, hash_value H leb v)"
  have "rih_input H leb m = rih_input H leb m'"
    using inj_onD [OF inj, of "rih_input H leb m" "rih_input H leb m'"] eq
    by (simp add: representation_independent_hash_def rih_input_def)
  then have "rih_pairs H leb m = rih_pairs H leb m'"
    unfolding rih_input_def
    by (rule concat_pairs_inj [rotated 2]) (auto simp: rih_pairs_def sha_hash_def H)
  then have "mset (map ?f m) = mset (map ?f m')"
    unfolding rih_pairs_def by (metis mset_sort)
  moreover have "mset (map ?f xs) = image_mset ?h (mset (map ?g xs))" for xs
    by (simp add: multiset.map_comp comp_def case_prod_unfold sha_hash_def)
  ultimately have "image_mset ?h (mset (map ?g m)) = image_mset ?h (mset (map ?g m'))" by simp
  then show ?thesis
  proof (rule image_mset_inj)
    show "inj_on ?h (set_mset (mset (map ?g m)) \<union> set_mset (mset (map ?g m')))"
    proof (rule inj_onI)
      fix p q
      assume pq: "p \<in> set_mset (mset (map ?g m)) \<union> set_mset (mset (map ?g m'))"
        "q \<in> set_mset (mset (map ?g m)) \<union> set_mset (mset (map ?g m'))" and eq: "?h p = ?h q"
      then have "fst p \<in> fst ` set m \<union> fst ` set m'" "fst q \<in> fst ` set m \<union> fst ` set m'"
        by force+
      with eq inj_onD [OF inj, of "fst p" "fst q"] show "p = q"
        by (auto simp: case_prod_unfold prod_eq_iff)
    qed
  qed
qed

subsection \<open>The hash determines the map\<close>

text \<open>C15: two maps have the same representation-independent hash if and only if they hold the same
  keys with the same value hashes, in any order: the hash is independent of the representation, and
  for a hash function of 32 bytes without a collision among the keys and the two outer inputs it
  binds the keys and the value hashes.\<close>

theorem representation_independent_hash_exact:
  assumes "hash32 H"
    and "inj_on H ({rih_input H leb m, rih_input H leb m'} \<union> fst ` set m \<union> fst ` set m')"
  shows "representation_independent_hash H leb m = representation_independent_hash H leb m' \<longleftrightarrow>
         mset (map (\<lambda>(k, v). (k, hash_value H leb v)) m) =
         mset (map (\<lambda>(k, v). (k, hash_value H leb v)) m')"
  using rih_binding [OF assms] rih_same_entries [of H leb m m'] by blast

theorem representation_independent_hash_exact_witness:
  "representation_independent_hash (\<lambda>x. pad_hash (of_nat (length x) # x)) (\<lambda>n. [ucast n]) [([1], VString [2]), ([3], VNumber 4)]
     = representation_independent_hash (\<lambda>x. pad_hash (of_nat (length x) # x)) (\<lambda>n. [ucast n]) [([3], VNumber 4), ([1], VBytes [2])]
   \<and> representation_independent_hash (\<lambda>x. pad_hash (of_nat (length x) # x)) (\<lambda>n. [ucast n]) [([1], VString [2]), ([3], VNumber 4)]
     \<noteq> representation_independent_hash (\<lambda>x. pad_hash (of_nat (length x) # x)) (\<lambda>n. [ucast n]) [([3], VNumber 4)]"
proof -
  have H: "hash32 (\<lambda>x. pad_hash (of_nat (length x) # x))"
    using hash32_pad_hash by (simp add: hash32_def)
  have "inj_on (\<lambda>x. pad_hash (of_nat (length x) # x)) ({rih_input (\<lambda>x. pad_hash (of_nat (length x) # x)) (\<lambda>n. [ucast n]) [([1], VString [2]), ([3], VNumber 4)],
      rih_input (\<lambda>x. pad_hash (of_nat (length x) # x)) (\<lambda>n. [ucast n]) [([3], VNumber 4), ([1], VBytes [2])]}
      \<union> fst ` set [([1], VString [2]), ([3], VNumber 4)] \<union> fst ` set [([3], VNumber 4), ([1], VBytes [2])])"
    "inj_on (\<lambda>x. pad_hash (of_nat (length x) # x)) ({rih_input (\<lambda>x. pad_hash (of_nat (length x) # x)) (\<lambda>n. [ucast n]) [([1], VString [2]), ([3], VNumber 4)],
      rih_input (\<lambda>x. pad_hash (of_nat (length x) # x)) (\<lambda>n. [ucast n]) [([3], VNumber 4)]}
      \<union> fst ` set [([1], VString [2]), ([3], VNumber 4)] \<union> fst ` set [([3], VNumber (4 :: 64 word))])"
    by code_simp+
  from this [THEN representation_independent_hash_exact [OF H]] show ?thesis
    by (auto simp: sha_hash_def)
qed

end
