(* ===== verification/Cbor.thy ===== *)
theory Cbor
  imports Hash_Tree "HOL-Library.AList"
begin

unbundle bit_operations_syntax

text \<open>
  The CBOR reader of \<^verbatim>\<open>packages/ic-cbor\<close>: the value parser, the hash tree, certificate, principal
  range and string array readers, and the serialisation of hash trees of
  \<^verbatim>\<open>packages/ic-certification\<close>. The parser combinators of the crate \<^verbatim>\<open>nom\<close> are not part of the
  repository; they are the fields of the record \<open>nom_lib\<close>, and \<open>nom_documented\<close> states what the
  reader relies on. Their only composition used, \<^verbatim>\<open>map\<close>, \<^verbatim>\<open>peek\<close> and \<^verbatim>\<open>terminated\<close>, is written out
  with \<open>and_then\<close>. A Rust string is its UTF-8 bytes.
\<close>

subsection \<open>Values\<close>

datatype cbor_negative_int = Int8 "8 word" | Int16 "16 word" | Int32 "32 word" | Int64 "64 word"

datatype cbor_unsigned_int = UInt8 "8 word" | UInt16 "16 word" | UInt32 "32 word" | UInt64 "64 word"

text \<open>\<^verbatim>\<open>usize\<close> has 64 bits.\<close>

fun to_usize :: "cbor_unsigned_int \<Rightarrow> nat" where
  "to_usize (UInt8 v) = unat v"
| "to_usize (UInt16 v) = unat v"
| "to_usize (UInt32 v) = unat v"
| "to_usize (UInt64 v) = unat v"

text \<open>The casts to the signed type keep the bits; a negative int is read with \<^const>\<open>sint\<close>.\<close>

fun to_negative :: "cbor_unsigned_int \<Rightarrow> cbor_negative_int" where
  "to_negative (UInt8 n) = Int8 (- 1 - n)"
| "to_negative (UInt16 n) = Int16 (- 1 - n)"
| "to_negative (UInt32 n) = Int32 (- 1 - n)"
| "to_negative (UInt64 n) = Int64 (- 1 - n)"

fun negative_value :: "cbor_negative_int \<Rightarrow> int" where
  "negative_value (Int8 v) = sint v"
| "negative_value (Int16 v) = sint v"
| "negative_value (Int32 v) = sint v"
| "negative_value (Int64 v) = sint v"

fun to_u8 :: "cbor_unsigned_int \<Rightarrow> string + 8 word" where
  "to_u8 (UInt8 n) = Inr n"
| "to_u8 _ = Inl ''Expected u8''"

datatype cbor_hash_tree = CHT_Empty | CHT_Fork | CHT_Labelled | CHT_Leaf | CHT_Pruned

text \<open>A \<^verbatim>\<open>HashMap\<close> is an association list with at most one entry per key.\<close>

datatype cbor_value =
    CUnsigned cbor_unsigned_int
  | CSigned cbor_negative_int
  | CByteString bytes
  | CArray "cbor_value list"
  | CMap "(bytes \<times> cbor_value) list"
  | CHashTree cbor_hash_tree

subsection \<open>UTF-8\<close>

definition utf8_tail :: "8 word \<Rightarrow> bool" where
  "utf8_tail b \<longleftrightarrow> 0x80 \<le> b \<and> b \<le> 0xBF"

text \<open>\<^verbatim>\<open>String::from_utf8\<close> accepts exactly the well-formed sequences of the Unicode standard.\<close>

fun utf8_valid :: "bytes \<Rightarrow> bool" where
  "utf8_valid [] = True"
| "utf8_valid (a # s) =
     (if a \<le> 0x7F then utf8_valid s
      else if 0xC2 \<le> a \<and> a \<le> 0xDF
      then (case s of b # s \<Rightarrow> utf8_tail b \<and> utf8_valid s | _ \<Rightarrow> False)
      else if 0xE0 \<le> a \<and> a \<le> 0xEF
      then (case s of b # c # s \<Rightarrow>
              (if a = 0xE0 then 0xA0 \<le> b \<and> b \<le> 0xBF
               else if a = 0xED then 0x80 \<le> b \<and> b \<le> 0x9F else utf8_tail b) \<and>
              utf8_tail c \<and> utf8_valid s
            | _ \<Rightarrow> False)
      else if 0xF0 \<le> a \<and> a \<le> 0xF4
      then (case s of b # c # d # s \<Rightarrow>
              (if a = 0xF0 then 0x90 \<le> b \<and> b \<le> 0xBF
               else if a = 0xF4 then 0x80 \<le> b \<and> b \<le> 0x8F else utf8_tail b) \<and>
              utf8_tail c \<and> utf8_tail d \<and> utf8_valid s
            | _ \<Rightarrow> False)
      else False)"

definition string_from_utf8 :: "bytes \<Rightarrow> bytes option" where
  "string_from_utf8 b = (if utf8_valid b then Some b else None)"

lemma utf8_valid_ascii: "(\<And>b. b \<in> set s \<Longrightarrow> b \<le> 0x7F) \<Longrightarrow> utf8_valid s"
  by (induction s) auto

subsection \<open>The parser library\<close>

datatype 'e nom_err = Nom_Error 'e | Out_Of_Fuel

type_synonym ('e, 'a) parser = "bytes \<Rightarrow> 'e nom_err + bytes \<times> 'a"

record 'e nom_lib =
  be_u8 :: "('e, 8 word) parser"
  be_u16 :: "('e, 16 word) parser"
  be_u32 :: "('e, 32 word) parser"
  be_u64 :: "('e, 64 word) parser"
  nom_take :: "nat \<Rightarrow> ('e, bytes) parser"
  nom_eof :: "('e, bytes) parser"
  nom_count :: "('e, cbor_value) parser \<Rightarrow> nat \<Rightarrow> ('e, cbor_value list) parser"
  fold_many_m_n :: "nat \<Rightarrow> nat \<Rightarrow> ('e, bytes \<times> cbor_value) parser \<Rightarrow> (bytes \<times> cbor_value) list \<Rightarrow>
    ((bytes \<times> cbor_value) list \<Rightarrow> bytes \<times> cbor_value \<Rightarrow> (bytes \<times> cbor_value) list) \<Rightarrow>
    ('e, (bytes \<times> cbor_value) list) parser"
  alt_error :: "bytes \<Rightarrow> 'e"

text \<open>What the documentation of \<^verbatim>\<open>nom\<close> says of these combinators: the numbers are big-endian,
  \<^verbatim>\<open>count\<close> applies a parser a number of times, \<^verbatim>\<open>fold_many_m_n\<close> at most a number of times and
  stops, without an error once its minimum is reached, at the first failure of the parser.\<close>

definition be_nat :: "bytes \<Rightarrow> nat" where
  "be_nat bs = foldl (\<lambda>a b. a * 256 + unat b) 0 bs"

fun count_spec :: "('e, 'a) parser \<Rightarrow> nat \<Rightarrow> ('e, 'a list) parser" where
  "count_spec p 0 i = Inr (i, [])"
| "count_spec p (Suc n) i =
     and_then (p i) (\<lambda>(i, v). and_then (count_spec p n i) (\<lambda>(i, vs). Inr (i, v # vs)))"

fun fold_spec :: "('e, 'a) parser \<Rightarrow> nat \<Rightarrow> 'b \<Rightarrow> ('b \<Rightarrow> 'a \<Rightarrow> 'b) \<Rightarrow> ('e, 'b) parser" where
  "fold_spec p 0 acc f i = Inr (i, acc)"
| "fold_spec p (Suc n) acc f i =
     (case p i of
        Inr (i', v) \<Rightarrow> fold_spec p n (f acc v) f i'
      | Inl (Nom_Error _) \<Rightarrow> Inr (i, acc)
      | Inl Out_Of_Fuel \<Rightarrow> Inl Out_Of_Fuel)"

definition nom_documented :: "'e nom_lib \<Rightarrow> bool" where
  "nom_documented nm \<longleftrightarrow>
     (\<forall>b i. be_u8 nm (b # i) = Inr (i, b)) \<and> (\<exists>e. be_u8 nm [] = Inl (Nom_Error e)) \<and>
     (\<forall>i. if 2 \<le> length i then be_u16 nm i = Inr (drop 2 i, of_nat (be_nat (take 2 i)))
          else \<exists>e. be_u16 nm i = Inl (Nom_Error e)) \<and>
     (\<forall>i. if 4 \<le> length i then be_u32 nm i = Inr (drop 4 i, of_nat (be_nat (take 4 i)))
          else \<exists>e. be_u32 nm i = Inl (Nom_Error e)) \<and>
     (\<forall>i. if 8 \<le> length i then be_u64 nm i = Inr (drop 8 i, of_nat (be_nat (take 8 i)))
          else \<exists>e. be_u64 nm i = Inl (Nom_Error e)) \<and>
     (\<forall>n i. if n \<le> length i then nom_take nm n i = Inr (drop n i, take n i)
            else \<exists>e. nom_take nm n i = Inl (Nom_Error e)) \<and>
     nom_eof nm [] = Inr ([], []) \<and> (\<forall>i. i \<noteq> [] \<longrightarrow> (\<exists>e. nom_eof nm i = Inl (Nom_Error e))) \<and>
     (\<forall>p n i. nom_count nm p n i = count_spec p n i) \<and>
     (\<forall>n p acc f i. (\<forall>j i' v. p j = Inr (i', v) \<longrightarrow> length i' < length j) \<longrightarrow>
        fold_many_m_n nm 0 n p acc f i = fold_spec p n acc f i)"

text \<open>A concrete library with this behaviour.\<close>

definition take_or_fail :: "nat \<Rightarrow> (bytes \<Rightarrow> 'a) \<Rightarrow> (string, 'a) parser" where
  "take_or_fail n f i =
     (if n \<le> length i then Inr (drop n i, f (take n i)) else Inl (Nom_Error ''Eof''))"

definition nom_ref :: "string nom_lib" where
  "nom_ref = \<lparr>
     be_u8 = take_or_fail 1 (\<lambda>b. hd b),
     be_u16 = take_or_fail 2 (\<lambda>b. of_nat (be_nat b)),
     be_u32 = take_or_fail 4 (\<lambda>b. of_nat (be_nat b)),
     be_u64 = take_or_fail 8 (\<lambda>b. of_nat (be_nat b)),
     nom_take = (\<lambda>n. take_or_fail n (\<lambda>b. b)),
     nom_eof = (\<lambda>i. if i = [] then Inr ([], []) else Inl (Nom_Error ''Eof'')),
     nom_count = count_spec,
     fold_many_m_n = (\<lambda>m n p acc f. fold_spec p n acc f),
     alt_error = (\<lambda>_. ''Alt'')\<rparr>"

lemma nom_ref_documented [simp]: "nom_documented nom_ref"
  by (simp add: nom_documented_def nom_ref_def take_or_fail_def)

subsection \<open>Parser\<close>

definition get_cbor_type :: "8 word \<Rightarrow> 8 word" where
  "get_cbor_type e = drop_bit 5 (e AND 0xE0)"

definition get_cbor_info :: "8 word \<Rightarrow> 8 word" where
  "get_cbor_info e = e AND 0x1F"

definition extract_cbor_type :: "'e nom_lib \<Rightarrow> ('e, 8 word) parser" where
  "extract_cbor_type nm i = and_then (be_u8 nm i) (\<lambda>(i, b). Inr (i, get_cbor_type b))"

definition peek_cbor_type :: "'e nom_lib \<Rightarrow> ('e, 8 word) parser" where
  "peek_cbor_type nm i = and_then (extract_cbor_type nm i) (\<lambda>(_, t). Inr (i, t))"

definition extract_cbor_info :: "'e nom_lib \<Rightarrow> ('e, 8 word) parser" where
  "extract_cbor_info nm i = and_then (be_u8 nm i) (\<lambda>(i, b). Inr (i, get_cbor_info b))"

definition extract_cbor_value :: "'e nom_lib \<Rightarrow> ('e, cbor_unsigned_int) parser" where
  "extract_cbor_value nm i =
     and_then (extract_cbor_info nm i) (\<lambda>(i, cbor_info).
       if cbor_info \<le> 23 then Inr (i, UInt8 cbor_info)
       else if cbor_info = 24 then and_then (be_u8 nm i) (\<lambda>(i, n). Inr (i, UInt8 n))
       else if cbor_info = 25 then and_then (be_u16 nm i) (\<lambda>(i, n). Inr (i, UInt16 n))
       else if cbor_info = 26 then and_then (be_u32 nm i) (\<lambda>(i, n). Inr (i, UInt32 n))
       else if cbor_info = 27 then and_then (be_u64 nm i) (\<lambda>(i, n). Inr (i, UInt64 n))
       else Inl (Nom_Error (alt_error nm i)))"

definition unsigned_or_tag :: "cbor_unsigned_int \<Rightarrow> cbor_value" where
  "unsigned_or_tag v =
     (case to_u8 v of
        Inr n \<Rightarrow>
          (if n = 0 then CHashTree CHT_Empty
           else if n = 1 then CHashTree CHT_Fork
           else if n = 2 then CHashTree CHT_Labelled
           else if n = 3 then CHashTree CHT_Leaf
           else if n = 4 then CHashTree CHT_Pruned
           else CUnsigned v)
      | Inl _ \<Rightarrow> CUnsigned v)"

text \<open>\<open>extract_key_val_pair\<close> and \<open>cbor_parser\<close> call each other. Every call consumes input, so fuel
  above the length of the input is enough.\<close>

definition extract_key_val_pair ::
  "'e nom_lib \<Rightarrow> ('e, cbor_value) parser \<Rightarrow> ('e, bytes \<times> cbor_value) parser" where
  "extract_key_val_pair nm parser i =
     and_then (parser i) (\<lambda>(i, key).
       and_then
         (case key of
            CByteString byte_string \<Rightarrow>
              (case string_from_utf8 byte_string of
                 Some str \<Rightarrow> Inr str
               | None \<Rightarrow> Inl (Nom_Error (alt_error nm i)))
          | _ \<Rightarrow> Inl (Nom_Error (alt_error nm i)))
         (\<lambda>key. and_then (parser i) (\<lambda>(i, val). Inr (i, (key, val)))))"

fun cbor_parser :: "'e nom_lib \<Rightarrow> nat \<Rightarrow> ('e, cbor_value) parser" where
  "cbor_parser nm 0 i = Inl Out_Of_Fuel"
| "cbor_parser nm (Suc fuel) i =
     and_then (peek_cbor_type nm i) (\<lambda>(i, cbor_type).
     and_then (extract_cbor_value nm i) (\<lambda>(i, cbor_value).
       if cbor_type = 0 then Inr (i, unsigned_or_tag cbor_value)
       else if cbor_type = 1 then Inr (i, CSigned (to_negative cbor_value))
       else if cbor_type = 2 \<or> cbor_type = 3 then
         and_then (nom_take nm (to_usize cbor_value) i) (\<lambda>(i, data). Inr (i, CByteString data))
       else if cbor_type = 4 then
         and_then (nom_count nm (cbor_parser nm fuel) (to_usize cbor_value) i)
           (\<lambda>(i, data). Inr (i, CArray data))
       else if cbor_type = 5 then
         and_then (fold_many_m_n nm 0 (to_usize cbor_value)
             (extract_key_val_pair nm (cbor_parser nm fuel)) []
             (\<lambda>acc (key, val). AList.update key val acc) i)
           (\<lambda>(i, data). Inr (i, CMap data))
       else if cbor_type = 6 then cbor_parser nm fuel i
       else if cbor_type = 7 then cbor_parser nm fuel i
       else Inl (Nom_Error (alt_error nm i))))"

definition parse_cbor :: "'e nom_lib \<Rightarrow> bytes \<Rightarrow> 'e nom_err + cbor_value" where
  "parse_cbor nm i =
     and_then (cbor_parser nm (Suc (length i)) i) (\<lambda>(i, result).
     and_then (nom_eof nm i) (\<lambda>_. Inr result))"

subsection \<open>Errors and readers\<close>

datatype 'e cbor_error =
    MalformedCbor "'e nom_err"
  | MalformedCborCanisterRanges
  | UnexpectedCborNodeType string cbor_value
  | Utf8ConversionError bytes
  | MalformedCertificate string
  | MalformedHashTree string
  | IncorrectPrunedDataLength
  | UnexpectedEndOfInput

fun parsed_cbor_to_tree :: "cbor_value \<Rightarrow> 'e cbor_error + hash_tree" where
  "parsed_cbor_to_tree (CArray (CHashTree tag # cbor_tags)) =
     (case tag of
        CHT_Empty \<Rightarrow> Inr Empty
      | CHT_Leaf \<Rightarrow>
          (case cbor_tags of
             CByteString data # _ \<Rightarrow> Inr (Leaf data)
           | _ \<Rightarrow> Inl (MalformedHashTree ''Missing ByteString for Leaf node''))
      | CHT_Pruned \<Rightarrow>
          (case cbor_tags of
             CByteString data # _ \<Rightarrow>
               (if length data = 32 then Inr (Pruned data) else Inl IncorrectPrunedDataLength)
           | _ \<Rightarrow> Inl (MalformedHashTree ''Missing ByteString for Pruned node''))
      | CHT_Labelled \<Rightarrow>
          (case cbor_tags of
             CByteString data # child_tag # _ \<Rightarrow>
               and_then (parsed_cbor_to_tree child_tag) (\<lambda>child_node. Inr (Labeled data child_node))
           | _ \<Rightarrow> Inl (MalformedHashTree ''Missing ByteString or child node for Labelled node''))
      | CHT_Fork \<Rightarrow>
          (case cbor_tags of
             left_tag # right_tag # _ \<Rightarrow>
               and_then (parsed_cbor_to_tree left_tag) (\<lambda>l.
               and_then (parsed_cbor_to_tree right_tag) (\<lambda>r. Inr (Fork l r)))
           | _ \<Rightarrow> Inl (MalformedHashTree ''Missing child nodes for Fork node'')))"
| "parsed_cbor_to_tree (CArray _) = Inl (MalformedHashTree ''Expected Hash Tree cbor tag'')"
| "parsed_cbor_to_tree _ = Inl (MalformedHashTree ''Expected Array cbor tag'')"

definition hash_tree_from_cbor :: "'e nom_lib \<Rightarrow> bytes \<Rightarrow> 'e cbor_error + hash_tree" where
  "hash_tree_from_cbor nm cbor =
     and_then (map_err MalformedCbor (parse_cbor nm cbor)) parsed_cbor_to_tree"

record delegation =
  subnet_id :: bytes
  delegation_certificate :: bytes

record certificate =
  cert_tree :: hash_tree
  cert_signature :: bytes
  cert_delegation :: "delegation option"

definition parsed_cbor_to_certificate :: "cbor_value \<Rightarrow> 'e cbor_error + certificate" where
  "parsed_cbor_to_certificate parsed_cbor =
     and_then
       (case parsed_cbor of
          CMap m \<Rightarrow> Inr (map_of m)
        | _ \<Rightarrow> Inl (MalformedCertificate ''Expected Map when parsing Certificate Cbor''))
       (\<lambda>m. and_then (ok_or (m (str_bytes ''tree''))
              (MalformedCertificate ''Expected Tree when parsing Certificate Cbor''))
       (\<lambda>tree_cbor. and_then (parsed_cbor_to_tree tree_cbor)
       (\<lambda>tree. and_then
          (case m (str_bytes ''signature'') of
             Some (CByteString signature) \<Rightarrow> Inr signature
           | _ \<Rightarrow> Inl (MalformedCertificate ''Expected Signature when parsing Certificate Cbor''))
       (\<lambda>signature. and_then
          (case m (str_bytes ''delegation'') of
             Some (CMap delegation_map) \<Rightarrow>
               (case map_of delegation_map (str_bytes ''subnet_id'') of
                  Some (CByteString sid) \<Rightarrow>
                    (case map_of delegation_map (str_bytes ''certificate'') of
                       Some (CByteString c) \<Rightarrow>
                         Inr (Some \<lparr>subnet_id = sid, delegation_certificate = c\<rparr>)
                     | _ \<Rightarrow> Inl (MalformedCertificate
                         ''Expected Delegation Map to contain a Certificate when parsing Certificate Cbor''))
                | _ \<Rightarrow> Inl (MalformedCertificate
                    ''Expected Delegation Map to contain a Subnet ID when parsing Certificate Cbor''))
           | _ \<Rightarrow> Inr None)
       (\<lambda>d. Inr \<lparr>cert_tree = tree, cert_signature = signature, cert_delegation = d\<rparr>)))))"

definition certificate_from_cbor :: "'e nom_lib \<Rightarrow> bytes \<Rightarrow> 'e cbor_error + certificate" where
  "certificate_from_cbor nm cbor =
     and_then (map_err MalformedCbor (parse_cbor nm cbor)) parsed_cbor_to_certificate"

text \<open>\<^verbatim>\<open>Principal::from_slice\<close> of the crate \<^verbatim>\<open>candid\<close> is the parameter \<open>from_slice\<close>; it panics on
  a slice longer than 29 bytes, so it returns an option and so do its callers.\<close>

fun range_entries ::
  "(bytes \<Rightarrow> 'p option) \<Rightarrow> cbor_value list \<Rightarrow> ('e cbor_error + ('p \<times> 'p) list) option" where
  "range_entries from_slice [] = Some (Inr [])"
| "range_entries from_slice (CArray (CByteString a # CByteString b # _) # entries) =
     do {
       p \<leftarrow> from_slice a;
       q \<leftarrow> from_slice b;
       rest \<leftarrow> range_entries from_slice entries;
       Some (and_then rest (\<lambda>ps. Inr ((p, q) # ps)))
     }"
| "range_entries from_slice (_ # entries) = Some (Inl MalformedCborCanisterRanges)"

definition parse_cbor_principals_array ::
  "'e nom_lib \<Rightarrow> (bytes \<Rightarrow> 'p option) \<Rightarrow> bytes \<Rightarrow> ('e cbor_error + ('p \<times> 'p) list) option" where
  "parse_cbor_principals_array nm from_slice i =
     (case map_err MalformedCbor (parse_cbor nm i) of
        Inl e \<Rightarrow> Some (Inl e)
      | Inr (CArray ranges_entries) \<Rightarrow> range_entries from_slice ranges_entries
      | Inr _ \<Rightarrow> Some (Inl MalformedCborCanisterRanges))"

fun string_elems :: "cbor_value list \<Rightarrow> 'e cbor_error + bytes list" where
  "string_elems [] = Inr []"
| "string_elems (elem # elems) =
     and_then
       (case elem of
          CByteString b \<Rightarrow> ok_or (string_from_utf8 b) (Utf8ConversionError b)
        | _ \<Rightarrow> Inl (UnexpectedCborNodeType ''ByteString'' elem))
       (\<lambda>s. and_then (string_elems elems) (\<lambda>ss. Inr (s # ss)))"

definition parse_cbor_string_array :: "'e nom_lib \<Rightarrow> bytes \<Rightarrow> 'e cbor_error + bytes list" where
  "parse_cbor_string_array nm i =
     and_then (map_err MalformedCbor (parse_cbor nm i)) (\<lambda>parsed_cbor.
       case parsed_cbor of
         CArray elems \<Rightarrow> string_elems elems
       | _ \<Rightarrow> Inl (UnexpectedCborNodeType ''Array'' parsed_cbor))"

end
