(* ===== verification/Cbor_Roundtrip.thy ===== *)
theory Cbor_Roundtrip
  imports Cbor Hash_Tree_Serde
begin

text \<open>
  The CBOR reader reads what the serialiser writes. The byte encoder is the crate
  \<^verbatim>\<open>serde_cbor\<close>, a parameter \<open>enc\<close>; \<open>cbor_documented\<close> states its documented output, the RFC 8949
  encoding with shortest heads and definite lengths.
\<close>

subsection \<open>The encoder\<close>

definition be_bytes :: "nat \<Rightarrow> nat \<Rightarrow> bytes" where
  "be_bytes k n = map (\<lambda>i. of_nat (n div 256 ^ (k - 1 - i) mod 256)) [0..<k]"

definition cbor_head :: "nat \<Rightarrow> nat \<Rightarrow> bytes" where
  "cbor_head major n =
     (if n \<le> 23 then [of_nat (major * 32 + n)]
      else if n < 256 then of_nat (major * 32 + 24) # be_bytes 1 n
      else if n < 65536 then of_nat (major * 32 + 25) # be_bytes 2 n
      else if n < 4294967296 then of_nat (major * 32 + 26) # be_bytes 4 n
      else of_nat (major * 32 + 27) # be_bytes 8 n)"

definition cbor_documented :: "(serde \<Rightarrow> bytes) \<Rightarrow> bool" where
  "cbor_documented enc \<longleftrightarrow>
     (\<forall>n. enc (SU8 n) = cbor_head 0 (unat n)) \<and>
     (\<forall>b. length b < 2 ^ 64 \<longrightarrow> enc (SBytes b) = cbor_head 2 (length b) @ b) \<and>
     (\<forall>b. length b < 2 ^ 64 \<longrightarrow> enc (SStr b) = cbor_head 3 (length b) @ b) \<and>
     (\<forall>xs. length xs < 2 ^ 64 \<longrightarrow> enc (SSeq xs) = cbor_head 4 (length xs) @ concat (map enc xs)) \<and>
     (\<forall>fs. length fs < 2 ^ 64 \<longrightarrow> enc (SStruct fs) =
        cbor_head 5 (length fs) @ concat (map (\<lambda>(k, v). enc (SStr k) @ enc v) fs))"

fun serde_small :: "serde \<Rightarrow> bool" where
  "serde_small (SU8 n) = True"
| "serde_small (SBytes b) = (length b < 2 ^ 64)"
| "serde_small (SStr b) = (length b < 2 ^ 64 \<and> utf8_valid b)"
| "serde_small (SSeq xs) = (length xs < 2 ^ 64 \<and> (\<forall>x \<in> set xs. serde_small x))"
| "serde_small (SStruct fs) =
     (length fs < 2 ^ 64 \<and> distinct (map fst fs) \<and>
      (\<forall>p \<in> set fs. length (fst p) < 2 ^ 64 \<and> utf8_valid (fst p) \<and> serde_small (snd p)))"

fun cbor_of_serde :: "serde \<Rightarrow> cbor_value" where
  "cbor_of_serde (SU8 n) = unsigned_or_tag (UInt8 n)"
| "cbor_of_serde (SBytes b) = CByteString b"
| "cbor_of_serde (SStr b) = CByteString b"
| "cbor_of_serde (SSeq xs) = CArray (map cbor_of_serde xs)"
| "cbor_of_serde (SStruct fs) = CMap (map (\<lambda>p. (fst p, cbor_of_serde (snd p))) fs)"

fun cbor_enc :: "serde \<Rightarrow> bytes" where
  "cbor_enc (SU8 n) = cbor_head 0 (unat n)"
| "cbor_enc (SBytes b) = cbor_head 2 (length b) @ b"
| "cbor_enc (SStr b) = cbor_head 3 (length b) @ b"
| "cbor_enc (SSeq xs) = cbor_head 4 (length xs) @ concat (map cbor_enc xs)"
| "cbor_enc (SStruct fs) =
     cbor_head 5 (length fs) @ concat (map (\<lambda>p. cbor_head 3 (length (fst p)) @ fst p @ cbor_enc (snd p)) fs)"

lemma cbor_enc_documented [simp]: "cbor_documented cbor_enc"
  by (auto simp: cbor_documented_def intro!: arg_cong [where f = concat])

subsection \<open>Heads\<close>

lemma be_nat_Nil [simp]: "be_nat [] = 0"
  by (simp add: be_nat_def)

lemma be_nat_append: "be_nat (xs @ [b]) = be_nat xs * 256 + unat b"
  by (simp add: be_nat_def)

lemma be_bytes_Suc: "be_bytes (Suc k) n = be_bytes k (n div 256) @ [of_nat (n mod 256)]"
proof -
  have "n div 256 ^ (k - i) mod 256 = n div 256 div 256 ^ (k - 1 - i) mod 256" if "i < k" for i
  proof -
    from that have "k - i = Suc (k - 1 - i)" by simp
    then show ?thesis by (simp only: power_Suc div_mult2_eq)
  qed
  then show ?thesis by (auto simp: be_bytes_def intro!: map_cong)
qed

lemma length_be_bytes [simp]: "length (be_bytes k n) = k"
  by (simp add: be_bytes_def)

lemma be_nat_be_bytes: "n < 256 ^ k \<Longrightarrow> be_nat (be_bytes k n) = n"
proof (induction k arbitrary: n)
  case 0
  then show ?case by (simp add: be_bytes_def)
next
  case (Suc k)
  then have "n div 256 < 256 ^ k" by (simp add: less_mult_imp_div_less mult.commute)
  with Suc.IH show ?case
    by (simp add: be_bytes_Suc be_nat_append unat_of_nat)
qed

lemma head_bytes_all:
  "\<forall>m \<in> set [0..<8]. \<forall>a \<in> set [0..<32].
     get_cbor_type (of_nat (m * 32 + a)) = of_nat m \<and> get_cbor_info (of_nat (m * 32 + a)) = of_nat a"
  by code_simp

lemma head_byte:
  assumes "m < 8" and "a < 32"
  shows "get_cbor_type (of_nat (m * 32 + a)) = of_nat m" and "get_cbor_info (of_nat (m * 32 + a)) = of_nat a"
  using head_bytes_all assms by auto

lemma be_parsers:
  assumes "nom_documented nm"
  shows "be_u8 nm (b # rest) = Inr (rest, b)"
    and "length bs = 2 \<Longrightarrow> be_u16 nm (bs @ rest) = Inr (rest, of_nat (be_nat bs))"
    and "length bs = 4 \<Longrightarrow> be_u32 nm (bs @ rest) = Inr (rest, of_nat (be_nat bs))"
    and "length bs = 8 \<Longrightarrow> be_u64 nm (bs @ rest) = Inr (rest, of_nat (be_nat bs))"
proof -
  note d = assms [unfolded nom_documented_def]
  from d show "be_u8 nm (b # rest) = Inr (rest, b)" by blast
  from d have "2 \<le> length (bs @ rest) \<longrightarrow>
      be_u16 nm (bs @ rest) = Inr (drop 2 (bs @ rest), of_nat (be_nat (take 2 (bs @ rest))))" by meson
  then show "length bs = 2 \<Longrightarrow> be_u16 nm (bs @ rest) = Inr (rest, of_nat (be_nat bs))" by simp
  from d have "4 \<le> length (bs @ rest) \<longrightarrow>
      be_u32 nm (bs @ rest) = Inr (drop 4 (bs @ rest), of_nat (be_nat (take 4 (bs @ rest))))" by meson
  then show "length bs = 4 \<Longrightarrow> be_u32 nm (bs @ rest) = Inr (rest, of_nat (be_nat bs))" by simp
  from d have "8 \<le> length (bs @ rest) \<longrightarrow>
      be_u64 nm (bs @ rest) = Inr (drop 8 (bs @ rest), of_nat (be_nat (take 8 (bs @ rest))))" by meson
  then show "length bs = 8 \<Longrightarrow> be_u64 nm (bs @ rest) = Inr (rest, of_nat (be_nat bs))" by simp
qed

lemma nom_others:
  assumes "nom_documented nm"
  shows "nom_take nm (length b) (b @ rest) = Inr (rest, b)"
    and "nom_eof nm [] = Inr ([], [])"
    and "nom_count nm p n i = count_spec p n i"
    and "(\<And>j i' v. p' j = Inr (i', v) \<Longrightarrow> length i' < length j) \<Longrightarrow>
      fold_many_m_n nm 0 n p' acc f i = fold_spec p' n acc f i"
proof -
  note d = assms [unfolded nom_documented_def]
  from d have "length b \<le> length (b @ rest) \<longrightarrow>
      nom_take nm (length b) (b @ rest) = Inr (drop (length b) (b @ rest), take (length b) (b @ rest))"
    by meson
  then show "nom_take nm (length b) (b @ rest) = Inr (rest, b)" by simp
  from d show "nom_eof nm [] = Inr ([], [])" "nom_count nm p n i = count_spec p n i" by blast+
  show "fold_many_m_n nm 0 n p' acc f i = fold_spec p' n acc f i"
    if "\<And>j i' v. p' j = Inr (i', v) \<Longrightarrow> length i' < length j" using d that by blast
qed

lemma head_decode:
  assumes nm: "nom_documented nm" and m: "m < 8" and n: "n < 2 ^ 64"
  obtains u where "peek_cbor_type nm (cbor_head m n @ rest) = Inr (cbor_head m n @ rest, of_nat m)"
    and "extract_cbor_value nm (cbor_head m n @ rest) = Inr (rest, u)" and "to_usize u = n"
    and "n \<le> 23 \<Longrightarrow> u = UInt8 (of_nat n)" and "n < 256 \<Longrightarrow> u = UInt8 (of_nat n)"
proof -
  note p = be_parsers [OF nm] and h = head_byte [OF m]
  have info: "extract_cbor_info nm (of_nat (m * 32 + a) # r) = Inr (r, of_nat a)" if "a < 32" for a r
    using p(1) h(2) that by (simp add: extract_cbor_info_def)
  have type: "peek_cbor_type nm (of_nat (m * 32 + a) # r) = Inr (of_nat (m * 32 + a) # r, of_nat m)"
    if "a < 32" for a r
    using p(1) h(1) that by (simp add: peek_cbor_type_def extract_cbor_type_def)
  consider "n \<le> 23" | "23 < n" "n < 256" | "256 \<le> n" "n < 65536" | "65536 \<le> n" "n < 4294967296"
    | "4294967296 \<le> n" by linarith
  then show thesis
  proof cases
    case 1
    then have "(of_nat n :: 8 word) \<le> 23" by (simp add: word_le_nat_alt unat_of_nat)
    with 1 info [of n rest] type [of n rest] show thesis
      by (intro that [of "UInt8 (of_nat n)"])
        (simp_all add: cbor_head_def extract_cbor_value_def unat_of_nat)
  next
    case 2
    with info [of 24] type [of 24] p(1) show thesis
      by (intro that [of "UInt8 (of_nat n)"])
        (simp_all add: cbor_head_def extract_cbor_value_def unat_of_nat be_bytes_def)
  next
    case 3
    with info [of 25] type [of 25] p(2) [of "be_bytes 2 n"] be_nat_be_bytes [of n 2] show thesis
      by (intro that [of "UInt16 (of_nat n)"])
        (simp_all add: cbor_head_def extract_cbor_value_def unat_of_nat)
  next
    case 4
    with info [of 26] type [of 26] p(3) [of "be_bytes 4 n"] be_nat_be_bytes [of n 4] show thesis
      by (intro that [of "UInt32 (of_nat n)"])
        (simp_all add: cbor_head_def extract_cbor_value_def unat_of_nat)
  next
    case 5
    with info [of 27] type [of 27] p(4) [of "be_bytes 8 n"] be_nat_be_bytes [of n 8] n show thesis
      by (intro that [of "UInt64 (of_nat n)"])
        (simp_all add: cbor_head_def extract_cbor_value_def unat_of_nat)
  qed
qed

subsection \<open>Consumption\<close>

definition consuming :: "('e, 'a) parser \<Rightarrow> bool" where
  "consuming p \<longleftrightarrow> (\<forall>i i' v. p i = Inr (i', v) \<longrightarrow> length i' < length i)"

lemma consumingD: "consuming p \<Longrightarrow> p i = Inr (i', v) \<Longrightarrow> length i' < length i"
  unfolding consuming_def by blast

lemma count_spec_length: "consuming p \<Longrightarrow> count_spec p n i = Inr (i', vs) \<Longrightarrow> length i' \<le> length i"
proof (induction n arbitrary: i vs)
  case 0
  then show ?case by simp
next
  case (Suc n)
  then obtain j v ws where j: "p i = Inr (j, v)" "count_spec p n j = Inr (i', ws)"
    by (auto simp: and_then_eq_Inr)
  with Suc.IH [OF Suc.prems(1) j(2)] consumingD [OF Suc.prems(1) j(1)] show ?case by simp
qed

lemma fold_spec_length: "consuming p \<Longrightarrow> fold_spec p n acc f i = Inr (i', vs) \<Longrightarrow> length i' \<le> length i"
proof (induction n arbitrary: i acc)
  case 0
  then show ?case by simp
next
  case (Suc n)
  show ?case
  proof (cases "p i")
    case (Inl e)
    with Suc.prems show ?thesis by (cases e) auto
  next
    case (Inr x)
    then obtain j v where j: "p i = Inr (j, v)" by (cases x) auto
    with Suc.IH [OF Suc.prems(1), of "f acc v" j] Suc.prems consumingD [OF Suc.prems(1) j]
    show ?thesis by simp
  qed
qed

lemma consuming_fixed:
  assumes "\<forall>i. if k \<le> length i then p i = Inr (drop k i, g i) else (\<exists>e. p i = Inl (Nom_Error e))"
    and "0 < k"
  shows "consuming p"
  unfolding consuming_def
proof (intro allI impI)
  fix i i' v
  assume "p i = Inr (i', v)"
  with spec [OF assms(1), of i] assms(2) show "length i' < length i" by (auto split: if_splits)
qed

lemma be_consuming:
  assumes "nom_documented nm"
  shows "consuming (be_u8 nm)" "consuming (be_u16 nm)" "consuming (be_u32 nm)" "consuming (be_u64 nm)"
proof -
  note d = assms [unfolded nom_documented_def]
  from d have e: "\<exists>e. be_u8 nm [] = Inl (Nom_Error e)" by meson
  have "be_u8 nm i = Inr (i', v) \<Longrightarrow> length i' < length i" for i i' v
    using e be_parsers(1) [OF assms] by (cases i) auto
  then show "consuming (be_u8 nm)" unfolding consuming_def by blast
  have "\<forall>i. if 2 \<le> length i then be_u16 nm i = Inr (drop 2 i, of_nat (be_nat (take 2 i)))
      else (\<exists>e. be_u16 nm i = Inl (Nom_Error e))" using d by (elim conjE)
  then show "consuming (be_u16 nm)" by (rule consuming_fixed) simp
  have "\<forall>i. if 4 \<le> length i then be_u32 nm i = Inr (drop 4 i, of_nat (be_nat (take 4 i)))
      else (\<exists>e. be_u32 nm i = Inl (Nom_Error e))" using d by (elim conjE)
  then show "consuming (be_u32 nm)" by (rule consuming_fixed) simp
  have "\<forall>i. if 8 \<le> length i then be_u64 nm i = Inr (drop 8 i, of_nat (be_nat (take 8 i)))
      else (\<exists>e. be_u64 nm i = Inl (Nom_Error e))" using d by (elim conjE)
  then show "consuming (be_u64 nm)" by (rule consuming_fixed) simp
qed

lemma nom_take_length:
  assumes "nom_documented nm" and "nom_take nm n i = Inr (i', v)"
  shows "length i' \<le> length i"
proof -
  note d = assms(1) [unfolded nom_documented_def]
  from d have "if n \<le> length i then nom_take nm n i = Inr (drop n i, take n i)
      else \<exists>e. nom_take nm n i = Inl (Nom_Error e)" by meson
  with assms(2) show ?thesis by (auto split: if_splits)
qed

lemma extract_cbor_value_consuming:
  assumes "nom_documented nm"
  shows "consuming (extract_cbor_value nm)"
proof -
  note c = be_consuming [OF assms, THEN consumingD]
  show ?thesis
    unfolding consuming_def extract_cbor_value_def extract_cbor_info_def
    by (auto simp: and_then_eq_Inr split: if_splits dest!: c)
qed

lemma extract_key_val_consuming:
  assumes "consuming p"
  shows "consuming (extract_key_val_pair nm p)"
  unfolding consuming_def extract_key_val_pair_def
  by (auto simp: and_then_eq_Inr dest!: consumingD [OF assms])

lemma cbor_parser_consuming:
  assumes nm: "nom_documented nm"
  shows "consuming (cbor_parser nm fuel)"
proof (induction fuel)
  case 0
  show ?case by (simp add: consuming_def)
next
  case (Suc fuel)
  note c = consumingD [OF extract_cbor_value_consuming [OF nm]]
  have pair: "consuming (extract_key_val_pair nm (cbor_parser nm fuel))"
    by (rule extract_key_val_consuming [OF Suc])
  have fold: "fold_many_m_n nm 0 n (extract_key_val_pair nm (cbor_parser nm fuel)) acc f i =
      fold_spec (extract_key_val_pair nm (cbor_parser nm fuel)) n acc f i" for n acc f i
    by (rule nom_others(4) [OF nm]) (rule consumingD [OF pair])
  have peek: "peek_cbor_type nm i = Inr (j, t) \<Longrightarrow> j = i" for i j t
    by (auto simp: peek_cbor_type_def and_then_eq_Inr)
  show ?case
    unfolding consuming_def
    by (auto simp: and_then_eq_Inr fold nom_others(3) [OF nm] split: if_splits
        dest!: peek c count_spec_length [OF Suc] fold_spec_length [OF pair] nom_take_length [OF nm]
          consumingD [OF Suc])
qed


subsection \<open>Reading what was written\<close>

lemma count_spec_concat:
  assumes "\<And>x rest. x \<in> set xs \<Longrightarrow> p (enc x @ rest) = Inr (rest, g x)"
  shows "count_spec p (length xs) (concat (map enc xs) @ rest) = Inr (rest, map g xs)"
  using assms by (induction xs) auto

lemma fold_spec_concat:
  assumes "\<And>x rest. x \<in> set xs \<Longrightarrow> p (enc x @ rest) = Inr (rest, g x)"
  shows "fold_spec p (length xs) acc f (concat (map enc xs) @ rest) = Inr (rest, foldl f acc (map g xs))"
  using assms by (induction xs arbitrary: acc) auto

lemma AList_update_fold:
  "distinct (map fst acc @ map fst ps) \<Longrightarrow>
     foldl (\<lambda>acc (k, v). AList.update k v acc) acc ps = acc @ ps"
proof (induction ps arbitrary: acc)
  case Nil
  then show ?case by simp
next
  case (Cons p ps)
  have "AList.update (fst p) (snd p) acc = acc @ [p]"
    using Cons.prems by (induction acc) auto
  with Cons show ?case by (auto simp: case_prod_unfold)
qed

lemma nonempty_enc:
  assumes "cbor_documented enc" and "serde_small v"
  shows "0 < length (enc v)"
  using assms by (cases v) (auto simp: cbor_documented_def cbor_head_def)

lemma cbor_head_pos: "0 < length (cbor_head m n)"
  by (simp add: cbor_head_def)

lemma length_concat_mem: "x \<in> set xs \<Longrightarrow> length (f x) \<le> length (concat (map f xs))"
  by (induction xs) auto

lemma parse_string:
  assumes nm: "nom_documented nm" and enc: "cbor_documented enc" and k: "length k < 2 ^ 64" and "0 < fuel"
  shows "cbor_parser nm fuel (enc (SStr k) @ rest) = Inr (rest, CByteString k)"
proof -
  from enc k have e: "enc (SStr k) = cbor_head 3 (length k) @ k" by (simp add: cbor_documented_def)
  from \<open>0 < fuel\<close> obtain f where f: "fuel = Suc f" by (cases fuel) auto
  obtain u where "peek_cbor_type nm (cbor_head 3 (length k) @ k @ rest) =
      Inr (cbor_head 3 (length k) @ k @ rest, of_nat 3)"
    "extract_cbor_value nm (cbor_head 3 (length k) @ k @ rest) = Inr (k @ rest, u)" "to_usize u = length k"
    by (rule head_decode [OF nm _ k, of 3 "k @ rest"]) auto
  with nom_others(1) [OF nm] show ?thesis unfolding e f by simp
qed

lemma parse_encoded:
  assumes nm: "nom_documented nm" and enc: "cbor_documented enc"
  shows "serde_small v \<Longrightarrow> length (enc v) \<le> fuel \<Longrightarrow>
    cbor_parser nm fuel (enc v @ rest) = Inr (rest, cbor_of_serde v)"
proof (induction v arbitrary: fuel rest rule: serde_small.induct)
  case (1 n)
  from enc have e: "enc (SU8 n) = cbor_head 0 (unat n)" by (simp add: cbor_documented_def)
  with 1 obtain f where f: "fuel = Suc f" using cbor_head_pos [of 0 "unat n"] by (cases fuel) auto
  have lt: "unat n < 256" using unsigned_less [of n, where ?'a = nat] by simp
  obtain u where "peek_cbor_type nm (cbor_head 0 (unat n) @ rest) = Inr (cbor_head 0 (unat n) @ rest, of_nat 0)"
    "extract_cbor_value nm (cbor_head 0 (unat n) @ rest) = Inr (rest, u)" "u = UInt8 n"
    by (rule head_decode [OF nm, of 0 "unat n" rest]) (use lt in auto)
  with e f show ?case by simp
next
  case (2 b)
  with enc have e: "enc (SBytes b) = cbor_head 2 (length b) @ b" by (simp add: cbor_documented_def)
  with 2 obtain f where f: "fuel = Suc f" using cbor_head_pos [of 2 "length b"] by (cases fuel) auto
  from 2 have len: "length b < 2 ^ 64" by simp
  obtain u where "peek_cbor_type nm (cbor_head 2 (length b) @ b @ rest) =
      Inr (cbor_head 2 (length b) @ b @ rest, of_nat 2)"
    "extract_cbor_value nm (cbor_head 2 (length b) @ b @ rest) = Inr (b @ rest, u)" "to_usize u = length b"
    by (rule head_decode [OF nm _ len, of 2 "b @ rest"]) auto
  with e f nom_others(1) [OF nm] show ?case by simp
next
  case (3 b)
  from nonempty_enc [OF enc "3.prems"(1)] "3.prems"(2) have "0 < fuel" by (rule less_le_trans)
  with 3 parse_string [OF nm enc, of b fuel rest] show ?case by simp
next
  case (4 xs)
  with enc have e: "enc (SSeq xs) = cbor_head 4 (length xs) @ concat (map enc xs)"
    by (simp add: cbor_documented_def)
  with 4 obtain f where f: "fuel = Suc f" using cbor_head_pos [of 4 "length xs"] by (cases fuel) auto
  from "4.prems" have len: "length xs < 2 ^ 64" by simp
  obtain u where u: "peek_cbor_type nm (cbor_head 4 (length xs) @ concat (map enc xs) @ rest) =
      Inr (cbor_head 4 (length xs) @ concat (map enc xs) @ rest, of_nat 4)"
    "extract_cbor_value nm (cbor_head 4 (length xs) @ concat (map enc xs) @ rest) =
      Inr (concat (map enc xs) @ rest, u)" "to_usize u = length xs"
    by (rule head_decode [OF nm _ len, of 4 "concat (map enc xs) @ rest"]) auto
  have "cbor_parser nm f (enc x @ r) = Inr (r, cbor_of_serde x)" if "x \<in> set xs" for x r
  proof (rule "4.IH" [OF that])
    show "serde_small x" using "4.prems" that by simp
    show "length (enc x) \<le> f"
      using "4.prems"(2) length_concat_mem [OF that, of enc] cbor_head_pos [of 4 "length xs"] e f
      by (simp del: length_greater_0_conv)
  qed
  with u e f nom_others(3) [OF nm] show ?case by (simp add: count_spec_concat)
next
  case (5 fs)
  let ?enc = "\<lambda>(k, v). enc (SStr k) @ enc v"
  from 5 enc have e: "enc (SStruct fs) = cbor_head 5 (length fs) @ concat (map ?enc fs)"
    by (simp add: cbor_documented_def)
  with 5 obtain f where f: "fuel = Suc f" using cbor_head_pos [of 5 "length fs"] by (cases fuel) auto
  from "5.prems" have len: "length fs < 2 ^ 64" by simp
  obtain u where u: "peek_cbor_type nm (cbor_head 5 (length fs) @ concat (map ?enc fs) @ rest) =
      Inr (cbor_head 5 (length fs) @ concat (map ?enc fs) @ rest, of_nat 5)"
    "extract_cbor_value nm (cbor_head 5 (length fs) @ concat (map ?enc fs) @ rest) =
      Inr (concat (map ?enc fs) @ rest, u)" "to_usize u = length fs"
    by (rule head_decode [OF nm _ len, of 5 "concat (map ?enc fs) @ rest"]) auto
  let ?p = "extract_key_val_pair nm (cbor_parser nm f)"
  have pair: "?p (?enc q @ r) = Inr (r, (fst q, cbor_of_serde (snd q)))" if q: "q \<in> set fs" for q r
  proof -
    obtain k v where kv: "q = (k, v)" by (cases q) auto
    have small: "length k < 2 ^ 64" "utf8_valid k" "serde_small v" using "5.prems" q kv by auto
    have lf: "length (?enc q) \<le> f"
      using "5.prems"(2) length_concat_mem [OF q, of ?enc] cbor_head_pos [of 5 "length fs"] e f
      by (simp del: length_greater_0_conv)
    have "cbor_parser nm f (enc v @ r) = Inr (r, cbor_of_serde v)"
      using "5.IH" [OF q, of f r] kv small lf by auto
    moreover have "0 < f" using lf kv nonempty_enc [OF enc small(3)]
      by (simp del: length_greater_0_conv)
    ultimately show ?thesis
      using parse_string [OF nm enc small(1), of f "enc v @ r"] small(2) kv
      by (simp add: extract_key_val_pair_def string_from_utf8_def)
  qed
  have "fold_many_m_n nm 0 (length fs) ?p [] (\<lambda>acc (key, val). AList.update key val acc)
      (concat (map ?enc fs) @ rest) = Inr (rest, map (\<lambda>q. (fst q, cbor_of_serde (snd q))) fs)"
  proof -
    have "consuming ?p" by (rule extract_key_val_consuming [OF cbor_parser_consuming [OF nm]])
    then have "fold_many_m_n nm 0 (length fs) ?p [] (\<lambda>acc (key, val). AList.update key val acc)
        (concat (map ?enc fs) @ rest) =
      fold_spec ?p (length fs) [] (\<lambda>acc (key, val). AList.update key val acc) (concat (map ?enc fs) @ rest)"
      by (intro nom_others(4) [OF nm]) (auto dest: consumingD)
    also have "\<dots> = Inr (rest, foldl (\<lambda>acc (key, val). AList.update key val acc) []
        (map (\<lambda>q. (fst q, cbor_of_serde (snd q))) fs))"
      by (rule fold_spec_concat) (rule pair)
    also have "\<dots> = Inr (rest, map (\<lambda>q. (fst q, cbor_of_serde (snd q))) fs)"
      using "5.prems" by (subst AList_update_fold) (simp_all add: comp_def)
    finally show ?thesis .
  qed
  with u e f show ?case by simp
qed


text \<open>\<^verbatim>\<open>cbor_encode\<close> of \<^verbatim>\<open>utils/response_header.rs\<close>: the bytes \<open>sd\<close> written by
  \<^verbatim>\<open>self_describe\<close>, documented to be the tag of RFC 8949, then the value.\<close>

definition cbor_encode :: "bytes \<Rightarrow> (serde \<Rightarrow> bytes) \<Rightarrow> serde \<Rightarrow> bytes" where
  "cbor_encode sd enc v = sd @ enc v"

definition self_describe_tag :: bytes where
  "self_describe_tag = [0xD9, 0xD9, 0xF7]"

lemma parse_cbor_encoded:
  assumes nm: "nom_documented nm" and enc: "cbor_documented enc" and v: "serde_small v"
  shows "parse_cbor nm (cbor_encode self_describe_tag enc v) = Inr (cbor_of_serde v)"
proof -
  let ?rest = "enc v"
  have p: "be_u8 nm (b # i) = Inr (i, b)" for b i by (rule be_parsers(1) [OF nm])
  have q: "be_u16 nm (0xD9 # 0xF7 # i) = Inr (i, of_nat (be_nat [0xD9, 0xF7]))" for i
    using be_parsers(2) [OF nm, of "[0xD9, 0xF7]" i] by simp
  have type: "get_cbor_type 0xD9 = 6" and info: "get_cbor_info 0xD9 = 25"
    by (simp_all add: get_cbor_type_def get_cbor_info_def)
  have "cbor_parser nm (Suc (Suc (Suc (length ?rest)))) ?rest = Inr ([], cbor_of_serde v)"
    using parse_encoded [OF nm enc v, of "Suc (Suc (Suc (length ?rest)))" "[]"] by simp
  then have "cbor_parser nm (Suc (length (cbor_encode self_describe_tag enc v)))
      (cbor_encode self_describe_tag enc v) = Inr ([], cbor_of_serde v)"
    by (simp add: cbor_encode_def self_describe_tag_def peek_cbor_type_def extract_cbor_type_def
        extract_cbor_value_def extract_cbor_info_def p q type info)
  then show ?thesis using nom_others(2) [OF nm] by (simp add: parse_cbor_def del: cbor_parser.simps)
qed

fun tree_small :: "hash_tree \<Rightarrow> bool" where
  "tree_small Empty = True"
| "tree_small (Fork l r) = (tree_small l \<and> tree_small r)"
| "tree_small (Labeled x t) = (length x < 2 ^ 64 \<and> tree_small t)"
| "tree_small (Leaf v) = (length v < 2 ^ 64)"
| "tree_small (Pruned d) = (length d = 32)"

lemma tree_small_serde: "tree_small t \<Longrightarrow> serde_small (hash_tree_serialize t)"
  by (induction t) simp_all

lemma unsigned_or_tag_simps [simp]:
  "unsigned_or_tag (UInt8 0) = CHashTree CHT_Empty" "unsigned_or_tag (UInt8 1) = CHashTree CHT_Fork"
  "unsigned_or_tag (UInt8 2) = CHashTree CHT_Labelled" "unsigned_or_tag (UInt8 3) = CHashTree CHT_Leaf"
  "unsigned_or_tag (UInt8 4) = CHashTree CHT_Pruned"
  by (simp_all add: unsigned_or_tag_def)

lemma tree_of_serde: "tree_small t \<Longrightarrow> parsed_cbor_to_tree (cbor_of_serde (hash_tree_serialize t)) = Inr t"
  by (induction t) simp_all

text \<open>The derived \<^verbatim>\<open>Serialize\<close> of \<^verbatim>\<open>Certificate\<close> and \<^verbatim>\<open>Delegation\<close>.\<close>

definition delegation_serialize :: "delegation \<Rightarrow> serde" where
  "delegation_serialize d =
     SStruct [(str_bytes ''subnet_id'', SBytes (subnet_id d)),
              (str_bytes ''certificate'', SBytes (delegation_certificate d))]"

definition certificate_serialize :: "certificate \<Rightarrow> serde" where
  "certificate_serialize c =
     SStruct ([(str_bytes ''tree'', hash_tree_serialize (cert_tree c)),
               (str_bytes ''signature'', SBytes (cert_signature c))] @
              (case cert_delegation c of
                 None \<Rightarrow> []
               | Some d \<Rightarrow> [(str_bytes ''delegation'', delegation_serialize d)]))"

definition string_array_serialize :: "bytes list \<Rightarrow> serde" where
  "string_array_serialize ss = SSeq (map SStr ss)"

definition certificate_small :: "certificate \<Rightarrow> bool" where
  "certificate_small c \<longleftrightarrow> tree_small (cert_tree c) \<and> length (cert_signature c) < 2 ^ 64 \<and>
     (case cert_delegation c of
        None \<Rightarrow> True
      | Some d \<Rightarrow> length (subnet_id d) < 2 ^ 64 \<and> length (delegation_certificate d) < 2 ^ 64)"

lemma utf8_names [simp]:
  "utf8_valid (str_bytes ''tree'')" "utf8_valid (str_bytes ''signature'')"
  "utf8_valid (str_bytes ''delegation'')" "utf8_valid (str_bytes ''subnet_id'')"
  "utf8_valid (str_bytes ''certificate'')"
  by (simp_all add: str_bytes_def)

lemma certificate_serde_small: "certificate_small c \<Longrightarrow> serde_small (certificate_serialize c)"
  by (auto simp: certificate_serialize_def certificate_small_def delegation_serialize_def
      tree_small_serde split: option.splits)

lemma certificate_of_serde:
  "certificate_small c \<Longrightarrow> parsed_cbor_to_certificate (cbor_of_serde (certificate_serialize c)) = Inr c"
  by (cases c)
    (auto simp: certificate_serialize_def certificate_small_def delegation_serialize_def
      parsed_cbor_to_certificate_def tree_of_serde split: option.splits)

lemma string_elems_serde:
  "(\<And>s. s \<in> set ss \<Longrightarrow> utf8_valid s) \<Longrightarrow> string_elems (map CByteString ss) = Inr ss"
  by (induction ss) (auto simp: string_from_utf8_def)


subsection \<open>Properties\<close>

text \<open>C28: The reader of a certificate returns the certificate that was serialised, delegation and
  hash tree included, from the self-described CBOR bytes of the serialiser.\<close>

theorem certificate_cbor_roundtrip:
  assumes "nom_documented nm" and "cbor_documented enc" and "certificate_small c"
  shows "certificate_from_cbor nm (cbor_encode self_describe_tag enc (certificate_serialize c)) = Inr c"
  using parse_cbor_encoded [OF assms(1,2) certificate_serde_small [OF assms(3)]] assms(3)
  by (simp add: certificate_from_cbor_def certificate_of_serde)

theorem certificate_cbor_roundtrip_witness:
  "certificate_from_cbor nom_ref (cbor_encode self_describe_tag cbor_enc (certificate_serialize
     \<lparr>cert_tree = Fork (Labeled [1] (Leaf [2, 3])) (Pruned (replicate 32 7)), cert_signature = [9],
      cert_delegation = Some \<lparr>subnet_id = [4], delegation_certificate = [5, 6]\<rparr>\<rparr>)) =
   Inr \<lparr>cert_tree = Fork (Labeled [1] (Leaf [2, 3])) (Pruned (replicate 32 7)), cert_signature = [9],
      cert_delegation = Some \<lparr>subnet_id = [4], delegation_certificate = [5, 6]\<rparr>\<rparr>"
  by (rule certificate_cbor_roundtrip) (simp_all add: certificate_small_def)

text \<open>The reader of a hash tree and of an expression path (an array of strings) returns what was
  serialised, as the \<^verbatim>\<open>IC-Certificate\<close> header needs.\<close>

theorem header_cbor_roundtrip:
  assumes "nom_documented nm" and "cbor_documented enc" and "tree_small t"
    and "length ss < 2 ^ 64" and "\<And>s. s \<in> set ss \<Longrightarrow> utf8_valid s \<and> length s < 2 ^ 64"
  shows "hash_tree_from_cbor nm (cbor_encode self_describe_tag enc (hash_tree_serialize t)) = Inr t \<and>
    parse_cbor_string_array nm (cbor_encode self_describe_tag enc (string_array_serialize ss)) = Inr ss"
proof -
  have "serde_small (string_array_serialize ss)" using assms(4,5) by (simp add: string_array_serialize_def)
  from parse_cbor_encoded [OF assms(1,2) this] parse_cbor_encoded [OF assms(1,2) tree_small_serde [OF assms(3)]]
  show ?thesis
    using assms(3,5)
    by (simp add: hash_tree_from_cbor_def tree_of_serde parse_cbor_string_array_def
        string_array_serialize_def comp_def string_elems_serde)
qed

theorem header_cbor_roundtrip_witness:
  "hash_tree_from_cbor nom_ref (cbor_encode self_describe_tag cbor_enc
     (hash_tree_serialize (Labeled (str_bytes ''http_expr'') (Leaf [])))) =
     Inr (Labeled (str_bytes ''http_expr'') (Leaf [])) \<and>
   parse_cbor_string_array nom_ref (cbor_encode self_describe_tag cbor_enc
     (string_array_serialize [str_bytes ''http_expr'', str_bytes ''<$>''])) =
     Inr [str_bytes ''http_expr'', str_bytes ''<$>'']"
  by (rule header_cbor_roundtrip) (auto simp: str_bytes_def)

text \<open>A negative integer whose encoded byte is 128 or more is decoded as a non-negative number:
  the byte is cast to a signed one before the subtraction of RFC 8949.\<close>

theorem negative_int_decoded_positive:
  "cbor_parser nom_ref (Suc n) [0x38, 200] = Inr ([], CSigned (Int8 55)) \<and>
   negative_value (Int8 55) = 55 \<and>
   negative_value (to_negative (UInt8 4)) = - 5"
  by (simp add: nom_ref_def take_or_fail_def peek_cbor_type_def extract_cbor_type_def get_cbor_type_def
      extract_cbor_value_def extract_cbor_info_def get_cbor_info_def)

text \<open>A map with fewer entries than its head declares is accepted: the bytes of a map of two
  entries that end after the first are parsed as a map of one entry.\<close>

theorem truncated_map_accepted:
  "parse_cbor nom_ref [0xA2, 0x61, 0x61, 0x07] = Inr (CMap [(str_bytes ''a'', CUnsigned (UInt8 7))]) \<and>
   parse_cbor nom_ref [0xA1, 0x61, 0x61, 0x07] = Inr (CMap [(str_bytes ''a'', CUnsigned (UInt8 7))])"
  by code_simp

end
