(* ===== verification/Rust_Str.thy ===== *)
theory Rust_Str
  imports Rust_Prelude
begin

text \<open>
  The string operations of the Rust standard library that the crates use. A string is the list of
  its UTF-8 bytes. Splitting, joining, ASCII case folding and trimming are written out; Unicode case
  folding (\<^verbatim>\<open>str::to_lowercase\<close>) is a parameter of the functions that use it, and \<open>lower_ascii\<close> is
  what they rely on: on ASCII strings it is ASCII case folding.
\<close>

subsection \<open>ASCII case\<close>

definition ascii_lower :: "byte \<Rightarrow> byte" where
  "ascii_lower b = (if 65 \<le> b \<and> b \<le> 90 then b + 32 else b)"

definition to_ascii_lowercase :: "bytes \<Rightarrow> bytes" where
  "to_ascii_lowercase s = map ascii_lower s"

definition eq_ignore_ascii_case :: "bytes \<Rightarrow> bytes \<Rightarrow> bool" where
  "eq_ignore_ascii_case s t \<longleftrightarrow> to_ascii_lowercase s = to_ascii_lowercase t"

definition is_ascii :: "bytes \<Rightarrow> bool" where
  "is_ascii s \<longleftrightarrow> list_all (\<lambda>b. b < 128) s"

definition lower_ascii :: "(bytes \<Rightarrow> bytes) \<Rightarrow> bool" where
  "lower_ascii lower \<longleftrightarrow> (\<forall>s. is_ascii s \<longrightarrow> lower s = to_ascii_lowercase s)"

lemma ascii_lower_idem [simp]: "ascii_lower (ascii_lower b) = ascii_lower b"
proof (cases "65 \<le> b \<and> b \<le> 90")
  case True
  then have "unat (b + 32) = unat b + 32"
    by (simp add: unat_plus_if' word_le_nat_alt)
  with True show ?thesis by (simp add: ascii_lower_def word_le_nat_alt)
qed (auto simp: ascii_lower_def)

lemma to_ascii_lowercase_idem [simp]:
  "to_ascii_lowercase (to_ascii_lowercase s) = to_ascii_lowercase s"
  by (simp add: to_ascii_lowercase_def)

lemma to_ascii_lowercase_Nil [simp]: "to_ascii_lowercase [] = []"
  by (simp add: to_ascii_lowercase_def)

lemma eq_ignore_ascii_case_refl [simp]: "eq_ignore_ascii_case s s"
  by (simp add: eq_ignore_ascii_case_def)

lemma lower_ascii_to_ascii_lowercase [simp]: "lower_ascii to_ascii_lowercase"
  by (simp add: lower_ascii_def)

subsection \<open>Splitting and joining\<close>

text \<open>\<^verbatim>\<open>str::split\<close> with an ASCII character, and \<^verbatim>\<open>[S]::join\<close>.\<close>

fun split_on :: "byte \<Rightarrow> bytes \<Rightarrow> bytes list" where
  "split_on sep [] = [[]]"
| "split_on sep (c # s) =
     (if c = sep then [] # split_on sep s
      else (case split_on sep s of p # ps \<Rightarrow> (c # p) # ps | [] \<Rightarrow> [[c]]))"

fun join :: "bytes \<Rightarrow> bytes list \<Rightarrow> bytes" where
  "join sep [] = []"
| "join sep [p] = p"
| "join sep (p # q # ps) = p @ sep @ join sep (q # ps)"

lemma split_on_ne [simp]: "split_on sep s \<noteq> []"
  by (induction s) (auto split: list.splits)

lemma join_split_on: "join [sep] (split_on sep s) = s"
proof (induction s)
  case (Cons c s)
  obtain p ps where "split_on sep s = p # ps" by (cases "split_on sep s") auto
  with Cons show ?case by (cases ps) auto
qed simp

lemma split_on_no_sep: "p \<in> set (split_on sep s) \<Longrightarrow> sep \<notin> set p"
proof (induction s arbitrary: p)
  case (Cons c s)
  then show ?case by (auto split: if_splits list.splits)
qed simp

lemma split_on_single: "sep \<notin> set s \<Longrightarrow> split_on sep s = [s]"
  by (induction s) auto

lemma split_on_append:
  "sep \<notin> set p \<Longrightarrow> split_on sep (p @ sep # s) = p # split_on sep s"
  by (induction p) auto

lemma split_on_join:
  "\<forall>p \<in> set ps. sep \<notin> set p \<Longrightarrow> ps \<noteq> [] \<Longrightarrow> split_on sep (join [sep] ps) = ps"
proof (induction ps)
  case (Cons p ps)
  then show ?case by (cases ps) (auto simp: split_on_single split_on_append)
qed simp

subsection \<open>Trimming\<close>

text \<open>\<^verbatim>\<open>str::trim\<close> removes the characters with the Unicode property White_Space, listed here by
  their UTF-8 encodings: the six ASCII ones, U+0085, U+00A0, U+1680, U+2000 to U+200A, U+2028,
  U+2029, U+202F, U+205F and U+3000.\<close>

definition white_space :: "bytes list" where
  "white_space = [[0x09], [0x0A], [0x0B], [0x0C], [0x0D], [0x20], [0xC2, 0x85], [0xC2, 0xA0],
     [0xE1, 0x9A, 0x80], [0xE2, 0x80, 0x80], [0xE2, 0x80, 0x81], [0xE2, 0x80, 0x82],
     [0xE2, 0x80, 0x83], [0xE2, 0x80, 0x84], [0xE2, 0x80, 0x85], [0xE2, 0x80, 0x86],
     [0xE2, 0x80, 0x87], [0xE2, 0x80, 0x88], [0xE2, 0x80, 0x89], [0xE2, 0x80, 0x8A],
     [0xE2, 0x80, 0xA8], [0xE2, 0x80, 0xA9], [0xE2, 0x80, 0xAF], [0xE2, 0x81, 0x9F],
     [0xE3, 0x80, 0x80]]"

fun strip_one :: "bytes list \<Rightarrow> bytes \<Rightarrow> bytes option" where
  "strip_one [] s = None"
| "strip_one (w # ws) s =
     (if w \<noteq> [] \<and> starts_with s w then Some (drop (length w) s) else strip_one ws s)"

lemma strip_one_shorter: "strip_one ws s = Some s' \<Longrightarrow> length s' < length s"
  by (induction ws) (auto split: if_splits simp: starts_with_iff)

function strip_all :: "bytes list \<Rightarrow> bytes \<Rightarrow> bytes" where
  "strip_all ws s = (case strip_one ws s of None \<Rightarrow> s | Some s' \<Rightarrow> strip_all ws s')"
  by auto
termination
  by (relation "measure (\<lambda>(ws, s). length s)") (auto dest: strip_one_shorter)

declare strip_all.simps [simp del]

definition trim_start :: "bytes \<Rightarrow> bytes" where
  "trim_start s = strip_all white_space s"

definition trim_end :: "bytes \<Rightarrow> bytes" where
  "trim_end s = rev (strip_all (map rev white_space) (rev s))"

definition trim :: "bytes \<Rightarrow> bytes" where
  "trim s = trim_end (trim_start s)"

lemma strip_one_None:
  "(\<And>w. w \<in> set ws \<Longrightarrow> w \<noteq> [] \<Longrightarrow> \<not> starts_with s w) \<Longrightarrow> strip_one ws s = None"
  by (induction ws) auto

lemma strip_all_None: "strip_one ws s = None \<Longrightarrow> strip_all ws s = s"
  by (subst strip_all.simps) simp

lemma strip_all_Some: "strip_one ws s = Some s' \<Longrightarrow> strip_all ws s = strip_all ws s'"
  by (subst strip_all.simps) simp

text \<open>Strings that start and end with an ASCII character that is not white space.\<close>

definition plain_char :: "byte \<Rightarrow> bool" where
  "plain_char b \<longleftrightarrow> b < 128 \<and> b \<notin> {0x09, 0x0A, 0x0B, 0x0C, 0x0D, 0x20}"

lemma strip_all_hd: "(\<And>w. w \<in> set ws \<Longrightarrow> w \<noteq> [] \<Longrightarrow> hd w \<noteq> c) \<Longrightarrow> strip_all ws (c # s) = c # s"
  by (rule strip_all_None, rule strip_one_None) (force simp: starts_with_iff neq_Nil_conv)

lemma white_space_plain: "w \<in> set white_space \<Longrightarrow> plain_char b \<Longrightarrow> hd w \<noteq> b \<and> last w \<noteq> b"
  by (auto simp: white_space_def plain_char_def)

lemma trim_plain:
  assumes "s \<noteq> []" and "plain_char (hd s)" and "plain_char (last s)"
  shows "trim s = s" and "trim (0x20 # s) = s"
proof -
  from assms(1) obtain c s' where s: "s = c # s'" by (cases s) auto
  from assms(1) obtain d s'' where r: "rev s = d # s''" by (cases "rev s") auto
  with assms have d: "plain_char d" by (metis hd_rev list.sel(1))
  have "strip_all white_space s = s"
    using white_space_plain assms(2) unfolding s by (intro strip_all_hd) auto
  moreover have "strip_all (map rev white_space) (rev s) = rev s"
    unfolding r
  proof (rule strip_all_hd)
    fix w assume "w \<in> set (map rev white_space)" and "w \<noteq> []"
    then obtain u where "u \<in> set white_space" "hd w = last u" by (fastforce simp: hd_rev)
    with white_space_plain [OF _ d] show "hd w \<noteq> d" by metis
  qed
  moreover have "strip_all white_space (0x20 # s) = strip_all white_space s"
    by (rule strip_all_Some) (simp add: white_space_def)
  ultimately show "trim s = s" "trim (0x20 # s) = s"
    by (simp_all add: trim_def trim_start_def trim_end_def)
qed

end
