(* ===== verification/Http_Types.thy ===== *)
theory Http_Types
  imports Rust_Str "HOL-Library.Multiset"
begin

text \<open>
  The HTTP requests and responses of \<^verbatim>\<open>packages/ic-http-certification/src/http\<close>, their builders, and
  the errors of the crate. The crates \<^verbatim>\<open>http\<close> and \<^verbatim>\<open>urlencoding\<close> are not part of the repository: a
  method is its name, a status code its number, and the URI parser and the percent decoder are the
  fields of \<open>http_lib\<close>. The Candid encoding of the types and the Debug instance are not modelled.
\<close>

type_synonym header_field = "bytes \<times> bytes"

datatype http_error =
    MalformedUrl bytes
  | Utf8_Conversion_Error bytes
  | WildcardPathNotValidForRequestPath bytes bytes
  | CertificateExpressionHeaderMismatch bytes bytes
  | CertificateExpressionHeaderMissing bytes
  | MultipleCertificateExpressionHeaders bytes
  | InvalidHttpStatusCode "16 word"

text \<open>\<open>uri_of\<close> is \<^verbatim>\<open>str::parse::<Uri>\<close> followed by the path and the query of the URI, \<open>url_decode\<close> is
  \<^verbatim>\<open>urlencoding::decode\<close>; the left side of its result holds the bytes that are not UTF-8.\<close>

record http_lib =
  uri_of :: "bytes \<Rightarrow> (bytes \<times> bytes option) option"
  url_decode :: "bytes \<Rightarrow> bytes + bytes"

subsection \<open>Requests\<close>

record http_request =
  req_method :: bytes
  req_url :: bytes
  req_headers :: "header_field list"
  req_body :: bytes
  req_certificate_version :: "16 word option"

record http_update_request =
  upd_method :: bytes
  upd_url :: bytes
  upd_headers :: "header_field list"
  upd_body :: bytes

definition get_path :: "http_lib \<Rightarrow> http_request \<Rightarrow> http_error + bytes" where
  "get_path lib req =
     and_then (ok_or (uri_of lib (req_url req)) (MalformedUrl (req_url req)))
       (\<lambda>uri. map_err Utf8_Conversion_Error (url_decode lib (fst uri)))"

definition get_query :: "http_lib \<Rightarrow> http_request \<Rightarrow> http_error + bytes option" where
  "get_query lib req =
     and_then (ok_or (uri_of lib (req_url req)) (MalformedUrl (req_url req))) (\<lambda>uri. Inr (snd uri))"

definition update_get_path :: "http_lib \<Rightarrow> http_update_request \<Rightarrow> http_error + bytes" where
  "update_get_path lib req =
     and_then (ok_or (uri_of lib (upd_url req)) (MalformedUrl (upd_url req)))
       (\<lambda>uri. map_err Utf8_Conversion_Error (url_decode lib (fst uri)))"

definition update_get_query :: "http_lib \<Rightarrow> http_update_request \<Rightarrow> http_error + bytes option" where
  "update_get_query lib req =
     and_then (ok_or (uri_of lib (upd_url req)) (MalformedUrl (upd_url req))) (\<lambda>uri. Inr (snd uri))"

definition update_request_from :: "http_request \<Rightarrow> http_update_request" where
  "update_request_from req =
     \<lparr>upd_method = req_method req, upd_url = req_url req, upd_headers = req_headers req,
      upd_body = req_body req\<rparr>"

record request_builder =
  rqb_method :: "bytes option"
  rqb_url :: "bytes option"
  rqb_headers :: "header_field list"
  rqb_body :: bytes
  rqb_certificate_version :: "16 word option"

definition request_builder_new :: request_builder where
  "request_builder_new =
     \<lparr>rqb_method = None, rqb_url = None, rqb_headers = [], rqb_body = [],
      rqb_certificate_version = None\<rparr>"

definition with_method :: "request_builder \<Rightarrow> bytes \<Rightarrow> request_builder" where
  "with_method b m = b\<lparr>rqb_method := Some m\<rparr>"

definition with_url :: "request_builder \<Rightarrow> bytes \<Rightarrow> request_builder" where
  "with_url b url = b\<lparr>rqb_url := Some url\<rparr>"

definition with_req_headers :: "request_builder \<Rightarrow> header_field list \<Rightarrow> request_builder" where
  "with_req_headers b hs = b\<lparr>rqb_headers := hs\<rparr>"

definition with_req_body :: "request_builder \<Rightarrow> bytes \<Rightarrow> request_builder" where
  "with_req_body b body = b\<lparr>rqb_body := body\<rparr>"

definition with_certificate_version :: "request_builder \<Rightarrow> 16 word \<Rightarrow> request_builder" where
  "with_certificate_version b v = b\<lparr>rqb_certificate_version := Some v\<rparr>"

fun unwrap_or :: "'a option \<Rightarrow> 'a \<Rightarrow> 'a" where
  "unwrap_or None d = d"
| "unwrap_or (Some x) d = x"

definition build_request :: "request_builder \<Rightarrow> http_request" where
  "build_request b =
     \<lparr>req_method = unwrap_or (rqb_method b) (str_bytes ''GET''),
      req_url = unwrap_or (rqb_url b) (str_bytes ''/''),
      req_headers = rqb_headers b, req_body = rqb_body b,
      req_certificate_version = rqb_certificate_version b\<rparr>"

definition build_update_request :: "request_builder \<Rightarrow> http_update_request" where
  "build_update_request b =
     \<lparr>upd_method = unwrap_or (rqb_method b) (str_bytes ''GET''),
      upd_url = unwrap_or (rqb_url b) (str_bytes ''/''),
      upd_headers = rqb_headers b, upd_body = rqb_body b\<rparr>"

definition request_get :: "bytes \<Rightarrow> request_builder" where
  "request_get url = with_url (with_method request_builder_new (str_bytes ''GET'')) url"

definition request_post :: "bytes \<Rightarrow> request_builder" where
  "request_post url = with_url (with_method request_builder_new (str_bytes ''POST'')) url"

definition request_put :: "bytes \<Rightarrow> request_builder" where
  "request_put url = with_url (with_method request_builder_new (str_bytes ''PUT'')) url"

definition request_patch :: "bytes \<Rightarrow> request_builder" where
  "request_patch url = with_url (with_method request_builder_new (str_bytes ''PATCH'')) url"

definition request_delete :: "bytes \<Rightarrow> request_builder" where
  "request_delete url = with_url (with_method request_builder_new (str_bytes ''DELETE'')) url"

lemma build_update_request_from:
  "build_update_request b = update_request_from (build_request b)"
  by (simp add: build_update_request_def update_request_from_def build_request_def)

lemma update_get_path_from:
  "update_get_path lib (update_request_from req) = get_path lib req"
  "update_get_query lib (update_request_from req) = get_query lib req"
  by (simp_all add: update_get_path_def get_path_def update_get_query_def get_query_def
      update_request_from_def)

subsection \<open>Responses\<close>

record http_response =
  resp_status :: "16 word"
  resp_headers :: "header_field list"
  resp_body :: bytes
  resp_upgrade :: "bool option"

record http_update_response =
  upr_status :: "16 word"
  upr_headers :: "header_field list"
  upr_body :: bytes

definition add_header :: "http_response \<Rightarrow> header_field \<Rightarrow> http_response" where
  "add_header r h = r\<lparr>resp_headers := resp_headers r @ [h]\<rparr>"

definition update_add_header :: "http_update_response \<Rightarrow> header_field \<Rightarrow> http_update_response" where
  "update_add_header r h = r\<lparr>upr_headers := upr_headers r @ [h]\<rparr>"

definition update_response_from :: "http_response \<Rightarrow> http_update_response" where
  "update_response_from r =
     \<lparr>upr_status = resp_status r, upr_headers = resp_headers r, upr_body = resp_body r\<rparr>"

record response_builder =
  rpb_status :: "16 word option"
  rpb_headers :: "header_field list"
  rpb_body :: bytes
  rpb_upgrade :: "bool option"

definition response_builder_new :: response_builder where
  "response_builder_new =
     \<lparr>rpb_status = None, rpb_headers = [], rpb_body = [], rpb_upgrade = None\<rparr>"

definition with_status_code :: "response_builder \<Rightarrow> 16 word \<Rightarrow> response_builder" where
  "with_status_code b s = b\<lparr>rpb_status := Some s\<rparr>"

definition with_headers :: "response_builder \<Rightarrow> header_field list \<Rightarrow> response_builder" where
  "with_headers b hs = b\<lparr>rpb_headers := hs\<rparr>"

definition with_body :: "response_builder \<Rightarrow> bytes \<Rightarrow> response_builder" where
  "with_body b body = b\<lparr>rpb_body := body\<rparr>"

definition with_upgrade :: "response_builder \<Rightarrow> bool \<Rightarrow> response_builder" where
  "with_upgrade b u = b\<lparr>rpb_upgrade := Some u\<rparr>"

definition build_response :: "response_builder \<Rightarrow> http_response" where
  "build_response b =
     \<lparr>resp_status = unwrap_or (rpb_status b) 200, resp_headers = rpb_headers b,
      resp_body = rpb_body b, resp_upgrade = rpb_upgrade b\<rparr>"

definition build_update_response :: "response_builder \<Rightarrow> http_update_response" where
  "build_update_response b =
     \<lparr>upr_status = unwrap_or (rpb_status b) 200, upr_headers = rpb_headers b, upr_body = rpb_body b\<rparr>"

definition response_builder_from :: "http_response \<Rightarrow> response_builder" where
  "response_builder_from r =
     \<lparr>rpb_status = Some (resp_status r), rpb_headers = resp_headers r, rpb_body = resp_body r,
      rpb_upgrade = resp_upgrade r\<rparr>"

text \<open>The shortcuts of \<^verbatim>\<open>HttpResponse\<close>: those with a body, those without, and the redirects, which add
  the header \<^verbatim>\<open>Location\<close> after the given ones.\<close>

definition response_with ::
  "16 word \<Rightarrow> bytes \<Rightarrow> header_field list \<Rightarrow> response_builder" where
  "response_with status body hs =
     with_headers (with_body (with_status_code response_builder_new status) body) hs"

definition response_ok :: "bytes \<Rightarrow> header_field list \<Rightarrow> response_builder" where
  "response_ok = response_with 200"

definition response_created :: "bytes \<Rightarrow> header_field list \<Rightarrow> response_builder" where
  "response_created = response_with 201"

definition response_no_content :: "header_field list \<Rightarrow> response_builder" where
  "response_no_content hs = with_headers (with_status_code response_builder_new 204) hs"

definition response_not_modified :: "header_field list \<Rightarrow> response_builder" where
  "response_not_modified hs = with_headers (with_status_code response_builder_new 304) hs"

definition response_moved_permanently :: "bytes \<Rightarrow> header_field list \<Rightarrow> response_builder" where
  "response_moved_permanently location hs =
     with_headers (with_status_code response_builder_new 301) (hs @ [(str_bytes ''Location'', location)])"

definition response_temporary_redirect :: "bytes \<Rightarrow> header_field list \<Rightarrow> response_builder" where
  "response_temporary_redirect location hs =
     with_headers (with_status_code response_builder_new 307) (hs @ [(str_bytes ''Location'', location)])"

definition response_bad_request :: "bytes \<Rightarrow> header_field list \<Rightarrow> response_builder" where
  "response_bad_request = response_with 400"

definition response_unauthorized :: "bytes \<Rightarrow> header_field list \<Rightarrow> response_builder" where
  "response_unauthorized = response_with 401"

definition response_forbidden :: "bytes \<Rightarrow> header_field list \<Rightarrow> response_builder" where
  "response_forbidden = response_with 403"

definition response_not_found :: "bytes \<Rightarrow> header_field list \<Rightarrow> response_builder" where
  "response_not_found = response_with 404"

definition response_method_not_allowed :: "bytes \<Rightarrow> header_field list \<Rightarrow> response_builder" where
  "response_method_not_allowed = response_with 405"

definition response_too_many_requests :: "bytes \<Rightarrow> header_field list \<Rightarrow> response_builder" where
  "response_too_many_requests = response_with 429"

definition response_internal_server_error :: "bytes \<Rightarrow> header_field list \<Rightarrow> response_builder" where
  "response_internal_server_error = response_with 500"

text \<open>The equality of responses sorts the headers of both sides.\<close>

definition http_response_eq :: "http_response \<Rightarrow> http_response \<Rightarrow> bool" where
  "http_response_eq a b \<longleftrightarrow>
     resp_status a = resp_status b \<and> sort (resp_headers a) = sort (resp_headers b) \<and>
     resp_body a = resp_body b \<and> resp_upgrade a = resp_upgrade b"

lemma sort_eq_iff: "sort xs = sort ys \<longleftrightarrow> mset xs = mset ys"
  by (metis mset_sort properties_for_sort sorted_sort)

lemma http_response_eq_iff:
  "http_response_eq a b \<longleftrightarrow>
     resp_status a = resp_status b \<and> mset (resp_headers a) = mset (resp_headers b) \<and>
     resp_body a = resp_body b \<and> resp_upgrade a = resp_upgrade b"
  by (auto simp: http_response_eq_def sort_eq_iff)

lemma build_response_from [simp]: "build_response (response_builder_from r) = r"
  by (simp add: build_response_def response_builder_from_def)

lemma build_update_response_from:
  "build_update_response b = update_response_from (build_response b)"
  by (simp add: build_update_response_def update_response_from_def build_response_def)

end
