(* ===== verification/Cel_Expr.thy ===== *)
theory Cel_Expr
  imports Rust_Str
begin

text \<open>
  The CEL expression definitions of \<^verbatim>\<open>packages/ic-http-certification/src/cel\<close>: the types, the
  builders and the conversion into the text of the expression. The \<^verbatim>\<open>Cow\<close> wrappers are dropped.
\<close>

subsection \<open>Types\<close>

datatype response_certification =
    CertifiedResponseHeaders "bytes list"
  | ResponseHeaderExclusions "bytes list"

record request_certification =
  certified_request_headers :: "bytes list"
  certified_query_parameters :: "bytes list"

record response_only_cel_expr =
  only_response :: response_certification

record full_cel_expr =
  full_request :: request_certification
  full_response :: response_certification

datatype default_cel_expr =
    CelFull full_cel_expr
  | CelResponseOnly response_only_cel_expr
  | CelSkip

datatype cel_expression = CelDefault default_cel_expr

definition request_certification_new :: "bytes list \<Rightarrow> bytes list \<Rightarrow> request_certification" where
  "request_certification_new hs qs =
     \<lparr>certified_request_headers = hs, certified_query_parameters = qs\<rparr>"

definition response_certification_default :: response_certification where
  "response_certification_default = CertifiedResponseHeaders []"

subsection \<open>Builders\<close>

record full_cel_builder =
  fcb_request_headers :: "bytes list"
  fcb_request_query_parameters :: "bytes list"
  fcb_response_certification :: response_certification

record response_only_cel_builder =
  rcb_response_certification :: response_certification

definition skip_certification :: cel_expression where
  "skip_certification = CelDefault CelSkip"

definition response_only_certification :: response_only_cel_builder where
  "response_only_certification = \<lparr>rcb_response_certification = response_certification_default\<rparr>"

definition full_certification :: full_cel_builder where
  "full_certification =
     \<lparr>fcb_request_headers = [], fcb_request_query_parameters = [],
      fcb_response_certification = response_certification_default\<rparr>"

definition only_with_response_certification ::
  "response_only_cel_builder \<Rightarrow> response_certification \<Rightarrow> response_only_cel_builder" where
  "only_with_response_certification b c = b\<lparr>rcb_response_certification := c\<rparr>"

definition only_build :: "response_only_cel_builder \<Rightarrow> response_only_cel_expr" where
  "only_build b = \<lparr>only_response = rcb_response_certification b\<rparr>"

definition with_request_headers :: "full_cel_builder \<Rightarrow> bytes list \<Rightarrow> full_cel_builder" where
  "with_request_headers b hs = b\<lparr>fcb_request_headers := hs\<rparr>"

definition with_request_query_parameters :: "full_cel_builder \<Rightarrow> bytes list \<Rightarrow> full_cel_builder" where
  "with_request_query_parameters b qs = b\<lparr>fcb_request_query_parameters := qs\<rparr>"

definition full_with_response_certification ::
  "full_cel_builder \<Rightarrow> response_certification \<Rightarrow> full_cel_builder" where
  "full_with_response_certification b c = b\<lparr>fcb_response_certification := c\<rparr>"

definition full_build :: "full_cel_builder \<Rightarrow> full_cel_expr" where
  "full_build b =
     \<lparr>full_request =
        request_certification_new (fcb_request_headers b) (fcb_request_query_parameters b),
      full_response = fcb_response_certification b\<rparr>"

subsection \<open>The text of an expression\<close>

text \<open>The code pushes the pieces to a string; here each function returns the piece it pushes. A quote
  is byte 34.\<close>

definition quote :: bytes where
  "quote = [34]"

definition quoted_list :: "bytes list \<Rightarrow> bytes" where
  "quoted_list hs = (if hs \<noteq> [] then quote @ join [34, 44, 34] hs @ quote else [])"

definition create_request_cel_expr :: "request_certification \<Rightarrow> bytes" where
  "create_request_cel_expr rc =
     str_bytes ''request_certification:RequestCertification{certified_request_headers:['' @
     quoted_list (certified_request_headers rc) @
     str_bytes ''],certified_query_parameters:['' @
     quoted_list (certified_query_parameters rc) @
     str_bytes '']},''"

definition response_list_name :: "response_certification \<Rightarrow> bytes" where
  "response_list_name c =
     (case c of
        CertifiedResponseHeaders _ \<Rightarrow> str_bytes ''certified_response_headers''
      | ResponseHeaderExclusions _ \<Rightarrow> str_bytes ''response_header_exclusions'')"

definition response_list :: "response_certification \<Rightarrow> bytes list" where
  "response_list c =
     (case c of CertifiedResponseHeaders hs \<Rightarrow> hs | ResponseHeaderExclusions hs \<Rightarrow> hs)"

definition create_response_cel_expr :: "response_certification \<Rightarrow> bytes" where
  "create_response_cel_expr c =
     str_bytes ''response_certification:ResponseCertification{'' @
     response_list_name c @
     str_bytes '':ResponseHeaderList{headers:['' @
     quoted_list (response_list c) @
     str_bytes '']}}''"

definition create_default_full_cel_expr :: "full_cel_expr \<Rightarrow> bytes" where
  "create_default_full_cel_expr c =
     str_bytes ''default_certification(ValidationArgs{'' @
     str_bytes ''certification:Certification{'' @
     create_request_cel_expr (full_request c) @
     create_response_cel_expr (full_response c) @
     str_bytes ''}'' @ str_bytes ''})''"

definition create_default_response_only_cel_expr :: "response_only_cel_expr \<Rightarrow> bytes" where
  "create_default_response_only_cel_expr c =
     str_bytes ''default_certification(ValidationArgs{'' @
     str_bytes ''certification:Certification{'' @
     str_bytes ''no_request_certification:Empty{},'' @
     create_response_cel_expr (only_response c) @
     str_bytes ''}'' @ str_bytes ''})''"

definition create_default_skip_cel_expr :: bytes where
  "create_default_skip_cel_expr =
     str_bytes ''default_certification(ValidationArgs{'' @
     str_bytes ''no_certification:Empty{}'' @ str_bytes ''})''"

fun create_default_cel_expr :: "default_cel_expr \<Rightarrow> bytes" where
  "create_default_cel_expr CelSkip = create_default_skip_cel_expr"
| "create_default_cel_expr (CelResponseOnly c) = create_default_response_only_cel_expr c"
| "create_default_cel_expr (CelFull c) = create_default_full_cel_expr c"

fun create_cel_expr :: "cel_expression \<Rightarrow> bytes" where
  "create_cel_expr (CelDefault c) = create_default_cel_expr c"

end
