(* ===== verification/Cel_Parser.thy ===== *)
theory Cel_Parser
  imports Cel_Expr "HOL-Library.AList"
begin

text \<open>
  The CEL parser of \<^verbatim>\<open>packages/ic-response-verification/src/cel/parser.rs\<close>. The combinators of the crate
  \<^verbatim>\<open>nom\<close> are not part of the repository: the leaf parsers and the list combinator are the fields of
  \<open>cel_lib\<close>, with \<open>cel_lib_documented\<close> for what the parser relies on, and the sequencing
  combinators (\<^verbatim>\<open>preceded\<close>, \<^verbatim>\<open>terminated\<close>, \<^verbatim>\<open>separated_pair\<close>, \<^verbatim>\<open>tuple\<close>, \<^verbatim>\<open>map\<close>, \<^verbatim>\<open>cut\<close>, \<^verbatim>\<open>alt\<close>) are written
  out with \<open>and_then\<close>; \<^verbatim>\<open>context\<close> does not change the error type that the code uses. A string is
  its UTF-8 bytes, a character its code point. \<open>cel_value\<close> calls itself only after an opening
  delimiter was consumed, so fuel above the length of the input is enough.
\<close>

subsection \<open>Characters\<close>

text \<open>The first character of a UTF-8 string and the rest.\<close>

fun utf8_next :: "bytes \<Rightarrow> (nat \<times> bytes) option" where
  "utf8_next [] = None"
| "utf8_next (a # s) =
     (if a \<le> 0x7F then Some (unat a, s)
      else if a \<le> 0xDF
      then (case s of b # s \<Rightarrow> Some (unat a mod 32 * 64 + unat b mod 64, s) | _ \<Rightarrow> None)
      else if a \<le> 0xEF
      then (case s of b # c # s \<Rightarrow>
              Some ((unat a mod 16 * 64 + unat b mod 64) * 64 + unat c mod 64, s)
            | _ \<Rightarrow> None)
      else (case s of b # c # d # s \<Rightarrow>
              Some (((unat a mod 8 * 64 + unat b mod 64) * 64 + unat c mod 64) * 64 + unat d mod 64, s)
            | _ \<Rightarrow> None))"

lemma utf8_next_shorter: "utf8_next s = Some (c, s') \<Longrightarrow> length s' < length s"
  by (cases s) (auto split: if_splits list.splits)

text \<open>The rest of a string after its longest prefix of characters with a property.\<close>

function chars_rest :: "(nat \<Rightarrow> bool) \<Rightarrow> bytes \<Rightarrow> bytes" where
  "chars_rest P s =
     (case utf8_next s of None \<Rightarrow> s | Some (c, s') \<Rightarrow> if P c then chars_rest P s' else s)"
  by auto
termination
  by (relation "measure (\<lambda>(P, s). length s)") (auto dest: utf8_next_shorter)

declare chars_rest.simps [simp del]

lemma length_chars_rest: "length (chars_rest P s) \<le> length s"
proof (induction P s rule: chars_rest.induct)
  case (1 P s)
  show ?case
  proof (cases "\<exists>c s'. utf8_next s = Some (c, s') \<and> P c")
    case True
    then obtain c s' where c: "utf8_next s = Some (c, s')" "P c" by blast
    with 1 have "length (chars_rest P s') \<le> length s'" by blast
    with utf8_next_shorter [OF c(1)] c show ?thesis by (subst chars_rest.simps) simp
  next
    case False
    then show ?thesis by (subst chars_rest.simps) (auto split: option.splits)
  qed
qed

definition chars_while :: "(nat \<Rightarrow> bool) \<Rightarrow> bytes \<Rightarrow> bytes" where
  "chars_while P s = take (length s - length (chars_rest P s)) s"

lemma chars_rest_ascii:
  assumes "\<forall>b \<in> set xs. b \<le> 0x7F \<and> P (unat b)"
    and "rest = [] \<or> (hd rest \<le> 0x7F \<and> \<not> P (unat (hd rest)))"
  shows "chars_rest P (xs @ rest) = rest"
  using assms(1)
proof (induction xs)
  case Nil
  with assms(2) show ?case by (subst chars_rest.simps) (cases rest; auto)
next
  case (Cons b xs)
  then show ?case by (subst chars_rest.simps) simp
qed

lemma chars_while_ascii:
  assumes "\<forall>b \<in> set xs. b \<le> 0x7F \<and> P (unat b)"
    and "rest = [] \<or> (hd rest \<le> 0x7F \<and> \<not> P (unat (hd rest)))"
  shows "chars_while P (xs @ rest) = xs"
  using chars_rest_ascii [OF assms] by (simp add: chars_while_def)

subsection \<open>The parser library\<close>

datatype 'e str_err = Str_Error 'e | Str_Failure 'e | Str_Out_Of_Fuel

type_synonym ('e, 'a) str_parser = "bytes \<Rightarrow> 'e str_err + bytes \<times> 'a"

datatype cel_node =
    CelString bytes
  | CelArray "cel_node list"
  | CelObject bytes "(bytes \<times> cel_node) list"
  | CelFunction bytes "cel_node list"

record 'e cel_lib =
  is_alphanumeric :: "byte \<Rightarrow> bool"
  take_while :: "(nat \<Rightarrow> bool) \<Rightarrow> ('e, bytes) str_parser"
  nom_char :: "byte \<Rightarrow> ('e, byte) str_parser"
  one_of :: "bytes \<Rightarrow> ('e, byte) str_parser"
  multispace0 :: "('e, bytes) str_parser"
  nom_escaped :: "('e, bytes) str_parser \<Rightarrow> byte \<Rightarrow> ('e, byte) str_parser \<Rightarrow> ('e, bytes) str_parser"
  list_of_values :: "('e, byte) str_parser \<Rightarrow> ('e, cel_node) str_parser \<Rightarrow> ('e, cel_node list) str_parser"
  list_of_pairs :: "('e, byte) str_parser \<Rightarrow> ('e, bytes \<times> cel_node) str_parser \<Rightarrow>
    ('e, (bytes \<times> cel_node) list) str_parser"
  alt_failed :: "bytes \<Rightarrow> 'e \<Rightarrow> 'e"

subsection \<open>Parser\<close>

definition trim_whitespace :: "'e cel_lib \<Rightarrow> ('e, 'a) str_parser \<Rightarrow> ('e, 'a) str_parser" where
  "trim_whitespace nm p i = and_then (multispace0 nm i) (\<lambda>(i, _). p i)"

fun cut :: "'e str_err + 'a \<Rightarrow> 'e str_err + 'a" where
  "cut (Inl (Str_Error e)) = Inl (Str_Failure e)"
| "cut r = r"

definition drop_separators ::
  "'e cel_lib \<Rightarrow> byte \<Rightarrow> byte \<Rightarrow> ('e, 'a) str_parser \<Rightarrow> ('e, 'a) str_parser" where
  "drop_separators nm opening closing p i =
     and_then (trim_whitespace nm (nom_char nm opening) i) (\<lambda>(i, _).
       cut (and_then (p i) (\<lambda>(i, v).
         and_then (trim_whitespace nm (nom_char nm closing) i) (\<lambda>(i, _). Inr (i, v)))))"

text \<open>\<^verbatim>\<open>e as u8\<close> keeps the low eight bits of the code point.\<close>

definition ident_char :: "'e cel_lib \<Rightarrow> nat \<Rightarrow> bool" where
  "ident_char nm e \<longleftrightarrow> e = 95 \<or> is_alphanumeric nm (of_nat e)"

definition str_char :: "'e cel_lib \<Rightarrow> nat \<Rightarrow> bool" where
  "str_char nm e \<longleftrightarrow> e = 45 \<or> is_alphanumeric nm (of_nat e)"

definition ident :: "'e cel_lib \<Rightarrow> ('e, bytes) str_parser" where
  "ident nm = take_while nm (ident_char nm)"

definition parse_str :: "'e cel_lib \<Rightarrow> ('e, bytes) str_parser" where
  "parse_str nm = nom_escaped nm (take_while nm (str_char nm)) 92 (one_of nm [34, 110, 92])"

definition cel_string :: "'e cel_lib \<Rightarrow> ('e, bytes) str_parser" where
  "cel_string nm = drop_separators nm 34 34 (parse_str nm)"

definition cel_array ::
  "'e cel_lib \<Rightarrow> ('e, cel_node) str_parser \<Rightarrow> ('e, cel_node list) str_parser" where
  "cel_array nm value =
     drop_separators nm 91 93 (list_of_values nm (trim_whitespace nm (nom_char nm 44)) value)"

definition key_value ::
  "'e cel_lib \<Rightarrow> ('e, cel_node) str_parser \<Rightarrow> ('e, bytes \<times> cel_node) str_parser" where
  "key_value nm value i =
     and_then (trim_whitespace nm (ident nm) i) (\<lambda>(i, key).
     and_then (trim_whitespace nm (nom_char nm 58) i) (\<lambda>(i, _).
     and_then (value i) (\<lambda>(i, v). Inr (i, (key, v)))))"

text \<open>Collecting the pairs into the \<^verbatim>\<open>HashMap\<close>: a later pair replaces an earlier one.\<close>

definition collect_map :: "(bytes \<times> cel_node) list \<Rightarrow> (bytes \<times> cel_node) list" where
  "collect_map ps = foldl (\<lambda>m (k, v). AList.update k v m) [] ps"

definition cel_object ::
  "'e cel_lib \<Rightarrow> ('e, cel_node) str_parser \<Rightarrow> ('e, bytes \<times> (bytes \<times> cel_node) list) str_parser" where
  "cel_object nm value i =
     and_then (ident nm i) (\<lambda>(i, name).
     and_then
       (drop_separators nm 123 125
          (\<lambda>i. and_then
             (list_of_pairs nm (trim_whitespace nm (nom_char nm 44)) (key_value nm value) i)
             (\<lambda>(i, ps). Inr (i, collect_map ps))) i)
       (\<lambda>(i, m). Inr (i, (name, m))))"

definition cel_function ::
  "'e cel_lib \<Rightarrow> ('e, cel_node) str_parser \<Rightarrow> ('e, bytes \<times> cel_node list) str_parser" where
  "cel_function nm value i =
     and_then (ident nm i) (\<lambda>(i, name).
     and_then
       (drop_separators nm 40 41
          (list_of_values nm (trim_whitespace nm (nom_char nm 44)) value) i)
       (\<lambda>(i, vs). Inr (i, (name, vs))))"

text \<open>\<^verbatim>\<open>alt\<close> tries the alternatives in order, goes on after an \<^verbatim>\<open>Error\<close> only, and returns the last
  error when every alternative failed.\<close>

definition map_parser :: "('a \<Rightarrow> 'b) \<Rightarrow> ('e, 'a) str_parser \<Rightarrow> ('e, 'b) str_parser" where
  "map_parser f p i = and_then (p i) (\<lambda>(i, v). Inr (i, f v))"

fun or_else :: "'e str_err + 'a \<Rightarrow> 'e str_err + 'a \<Rightarrow> 'e str_err + 'a" where
  "or_else (Inl (Str_Error _)) r = r"
| "or_else r _ = r"

fun alt_done :: "'e cel_lib \<Rightarrow> bytes \<Rightarrow> 'e str_err + 'a \<Rightarrow> 'e str_err + 'a" where
  "alt_done nm i (Inl (Str_Error e)) = Inl (Str_Error (alt_failed nm i e))"
| "alt_done nm i r = r"

fun cel_value :: "'e cel_lib \<Rightarrow> nat \<Rightarrow> ('e, cel_node) str_parser" where
  "cel_value nm 0 i = Inl Str_Out_Of_Fuel"
| "cel_value nm (Suc fuel) i =
     trim_whitespace nm (\<lambda>i. alt_done nm i
       (or_else (map_parser (\<lambda>(name, value). CelObject name value) (cel_object nm (cel_value nm fuel)) i)
       (or_else (map_parser (\<lambda>(name, value). CelFunction name value) (cel_function nm (cel_value nm fuel)) i)
       (or_else (map_parser CelArray (cel_array nm (cel_value nm fuel)) i)
         (map_parser CelString (cel_string nm) i))))) i"

text \<open>The errors of \<^verbatim>\<open>cel/error.rs\<close>; a text that shows a value or a syntax error holds it here.\<close>

datatype 'e cel_error =
    UnrecognizedFunction bytes
  | MissingFunctionParameter string string string nat
  | IncorrectFunctionParameterType string string string string nat
  | UnexpectedNodeType string string cel_node
  | UnexpectedNodeName string string bytes
  | MissingObjectProperty string string
  | ExtraneousRequestCertificationProperty
  | MissingRequestCertificationProperty
  | ExtraneousResponseCertificationProperty
  | MissingResponseCertificationProperty
  | ExtraneousValidationArgsProperty
  | MissingValidationArgsProperty
  | CelSyntaxException "'e str_err"

definition parse_cel_expression :: "'e cel_lib \<Rightarrow> bytes \<Rightarrow> 'e cel_error + cel_node" where
  "parse_cel_expression nm i =
     (case cel_value nm (Suc (length i)) i of
        Inl e \<Rightarrow> Inl (CelSyntaxException e)
      | Inr (_, result) \<Rightarrow> Inr result)"

subsection \<open>What the documentation of the library says\<close>

definition ascii_alphanumeric :: "byte \<Rightarrow> bool" where
  "ascii_alphanumeric b \<longleftrightarrow> 48 \<le> b \<and> b \<le> 57 \<or> 65 \<le> b \<and> b \<le> 90 \<or> 97 \<le> b \<and> b \<le> 122"

definition is_space :: "byte \<Rightarrow> bool" where
  "is_space b \<longleftrightarrow> b = 32 \<or> b = 9 \<or> b = 13 \<or> b = 10"

text \<open>\<^verbatim>\<open>separated_list0\<close>: the list ends at the first element or separator that fails with an
  \<^verbatim>\<open>Error\<close>. The separator consumes input, so the length of the input bounds the number of
  elements.\<close>

fun list_tail ::
  "nat \<Rightarrow> ('e, byte) str_parser \<Rightarrow> ('e, 'a) str_parser \<Rightarrow> ('e, 'a list) str_parser" where
  "list_tail 0 sep p i = Inr (i, [])"
| "list_tail (Suc n) sep p i =
     (case and_then (sep i) (\<lambda>(i, _). p i) of
        Inl (Str_Error _) \<Rightarrow> Inr (i, [])
      | Inl e \<Rightarrow> Inl e
      | Inr (i, v) \<Rightarrow> and_then (list_tail n sep p i) (\<lambda>(i, vs). Inr (i, v # vs)))"

definition list_spec :: "('e, byte) str_parser \<Rightarrow> ('e, 'a) str_parser \<Rightarrow> ('e, 'a list) str_parser" where
  "list_spec sep p i =
     (case p i of
        Inl (Str_Error _) \<Rightarrow> Inr (i, [])
      | Inl e \<Rightarrow> Inl e
      | Inr (i', v) \<Rightarrow> and_then (list_tail (length i) sep p i') (\<lambda>(i, vs). Inr (i, v # vs)))"

definition shrinks :: "('e, 'a) str_parser \<Rightarrow> bool" where
  "shrinks p \<longleftrightarrow> (\<forall>i i' v. p i = Inr (i', v) \<longrightarrow> length i' \<le> length i)"

definition consumes :: "('e, 'a) str_parser \<Rightarrow> bool" where
  "consumes p \<longleftrightarrow> (\<forall>i i' v. p i = Inr (i', v) \<longrightarrow> length i' < length i)"

text \<open>\<^verbatim>\<open>escaped\<close> returns a prefix of its input, and the normal characters alone when they are not
  followed by the control character.\<close>

definition cel_lib_documented :: "'e cel_lib \<Rightarrow> bool" where
  "cel_lib_documented nm \<longleftrightarrow>
     (\<forall>b. is_alphanumeric nm b \<longleftrightarrow> ascii_alphanumeric b) \<and>
     (\<forall>P i. take_while nm P i = Inr (chars_rest P i, chars_while P i)) \<and>
     (\<forall>c i. c \<le> 0x7F \<longrightarrow> nom_char nm c (c # i) = Inr (i, c)) \<and>
     (\<forall>c i. (i = [] \<or> hd i \<noteq> c) \<longrightarrow> (\<exists>e. nom_char nm c i = Inl (Str_Error e))) \<and>
     (\<forall>i. multispace0 nm i = Inr (dropWhile is_space i, takeWhile is_space i)) \<and>
     (\<forall>P c q i i' v. nom_escaped nm (take_while nm P) c q i = Inr (i', v) \<longrightarrow> i = v @ i') \<and>
     (\<forall>P c q i. chars_while P i \<noteq> [] \<longrightarrow> (chars_rest P i = [] \<or> hd (chars_rest P i) \<noteq> c) \<longrightarrow>
        nom_escaped nm (take_while nm P) c q i = Inr (chars_rest P i, chars_while P i)) \<and>
     (\<forall>sep p i. consumes sep \<longrightarrow> shrinks p \<longrightarrow> list_of_values nm sep p i = list_spec sep p i) \<and>
     (\<forall>sep p i. consumes sep \<longrightarrow> shrinks p \<longrightarrow> list_of_pairs nm sep p i = list_spec sep p i)"

text \<open>A concrete library with this behaviour.\<close>

definition cel_ref :: "string cel_lib" where
  "cel_ref = \<lparr>
     is_alphanumeric = ascii_alphanumeric,
     take_while = (\<lambda>P i. Inr (chars_rest P i, chars_while P i)),
     nom_char = (\<lambda>c i. case i of d # i \<Rightarrow> if c = d then Inr (i, c) else Inl (Str_Error ''Char'')
                             | [] \<Rightarrow> Inl (Str_Error ''Char'')),
     one_of = (\<lambda>cs i. case i of d # i \<Rightarrow> if d \<in> set cs then Inr (i, d) else Inl (Str_Error ''OneOf'')
                             | [] \<Rightarrow> Inl (Str_Error ''OneOf'')),
     multispace0 = (\<lambda>i. Inr (dropWhile is_space i, takeWhile is_space i)),
     nom_escaped = (\<lambda>normal c q i. normal i),
     list_of_values = list_spec,
     list_of_pairs = list_spec,
     alt_failed = (\<lambda>_ e. e)\<rparr>"

lemma chars_split: "chars_while P i @ chars_rest P i = i"
proof (induction P i rule: chars_rest.induct)
  case (1 P s)
  have suffix: "\<exists>k. s' = drop k s" if "utf8_next s = Some (c, s')" for c s'
    using that by (cases s) (auto split: if_splits list.splits intro: exI [of _ "Suc 0"]
        exI [of _ "Suc (Suc 0)"] exI [of _ "Suc (Suc (Suc 0))"] exI [of _ "Suc (Suc (Suc (Suc 0)))"])
  have "\<exists>k. chars_rest P s = drop k s"
  proof (cases "\<exists>c s'. utf8_next s = Some (c, s') \<and> P c")
    case True
    then obtain c s' where c: "utf8_next s = Some (c, s')" "P c" by blast
    with 1 have "chars_while P s' @ chars_rest P s' = s'" by blast
    then obtain k where "chars_rest P s' = drop k s'" by (metis append_eq_conv_conj)
    moreover obtain k' where "s' = drop k' s" using suffix [OF c(1)] by blast
    ultimately have "chars_rest P s' = drop (k + k') s" by simp
    with c show ?thesis by (subst chars_rest.simps) auto
  next
    case False
    then have "chars_rest P s = drop 0 s"
      by (subst chars_rest.simps) (auto split: option.splits)
    then show ?thesis by blast
  qed
  then obtain k where "chars_rest P s = drop k s" ..
  then show ?case by (simp add: chars_while_def) (metis append_take_drop_id diff_diff_cancel
        diff_is_0_eq' drop_all le_cases length_drop take_all)
qed

lemma cel_ref_documented [simp]: "cel_lib_documented cel_ref"
  by (auto simp: cel_lib_documented_def cel_ref_def chars_split split: list.splits)

end
