(* ===== verification/Cel_Roundtrip.thy ===== *)
theory Cel_Roundtrip
  imports Cel_Ast
begin

text \<open>
  The text that \<^verbatim>\<open>create_cel_expr\<close> writes is read back by the parser and the AST mapping as the same
  expression, when the names in it are ASCII letters, digits and dashes; a name with an underscore
  is not.
\<close>

declare cel_value.simps(2) [simp del]

subsection \<open>No parser grows its input\<close>

lemma cut_Inr [simp]: "cut r = Inr x \<longleftrightarrow> r = Inr x"
  by (cases r rule: cut.cases) auto

lemma consumes_shrinks: "consumes p \<Longrightarrow> shrinks p"
  by (auto simp: consumes_def shrinks_def intro: less_imp_le)

lemma length_dropWhile_space: "length (dropWhile is_space i) \<le> length i"
  by (rule length_dropWhile_le)

lemma doc_char:
  assumes "cel_lib_documented nm"
  shows "c \<le> 0x7F \<Longrightarrow> nom_char nm c (c # i) = Inr (i, c)"
    and "i = [] \<or> hd i \<noteq> c \<Longrightarrow> \<exists>e. nom_char nm c i = Inl (Str_Error e)"
  using assms by (auto simp: cel_lib_documented_def)

lemma doc_leaves:
  assumes "cel_lib_documented nm"
  shows "multispace0 nm i = Inr (dropWhile is_space i, takeWhile is_space i)"
    and "take_while nm P i = Inr (chars_rest P i, chars_while P i)"
    and "is_alphanumeric nm b \<longleftrightarrow> ascii_alphanumeric b"
  using assms by (simp_all add: cel_lib_documented_def)

lemma doc_lists:
  assumes "cel_lib_documented nm" and "consumes sep" and "shrinks p"
  shows "list_of_values nm sep p i = list_spec sep p i"
  using assms by (simp add: cel_lib_documented_def)

lemma doc_pairs:
  assumes "cel_lib_documented nm" and "consumes sep" and "shrinks p"
  shows "list_of_pairs nm sep p i = list_spec sep p i"
  using assms by (simp add: cel_lib_documented_def)

lemma doc_escaped_prefix:
  assumes "cel_lib_documented nm" and "nom_escaped nm (take_while nm P) c q i = Inr (i', v)"
  shows "i = v @ i'"
  using assms by (simp add: cel_lib_documented_def)

lemma doc_escaped:
  assumes "cel_lib_documented nm" and "chars_while P i \<noteq> []"
    and "chars_rest P i = [] \<or> hd (chars_rest P i) \<noteq> c"
  shows "nom_escaped nm (take_while nm P) c q i = Inr (chars_rest P i, chars_while P i)"
proof -
  from assms(1) have "\<forall>P c q i. chars_while P i \<noteq> [] \<longrightarrow> (chars_rest P i = [] \<or> hd (chars_rest P i) \<noteq> c) \<longrightarrow>
        nom_escaped nm (take_while nm P) c q i = Inr (chars_rest P i, chars_while P i)"
    unfolding cel_lib_documented_def by blast
  with assms(2,3) show ?thesis by blast
qed

lemma consumes_char:
  assumes "cel_lib_documented nm" and c: "c \<le> 0x7F"
  shows "consumes (nom_char nm c)"
  unfolding consumes_def
proof (intro allI impI)
  fix i i' v
  assume r: "nom_char nm c i = Inr (i', v)"
  show "length i' < length i"
  proof (cases "i = [] \<or> hd i \<noteq> c")
    case True
    from doc_char(2) [OF assms(1) this] r show ?thesis by auto
  next
    case False
    then obtain j where "i = c # j" by (cases i) auto
    with r doc_char(1) [OF assms] show ?thesis by auto
  qed
qed

lemma consumes_trim: "cel_lib_documented nm \<Longrightarrow> consumes p \<Longrightarrow> consumes (trim_whitespace nm p)"
  using length_dropWhile_space
  by (fastforce simp: consumes_def trim_whitespace_def doc_leaves and_then_eq_Inr intro: less_le_trans)

lemma shrinks_trim: "cel_lib_documented nm \<Longrightarrow> shrinks p \<Longrightarrow> shrinks (trim_whitespace nm p)"
  using length_dropWhile_space
  by (fastforce simp: shrinks_def trim_whitespace_def doc_leaves and_then_eq_Inr intro: le_trans)

lemma shrinks_take_while: "cel_lib_documented nm \<Longrightarrow> shrinks (take_while nm P)"
  by (auto simp: shrinks_def doc_leaves length_chars_rest)

lemma shrinks_parse_str: "cel_lib_documented nm \<Longrightarrow> shrinks (parse_str nm)"
  by (auto simp: shrinks_def parse_str_def dest: doc_escaped_prefix)

lemma consumes_drop_separators:
  assumes D: "cel_lib_documented nm" and "c \<le> 0x7F" and "d \<le> 0x7F" and "shrinks p"
  shows "consumes (drop_separators nm c d p)"
  unfolding consumes_def
proof (intro allI impI)
  fix i i' v
  assume "drop_separators nm c d p i = Inr (i', v)"
  then obtain j x j' where 1: "trim_whitespace nm (nom_char nm c) i = Inr (j, x)"
    and 2: "p j = Inr (j', v)" and 3: "\<exists>y. trim_whitespace nm (nom_char nm d) j' = Inr (i', y)"
    by (auto simp: drop_separators_def and_then_eq_Inr)
  from 1 have "length j < length i"
    using consumes_trim [OF D consumes_char [OF D assms(2)]] by (auto simp: consumes_def)
  moreover from 2 assms(4) have "length j' \<le> length j" by (auto simp: shrinks_def)
  moreover from 3 have "length i' < length j'"
    using consumes_trim [OF D consumes_char [OF D assms(3)]] by (auto simp: consumes_def)
  ultimately show "length i' < length i" by simp
qed

lemma shrinks_list_tail: "consumes sep \<Longrightarrow> shrinks p \<Longrightarrow> shrinks (list_tail n sep p)"
proof (induction n)
  case 0
  then show ?case by (simp add: shrinks_def)
next
  case (Suc n)
  show ?case
    unfolding shrinks_def
  proof (intro allI impI)
    fix i i' vs
    assume r: "list_tail (Suc n) sep p i = Inr (i', vs)"
    show "length i' \<le> length i"
    proof (cases "and_then (sep i) (\<lambda>(i, _). p i)")
      case (Inl e)
      with r show ?thesis by (cases e) auto
    next
      case (Inr jv)
      obtain j v where jv: "jv = (j, v)" by (cases jv)
      with Inr obtain k x where "sep i = Inr (k, x)" "p k = Inr (j, v)" by (auto simp: and_then_eq_Inr)
      with Suc.prems have "length k < length i" "length j \<le> length k"
        by (auto simp: consumes_def shrinks_def)
      moreover from r Inr jv obtain vs' where "list_tail n sep p j = Inr (i', vs')"
        by (auto simp: and_then_eq_Inr)
      with Suc have "length i' \<le> length j" by (auto simp: shrinks_def)
      ultimately show ?thesis by simp
    qed
  qed
qed

lemma shrinks_list_spec:
  assumes "consumes sep" and "shrinks p"
  shows "shrinks (list_spec sep p)"
  unfolding shrinks_def
proof (intro allI impI)
  fix i i' vs
  assume r: "list_spec sep p i = Inr (i', vs)"
  show "length i' \<le> length i"
  proof (cases "p i")
    case (Inl e)
    with r show ?thesis by (cases e) (auto simp: list_spec_def)
  next
    case (Inr jv)
    obtain j v where jv: "jv = (j, v)" by (cases jv)
    with r Inr obtain vs' where "list_tail (length i) sep p j = Inr (i', vs')"
      by (auto simp: list_spec_def and_then_eq_Inr)
    with shrinks_list_tail [OF assms] have "length i' \<le> length j" by (auto simp: shrinks_def)
    moreover from Inr jv assms(2) have "length j \<le> length i" by (auto simp: shrinks_def)
    ultimately show ?thesis by simp
  qed
qed

lemma shrinks_bind_map:
  "shrinks p \<Longrightarrow> shrinks (\<lambda>i. and_then (p i) (\<lambda>(i, v). Inr (i, f v)))"
  "shrinks p \<Longrightarrow> shrinks (map_parser f p)"
  by (auto simp: shrinks_def map_parser_def and_then_eq_Inr)

lemma shrinks_seq:
  assumes "shrinks p" and "\<And>x. shrinks (q x)"
  shows "shrinks (\<lambda>i. and_then (p i) (\<lambda>(i, x). q x i))"
  using assms by (fastforce simp: shrinks_def and_then_eq_Inr intro: le_trans)

lemma or_else_Inr: "or_else r s = Inr x \<Longrightarrow> r = Inr x \<or> s = Inr x"
  by (cases r rule: cut.cases) auto

lemma alt_done_Inr [simp]: "alt_done nm i r = Inr x \<longleftrightarrow> r = Inr x"
  by (cases r rule: cut.cases) auto

lemma shrinks_alt:
  assumes "shrinks p" and "shrinks q"
  shows "shrinks (\<lambda>i. or_else (p i) (q i))"
  using assms by (auto simp: shrinks_def dest!: or_else_Inr)

lemma shrinks_alt_done: "shrinks p \<Longrightarrow> shrinks (\<lambda>i. alt_done nm i (p i))"
  by (auto simp: shrinks_def)

lemma shrinks_key_value:
  assumes D: "cel_lib_documented nm" and "shrinks value"
  shows "shrinks (key_value nm value)"
  unfolding key_value_def [abs_def] ident_def
  by (intro shrinks_seq shrinks_trim [OF D] shrinks_take_while [OF D] shrinks_bind_map(1) assms(2)
      consumes_shrinks [OF consumes_char [OF D]]) simp

lemma consumes_comma: "cel_lib_documented nm \<Longrightarrow> consumes (trim_whitespace nm (nom_char nm 44))"
  by (simp add: consumes_trim consumes_char)

lemma lists_eq:
  assumes D: "cel_lib_documented nm"
  shows "shrinks value \<Longrightarrow> list_of_values nm (trim_whitespace nm (nom_char nm 44)) value
      = list_spec (trim_whitespace nm (nom_char nm 44)) value"
    and "shrinks kv \<Longrightarrow> list_of_pairs nm (trim_whitespace nm (nom_char nm 44)) kv
      = list_spec (trim_whitespace nm (nom_char nm 44)) kv"
  by (rule ext, erule doc_lists [OF D consumes_comma [OF D]])
    (rule ext, erule doc_pairs [OF D consumes_comma [OF D]])

lemma shrinks_lists:
  assumes D: "cel_lib_documented nm"
  shows "shrinks value \<Longrightarrow> shrinks (list_of_values nm (trim_whitespace nm (nom_char nm 44)) value)"
    and "shrinks kv \<Longrightarrow> shrinks (list_of_pairs nm (trim_whitespace nm (nom_char nm 44)) kv)"
  by (simp_all add: lists_eq [OF D] shrinks_list_spec consumes_comma [OF D])

lemma shrinks_delimited:
  assumes D: "cel_lib_documented nm" and "c \<le> 0x7F" and "d \<le> 0x7F" and "shrinks p"
  shows "shrinks (drop_separators nm c d p)"
  by (rule consumes_shrinks [OF consumes_drop_separators [OF assms]])

lemma shrinks_cel_value:
  assumes D: "cel_lib_documented nm"
  shows "shrinks (cel_value nm fuel)"
proof (induction fuel)
  case 0
  then show ?case by (simp add: shrinks_def)
next
  case (Suc fuel)
  have "cel_value nm (Suc fuel) = trim_whitespace nm (\<lambda>i. alt_done nm i
       (or_else (map_parser (\<lambda>(name, value). CelObject name value) (cel_object nm (cel_value nm fuel)) i)
       (or_else (map_parser (\<lambda>(name, value). CelFunction name value) (cel_function nm (cel_value nm fuel)) i)
       (or_else (map_parser CelArray (cel_array nm (cel_value nm fuel)) i)
         (map_parser CelString (cel_string nm) i)))))"
    by (rule ext) (simp add: cel_value.simps(2))
  moreover have "shrinks (cel_object nm (cel_value nm fuel))"
    unfolding cel_object_def [abs_def] ident_def
    by (intro shrinks_seq shrinks_take_while [OF D] shrinks_bind_map(1) shrinks_delimited [OF D]
        shrinks_lists [OF D] shrinks_key_value [OF D] Suc) simp_all
  moreover have "shrinks (cel_function nm (cel_value nm fuel))"
    unfolding cel_function_def [abs_def] ident_def
    by (intro shrinks_seq shrinks_take_while [OF D] shrinks_bind_map(1) shrinks_delimited [OF D]
        shrinks_lists [OF D] Suc) simp_all
  moreover have "shrinks (cel_array nm (cel_value nm fuel))"
    unfolding cel_array_def by (intro shrinks_delimited [OF D] shrinks_lists [OF D] Suc) simp_all
  moreover have "shrinks (cel_string nm)"
    unfolding cel_string_def by (intro shrinks_delimited [OF D] shrinks_parse_str [OF D]) simp_all
  ultimately show ?case
    by (simp only:) (intro shrinks_trim [OF D] shrinks_alt_done shrinks_alt shrinks_bind_map(2))
qed

subsection \<open>The text of a value\<close>

fun node_text :: "cel_node \<Rightarrow> bytes" where
  "node_text (CelString s) = 34 # s @ [34]"
| "node_text (CelArray vs) = 91 # join [44] (map node_text vs) @ [93]"
| "node_text (CelObject n ps) =
     n @ 123 # join [44] (map (\<lambda>p. fst p @ 58 # node_text (snd p)) ps) @ [125]"
| "node_text (CelFunction n vs) = n @ 40 # join [44] (map node_text vs) @ [41]"

definition name_ok :: "bytes \<Rightarrow> bool" where
  "name_ok n \<longleftrightarrow> (\<forall>b \<in> set n. ascii_alphanumeric b \<or> b = 95)"

definition str_ok :: "bytes \<Rightarrow> bool" where
  "str_ok s \<longleftrightarrow> s \<noteq> [] \<and> (\<forall>b \<in> set s. ascii_alphanumeric b \<or> b = 45)"

fun node_ok :: "cel_node \<Rightarrow> bool" where
  "node_ok (CelString s) = str_ok s"
| "node_ok (CelArray vs) = (\<forall>v \<in> set vs. node_ok v)"
| "node_ok (CelObject n ps) =
     (name_ok n \<and> distinct (map fst ps) \<and> (\<forall>p \<in> set ps. name_ok (fst p) \<and> node_ok (snd p)))"
| "node_ok (CelFunction n vs) = (name_ok n \<and> (\<forall>v \<in> set vs. node_ok v))"

lemma alphanumeric_ascii: "ascii_alphanumeric b \<Longrightarrow> b \<le> 0x7F"
  by (auto simp: ascii_alphanumeric_def word_le_nat_alt)

lemma trim_nospace:
  assumes "cel_lib_documented nm" and "i = [] \<or> \<not> is_space (hd i)"
  shows "trim_whitespace nm p i = p i"
  using assms(2) by (cases i) (simp_all add: trim_whitespace_def doc_leaves [OF assms(1)])

lemma ident_text:
  assumes D: "cel_lib_documented nm" and n: "name_ok n"
    and d: "d \<le> 0x7F" "\<not> ascii_alphanumeric d" "d \<noteq> 95"
  shows "ident nm (n @ d # rest) = Inr (d # rest, n)"
proof -
  have 1: "\<forall>b \<in> set n. b \<le> 0x7F \<and> ident_char nm (unat b)"
    using n alphanumeric_ascii by (auto simp: name_ok_def ident_char_def doc_leaves [OF D])
  have "unat d \<noteq> 95" using d(3) by (simp add: word_unat_eq_iff)
  with d have 2: "d # rest = [] \<or> hd (d # rest) \<le> 0x7F \<and> \<not> ident_char nm (unat (hd (d # rest)))"
    by (simp add: ident_char_def doc_leaves [OF D])
  show ?thesis
    unfolding ident_def doc_leaves(2) [OF D] chars_rest_ascii [OF 1 2] chars_while_ascii [OF 1 2] ..
qed

lemma delimited_text:
  assumes D: "cel_lib_documented nm" and cd: "c \<le> 0x7F" "d \<le> 0x7F" "\<not> is_space c" "\<not> is_space d"
    and p: "p (body @ d # rest) = Inr (d # rest, v)"
  shows "drop_separators nm c d p (c # body @ d # rest) = Inr (rest, v)"
  using cd by (simp add: drop_separators_def trim_nospace [OF D] doc_char [OF D] p)

lemma delimited_fails:
  assumes D: "cel_lib_documented nm" and "\<not> is_space (hd i)" and "i \<noteq> []"
    and "nom_char nm c i = Inl (Str_Error e)"
  shows "drop_separators nm c d p i = Inl (Str_Error e)"
  using assms by (simp add: drop_separators_def trim_nospace [OF D])

lemma join_concat: "join sep (v # vs) = v @ concat (map (\<lambda>w. sep @ w) vs)"
  by (induction vs arbitrary: v) auto

lemma list_tail_text:
  assumes D: "cel_lib_documented nm" and d: "d \<noteq> 44" "\<not> is_space d"
    and p: "\<And>v r. v \<in> set vs \<Longrightarrow> p (t v @ r) = Inr (r, v)" and n: "length vs \<le> n"
  shows "list_tail n (trim_whitespace nm (nom_char nm 44)) p
           (concat (map (\<lambda>w. [44] @ w) (map t vs)) @ d # rest) = Inr (d # rest, vs)"
  using p n
proof (induction vs arbitrary: n)
  case Nil
  obtain e where "nom_char nm 44 (d # rest) = Inl (Str_Error e)"
    using doc_char(2) [OF D, of "d # rest" 44] d(1) by auto
  with d(2) show ?case by (cases n) (simp_all add: trim_nospace [OF D])
next
  case (Cons v vs)
  then obtain m where "n = Suc m" "length vs \<le> m" by (cases n) auto
  with Cons show ?case by (simp add: trim_nospace [OF D] doc_char [OF D] is_space_def)
qed

lemma list_text:
  assumes D: "cel_lib_documented nm" and d: "d \<noteq> 44" "\<not> is_space d"
    and p: "\<And>v r. v \<in> set vs \<Longrightarrow> p (t v @ r) = Inr (r, v)"
    and e: "\<exists>e. p (d # rest) = Inl (Str_Error e)"
  shows "list_spec (trim_whitespace nm (nom_char nm 44)) p (join [44] (map t vs) @ d # rest)
           = Inr (d # rest, vs)"
proof (cases vs)
  case Nil
  with e show ?thesis by (auto simp: list_spec_def)
next
  case (Cons v ws)
  have "length ws \<le> length (concat (map (\<lambda>w. [44] @ w) (map t ws)))" by (induction ws) auto
  then have "list_tail (length (join [44] (map t vs) @ d # rest)) (trim_whitespace nm (nom_char nm 44)) p
      (concat (map (\<lambda>w. [44] @ w) (map t ws)) @ d # rest) = Inr (d # rest, ws)"
    by (intro list_tail_text [OF D d] p) (auto simp: Cons join_concat)
  then show ?thesis
    using p [of v] Cons by (simp add: list_spec_def join_concat)
qed

subsection \<open>Reading the text\<close>

lemma alternatives_fail:
  assumes D: "cel_lib_documented nm" and n: "name_ok n"
    and d: "d \<le> 0x7F" "\<not> ascii_alphanumeric d" "d \<noteq> 95" "\<not> is_space d"
  shows "d \<noteq> 123 \<Longrightarrow> \<exists>e. cel_object nm value (n @ d # rest) = Inl (Str_Error e)"
    and "d \<noteq> 40 \<Longrightarrow> \<exists>e. cel_function nm value (n @ d # rest) = Inl (Str_Error e)"
    and "d \<noteq> 91 \<Longrightarrow> \<exists>e. cel_array nm value (d # rest) = Inl (Str_Error e)"
    and "d \<noteq> 34 \<Longrightarrow> \<exists>e. cel_string nm (d # rest) = Inl (Str_Error e)"
proof -
  have id: "ident nm (n @ d # rest) = Inr (d # rest, n)"
    by (rule ident_text [OF D n d(1-3)])
  have fails: "\<exists>e. nom_char nm c (d # rest) = Inl (Str_Error e)" if "d \<noteq> c" for c
    using doc_char(2) [OF D, of "d # rest" c] that by simp
  note df = delimited_fails [OF D, of "d # rest", simplified, OF d(4)]
  show "d \<noteq> 123 \<Longrightarrow> \<exists>e. cel_object nm value (n @ d # rest) = Inl (Str_Error e)"
    using fails [of 123] by (auto simp: cel_object_def id df)
  show "d \<noteq> 40 \<Longrightarrow> \<exists>e. cel_function nm value (n @ d # rest) = Inl (Str_Error e)"
    using fails [of 40] by (auto simp: cel_function_def id df)
  show "d \<noteq> 91 \<Longrightarrow> \<exists>e. cel_array nm value (d # rest) = Inl (Str_Error e)"
    using fails [of 91] by (auto simp: cel_array_def df)
  show "d \<noteq> 34 \<Longrightarrow> \<exists>e. cel_string nm (d # rest) = Inl (Str_Error e)"
    using fails [of 34] by (auto simp: cel_string_def df)
qed

lemma name_ok_Nil [simp]: "name_ok []"
  by (simp add: name_ok_def)

lemma delimiters:
  assumes "d \<in> {34, 40, 41, 91, 93, 123, 125, 58}"
  shows "(d :: byte) \<le> 0x7F" and "\<not> ascii_alphanumeric d" and "d \<noteq> 95" and "\<not> is_space d"
  using assms by (auto simp: ascii_alphanumeric_def is_space_def)

lemma closing_fails:
  assumes D: "cel_lib_documented nm" and d: "d = 93 \<or> d = 41"
  shows "\<exists>e. cel_value nm (Suc fuel) (d # rest) = Inl (Str_Error e)"
proof -
  have d': "d \<le> 0x7F" "\<not> ascii_alphanumeric d" "d \<noteq> 95" "\<not> is_space d"
    using d delimiters [of d] by auto
  note fails = alternatives_fail [OF D name_ok_Nil d', simplified]
  from d have "d \<noteq> 123" "d \<noteq> 40" "d \<noteq> 91" "d \<noteq> 34" by auto
  with fails obtain e1 e2 e3 e4 where
    "cel_object nm (cel_value nm fuel) (d # rest) = Inl (Str_Error e1)"
    "cel_function nm (cel_value nm fuel) (d # rest) = Inl (Str_Error e2)"
    "cel_array nm (cel_value nm fuel) (d # rest) = Inl (Str_Error e3)"
    "cel_string nm (d # rest) = Inl (Str_Error e4)"
    by blast
  then show ?thesis by (simp add: cel_value.simps(2) trim_nospace [OF D] d'(4) map_parser_def)
qed

lemma string_text:
  assumes D: "cel_lib_documented nm" and s: "str_ok s"
  shows "cel_string nm (34 # s @ 34 # rest) = Inr (rest, s)"
  unfolding cel_string_def
proof (rule delimited_text [OF D])
  have 1: "\<forall>b \<in> set s. b \<le> 0x7F \<and> str_char nm (unat b)"
    using s alphanumeric_ascii by (auto simp: str_ok_def str_char_def doc_leaves [OF D])
  have 2: "34 # rest = [] \<or> hd (34 # rest) \<le> (0x7F :: byte) \<and> \<not> str_char nm (unat (hd (34 # rest)))"
    by (simp add: str_char_def doc_leaves [OF D] ascii_alphanumeric_def)
  have "chars_while (str_char nm) (s @ 34 # rest) \<noteq> []"
    using s by (simp add: chars_while_ascii [OF 1 2] str_ok_def)
  then have "parse_str nm (s @ 34 # rest) =
      Inr (chars_rest (str_char nm) (s @ 34 # rest), chars_while (str_char nm) (s @ 34 # rest))"
    unfolding parse_str_def by (rule doc_escaped [OF D]) (simp add: chars_rest_ascii [OF 1 2])
  then show "parse_str nm (s @ 34 # rest) = Inr (34 # rest, s)"
    by (simp add: chars_rest_ascii [OF 1 2] chars_while_ascii [OF 1 2])
qed (simp_all add: is_space_def)

lemma collect_map_distinct:
  assumes "distinct (map fst ps)"
  shows "collect_map ps = ps"
proof -
  have "foldl (\<lambda>m (k, v). AList.update k v m) acc ps = acc @ ps"
    if "distinct (map fst (acc @ ps))" for acc
    using that
  proof (induction ps arbitrary: acc)
    case (Cons p ps)
    obtain k v where p: "p = (k, v)" by (cases p)
    with Cons.prems have "k \<notin> fst ` set acc" by auto
    then have "AList.update k v acc = acc @ [(k, v)]" by (induction acc) auto
    with Cons p show ?case by simp
  qed simp
  from this [of "[]"] assms show ?thesis by (simp add: collect_map_def)
qed

lemma length_join_elem: "x \<in> set xs \<Longrightarrow> length x \<le> length (join sep xs)"
  by (induction xs rule: induct_list012) auto

lemma name_head:
  "name_ok n \<Longrightarrow> \<not> is_space d \<Longrightarrow> \<not> is_space (hd (n @ d # r))"
  by (cases n) (auto simp: name_ok_def is_space_def ascii_alphanumeric_def)

lemma key_value_text:
  assumes D: "cel_lib_documented nm" and k: "name_ok k" and v: "\<And>r. vp (t @ r) = Inr (r, v)"
  shows "key_value nm vp ((k @ 58 # t) @ rest) = Inr (rest, (k, v))"
proof -
  have "trim_whitespace nm (ident nm) (k @ 58 # t @ rest) = Inr (58 # t @ rest, k)"
    using ident_text [OF D k, of 58] delimiters [of 58] name_head [OF k, of 58]
    by (subst trim_nospace [OF D]) auto
  then show ?thesis
    using delimiters [of 58] by (simp add: key_value_def trim_nospace [OF D] doc_char [OF D] v)
qed

lemma key_value_fails:
  assumes D: "cel_lib_documented nm"
  shows "\<exists>e. key_value nm value (125 # rest) = Inl (Str_Error e)"
proof -
  have "ident nm (125 # rest) = Inr (125 # rest, [])"
    using ident_text [OF D name_ok_Nil, of 125 rest] delimiters [of 125] by simp
  with doc_char(2) [OF D, of "125 # rest" 58] delimiters(4) [of 125] show ?thesis
    by (auto simp: key_value_def trim_nospace [OF D])
qed

lemma parse_node_text:
  assumes D: "cel_lib_documented nm"
  shows "node_ok v \<Longrightarrow> length (node_text v) \<le> fuel \<Longrightarrow>
    cel_value nm fuel (node_text v @ rest) = Inr (rest, v)"
proof (induction v arbitrary: fuel rest)
  case (CelString s)
  then obtain f where f: "fuel = Suc f" by (cases fuel) auto
  note fails = alternatives_fail [OF D name_ok_Nil, of 34, simplified]
  obtain e1 e2 e3 where "cel_object nm (cel_value nm f) (34 # s @ 34 # rest) = Inl (Str_Error e1)"
    "cel_function nm (cel_value nm f) (34 # s @ 34 # rest) = Inl (Str_Error e2)"
    "cel_array nm (cel_value nm f) (34 # s @ 34 # rest) = Inl (Str_Error e3)"
    using fails(1-3) delimiters [of 34] by fastforce
  moreover have "cel_string nm (34 # s @ 34 # rest) = Inr (rest, s)"
    using CelString.prems by (intro string_text [OF D]) simp
  ultimately show ?case
    using delimiters(4) [of 34] by (simp add: f cel_value.simps(2) trim_nospace [OF D] map_parser_def)
next
  case (CelArray vs)
  then obtain f where f: "fuel = Suc (Suc f)" by (cases fuel; cases "fuel - 1") auto
  note fails = alternatives_fail [OF D name_ok_Nil, of 91, simplified]
  obtain e1 e2 where
    "cel_object nm (cel_value nm (Suc f)) (node_text (CelArray vs) @ rest) = Inl (Str_Error e1)"
    "cel_function nm (cel_value nm (Suc f)) (node_text (CelArray vs) @ rest) = Inl (Str_Error e2)"
    using fails(1,2) delimiters [of 91] by fastforce
  moreover have "cel_array nm (cel_value nm (Suc f)) (node_text (CelArray vs) @ rest) = Inr (rest, vs)"
  proof -
    have "cel_value nm (Suc f) (node_text v @ r) = Inr (r, v)" if "v \<in> set vs" for v r
      using CelArray that length_join_elem [of "node_text v" "map node_text vs" "[44]"]
      by (intro CelArray.IH) (auto simp: f)
    then have "list_spec (trim_whitespace nm (nom_char nm 44)) (cel_value nm (Suc f))
        (join [44] (map node_text vs) @ 93 # rest) = Inr (93 # rest, vs)"
      using closing_fails [OF D, of 93 f rest] delimiters(4) [of 93]
      by (intro list_text [OF D]) simp_all
    then show ?thesis
      using delimiters [of 91] delimiters [of 93]
      by (simp add: cel_array_def delimited_text [OF D] lists_eq(1) [OF D shrinks_cel_value [OF D]])
  qed
  ultimately show ?case
    using delimiters(4) [of 91] by (simp add: f cel_value.simps(2) trim_nospace [OF D] map_parser_def)
next
  case (CelObject n ps)
  then obtain f where f: "fuel = Suc (Suc f)" by (cases fuel; cases "fuel - 1") auto
  let ?t = "\<lambda>p. fst p @ 58 # node_text (snd p)"
  have kv: "key_value nm (cel_value nm (Suc f)) (?t p @ r) = Inr (r, p)" if p: "p \<in> set ps" for p r
  proof -
    have "cel_value nm (Suc f) (node_text (snd p) @ r) = Inr (r, snd p)" for r
      using CelObject.prems p length_join_elem [of "?t p" "map ?t ps" "[44]"]
      by (intro CelObject.IH [OF p]) (auto simp: f snds.simps)
    from key_value_text [where vp = "cel_value nm (Suc f)", OF D _ this, of "fst p"] CelObject.prems p
    show ?thesis by simp
  qed
  then have "list_spec (trim_whitespace nm (nom_char nm 44)) (key_value nm (cel_value nm (Suc f)))
      (join [44] (map ?t ps) @ 125 # rest) = Inr (125 # rest, ps)"
    using key_value_fails [OF D] delimiters(4) [of 125] by (intro list_text [OF D]) simp_all
  moreover have "ident nm (n @ 123 # r) = Inr (123 # r, n)" for r
    using ident_text [OF D, of n 123] CelObject.prems delimiters [of 123] by simp
  ultimately have "cel_object nm (cel_value nm (Suc f)) (node_text (CelObject n ps) @ rest)
      = Inr (rest, (n, ps))"
    using delimiters [of 123] delimiters [of 125] CelObject.prems
    by (simp add: cel_object_def delimited_text [OF D] collect_map_distinct
        lists_eq(2) [OF D shrinks_key_value [OF D shrinks_cel_value [OF D]]])
  then show ?case
    using name_head [of n 123] delimiters(4) [of 123] CelObject.prems
    by (simp add: f cel_value.simps(2) trim_nospace [OF D] map_parser_def)
next
  case (CelFunction n vs)
  then obtain f where f: "fuel = Suc (Suc f)" by (cases fuel; cases "fuel - 1") auto
  have "cel_value nm (Suc f) (node_text v @ r) = Inr (r, v)" if "v \<in> set vs" for v r
    using CelFunction that length_join_elem [of "node_text v" "map node_text vs" "[44]"]
    by (intro CelFunction.IH) (auto simp: f)
  then have "list_spec (trim_whitespace nm (nom_char nm 44)) (cel_value nm (Suc f))
      (join [44] (map node_text vs) @ 41 # rest) = Inr (41 # rest, vs)"
    using closing_fails [OF D, of 41 f rest] delimiters(4) [of 41]
    by (intro list_text [OF D]) simp_all
  moreover have "ident nm (n @ 40 # r) = Inr (40 # r, n)" for r
    using ident_text [OF D, of n 40] CelFunction.prems delimiters [of 40] by simp
  ultimately have "cel_function nm (cel_value nm (Suc f)) (node_text (CelFunction n vs) @ rest)
      = Inr (rest, (n, vs))"
    using delimiters [of 40] delimiters [of 41]
    by (simp add: cel_function_def delimited_text [OF D] lists_eq(1) [OF D shrinks_cel_value [OF D]]
       )
  moreover have "\<exists>e. cel_object nm (cel_value nm (Suc f)) (node_text (CelFunction n vs) @ rest)
      = Inl (Str_Error e)"
    using alternatives_fail(1) [OF D, of n 40] CelFunction.prems delimiters [of 40] by simp
  ultimately show ?case
    using name_head [of n 40] delimiters(4) [of 40] CelFunction.prems
    by (auto simp add: f cel_value.simps(2) trim_nospace [OF D] map_parser_def)
qed

subsection \<open>The value an expression is read as\<close>

definition strings_node :: "bytes list \<Rightarrow> cel_node" where
  "strings_node hs = CelArray (map CelString hs)"

definition request_node :: "request_certification \<Rightarrow> cel_node" where
  "request_node rc = CelObject (str_bytes ''RequestCertification'')
     [(str_bytes ''certified_request_headers'', strings_node (certified_request_headers rc)),
      (str_bytes ''certified_query_parameters'', strings_node (certified_query_parameters rc))]"

definition response_node :: "response_certification \<Rightarrow> cel_node" where
  "response_node c = CelObject (str_bytes ''ResponseCertification'')
     [(response_list_name c, CelObject (str_bytes ''ResponseHeaderList'')
        [(str_bytes ''headers'', strings_node (response_list c))])]"

fun args_node :: "default_cel_expr \<Rightarrow> bytes \<times> cel_node" where
  "args_node CelSkip = (str_bytes ''no_certification'', CelObject (str_bytes ''Empty'') [])"
| "args_node (CelResponseOnly c) =
     (str_bytes ''certification'', CelObject (str_bytes ''Certification'')
        [(str_bytes ''no_request_certification'', CelObject (str_bytes ''Empty'') []),
         (str_bytes ''response_certification'', response_node (only_response c))])"
| "args_node (CelFull c) =
     (str_bytes ''certification'', CelObject (str_bytes ''Certification'')
        [(str_bytes ''request_certification'', request_node (full_request c)),
         (str_bytes ''response_certification'', response_node (full_response c))])"

fun expr_node :: "cel_expression \<Rightarrow> cel_node" where
  "expr_node (CelDefault c) = CelFunction (str_bytes ''default_certification'')
     [CelObject (str_bytes ''ValidationArgs'') [args_node c]]"

definition request_names_ok :: "request_certification \<Rightarrow> bool" where
  "request_names_ok rc \<longleftrightarrow> list_all str_ok (certified_request_headers rc) \<and>
     list_all str_ok (certified_query_parameters rc)"

definition response_names_ok :: "response_certification \<Rightarrow> bool" where
  "response_names_ok c \<longleftrightarrow> list_all str_ok (response_list c)"

fun expr_ok :: "cel_expression \<Rightarrow> bool" where
  "expr_ok (CelDefault CelSkip) = True"
| "expr_ok (CelDefault (CelResponseOnly c)) = response_names_ok (only_response c)"
| "expr_ok (CelDefault (CelFull c)) = (request_names_ok (full_request c) \<and> response_names_ok (full_response c))"

lemma quoted_list_text: "quoted_list hs = join [44] (map node_text (map CelString hs))"
proof (cases hs)
  case (Cons h hs')
  have "34 # join [34, 44, 34] (h # hs') @ [34] = join [44] (map (\<lambda>s. 34 # s @ [34]) (h # hs'))"
    by (induction hs' arbitrary: h) auto
  with Cons show ?thesis by (simp add: quoted_list_def quote_def comp_def)
qed (simp add: quoted_list_def)

lemma create_request_text:
  "create_request_cel_expr rc =
     str_bytes ''request_certification'' @ 58 # node_text (request_node rc) @ [44]"
  by (simp add: create_request_cel_expr_def request_node_def strings_node_def quoted_list_text
      str_bytes_def)

lemma create_response_text:
  "create_response_cel_expr c = str_bytes ''response_certification'' @ 58 # node_text (response_node c)"
  by (simp add: create_response_cel_expr_def response_node_def strings_node_def quoted_list_text
      str_bytes_def)

lemma create_cel_expr_text: "create_cel_expr c = node_text (expr_node c)"
proof (cases c)
  case (CelDefault d)
  then show ?thesis
    by (cases d) (simp_all add: create_default_skip_cel_expr_def create_default_response_only_cel_expr_def
        create_default_full_cel_expr_def create_request_text create_response_text str_bytes_def)
qed

lemma response_list_name_ok: "name_ok (response_list_name c)"
  by (cases c) (simp_all add: response_list_name_def name_ok_def str_bytes_def ascii_alphanumeric_def)

lemma strings_node_ok: "node_ok (strings_node hs) \<longleftrightarrow> list_all str_ok hs"
  by (auto simp: strings_node_def list_all_iff)

lemma literal_names_ok:
  "name_ok (str_bytes ''RequestCertification'')" "name_ok (str_bytes ''certified_request_headers'')"
  "name_ok (str_bytes ''certified_query_parameters'')" "name_ok (str_bytes ''ResponseCertification'')"
  "name_ok (str_bytes ''ResponseHeaderList'')" "name_ok (str_bytes ''headers'')"
  "name_ok (str_bytes ''no_certification'')" "name_ok (str_bytes ''Empty'')"
  "name_ok (str_bytes ''certification'')" "name_ok (str_bytes ''Certification'')"
  "name_ok (str_bytes ''no_request_certification'')" "name_ok (str_bytes ''response_certification'')"
  "name_ok (str_bytes ''request_certification'')" "name_ok (str_bytes ''ValidationArgs'')"
  "name_ok (str_bytes ''default_certification'')"
  by (simp_all add: name_ok_def str_bytes_def ascii_alphanumeric_def)

lemma expr_node_ok: "expr_ok c \<Longrightarrow> node_ok (expr_node c)"
  by (cases c rule: expr_ok.cases)
    (auto simp: request_node_def response_node_def request_names_ok_def response_names_ok_def strings_node_ok
      literal_names_ok response_list_name_ok)

lemma validate_strings: "validate_string_array (strings_node hs) name = Inr hs"
proof -
  have "string_nodes cel name (map CelString hs) = Inr hs" for cel by (induction hs) simp_all
  then show ?thesis by (simp add: strings_node_def)
qed

lemma validate_response_node:
  assumes "map_of m (str_bytes ''response_certification'') = Some (response_node c)"
  shows "validate_response_certification m = Inr c"
  using assms
  by (cases c) (simp_all add: validate_response_certification_def response_node_def
      response_certification_headers_def response_list_name_def response_list_def validate_strings)

lemma map_expr_node: "map_cel_ast (expr_node c) = Inr c"
  by (cases c rule: expr_ok.cases)
    (simp_all add: map_cel_ast_def slice_first_def validate_request_certification_def
      validate_response_node request_node_def validate_strings request_certification_new_def)

subsection \<open>Failures\<close>

text \<open>A parse that fails after its opening delimiter fails as a whole.\<close>

definition fails :: "('e, 'a) str_parser \<Rightarrow> bytes \<Rightarrow> bool" where
  "fails p i \<longleftrightarrow> (\<exists>e. p i = Inl (Str_Failure e))"

lemma failsI: "p i = Inl (Str_Failure e) \<Longrightarrow> fails p i"
  by (auto simp: fails_def)

lemma list_spec_fails:
  assumes "fails p i"
  shows "fails (list_spec sep p) i"
  using assms by (auto simp: fails_def list_spec_def)

lemma list_spec_fails_second:
  assumes D: "cel_lib_documented nm" and "p (t @ 44 # i) = Inr (44 # i, v)" and "fails p i"
  shows "fails (list_spec (trim_whitespace nm (nom_char nm 44)) p) (t @ 44 # i)"
  using assms(2,3)
  by (auto simp: fails_def list_spec_def trim_nospace [OF D] doc_char [OF D] is_space_def)

lemma delimited_body_fails:
  assumes D: "cel_lib_documented nm" and "c \<le> 0x7F" "\<not> is_space c" and "fails p i"
  shows "fails (drop_separators nm c d p) (c # i)"
  using assms by (auto simp: fails_def drop_separators_def trim_nospace [OF D] doc_char [OF D])

lemma array_fails:
  assumes D: "cel_lib_documented nm" and "fails (cel_value nm f) i"
  shows "fails (cel_value nm (Suc f)) (91 # i)"
proof -
  have "fails (cel_array nm (cel_value nm f)) (91 # i)"
    unfolding cel_array_def lists_eq(1) [OF D shrinks_cel_value [OF D]]
    using delimiters(1,4) [of 91] by (intro delimited_body_fails [OF D] list_spec_fails assms) simp_all
  with alternatives_fail(1,2) [OF D name_ok_Nil, of 91 "cel_value nm f" i] delimiters [of 91]
  show ?thesis
    by (auto simp: fails_def cel_value.simps(2) trim_nospace [OF D] map_parser_def)
qed

lemma object_fails:
  assumes D: "cel_lib_documented nm" and n: "name_ok n"
    and "fails (list_spec (trim_whitespace nm (nom_char nm 44)) (key_value nm (cel_value nm f))) i"
  shows "fails (cel_value nm (Suc f)) (n @ 123 # i)"
proof -
  have "ident nm (n @ 123 # i) = Inr (123 # i, n)"
    using ident_text [OF D n, of 123] delimiters [of 123] by simp
  moreover obtain e where
    "list_spec (trim_whitespace nm (nom_char nm 44)) (key_value nm (cel_value nm f)) i = Inl (Str_Failure e)"
    using assms(3) by (auto simp: fails_def)
  ultimately have "cel_object nm (cel_value nm f) (n @ 123 # i) = Inl (Str_Failure e)"
    using delimiters(1,4) [of 123]
    by (simp add: cel_object_def drop_separators_def trim_nospace [OF D] doc_char [OF D]
        lists_eq(2) [OF D shrinks_key_value [OF D shrinks_cel_value [OF D]]])
  with name_head [OF n, of 123 i] delimiters(4) [of 123] show ?thesis
    by (simp add: fails_def cel_value.simps(2) trim_nospace [OF D] map_parser_def)
qed

lemma function_fails:
  assumes D: "cel_lib_documented nm" and n: "name_ok n" and "fails (cel_value nm f) i"
  shows "fails (cel_value nm (Suc f)) (n @ 40 # i)"
proof -
  have "ident nm (n @ 40 # i) = Inr (40 # i, n)"
    using ident_text [OF D n, of 40] delimiters [of 40] by simp
  moreover obtain e where
    "list_spec (trim_whitespace nm (nom_char nm 44)) (cel_value nm f) i = Inl (Str_Failure e)"
    using list_spec_fails [OF assms(3)] by (auto simp: fails_def)
  ultimately have "cel_function nm (cel_value nm f) (n @ 40 # i) = Inl (Str_Failure e)"
    using delimiters(1,4) [of 40]
    by (simp add: cel_function_def drop_separators_def trim_nospace [OF D] doc_char [OF D]
        lists_eq(1) [OF D shrinks_cel_value [OF D]])
  with alternatives_fail(1) [OF D n, of 40 "cel_value nm f" i] delimiters [of 40]
    name_head [OF n, of 40 i] show ?thesis
    by (auto simp: fails_def cel_value.simps(2) trim_nospace [OF D] map_parser_def)
qed

lemma key_value_value_fails:
  assumes D: "cel_lib_documented nm" and k: "name_ok k" and "fails vp i"
  shows "fails (key_value nm vp) (k @ 58 # i)"
proof -
  have "trim_whitespace nm (ident nm) (k @ 58 # i) = Inr (58 # i, k)"
    using ident_text [OF D k, of 58] delimiters [of 58] name_head [OF k, of 58]
    by (subst trim_nospace [OF D]) auto
  with assms(3) show ?thesis
    using delimiters(1,4) [of 58]
    by (auto simp: fails_def key_value_def trim_nospace [OF D] doc_char [OF D])
qed

lemma underscore_fails:
  assumes D: "cel_lib_documented nm" and s: "str_ok s"
  shows "fails (cel_value nm (Suc f)) (34 # s @ 95 # i)"
proof -
  have 1: "\<forall>b \<in> set s. b \<le> 0x7F \<and> str_char nm (unat b)"
    using s alphanumeric_ascii by (auto simp: str_ok_def str_char_def doc_leaves [OF D])
  have 2: "95 # i = [] \<or> hd (95 # i) \<le> (0x7F :: byte) \<and> \<not> str_char nm (unat (hd (95 # i)))"
    by (simp add: str_char_def doc_leaves [OF D] ascii_alphanumeric_def)
  have "chars_while (str_char nm) (s @ 95 # i) \<noteq> []"
    using s by (simp add: chars_while_ascii [OF 1 2] str_ok_def)
  then have "parse_str nm (s @ 95 # i) =
      Inr (chars_rest (str_char nm) (s @ 95 # i), chars_while (str_char nm) (s @ 95 # i))"
    unfolding parse_str_def by (rule doc_escaped [OF D]) (simp add: chars_rest_ascii [OF 1 2])
  then have "parse_str nm (s @ 95 # i) = Inr (95 # i, s)"
    by (simp add: chars_rest_ascii [OF 1 2] chars_while_ascii [OF 1 2])
  moreover obtain e where "nom_char nm 34 (95 # i) = Inl (Str_Error e)"
    using doc_char(2) [OF D, of "95 # i" 34] by auto
  ultimately have "cel_string nm (34 # s @ 95 # i) = Inl (Str_Failure e)"
    using delimiters(1,4) [of 34]
    by (simp add: cel_string_def drop_separators_def trim_nospace [OF D] doc_char [OF D] is_space_def)
  with alternatives_fail(1-3) [OF D name_ok_Nil, of 34 "cel_value nm f" "s @ 95 # i"] delimiters [of 34]
  show ?thesis
    by (auto simp: fails_def cel_value.simps(2) trim_nospace [OF D] map_parser_def)
qed

subsection \<open>Properties\<close>

lemma cel_expr_parsed:
  assumes "cel_lib_documented nm" and "expr_ok c"
  shows "and_then (parse_cel_expression nm (create_cel_expr c)) map_cel_ast = Inr c"
proof -
  have "cel_value nm (Suc (length (node_text (expr_node c)))) (node_text (expr_node c) @ [])
      = Inr ([], expr_node c)"
    by (rule parse_node_text [OF assms(1) expr_node_ok [OF assms(2)]]) simp
  then show ?thesis
    by (simp add: parse_cel_expression_def create_cel_expr_text map_expr_node)
qed

text \<open>C25: an expression definition whose header and parameter names are ASCII letters, digits and
  dashes is read back, by the CEL parser and the AST mapping of the verifier, from the text that
  the canister library writes into the expression header.\<close>

theorem cel_expr_roundtrip:
  assumes "cel_lib_documented nm" and "expr_ok c"
  shows "and_then (parse_cel_expression nm (create_cel_expr c)) map_cel_ast = Inr c"
  by (rule cel_expr_parsed [OF assms])

theorem cel_expr_roundtrip_witness:
  "and_then (parse_cel_expression cel_ref (create_cel_expr (CelDefault (CelFull
      (full_build (with_request_query_parameters (with_request_headers full_certification
        [str_bytes ''Accept-Encoding'', str_bytes ''Host'']) [str_bytes ''foo''])))))) map_cel_ast
    = Inr (CelDefault (CelFull
      \<lparr>full_request = \<lparr>certified_request_headers = [str_bytes ''Accept-Encoding'', str_bytes ''Host''],
         certified_query_parameters = [str_bytes ''foo'']\<rparr>,
       full_response = CertifiedResponseHeaders []\<rparr>))"
proof -
  let ?c = "CelDefault (CelFull (full_build (with_request_query_parameters
    (with_request_headers full_certification
      [str_bytes ''Accept-Encoding'', str_bytes ''Host'']) [str_bytes ''foo''])))"
  have ok: "expr_ok ?c"
    by (simp add: full_build_def with_request_query_parameters_def with_request_headers_def
        full_certification_def response_certification_default_def request_certification_new_def
        request_names_ok_def response_names_ok_def response_list_def str_ok_def str_bytes_def ascii_alphanumeric_def)
  show ?thesis
    using cel_expr_roundtrip [OF cel_ref_documented ok]
    by (simp add: full_build_def with_request_query_parameters_def with_request_headers_def
        full_certification_def response_certification_default_def request_certification_new_def)
qed

text \<open>C37: an expression that certifies a query parameter with an underscore in its name is not read
  back: the parser of the verifier rejects the text that the canister library writes for it, so
  every response certified with it fails verification.\<close>

theorem cel_underscore_rejected:
  assumes D: "cel_lib_documented nm" and s: "str_ok s"
  shows "\<exists>e. parse_cel_expression nm (create_cel_expr (CelDefault (CelFull
      \<lparr>full_request = \<lparr>certified_request_headers = [], certified_query_parameters = [s @ 95 # t]\<rparr>,
       full_response = c\<rparr>))) = Inl e"
proof -
  define rest where "rest = t @ 34 # str_bytes '']},'' @ create_response_cel_expr c @ str_bytes ''}})''"
  let ?hs = "str_bytes ''certified_request_headers''"
  let ?qs = "str_bytes ''certified_query_parameters'' @ 58 # 91 # 34 # s @ 95 # rest"
  let ?rc = "str_bytes ''RequestCertification'' @ 123 # (?hs @ 58 # node_text (strings_node [])) @ 44 # ?qs"
  let ?c = "str_bytes ''Certification'' @ 123 # str_bytes ''request_certification'' @ 58 # ?rc"
  let ?i = "str_bytes ''default_certification'' @ 40 # str_bytes ''ValidationArgs'' @ 123 #
      str_bytes ''certification'' @ 58 # ?c"
  have i: "create_cel_expr (CelDefault (CelFull
      \<lparr>full_request = \<lparr>certified_request_headers = [], certified_query_parameters = [s @ 95 # t]\<rparr>,
       full_response = c\<rparr>)) = ?i"
    by (simp add: create_default_full_cel_expr_def create_request_cel_expr_def quoted_list_def quote_def
        strings_node_def rest_def str_bytes_def)
  obtain f where f: "length ?i = Suc (Suc (Suc (Suc (Suc f))))"
    by (rule that [of "length ?i - 5"]) simp
  have kv: "key_value nm (cel_value nm (Suc (Suc f))) ((?hs @ 58 # node_text (strings_node [])) @ 44 # ?qs)
      = Inr (44 # ?qs, (?hs, strings_node []))"
    by (intro key_value_text [OF D] parse_node_text [OF D] literal_names_ok)
      (simp_all add: strings_node_def)
  have "fails (cel_value nm (Suc (Suc f))) (91 # 34 # s @ 95 # rest)"
    by (intro array_fails [OF D] underscore_fails [OF D] s)
  then have "fails (key_value nm (cel_value nm (Suc (Suc f)))) ?qs"
    by (intro key_value_value_fails [OF D] literal_names_ok)
  from list_spec_fails_second [OF D kv this]
  have "fails (cel_value nm (Suc (Suc (Suc f)))) ?rc"
    by (intro object_fails [OF D] literal_names_ok)
  then have "fails (cel_value nm (Suc (Suc (Suc (Suc f))))) ?c"
    by (rule object_fails [OF D literal_names_ok(10) list_spec_fails
          [OF key_value_value_fails [OF D literal_names_ok(13)]]])
  then have "fails (cel_value nm (Suc (Suc (Suc (Suc (Suc (Suc f))))))) ?i"
    by (rule function_fails [OF D literal_names_ok(15) object_fails [OF D literal_names_ok(14)
          list_spec_fails [OF key_value_value_fails [OF D literal_names_ok(9)]]]])
  then show ?thesis
    unfolding i parse_cel_expression_def f by (auto simp: fails_def)
qed

theorem cel_underscore_rejected_witness:
  "\<exists>e. parse_cel_expression cel_ref (create_cel_expr (CelDefault (CelFull
      \<lparr>full_request = \<lparr>certified_request_headers = [],
         certified_query_parameters = [str_bytes ''page'' @ 95 # str_bytes ''size'']\<rparr>,
       full_response = CertifiedResponseHeaders []\<rparr>))) = Inl e"
  by (rule cel_underscore_rejected [OF cel_ref_documented])
    (simp add: str_ok_def str_bytes_def ascii_alphanumeric_def)

end
