(* ===== verification/Http_Hash.thy ===== *)
theory Http_Hash
  imports Http_Types Cel_Expr Rep_Indep_Hash
begin

text \<open>
  The request and response hashes of \<^verbatim>\<open>packages/ic-http-certification/src/hash\<close>: the filters that
  select what an expression certifies, and the hashes over the selected parts. The lemmas show that
  a hash determines the certified parts and nothing else.
\<close>

subsection \<open>Requests\<close>

definition get_filtered_headers ::
  "header_field list \<Rightarrow> request_certification \<Rightarrow> (bytes \<times> rih_value) list" where
  "get_filtered_headers headers rc =
     map (\<lambda>(header_name, header_value). (to_ascii_lowercase header_name, VString header_value))
       (filter (\<lambda>(header_name, _). list_ex (\<lambda>header_to_include.
            eq_ignore_ascii_case header_to_include header_name) (certified_request_headers rc)) headers)"

text \<open>\<^verbatim>\<open>&\<close> is byte 38, \<^verbatim>\<open>=\<close> is byte 61; the name of a fragment is what stands before its first \<^verbatim>\<open>=\<close>.\<close>

definition query_param_name :: "bytes \<Rightarrow> bytes option" where
  "query_param_name query_fragment = slice_last (take 1 (split_on 61 query_fragment))"

definition get_filtered_query :: "bytes \<Rightarrow> request_certification \<Rightarrow> bytes option" where
  "get_filtered_query query rc =
     (let filtered = filter (\<lambda>query_fragment.
            case query_param_name query_fragment of
              None \<Rightarrow> False
            | Some name \<Rightarrow> list_ex (\<lambda>query_param_to_include.
                eq_ignore_ascii_case query_param_to_include name) (certified_query_parameters rc))
          (split_on 38 query)
      in if filtered = [] then None else Some (join [38] filtered))"

definition request_pairs ::
  "header_field list \<Rightarrow> bytes \<Rightarrow> bytes option \<Rightarrow> request_certification \<Rightarrow> (bytes \<times> rih_value) list" where
  "request_pairs headers method filtered_query rc =
     get_filtered_headers headers rc @ [(str_bytes '':ic-cert-method'', VString method)] @
     (case filtered_query of
        None \<Rightarrow> []
      | Some query \<Rightarrow> [(str_bytes '':ic-cert-query'', VString query)])"

definition request_hash ::
  "(bytes \<Rightarrow> hash) \<Rightarrow> (64 word \<Rightarrow> bytes) \<Rightarrow> http_lib \<Rightarrow> http_request \<Rightarrow> request_certification \<Rightarrow>
     http_error + hash" where
  "request_hash H leb lib request rc =
     and_then (get_query lib request) (\<lambda>query.
       let filtered_query = Option.bind query (\<lambda>query. get_filtered_query query rc);
           pairs = request_pairs (req_headers request) (req_method request) filtered_query rc
       in Inr (sha_hash H
            (representation_independent_hash H leb pairs @ sha_hash H (req_body request))))"

subsection \<open>Responses\<close>

definition CERTIFICATE_HEADER_NAME :: bytes where
  "CERTIFICATE_HEADER_NAME = str_bytes ''IC-Certificate''"

definition CERTIFICATE_EXPRESSION_HEADER_NAME :: bytes where
  "CERTIFICATE_EXPRESSION_HEADER_NAME = str_bytes ''IC-CertificateExpression''"

definition RESPONSE_STATUS_PSEUDO_HEADER_NAME :: bytes where
  "RESPONSE_STATUS_PSEUDO_HEADER_NAME = str_bytes '':ic-cert-status''"

record response_headers =
  rh_headers :: "header_field list"
  rh_certificate :: "bytes option"

fun headers_filter :: "response_certification \<Rightarrow> bytes \<Rightarrow> bool" where
  "headers_filter (CertifiedResponseHeaders headers_to_include) header_name =
     list_ex (\<lambda>h. eq_ignore_ascii_case h header_name) headers_to_include"
| "headers_filter (ResponseHeaderExclusions headers_to_exclude) header_name =
     (\<not> list_ex (\<lambda>h. eq_ignore_ascii_case h header_name) headers_to_exclude)"

fun filter_header ::
  "response_certification \<Rightarrow> response_headers \<Rightarrow> header_field \<Rightarrow> response_headers" where
  "filter_header rc acc (header_name, header_value) =
     (if eq_ignore_ascii_case header_name CERTIFICATE_HEADER_NAME
      then acc\<lparr>rh_certificate := Some header_value\<rparr>
      else if eq_ignore_ascii_case header_name CERTIFICATE_EXPRESSION_HEADER_NAME
      then acc\<lparr>rh_headers := rh_headers acc @ [(to_ascii_lowercase header_name, header_value)]\<rparr>
      else if headers_filter rc header_name
      then acc\<lparr>rh_headers := rh_headers acc @ [(to_ascii_lowercase header_name, header_value)]\<rparr>
      else acc)"

definition filter_response_headers ::
  "http_response \<Rightarrow> response_certification \<Rightarrow> response_headers" where
  "filter_response_headers response rc =
     foldl (filter_header rc) \<lparr>rh_headers = [], rh_certificate = None\<rparr> (resp_headers response)"

definition response_pairs :: "64 word \<Rightarrow> response_headers \<Rightarrow> (bytes \<times> rih_value) list" where
  "response_pairs status_code rh =
     map (\<lambda>(header_name, header_value). (header_name, VString header_value)) (rh_headers rh) @
     [(RESPONSE_STATUS_PSEUDO_HEADER_NAME, VNumber status_code)]"

definition response_headers_hash ::
  "(bytes \<Rightarrow> hash) \<Rightarrow> (64 word \<Rightarrow> bytes) \<Rightarrow> 64 word \<Rightarrow> response_headers \<Rightarrow> hash" where
  "response_headers_hash H leb status_code rh =
     representation_independent_hash H leb (response_pairs status_code rh)"

definition response_hash ::
  "(bytes \<Rightarrow> hash) \<Rightarrow> (64 word \<Rightarrow> bytes) \<Rightarrow> http_response \<Rightarrow> response_certification \<Rightarrow> hash option \<Rightarrow>
     hash" where
  "response_hash H leb response rc response_body_hash =
     (let response_body_hash = (case response_body_hash of Some h \<Rightarrow> h | None \<Rightarrow> sha_hash H (resp_body response));
          filtered_headers = filter_response_headers response rc
      in sha_hash H (response_headers_hash H leb (ucast (resp_status response)) filtered_headers @
           response_body_hash))"

subsection \<open>The filters\<close>

text \<open>The certified headers: every header but the certificate that is the expression header or
  passes the filter, with its name in lower case.\<close>

definition certifies :: "response_certification \<Rightarrow> bytes \<Rightarrow> bool" where
  "certifies rc n \<longleftrightarrow> \<not> eq_ignore_ascii_case n CERTIFICATE_HEADER_NAME \<and>
     (eq_ignore_ascii_case n CERTIFICATE_EXPRESSION_HEADER_NAME \<or> headers_filter rc n)"

definition certified_headers :: "response_certification \<Rightarrow> header_field list \<Rightarrow> header_field list" where
  "certified_headers rc hs =
     map (\<lambda>(n, v). (to_ascii_lowercase n, v)) (filter (\<lambda>(n, v). certifies rc n) hs)"

lemma filter_headers_fold:
  "rh_headers (foldl (filter_header rc) acc hs) = rh_headers acc @ certified_headers rc hs"
proof (induction hs arbitrary: acc)
  case (Cons p hs)
  obtain n v where "p = (n, v)" by (cases p)
  with Cons show ?case by (simp add: certified_headers_def certifies_def)
qed (simp add: certified_headers_def)

lemma filter_certificate_fold:
  "rh_certificate (foldl (filter_header rc) acc hs) =
     (case filter (\<lambda>p. eq_ignore_ascii_case (fst p) CERTIFICATE_HEADER_NAME) hs of
        [] \<Rightarrow> rh_certificate acc | p # ps \<Rightarrow> Some (snd (last (p # ps))))"
proof (induction hs arbitrary: acc)
  case (Cons p hs)
  obtain n v where "p = (n, v)" by (cases p)
  with Cons show ?case by (auto split: list.splits)
qed simp

lemma filter_response_headers_spec:
  "rh_headers (filter_response_headers r rc) = certified_headers rc (resp_headers r)"
  by (simp add: filter_response_headers_def filter_headers_fold)

lemma filter_response_certificate:
  "rh_certificate (filter_response_headers r rc) =
     (case filter (\<lambda>p. eq_ignore_ascii_case (fst p) CERTIFICATE_HEADER_NAME) (resp_headers r) of
        [] \<Rightarrow> None | p # ps \<Rightarrow> Some (snd (last (p # ps))))"
  by (simp add: filter_response_headers_def filter_certificate_fold split: list.split)

subsection \<open>Binding\<close>

text \<open>What is hashed for a value that is not an array.\<close>

fun flat_input :: "(64 word \<Rightarrow> bytes) \<Rightarrow> rih_value \<Rightarrow> bytes" where
  "flat_input leb (VString v) = v"
| "flat_input leb (VBytes v) = v"
| "flat_input leb (VNumber n) = leb n"
| "flat_input leb (VArray es) = []"

fun is_flat :: "rih_value \<Rightarrow> bool" where
  "is_flat (VArray _) = False"
| "is_flat _ = True"

lemma hash_flat: "is_flat v \<Longrightarrow> hash_value H leb v = H (flat_input leb v)"
  by (cases v) (simp_all add: sha_hash_def)

definition map_inputs ::
  "(bytes \<Rightarrow> hash) \<Rightarrow> (64 word \<Rightarrow> bytes) \<Rightarrow> (bytes \<times> rih_value) list \<Rightarrow> bytes set" where
  "map_inputs H leb m =
     {rih_input H leb m} \<union> fst ` set m \<union> (\<lambda>p. flat_input leb (snd p)) ` set m"

definition flat_entries :: "(64 word \<Rightarrow> bytes) \<Rightarrow> (bytes \<times> rih_value) list \<Rightarrow> (bytes \<times> bytes) list" where
  "flat_entries leb m = map (\<lambda>(k, v). (k, flat_input leb v)) m"

lemma flat_hashes:
  "\<forall>p \<in> set m. is_flat (snd p) \<Longrightarrow>
     map (\<lambda>(k, v). (k, hash_value H leb v)) m = map (\<lambda>(k, y). (k, H y)) (flat_entries leb m)"
  by (induction m) (auto simp: flat_entries_def hash_flat)

lemma rih_flat_binding:
  assumes H: "hash32 H" and flat: "\<forall>p \<in> set m \<union> set m'. is_flat (snd p)"
    and inj: "inj_on H (map_inputs H leb m \<union> map_inputs H leb m')"
  shows "representation_independent_hash H leb m = representation_independent_hash H leb m' \<longleftrightarrow>
         mset (flat_entries leb m) = mset (flat_entries leb m')"
proof -
  let ?g = "\<lambda>(k, v). (k, hash_value H leb v)" and ?h = "\<lambda>(k :: bytes, y). (k, H y)"
  have h: "map ?g m = map ?h (flat_entries leb m)" "map ?g m' = map ?h (flat_entries leb m')"
    using flat by (simp_all add: flat_hashes)
  show ?thesis
  proof
    assume "representation_independent_hash H leb m = representation_independent_hash H leb m'"
    moreover have "inj_on H ({rih_input H leb m, rih_input H leb m'} \<union> fst ` set m \<union> fst ` set m')"
      by (rule inj_on_subset [OF inj]) (auto simp: map_inputs_def)
    ultimately have "mset (map ?g m) = mset (map ?g m')" by (intro rih_binding [OF H])
    then have "image_mset ?h (mset (flat_entries leb m)) = image_mset ?h (mset (flat_entries leb m'))"
      by (simp add: h)
    then show "mset (flat_entries leb m) = mset (flat_entries leb m')"
    proof (rule image_mset_inj)
      show "inj_on ?h (set_mset (mset (flat_entries leb m)) \<union> set_mset (mset (flat_entries leb m')))"
      proof (rule inj_onI)
        fix p q
        assume pq: "p \<in> set_mset (mset (flat_entries leb m)) \<union> set_mset (mset (flat_entries leb m'))"
          "q \<in> set_mset (mset (flat_entries leb m)) \<union> set_mset (mset (flat_entries leb m'))"
          and eq: "?h p = ?h q"
        from pq have "snd p \<in> map_inputs H leb m \<union> map_inputs H leb m'"
          "snd q \<in> map_inputs H leb m \<union> map_inputs H leb m'"
          by (force simp: map_inputs_def flat_entries_def)+
        with eq inj_onD [OF inj, of "snd p" "snd q"] show "p = q"
          by (auto simp: case_prod_unfold prod_eq_iff)
      qed
    qed
  next
    assume "mset (flat_entries leb m) = mset (flat_entries leb m')"
    then have "mset (map ?g m) = mset (map ?g m')" unfolding h by simp
    then show "representation_independent_hash H leb m = representation_independent_hash H leb m'"
      by (rule rih_same_entries)
  qed
qed

lemma mset_pseudo:
  assumes eq: "mset (xs @ [(s, a)]) = mset (ys @ [(s, b)])" and "s \<notin> fst ` set xs"
  shows "a = b \<and> mset xs = mset ys"
proof -
  have "filter (\<lambda>p. fst p = s) xs = []" using assms(2) by (force simp: filter_empty_conv)
  moreover have "mset (filter (\<lambda>p. fst p = s) (xs @ [(s, a)])) = mset (filter (\<lambda>p. fst p = s) (ys @ [(s, b)]))"
    using eq by (metis mset_filter)
  ultimately have "{#(s, a)#} = mset (filter (\<lambda>p. fst p = s) ys) + {#(s, b)#}" by simp
  then have "a = b" by (metis add_mset_eq_single add_mset_add_single prod.inject)
  with eq show ?thesis by simp
qed

lemma two_hashes:
  assumes "hash32 H" and "inj_on H {H a @ H b, H a' @ H b'}"
  shows "H (H a @ H b) = H (H a' @ H b') \<longleftrightarrow> H a = H a' \<and> H b = H b'"
proof
  assume "H (H a @ H b) = H (H a' @ H b')"
  then have "H a @ H b = H a' @ H b'" using inj_onD [OF assms(2)] by blast
  moreover from assms(1) have "length (H a) = length (H a')" by simp
  ultimately show "H a = H a' \<and> H b = H b'" by (metis append_eq_append_conv)
qed simp

text \<open>The inputs of the hash function for a map and a body.\<close>

definition pair_inputs ::
  "(bytes \<Rightarrow> hash) \<Rightarrow> (64 word \<Rightarrow> bytes) \<Rightarrow> (bytes \<times> rih_value) list \<Rightarrow> bytes \<Rightarrow> bytes set" where
  "pair_inputs H leb m body =
     {representation_independent_hash H leb m @ sha_hash H body, body} \<union> map_inputs H leb m"

lemma finite_pair_inputs [simp]: "finite (pair_inputs H leb m body)"
  by (simp add: pair_inputs_def map_inputs_def)

lemma pair_hash_binding:
  assumes H: "hash32 H" and flat: "\<forall>p \<in> set m \<union> set m'. is_flat (snd p)"
    and inj: "inj_on H (pair_inputs H leb m b \<union> pair_inputs H leb m' b')"
  shows "sha_hash H (representation_independent_hash H leb m @ sha_hash H b) =
         sha_hash H (representation_independent_hash H leb m' @ sha_hash H b') \<longleftrightarrow>
         mset (flat_entries leb m) = mset (flat_entries leb m') \<and> b = b'"
proof -
  have "sha_hash H (representation_independent_hash H leb m @ sha_hash H b) =
        sha_hash H (representation_independent_hash H leb m' @ sha_hash H b') \<longleftrightarrow>
        representation_independent_hash H leb m = representation_independent_hash H leb m' \<and> H b = H b'"
    unfolding sha_hash_def representation_independent_hash_def
    by (intro two_hashes [OF H] inj_on_subset [OF inj])
      (auto simp: pair_inputs_def representation_independent_hash_def sha_hash_def)
  moreover have "H b = H b' \<longleftrightarrow> b = b'"
    using inj_onD [OF inj, of b b'] by (auto simp: pair_inputs_def)
  moreover have "inj_on H (map_inputs H leb m \<union> map_inputs H leb m')"
    by (rule inj_on_subset [OF inj]) (auto simp: pair_inputs_def)
  ultimately show ?thesis using rih_flat_binding [OF H flat] by blast
qed

lemma inj_ucast_status: "inj (ucast :: 16 word \<Rightarrow> 64 word)"
proof (rule inj_on_inverseI)
  show "ucast (ucast x :: 64 word) = x" for x :: "16 word"
    by (rule bit_word_eqI) (simp add: bit_simps)
qed

definition response_inputs ::
  "(bytes \<Rightarrow> hash) \<Rightarrow> (64 word \<Rightarrow> bytes) \<Rightarrow> http_response \<Rightarrow> response_certification \<Rightarrow> bytes set" where
  "response_inputs H leb r rc =
     pair_inputs H leb (response_pairs (ucast (resp_status r)) (filter_response_headers r rc)) (resp_body r)"

lemma response_hash_iff:
  assumes H: "hash32 H"
    and leb: "inj_on leb {ucast (resp_status r), ucast (resp_status r')}"
    and inj: "inj_on H (response_inputs H leb r rc \<union> response_inputs H leb r' rc)"
    and names: "RESPONSE_STATUS_PSEUDO_HEADER_NAME \<notin> fst ` set (certified_headers rc (resp_headers r))"
  shows "response_hash H leb r rc None = response_hash H leb r' rc None \<longleftrightarrow>
         resp_status r = resp_status r' \<and> resp_body r = resp_body r' \<and>
         mset (certified_headers rc (resp_headers r)) = mset (certified_headers rc (resp_headers r'))"
proof -
  let ?pairs = "\<lambda>r. response_pairs (ucast (resp_status r)) (filter_response_headers r rc)"
  let ?flat = "\<lambda>r. certified_headers rc (resp_headers r) @
      [(RESPONSE_STATUS_PSEUDO_HEADER_NAME, leb (ucast (resp_status r)))]"
  have flat: "flat_entries leb (?pairs r) = ?flat r" for r
    by (simp add: flat_entries_def response_pairs_def filter_response_headers_spec case_prod_unfold
        comp_def)
  have "mset (?flat r) = mset (?flat r') \<longleftrightarrow> resp_status r = resp_status r' \<and>
      mset (certified_headers rc (resp_headers r)) = mset (certified_headers rc (resp_headers r'))"
    using mset_pseudo [OF _ names]
      inj_onD [OF leb, of "ucast (resp_status r)" "ucast (resp_status r')"] injD [OF inj_ucast_status]
    by auto
  moreover have "\<forall>p \<in> set (?pairs r) \<union> set (?pairs r'). is_flat (snd p)"
    by (auto simp: response_pairs_def)
  ultimately show ?thesis
    using pair_hash_binding [OF H _ inj [unfolded response_inputs_def]]
    by (auto simp: response_hash_def response_headers_hash_def Let_def flat simp del: mset_append)
qed

text \<open>C14: the response hash of an expression binds the status, the certified headers (as a multiset,
  with names in lower case) and the body of a response, and depends on nothing else: two responses
  have the same hash exactly when they agree on those, for a hash function of 32 bytes without a
  collision among the inputs, when no certified header of the first response has the name of the
  status pseudo header.\<close>

theorem response_hash_binds:
  assumes H: "hash32 H"
    and leb: "inj_on leb {ucast (resp_status r), ucast (resp_status r')}"
    and inj: "inj_on H (response_inputs H leb r rc \<union> response_inputs H leb r' rc)"
    and names: "RESPONSE_STATUS_PSEUDO_HEADER_NAME \<notin> fst ` set (certified_headers rc (resp_headers r))"
  shows "response_hash H leb r rc None = response_hash H leb r' rc None \<longleftrightarrow>
         resp_status r = resp_status r' \<and> resp_body r = resp_body r' \<and>
         mset (certified_headers rc (resp_headers r)) = mset (certified_headers rc (resp_headers r'))"
  by (rule response_hash_iff [OF assms])

text \<open>The instance compares two responses that differ in the case of a certified header and in a
  header that is not certified, and two that differ in the body.\<close>

definition len_hash :: "bytes \<Rightarrow> hash" where
  "len_hash x = pad_hash [of_nat (length x), foldr (\<lambda>b s. b + 3 * s) x 0, foldr (\<lambda>b s. b + s) x 0]"

lemma hash32_len_hash [simp]: "hash32 len_hash"
  using hash32_pad_hash by (simp add: hash32_def len_hash_def)

definition two_bytes :: "64 word \<Rightarrow> bytes" where
  "two_bytes n = [ucast n, ucast (drop_bit 8 n)]"

theorem response_hash_binds_witness:
  "response_hash len_hash two_bytes
     \<lparr>resp_status = 200, resp_headers = [([65], [1]), ([66], [2, 2])], resp_body = [7, 7, 7],
      resp_upgrade = None\<rparr> (CertifiedResponseHeaders [[97]]) None =
   response_hash len_hash two_bytes
     \<lparr>resp_status = 200, resp_headers = [([97], [1])], resp_body = [7, 7, 7], resp_upgrade = None\<rparr>
     (CertifiedResponseHeaders [[97]]) None \<and>
   response_hash len_hash two_bytes
     \<lparr>resp_status = 200, resp_headers = [([97], [1])], resp_body = [7, 7, 7], resp_upgrade = None\<rparr>
     (CertifiedResponseHeaders [[97]]) None \<noteq>
   response_hash len_hash two_bytes
     \<lparr>resp_status = 200, resp_headers = [([97], [1])], resp_body = [8, 8, 8], resp_upgrade = None\<rparr>
     (CertifiedResponseHeaders [[97]]) None"
proof -
  let ?rc = "CertifiedResponseHeaders [[97]]"
  let ?r1 = "\<lparr>resp_status = 200, resp_headers = [([65], [1]), ([66], [2, 2])], resp_body = [7, 7, 7],
    resp_upgrade = None\<rparr>"
  let ?r2 = "\<lparr>resp_status = 200, resp_headers = [([97], [1])], resp_body = [7, 7, 7], resp_upgrade = None\<rparr>"
  let ?r3 = "\<lparr>resp_status = 200, resp_headers = [([97], [1])], resp_body = [8, 8, 8], resp_upgrade = None\<rparr>"
  have inj: "inj_on len_hash (response_inputs len_hash two_bytes ?r1 ?rc \<union> response_inputs len_hash two_bytes ?r2 ?rc)"
    "inj_on len_hash (response_inputs len_hash two_bytes ?r2 ?rc \<union> response_inputs len_hash two_bytes ?r3 ?rc)"
    by (rule eq_card_imp_inj_on, simp add: response_inputs_def, code_simp)+
  have names: "RESPONSE_STATUS_PSEUDO_HEADER_NAME \<notin> fst ` set (certified_headers ?rc (resp_headers r))"
    if "r \<in> {?r1, ?r2, ?r3}" for r
    using that by (elim insertE emptyE; simp only:; code_simp)
  have same: "mset (certified_headers ?rc (resp_headers ?r1)) = mset (certified_headers ?rc (resp_headers ?r2))"
    by code_simp
  show ?thesis
    using response_hash_binds [OF hash32_len_hash _ inj(1) names]
      response_hash_binds [OF hash32_len_hash _ inj(2) names] same
    by simp
qed

definition header_entries :: "header_field list \<Rightarrow> request_certification \<Rightarrow> header_field list" where
  "header_entries headers rc =
     map (\<lambda>(n, v). (to_ascii_lowercase n, v))
       (filter (\<lambda>(n, v). list_ex (\<lambda>h. eq_ignore_ascii_case h n) (certified_request_headers rc)) headers)"

definition optional_entry :: "bytes \<Rightarrow> bytes option \<Rightarrow> header_field list" where
  "optional_entry k x = (case x of None \<Rightarrow> [] | Some v \<Rightarrow> [(k, v)])"

lemma flat_request_pairs:
  "flat_entries leb (request_pairs hs method q rc) =
     header_entries hs rc @ (str_bytes '':ic-cert-method'', method) # optional_entry (str_bytes '':ic-cert-query'') q"
  by (simp add: flat_entries_def request_pairs_def get_filtered_headers_def header_entries_def
      optional_entry_def case_prod_unfold comp_def split: option.split)

lemma mset_optional_pseudo:
  assumes eq: "mset (xs @ (s, a) # optional_entry t x) = mset (ys @ (s, b) # optional_entry t y)"
    and "s \<noteq> t" and "s \<notin> fst ` set xs \<union> fst ` set ys" and t: "t \<notin> fst ` set xs \<union> fst ` set ys"
  shows "a = b \<and> x = y \<and> mset xs = mset ys"
proof -
  have mem: "set (xs @ (s, a) # optional_entry t x) = set (ys @ (s, b) # optional_entry t y)"
    using mset_eq_setD [OF eq] .
  have "(s, b) \<in> set (xs @ (s, a) # optional_entry t x)" unfolding mem by simp
  with assms(2,3) have "a = b" by (force simp: optional_entry_def split: option.splits)
  moreover have "x = Some v \<longleftrightarrow> y = Some v" for v
  proof -
    have "(t, v) \<in> set (xs @ (s, a) # optional_entry t x) \<longleftrightarrow> x = Some v"
      "(t, v) \<in> set (ys @ (s, b) # optional_entry t y) \<longleftrightarrow> y = Some v"
      using assms(2) t by (force simp: optional_entry_def split: option.splits)+
    with mem show ?thesis by blast
  qed
  then have "x = y" by (metis option.exhaust)
  ultimately show ?thesis using eq by simp
qed

text \<open>The query as the certification sees it.\<close>

definition certified_query :: "bytes option \<Rightarrow> request_certification \<Rightarrow> bytes option" where
  "certified_query query rc = Option.bind query (\<lambda>query. get_filtered_query query rc)"

definition request_inputs ::
  "(bytes \<Rightarrow> hash) \<Rightarrow> (64 word \<Rightarrow> bytes) \<Rightarrow> http_request \<Rightarrow> bytes option \<Rightarrow> request_certification \<Rightarrow>
     bytes set" where
  "request_inputs H leb r query rc =
     pair_inputs H leb (request_pairs (req_headers r) (req_method r) (certified_query query rc) rc) (req_body r)"

lemma request_hash_iff:
  assumes H: "hash32 H" and q: "get_query lib r = Inr q" "get_query lib r' = Inr q'"
    and inj: "inj_on H (request_inputs H leb r q rc \<union> request_inputs H leb r' q' rc)"
    and names: "fst ` set (header_entries (req_headers r) rc @ header_entries (req_headers r') rc) \<inter>
      {str_bytes '':ic-cert-method'', str_bytes '':ic-cert-query''} = {}"
  shows "request_hash H leb lib r rc = request_hash H leb lib r' rc \<longleftrightarrow>
         req_method r = req_method r' \<and> req_body r = req_body r' \<and>
         certified_query q rc = certified_query q' rc \<and>
         mset (header_entries (req_headers r) rc) = mset (header_entries (req_headers r') rc)"
proof -
  let ?pairs = "\<lambda>r q. request_pairs (req_headers r) (req_method r) (certified_query q rc) rc"
  have "\<forall>p \<in> set (?pairs r q) \<union> set (?pairs r' q'). is_flat (snd p)"
    by (auto simp: request_pairs_def get_filtered_headers_def split: option.splits)
  note pair_hash_binding [OF H this inj [unfolded request_inputs_def]]
  moreover have "mset (flat_entries leb (?pairs r q)) = mset (flat_entries leb (?pairs r' q')) \<longleftrightarrow>
      req_method r = req_method r' \<and> certified_query q rc = certified_query q' rc \<and>
      mset (header_entries (req_headers r) rc) = mset (header_entries (req_headers r') rc)"
    unfolding flat_request_pairs
    using mset_optional_pseudo [of "header_entries (req_headers r) rc" "str_bytes '':ic-cert-method''"
        "req_method r" "str_bytes '':ic-cert-query''" "certified_query q rc"
        "header_entries (req_headers r') rc" "req_method r'" "certified_query q' rc"] names
    by auto
  ultimately show ?thesis
    by (auto simp: request_hash_def q Let_def certified_query_def)
qed

text \<open>C32: the request hash of an expression binds the method, the certified headers (as a multiset,
  with names in lower case), the certified query parameters in their order and the body of a
  request, and depends on nothing else. The URLs parse, and no certified header has the name of a
  pseudo header.\<close>

theorem request_hash_binds:
  assumes H: "hash32 H" and q: "get_query lib r = Inr q" "get_query lib r' = Inr q'"
    and inj: "inj_on H (request_inputs H leb r q rc \<union> request_inputs H leb r' q' rc)"
    and names: "fst ` set (header_entries (req_headers r) rc @ header_entries (req_headers r') rc) \<inter>
      {str_bytes '':ic-cert-method'', str_bytes '':ic-cert-query''} = {}"
  shows "request_hash H leb lib r rc = request_hash H leb lib r' rc \<longleftrightarrow>
         req_method r = req_method r' \<and> req_body r = req_body r' \<and>
         certified_query q rc = certified_query q' rc \<and>
         mset (header_entries (req_headers r) rc) = mset (header_entries (req_headers r') rc)"
  by (rule request_hash_iff [OF assms])

text \<open>The instance changes the query of a request from a certified to an uncertified parameter.\<close>

definition plain_http :: http_lib where
  "plain_http = \<lparr>uri_of = (\<lambda>url. case split_on 63 url of
       p # q # _ \<Rightarrow> Some (p, Some q) | [p] \<Rightarrow> Some (p, None) | [] \<Rightarrow> None), url_decode = Inr\<rparr>"

theorem request_hash_binds_witness:
  "request_hash len_hash two_bytes plain_http
     \<lparr>req_method = [71], req_url = [47, 63, 97, 61, 49, 38, 98], req_headers = [], req_body = [],
      req_certificate_version = None\<rparr> (request_certification_new [] [[97]]) =
   request_hash len_hash two_bytes plain_http
     \<lparr>req_method = [71], req_url = [47, 63, 97, 61, 49], req_headers = [([66], [1])], req_body = [],
      req_certificate_version = None\<rparr> (request_certification_new [] [[97]])"
proof -
  let ?r = "\<lparr>req_method = [71], req_url = [47, 63, 97, 61, 49, 38, 98], req_headers = [], req_body = [],
      req_certificate_version = None\<rparr>"
  let ?r' = "\<lparr>req_method = [71], req_url = [47, 63, 97, 61, 49], req_headers = [([66], [1])], req_body = [],
      req_certificate_version = None\<rparr>"
  let ?rc = "request_certification_new [] [[97]]"
  have "get_query plain_http ?r = Inr (Some [97, 61, 49, 38, 98])" by code_simp
  moreover have "get_query plain_http ?r' = Inr (Some [97, 61, 49])" by code_simp
  moreover have "inj_on len_hash (request_inputs len_hash two_bytes ?r (Some [97, 61, 49, 38, 98]) ?rc \<union>
      request_inputs len_hash two_bytes ?r' (Some [97, 61, 49]) ?rc)"
    by (rule eq_card_imp_inj_on, simp add: request_inputs_def, code_simp)
  moreover have "fst ` set (header_entries (req_headers ?r) ?rc @ header_entries (req_headers ?r') ?rc) \<inter>
      {str_bytes '':ic-cert-method'', str_bytes '':ic-cert-query''} = {}" by code_simp
  moreover have "certified_query (Some [97, 61, 49, 38, 98]) ?rc = certified_query (Some [97, 61, 49]) ?rc"
    "mset (header_entries (req_headers ?r) ?rc) = mset (header_entries (req_headers ?r') ?rc)"
    by (code_simp, code_simp)
  ultimately show ?thesis using request_hash_binds [OF hash32_len_hash] by simp
qed

end
