(* ===== verification/Wildcard_Paths.thy ===== *)
theory Wildcard_Paths
  imports Rust_Prelude
begin

text \<open>
  The wildcard paths of \<^verbatim>\<open>packages/ic-http-certification/src/utils/wildcard_paths.rs\<close>: which wildcard
  paths are valid for a request path, and the loop that lists the wildcard paths more specific than
  the responding one. A path is a list of segments; the empty segment stands for a trailing slash.
  The loop is a \<^theory_text>\<open>partial_function\<close>: that it ends is a theorem.
\<close>

definition PATH_PREFIX :: bytes where
  "PATH_PREFIX = str_bytes ''http_expr''"

definition PATH_DIR_SEPARATOR :: bytes where
  "PATH_DIR_SEPARATOR = []"

definition EXACT_PATH_TERMINATOR :: bytes where
  "EXACT_PATH_TERMINATOR = str_bytes ''<$>''"

definition WILDCARD_PATH_TERMINATOR :: bytes where
  "WILDCARD_PATH_TERMINATOR = str_bytes ''<*>''"

type_synonym path = "bytes list"

definition is_wildcard_path_valid_for_request_path :: "path \<Rightarrow> path \<Rightarrow> bool" where
  "is_wildcard_path_valid_for_request_path wildcard_path request_path \<longleftrightarrow>
     (if starts_with request_path wildcard_path then True
      else if ends_with wildcard_path [PATH_DIR_SEPARATOR]
      then starts_with request_path (take (length wildcard_path - 1) wildcard_path)
      else False)"

definition strip_prefix :: "path \<Rightarrow> path" where
  "strip_prefix p = (if slice_first p = Some PATH_PREFIX then tl p else p)"

definition strip_terminator :: "path \<Rightarrow> path" where
  "strip_terminator p =
     (if slice_last p = Some EXACT_PATH_TERMINATOR \<or> slice_last p = Some WILDCARD_PATH_TERMINATOR
      then butlast p else p)"

definition strip_leading_separator :: "path \<Rightarrow> path" where
  "strip_leading_separator p =
     (if 1 < length p \<and> slice_first p = Some PATH_DIR_SEPARATOR then tl p else p)"

definition strip_path_affixes :: "path \<Rightarrow> path" where
  "strip_path_affixes p = strip_leading_separator (strip_terminator (strip_prefix p))"

text \<open>One round of the loop: without a trailing separator the last segment is replaced by one, with
  one it is dropped.\<close>

definition parent_path :: "path \<Rightarrow> path" where
  "parent_path p =
     (if ends_with p [PATH_DIR_SEPARATOR] then butlast p else butlast p @ [PATH_DIR_SEPARATOR])"

definition still_more_specific :: "path \<Rightarrow> path \<Rightarrow> bool" where
  "still_more_specific potential_path responding \<longleftrightarrow>
     length responding < length potential_path \<or> slice_last potential_path \<noteq> slice_last responding"

partial_function (option) wildcard_loop :: "path \<Rightarrow> path \<Rightarrow> path list \<Rightarrow> path list option" where
  "wildcard_loop responding potential_path valid_wildcards =
     (if still_more_specific potential_path responding
      then wildcard_loop responding (parent_path potential_path)
             (valid_wildcards @ [potential_path @ [WILDCARD_PATH_TERMINATOR]])
      else Some valid_wildcards)"

declare wildcard_loop.simps [code]

definition more_specific_wildcards_for :: "path \<Rightarrow> path \<Rightarrow> path list option" where
  "more_specific_wildcards_for requested_path responding_wildcard_path =
     (let potential_path = strip_path_affixes requested_path;
          responding = strip_path_affixes responding_wildcard_path;
          responding = (if \<not> is_wildcard_path_valid_for_request_path responding potential_path
                        then [] else responding)
      in wildcard_loop responding potential_path [])"

subsection \<open>The chain of enclosing wildcards\<close>

text \<open>The paths that the loop visits from a path down to the root.\<close>

fun rev_chain :: "path \<Rightarrow> path list" where
  "rev_chain [] = [[]]"
| "rev_chain (x # q) = rev (x # q) # (if x = [] then [] else [rev q @ [[]]]) @ rev_chain q"

definition wildcard_chain :: "path \<Rightarrow> path list" where
  "wildcard_chain p = rev_chain (rev p)"

lemma wildcard_chain_simps [simp]:
  "wildcard_chain [] = [[]]"
  "wildcard_chain (p @ [x]) = (p @ [x]) # (if x = [] then [] else [p @ [[]]]) @ wildcard_chain p"
  by (simp_all add: wildcard_chain_def)

lemma mem_wildcard_chain:
  "q \<in> set (wildcard_chain p) \<longleftrightarrow>
     (\<exists>k \<le> length p. q = take k p) \<or> (\<exists>k < length p. q = take k p @ [[]])"
proof (induction p rule: rev_induct)
  case Nil
  then show ?case by simp
next
  case (snoc x p)
  show ?case
  proof
    assume "q \<in> set (wildcard_chain (p @ [x]))"
    then consider "q = p @ [x]" | "q = p @ [[]]" | "q \<in> set (wildcard_chain p)"
      by (auto split: if_splits)
    then show "(\<exists>k \<le> length (p @ [x]). q = take k (p @ [x])) \<or>
        (\<exists>k < length (p @ [x]). q = take k (p @ [x]) @ [[]])"
    proof cases
      case 1
      then show ?thesis by (intro disjI1 exI [of _ "length (p @ [x])"]) simp
    next
      case 2
      then show ?thesis by (intro disjI2 exI [of _ "length p"]) simp
    next
      case 3
      with snoc.IH obtain k where "k \<le> length p \<and> q = take k p \<or> k < length p \<and> q = take k p @ [[]]"
        by auto
      then show ?thesis by (metis (no_types, lifting) butlast_snoc le_SucI length_append_singleton
            less_SucI take_butlast less_Suc_eq_le)
    qed
  next
    assume "(\<exists>k \<le> length (p @ [x]). q = take k (p @ [x])) \<or>
        (\<exists>k < length (p @ [x]). q = take k (p @ [x]) @ [[]])"
    then show "q \<in> set (wildcard_chain (p @ [x]))"
    proof (elim disjE exE conjE)
      fix k
      assume "k \<le> length (p @ [x])" "q = take k (p @ [x])"
      then show ?thesis using snoc.IH by (cases "k \<le> length p") auto
    next
      fix k
      assume "k < length (p @ [x])" "q = take k (p @ [x]) @ [[]]"
      then show ?thesis using snoc.IH by (cases "k < length p") auto
    qed
  qed
qed

subsection \<open>The loop\<close>

lemma ends_with_separator [simp]:
  "ends_with (p @ [x]) [PATH_DIR_SEPARATOR] \<longleftrightarrow> x = []"
  "\<not> ends_with [] [PATH_DIR_SEPARATOR]"
  by (simp_all add: PATH_DIR_SEPARATOR_def)

lemma parent_path_simps [simp]:
  "parent_path (p @ [x]) = (if x = [] then p else p @ [[]])"
  "parent_path [] = [[]]"
  by (simp_all add: parent_path_def PATH_DIR_SEPARATOR_def)

text \<open>Wherever the loop starts on the chain below a stopping point, it walks the chain to there.\<close>

lemma wildcard_loop_chain:
  "(\<exists>q \<in> set (wildcard_chain p). \<not> still_more_specific q r) \<Longrightarrow>
     wildcard_loop r p acc = Some (acc @ map (\<lambda>q. q @ [WILDCARD_PATH_TERMINATOR])
       (takeWhile (\<lambda>q. still_more_specific q r) (wildcard_chain p)))"
proof (induction p arbitrary: acc rule: rev_induct)
  case Nil
  then show ?case by (subst wildcard_loop.simps) simp
next
  case (snoc x p)
  have enclosing: "wildcard_loop r p acc = Some (acc @ map (\<lambda>q. q @ [WILDCARD_PATH_TERMINATOR])
      (takeWhile (\<lambda>q. still_more_specific q r) (wildcard_chain p)))"
    if "still_more_specific (p @ [x]) r" "x = [] \<or> still_more_specific (p @ [[]]) r" for acc
    using snoc.prems that by (intro snoc.IH) (auto split: if_splits)
  show ?case
  proof (cases "still_more_specific (p @ [x]) r")
    case False
    then show ?thesis by (subst wildcard_loop.simps) simp
  next
    case more: True
    show ?thesis
    proof (cases "x = []")
      case True
      with more enclosing show ?thesis by (subst wildcard_loop.simps) simp
    next
      case False
      show ?thesis
      proof (cases "still_more_specific (p @ [[]]) r")
        case True
        with more False enclosing show ?thesis
          by (subst wildcard_loop.simps, simp, subst wildcard_loop.simps, simp)
      next
        case stop: False
        with more False show ?thesis
          by (subst wildcard_loop.simps, simp, subst wildcard_loop.simps, simp)
      qed
    qed
  qed
qed

lemma valid_wildcard_cases:
  assumes "is_wildcard_path_valid_for_request_path r p"
  obtains k where "k \<le> length p" "r = take k p"
    | k where "k \<le> length p" "r = take k p @ [[]]"
proof (cases "starts_with p r")
  case True
  then obtain z where "p = r @ z" by (auto simp: starts_with_iff)
  with that(1) [of "length r"] show thesis by simp
next
  case False
  with assms have "ends_with r [[]]" "starts_with p (take (length r - 1) r)"
    by (auto simp: is_wildcard_path_valid_for_request_path_def PATH_DIR_SEPARATOR_def split: if_splits)
  then obtain q z where "r = q @ [[]]" "p = q @ z" by (auto simp: ends_with_iff starts_with_iff)
  with that(2) [of "length q"] show thesis by simp
qed

text \<open>A valid responding path on the chain stops the loop exactly there: every path before it on the
  chain is longer or differs from it in the last segment.\<close>

lemma not_more_specific_self [simp]: "\<not> still_more_specific r r"
  by (simp add: still_more_specific_def)

lemma more_specific_before:
  assumes "r \<in> set (wildcard_chain p)"
  shows "takeWhile (\<lambda>q. still_more_specific q r) (wildcard_chain p) =
    takeWhile (\<lambda>q. q \<noteq> r) (wildcard_chain p)"
  using assms
proof (induction p rule: rev_induct)
  case Nil
  then show ?case by (simp add: still_more_specific_def)
next
  case (snoc x p)
  have longer: "still_more_specific q r" if "length r < length q" for q
    using that by (simp add: still_more_specific_def)
  have len: "length q \<le> length p" if "q \<in> set (wildcard_chain p)" for q
    using that by (auto simp: mem_wildcard_chain)
  show ?case
  proof (cases "r \<in> set (wildcard_chain p)")
    case True
    with len [of r] have "length r < length (p @ [x])" "length r < length (p @ [[]])" by auto
    then have "p @ [x] \<noteq> r" "p @ [[]] \<noteq> r" "still_more_specific (p @ [x]) r"
      "still_more_specific (p @ [[]]) r" using longer by auto
    with snoc.IH [OF True] show ?thesis by simp
  next
    case False
    with snoc.prems consider "r = p @ [x]" | "x \<noteq> []" "r = p @ [[]]" by (auto split: if_splits)
    then show ?thesis by cases (simp_all add: still_more_specific_def)
  qed
qed

lemma wildcard_loop_valid:
  assumes "is_wildcard_path_valid_for_request_path r p"
  shows "\<exists>ws. wildcard_loop r p [] = Some ws"
  using assms
proof (cases rule: valid_wildcard_cases)
  case (1 k)
  then have "r \<in> set (wildcard_chain p)" by (auto simp: mem_wildcard_chain)
  then show ?thesis using wildcard_loop_chain [of p r "[]"] not_more_specific_self by blast
next
  case (2 k)
  show ?thesis
  proof (cases "k < length p")
    case True
    with 2 have "r \<in> set (wildcard_chain p)" by (auto simp: mem_wildcard_chain)
    then show ?thesis using wildcard_loop_chain [of p r "[]"] not_more_specific_self by blast
  next
    case False
    with 2 have r: "r = p @ [[]]" by simp
    show ?thesis
    proof (cases p rule: rev_cases)
      case Nil
      with r show ?thesis
        by (subst wildcard_loop.simps, simp, subst wildcard_loop.simps) (simp add: still_more_specific_def)
    next
      case (snoc q x)
      with r have "\<not> still_more_specific (if x = [] then p else q @ [[]]) r"
        by (simp add: still_more_specific_def slice_last_def)
      moreover from snoc have "(if x = [] then p else q @ [[]]) \<in> set (wildcard_chain p)" by simp
      ultimately show ?thesis using wildcard_loop_chain [of p r "[]"] by blast
    qed
  qed
qed

lemma chain_valid:
  assumes "r \<in> set (wildcard_chain p)"
  shows "is_wildcard_path_valid_for_request_path r p"
  using assms
  by (auto simp: mem_wildcard_chain is_wildcard_path_valid_for_request_path_def starts_with_iff
      PATH_DIR_SEPARATOR_def) (metis append_take_drop_id)+

lemma more_specific_wildcards_chain:
  assumes "strip_path_affixes responding = r" and "strip_path_affixes requested = p"
    and "r \<in> set (wildcard_chain p)"
  shows "more_specific_wildcards_for requested responding =
    Some (map (\<lambda>q. q @ [WILDCARD_PATH_TERMINATOR]) (takeWhile (\<lambda>q. q \<noteq> r) (wildcard_chain p)))"
proof -
  have "wildcard_loop r p [] = Some (map (\<lambda>q. q @ [WILDCARD_PATH_TERMINATOR])
      (takeWhile (\<lambda>q. still_more_specific q r) (wildcard_chain p)))"
    using wildcard_loop_chain [of p r "[]"] assms(3) not_more_specific_self by fastforce
  with chain_valid [OF assms(3)] show ?thesis
    by (simp add: more_specific_wildcards_for_def assms(1,2) more_specific_before [OF assms(3)])
qed

lemma wildcard_chain_length: "q \<in> set (wildcard_chain p) \<Longrightarrow> length q \<le> length p"
  by (auto simp: mem_wildcard_chain)

lemma wildcards_terminate: "\<exists>ws. more_specific_wildcards_for requested responding = Some ws"
proof -
  have "is_wildcard_path_valid_for_request_path [] p" for p
    by (simp add: is_wildcard_path_valid_for_request_path_def)
  then show ?thesis
    by (auto simp: more_specific_wildcards_for_def Let_def intro!: wildcard_loop_valid)
qed

subsection \<open>Properties\<close>

text \<open>The search for more specific wildcards ends for every requested path and every responding
  path, valid or not.\<close>

theorem more_specific_wildcards_terminate:
  "\<exists>ws. more_specific_wildcards_for requested responding = Some ws"
  by (rule wildcards_terminate)

text \<open>C24: The search lists exactly the wildcards between the requested path and the responding one:
  for a responding path that is a prefix of the requested path or a proper prefix with a trailing
  separator, the paths of the chain of enclosing wildcards before it, most specific first, each
  with the wildcard terminator.\<close>

theorem more_specific_wildcards_exact:
  assumes "strip_path_affixes responding = r" and "strip_path_affixes requested = p"
    and "r \<in> set (wildcard_chain p)"
  shows "more_specific_wildcards_for requested responding =
    Some (map (\<lambda>q. q @ [WILDCARD_PATH_TERMINATOR]) (takeWhile (\<lambda>q. q \<noteq> r) (wildcard_chain p)))"
  by (rule more_specific_wildcards_chain [OF assms])

theorem more_specific_wildcards_exact_witness:
  "more_specific_wildcards_for [[97], [98], [99]] [[97], [98], WILDCARD_PATH_TERMINATOR] =
     Some [[[97], [98], [99], WILDCARD_PATH_TERMINATOR], [[97], [98], [], WILDCARD_PATH_TERMINATOR]]"
proof -
  have "strip_path_affixes [[97], [98], WILDCARD_PATH_TERMINATOR] = [[97], [98]]"
    "strip_path_affixes [[97], [98], [99]] = [[97], [98], [99]]"
    by (simp_all add: strip_path_affixes_def strip_prefix_def strip_terminator_def
        strip_leading_separator_def slice_first_def slice_last_def PATH_PREFIX_def
        PATH_DIR_SEPARATOR_def EXACT_PATH_TERMINATOR_def WILDCARD_PATH_TERMINATOR_def str_bytes_def)
  from more_specific_wildcards_exact [OF this] show ?thesis by (simp add: wildcard_chain_def)
qed

text \<open>The listing misses a wildcard: the wildcard of the requested path with a trailing separator
  is valid for the request by the validity check, and longer than every listed path, but is never
  listed.\<close>

theorem directory_wildcard_not_listed:
  assumes "strip_path_affixes responding = r" and "strip_path_affixes requested = p"
    and "r \<in> set (wildcard_chain p)"
  shows "is_wildcard_path_valid_for_request_path (p @ [PATH_DIR_SEPARATOR]) p \<and>
    (\<exists>ws. more_specific_wildcards_for requested responding = Some ws \<and>
       p @ [PATH_DIR_SEPARATOR, WILDCARD_PATH_TERMINATOR] \<notin> set ws \<and>
       (\<forall>w \<in> set ws. length w < length (p @ [PATH_DIR_SEPARATOR, WILDCARD_PATH_TERMINATOR])))"
  using more_specific_wildcards_chain [OF assms] wildcard_chain_length [of _ p]
  by (fastforce simp: is_wildcard_path_valid_for_request_path_def starts_with_iff dest: set_takeWhileD)

theorem directory_wildcard_not_listed_witness:
  "is_wildcard_path_valid_for_request_path ([[97]] @ [PATH_DIR_SEPARATOR]) [[97]] \<and>
   (\<exists>ws. more_specific_wildcards_for [[97]] [WILDCARD_PATH_TERMINATOR] = Some ws \<and>
      [[97]] @ [PATH_DIR_SEPARATOR, WILDCARD_PATH_TERMINATOR] \<notin> set ws)"
proof -
  have "strip_path_affixes [WILDCARD_PATH_TERMINATOR] = []" "strip_path_affixes [[97]] = [[97]]"
    by (simp_all add: strip_path_affixes_def strip_prefix_def strip_terminator_def
        strip_leading_separator_def slice_first_def slice_last_def PATH_PREFIX_def
        PATH_DIR_SEPARATOR_def EXACT_PATH_TERMINATOR_def WILDCARD_PATH_TERMINATOR_def str_bytes_def)
  from directory_wildcard_not_listed [OF this] show ?thesis by (auto simp: wildcard_chain_def)
qed

end
