(* ===== verification/Certification_Tree.thy ===== *)
theory Certification_Tree
  imports Nested_Tree Wildcard_Paths Http_Hash Cbor_Roundtrip
begin

text \<open>
  The HTTP certification tree of \<^verbatim>\<open>packages/ic-http-certification/src/tree\<close>: paths, certifications,
  entries, the tree and its witnesses, and the header utilities of \<^verbatim>\<open>src/utils\<close> that a canister puts
  on its response. Base64 and CBOR encoding are parameters, as is Unicode lower case.
\<close>

subsection \<open>Paths\<close>

datatype certification_path = Exact_Path bytes | Wildcard_Path bytes

text \<open>Byte 47 is the slash.\<close>

definition path_to_segments :: "bytes \<Rightarrow> bytes \<Rightarrow> path" where
  "path_to_segments p terminator =
     filter (\<lambda>e. e \<noteq> []) (split_on 47 p) @ (if ends_with p [47] then [[]] else []) @ [terminator]"

definition path_to_string_segments :: "bytes \<Rightarrow> bytes \<Rightarrow> path" where
  "path_to_string_segments p terminator =
     [PATH_PREFIX] @ filter (\<lambda>e. e \<noteq> []) (split_on 47 p) @
     (if ends_with p [47] then [[]] else []) @ [terminator]"

fun path_to_tree_path :: "certification_path \<Rightarrow> path" where
  "path_to_tree_path (Exact_Path p) = path_to_segments p EXACT_PATH_TERMINATOR"
| "path_to_tree_path (Wildcard_Path p) = path_to_segments p WILDCARD_PATH_TERMINATOR"

fun to_expr_path :: "certification_path \<Rightarrow> path" where
  "to_expr_path (Exact_Path p) = path_to_string_segments p EXACT_PATH_TERMINATOR"
| "to_expr_path (Wildcard_Path p) = path_to_string_segments p WILDCARD_PATH_TERMINATOR"

subsection \<open>Certifications\<close>

datatype http_certification =
    Skip_Certification hash
  | ResponseOnly_Certification hash hash
  | Full_Certification hash hash hash

definition certification_skip :: "(bytes \<Rightarrow> hash) \<Rightarrow> http_certification" where
  "certification_skip H = Skip_Certification (sha_hash H (create_cel_expr skip_certification))"

text \<open>\<open>lower\<close> is \<^verbatim>\<open>str::to_lowercase\<close>. The flag is \<^verbatim>\<open>found_header\<close>.\<close>

fun validate_response_headers ::
  "(bytes \<Rightarrow> bytes) \<Rightarrow> bytes \<Rightarrow> bool \<Rightarrow> header_field list \<Rightarrow> http_error + bool" where
  "validate_response_headers lower cel_expr found_header [] = Inr found_header"
| "validate_response_headers lower cel_expr found_header ((header_name, header_value) # headers) =
     (if lower header_name = lower CERTIFICATE_EXPRESSION_HEADER_NAME
      then if header_value = cel_expr
           then if found_header then Inl (MultipleCertificateExpressionHeaders cel_expr)
                else validate_response_headers lower cel_expr True headers
           else Inl (CertificateExpressionHeaderMismatch cel_expr header_value)
      else validate_response_headers lower cel_expr found_header headers)"

definition validate_response ::
  "(bytes \<Rightarrow> bytes) \<Rightarrow> http_response \<Rightarrow> bytes \<Rightarrow> http_error + unit" where
  "validate_response lower response cel_expr =
     and_then (validate_response_headers lower cel_expr False (resp_headers response))
       (\<lambda>found_header. if found_header then Inr ()
          else Inl (CertificateExpressionHeaderMissing cel_expr))"

definition certification_response_only ::
  "(bytes \<Rightarrow> hash) \<Rightarrow> (64 word \<Rightarrow> bytes) \<Rightarrow> (bytes \<Rightarrow> bytes) \<Rightarrow> response_only_cel_expr \<Rightarrow>
     http_response \<Rightarrow> hash option \<Rightarrow> http_error + http_certification" where
  "certification_response_only H leb lower cel_expr_def response response_body_hash =
     (let cel_expr = create_default_response_only_cel_expr cel_expr_def
      in and_then (validate_response lower response cel_expr) (\<lambda>_.
         Inr (ResponseOnly_Certification (sha_hash H cel_expr)
           (response_hash H leb response (only_response cel_expr_def) response_body_hash))))"

definition certification_full ::
  "(bytes \<Rightarrow> hash) \<Rightarrow> (64 word \<Rightarrow> bytes) \<Rightarrow> http_lib \<Rightarrow> (bytes \<Rightarrow> bytes) \<Rightarrow> full_cel_expr \<Rightarrow>
     http_request \<Rightarrow> http_response \<Rightarrow> hash option \<Rightarrow> http_error + http_certification" where
  "certification_full H leb lib lower cel_expr_def request response response_body_hash =
     (let cel_expr = create_default_full_cel_expr cel_expr_def
      in and_then (validate_response lower response cel_expr) (\<lambda>_.
         and_then (request_hash H leb lib request (full_request cel_expr_def)) (\<lambda>rq.
         Inr (Full_Certification (sha_hash H cel_expr) rq
           (response_hash H leb response (full_response cel_expr_def) response_body_hash)))))"

fun certification_to_tree_path :: "http_certification \<Rightarrow> path" where
  "certification_to_tree_path (Skip_Certification cel_expr_hash) = [cel_expr_hash]"
| "certification_to_tree_path (ResponseOnly_Certification cel_expr_hash rs) = [cel_expr_hash, [], rs]"
| "certification_to_tree_path (Full_Certification cel_expr_hash rq rs) = [cel_expr_hash, rq, rs]"

record tree_entry =
  entry_path :: certification_path
  entry_certification :: http_certification

definition entry_to_tree_path :: "tree_entry \<Rightarrow> path" where
  "entry_to_tree_path e =
     path_to_tree_path (entry_path e) @ certification_to_tree_path (entry_certification e)"

subsection \<open>The tree\<close>

text \<open>The wrapper struct \<^verbatim>\<open>HttpCertificationTree { tree }\<close> is erased. An operation of the nested tree
  that panics gives \<^term>\<open>None\<close>.\<close>

type_synonym certification_tree = "bytes nested_tree"

definition ct_default :: certification_tree where
  "ct_default = nt_default"

definition ct_root_hash :: "(bytes \<Rightarrow> hash) \<Rightarrow> certification_tree \<Rightarrow> hash" where
  "ct_root_hash H tree = labeled_hash H PATH_PREFIX (nt_root_hash H (vec_root_hash H) tree)"

definition ct_insert :: "(bytes \<Rightarrow> hash) \<Rightarrow> certification_tree \<Rightarrow> tree_entry \<Rightarrow> certification_tree option" where
  "ct_insert H tree entry =
     (let tree_path = entry_to_tree_path entry
      in nt_insert (3 * length tree_path + 1) H (vec_root_hash H) tree tree_path [])"

definition ct_delete :: "(bytes \<Rightarrow> hash) \<Rightarrow> certification_tree \<Rightarrow> tree_entry \<Rightarrow> certification_tree option" where
  "ct_delete H tree entry = nt_delete H (vec_root_hash H) tree (entry_to_tree_path entry)"

definition ct_delete_by_path ::
  "(bytes \<Rightarrow> hash) \<Rightarrow> certification_tree \<Rightarrow> certification_path \<Rightarrow> certification_tree option" where
  "ct_delete_by_path H tree p = nt_delete H (vec_root_hash H) tree (path_to_tree_path p)"

definition ct_clear :: "certification_tree \<Rightarrow> certification_tree" where
  "ct_clear tree = nt_clear tree"

text \<open>The fold of \<^verbatim>\<open>witness\<close>; \<open>wit\<close> is the witness function of the nested tree.\<close>

fun merge_witnesses ::
  "(path \<Rightarrow> hash_tree option) \<Rightarrow> path list \<Rightarrow> hash_tree \<Rightarrow> hash_tree option" where
  "merge_witnesses wit [] acc = Some acc"
| "merge_witnesses wit (p # ps) acc =
     do {
       w \<leftarrow> wit p;
       acc \<leftarrow> merge_hash_trees acc w;
       merge_witnesses wit ps acc
     }"

definition ct_nested_witness ::
  "(bytes \<Rightarrow> hash) \<Rightarrow> certification_tree \<Rightarrow> path \<Rightarrow> hash_tree option" where
  "ct_nested_witness H tree p = nt_witness H (vec_root_hash H) vec_as_hash_tree tree p"

definition ct_witness ::
  "(bytes \<Rightarrow> hash) \<Rightarrow> certification_tree \<Rightarrow> tree_entry \<Rightarrow> bytes \<Rightarrow> (http_error + hash_tree) option" where
  "ct_witness H tree entry request_url =
     (case entry_path entry of
        Exact_Path _ \<Rightarrow>
          map_option (\<lambda>w. Inr (Labeled PATH_PREFIX w))
            (ct_nested_witness H tree (entry_to_tree_path entry))
      | Wildcard_Path wildcard_path \<Rightarrow>
          (let requested_tree_path = path_to_tree_path (Exact_Path request_url);
               responding_tree_path = path_to_tree_path (entry_path entry)
           in if length requested_tree_path < length responding_tree_path
              then Some (Inl (WildcardPathNotValidForRequestPath wildcard_path request_url))
              else do {
                w \<leftarrow> ct_nested_witness H tree requested_tree_path;
                w' \<leftarrow> ct_nested_witness H tree responding_tree_path;
                w \<leftarrow> merge_hash_trees w w';
                ps \<leftarrow> more_specific_wildcards_for requested_tree_path responding_tree_path;
                w \<leftarrow> merge_witnesses (ct_nested_witness H tree) ps w;
                Some (Inr (Labeled PATH_PREFIX w))
              }))"

subsection \<open>Headers\<close>

text \<open>\<open>b64\<close> is the standard base64 engine; \<open>sd\<close> and \<open>enc\<close> are the CBOR serialiser.\<close>

definition certificate_header_value ::
  "(bytes \<Rightarrow> bytes) \<Rightarrow> bytes \<Rightarrow> (serde \<Rightarrow> bytes) \<Rightarrow> bytes \<Rightarrow> hash_tree \<Rightarrow> path \<Rightarrow> bytes" where
  "certificate_header_value b64 sd enc data_certificate witness expr_path =
     str_bytes ''certificate=:'' @ b64 data_certificate @
     str_bytes '':, tree=:'' @ b64 (cbor_encode sd enc (hash_tree_serialize witness)) @
     str_bytes '':, expr_path=:'' @ b64 (cbor_encode sd enc (string_array_serialize expr_path)) @
     str_bytes '':, version=2''"

definition add_v2_certificate_header ::
  "(bytes \<Rightarrow> bytes) \<Rightarrow> bytes \<Rightarrow> (serde \<Rightarrow> bytes) \<Rightarrow> bytes \<Rightarrow> http_response \<Rightarrow> hash_tree \<Rightarrow> path \<Rightarrow>
     http_response" where
  "add_v2_certificate_header b64 sd enc data_certificate response witness expr_path =
     add_header response
       (CERTIFICATE_HEADER_NAME,
        certificate_header_value b64 sd enc data_certificate witness expr_path)"

definition skip_certification_asset_tree :: "(bytes \<Rightarrow> hash) \<Rightarrow> hash_tree" where
  "skip_certification_asset_tree H =
     Labeled (str_bytes ''http_expr'') (Labeled (str_bytes ''<*>'')
       (Labeled (sha_hash H (create_cel_expr skip_certification)) (Leaf [])))"

definition skip_certification_certified_data :: "(bytes \<Rightarrow> hash) \<Rightarrow> hash" where
  "skip_certification_certified_data H = digest H (skip_certification_asset_tree H)"

definition add_skip_certification_header ::
  "(bytes \<Rightarrow> hash) \<Rightarrow> (bytes \<Rightarrow> bytes) \<Rightarrow> bytes \<Rightarrow> (serde \<Rightarrow> bytes) \<Rightarrow> bytes \<Rightarrow> http_response \<Rightarrow>
     http_response" where
  "add_skip_certification_header H b64 sd enc data_certificate response =
     add_header
       (add_v2_certificate_header b64 sd enc data_certificate response
          (skip_certification_asset_tree H) (to_expr_path (Wildcard_Path [])))
       (CERTIFICATE_EXPRESSION_HEADER_NAME, create_cel_expr skip_certification)"

end
