(* ===== verification/Certification_Witness.thy ===== *)
theory Certification_Witness
  imports Certification_Tree
begin

text \<open>
  The contract of the certification tree: its operations refine a set of certified paths, and its
  witnesses prove the presence or the absence of the paths a verifier asks for.
\<close>

subsection \<open>What a witness proves\<close>

text \<open>A pruning that answers a path, and everything below it, as the full tree does.\<close>

definition proves :: "(bytes \<Rightarrow> hash) \<Rightarrow> hash_tree \<Rightarrow> hash_tree \<Rightarrow> path \<Rightarrow> bool" where
  "proves H w full p \<longleftrightarrow>
     prunes H w full \<and> (\<forall>rest. lookup_subtree w (p @ rest) = lookup_subtree full (p @ rest))"

lemma prunes_unpruned: "prunes H n n' \<Longrightarrow> unpruned n \<Longrightarrow> n' = n"
proof (induction n arbitrary: n')
  case (Fork a b)
  then show ?case by (cases n') auto
next
  case (Labeled x a)
  then show ?case by (cases n') auto
qed (case_tac n'; simp)+

lemma unpruned_Found: "unpruned t \<Longrightarrow> lookup_label t x = LLR_Found n \<Longrightarrow> unpruned n"
  by (induction t) (auto split: lookup_label_result.splits cmp_ordering.splits)

lemma unpruned_subtree: "unpruned t \<Longrightarrow> lookup_subtree t p = SLR_Found n \<Longrightarrow> unpruned n"
  by (induction p arbitrary: t) (auto split: lookup_label_result.splits dest: unpruned_Found)

lemma sorted_subtree_known: "sorted_tree t \<Longrightarrow> lookup_subtree t p \<noteq> SLR_Unknown"
  by (induction p arbitrary: t)
    (auto split: lookup_label_result.splits dest: sorted_tree_Found simp: lookup_label_not_Unknown)

lemma proves_mono:
  assumes a: "proves H a full p" and am: "prunes H a m" and m: "prunes H m full"
    and so: "sorted_tree full"
  shows "proves H m full p"
proof -
  have "lookup_subtree m (p @ rest) = lookup_subtree full (p @ rest)" for rest
  proof (cases "lookup_subtree full (p @ rest)")
    case SLR_Absent
    with a lookup_subtree_mono_Absent [OF am m so] show ?thesis by (simp add: proves_def)
  next
    case SLR_Unknown
    with sorted_subtree_known [OF so] show ?thesis by simp
  next
    case (SLR_Found n)
    with a have "lookup_subtree a (p @ rest) = SLR_Found n" by (simp add: proves_def)
    with lookup_subtree_mono [OF am m so] obtain n' where
      "lookup_subtree m (p @ rest) = SLR_Found n'" "prunes H n n'" by blast
    with SLR_Found prunes_unpruned unpruned_subtree [OF sorted_tree_unpruned [OF so]] show ?thesis by metis
  qed
  with m show ?thesis by (simp add: proves_def)
qed

lemma proves_merge:
  assumes "prunes H a full" and "prunes H b full" and "sorted_tree full"
  obtains m where "merge_hash_trees a b = Some m" and "prunes H m full"
    and "\<And>p. proves H a full p \<or> proves H b full p \<Longrightarrow> proves H m full p"
proof -
  from merge_prunings [OF assms(1,2)] obtain m where
    m: "merge_hash_trees a b = Some m" "prunes H m full" "prunes H a m" "prunes H b m" by blast
  with proves_mono [OF _ _ m(2) assms(3)] show ?thesis by (intro that [of m]) auto
qed

text \<open>A tree that can be authenticated: a well-formed state has a sorted full tree, and for every path
  a witness that proves it.\<close>

locale authenticated_tree =
  fixes H :: "bytes \<Rightarrow> hash" and ok :: "'t \<Rightarrow> bool" and full :: "'t \<Rightarrow> hash_tree"
    and wit :: "'t \<Rightarrow> path \<Rightarrow> hash_tree option"
  assumes full_sorted: "ok t \<Longrightarrow> sorted_tree (full t)"
    and wit_proves: "ok t \<Longrightarrow> \<exists>w. wit t p = Some w \<and> proves H w (full t) p"
begin

lemma merged:
  "ok t \<Longrightarrow> prunes H acc (full t) \<Longrightarrow>
     \<exists>m. merge_witnesses (wit t) ps acc = Some m \<and> prunes H m (full t) \<and>
       (\<forall>p. p \<in> set ps \<or> proves H acc (full t) p \<longrightarrow> proves H m (full t) p)"
proof (induction ps arbitrary: acc)
  case Nil
  then show ?case by simp
next
  case (Cons p ps)
  from wit_proves [OF Cons.prems(1), of p] obtain w where
    w: "wit t p = Some w" "proves H w (full t) p" by blast
  then have "prunes H w (full t)" by (simp add: proves_def)
  from proves_merge [OF Cons.prems(2) this full_sorted [OF Cons.prems(1)]] obtain m where
    m: "merge_hash_trees acc w = Some m" "prunes H m (full t)"
    "\<And>q. proves H acc (full t) q \<or> proves H w (full t) q \<Longrightarrow> proves H m (full t) q" by blast
  from Cons.IH [OF Cons.prems(1) m(2)] obtain m' where
    m': "merge_witnesses (wit t) ps m = Some m'" "prunes H m' (full t)"
    "\<forall>q. q \<in> set ps \<or> proves H m (full t) q \<longrightarrow> proves H m' (full t) q" by blast
  have "proves H m' (full t) q" if "q \<in> set (p # ps) \<or> proves H acc (full t) q" for q
    using that m(3) [of q] w(2) m'(3) by auto
  with m' w(1) m(1) show ?case by auto
qed

lemma two_merged:
  assumes "ok t"
  shows "\<exists>w w' m m'. wit t p = Some w \<and> wit t q = Some w' \<and> merge_hash_trees w w' = Some m \<and>
    merge_witnesses (wit t) ps m = Some m' \<and> prunes H m' (full t) \<and>
    (\<forall>r \<in> {p, q} \<union> set ps. proves H m' (full t) r)"
proof -
  from wit_proves [OF assms, of p] wit_proves [OF assms, of q] obtain w w' where
    w: "wit t p = Some w" "proves H w (full t) p" "wit t q = Some w'" "proves H w' (full t) q" by blast
  then have "prunes H w (full t)" "prunes H w' (full t)" by (simp_all add: proves_def)
  from proves_merge [OF this full_sorted [OF assms]] obtain m where
    m: "merge_hash_trees w w' = Some m" "prunes H m (full t)"
    "\<And>r. proves H w (full t) r \<or> proves H w' (full t) r \<Longrightarrow> proves H m (full t) r" by blast
  from merged [OF assms m(2), of ps] obtain m' where
    "merge_witnesses (wit t) ps m = Some m'" "prunes H m' (full t)"
    "\<forall>r. r \<in> set ps \<or> proves H m (full t) r \<longrightarrow> proves H m' (full t) r" by blast
  with w m show ?thesis by blast
qed

end

subsection \<open>Well-formed certification trees\<close>

definition ct_ok :: "(bytes \<Rightarrow> hash) \<Rightarrow> certification_tree \<Rightarrow> bool" where
  "ct_ok H t \<longleftrightarrow> nt_wf H (vec_root_hash H) (\<lambda>_. True) t \<and> nt_tidy t \<and>
     (\<forall>p v. nt_get t p = Some v \<longrightarrow> v = [])"

text \<open>The full hash tree of a certification tree, with its label.\<close>

definition ct_as_hash_tree :: "(bytes \<Rightarrow> hash) \<Rightarrow> certification_tree \<Rightarrow> hash_tree" where
  "ct_as_hash_tree H t = Labeled PATH_PREFIX (nt_as_hash_tree H vec_as_hash_tree t)"

definition certified_paths :: "certification_tree \<Rightarrow> path set" where
  "certified_paths t = {p. nt_get t p = Some []}"

lemma vec_leaves_ok: "leaves_ok H (vec_root_hash H) vec_as_hash_tree (\<lambda>_. True)"
  by (simp add: leaves_ok_def vec.digest_tree vec.tree_sorted)

interpretation ct: authenticated_tree H "ct_ok H" "nt_as_hash_tree H vec_as_hash_tree"
  "ct_nested_witness H" for H
proof
  show "sorted_tree (nt_as_hash_tree H vec_as_hash_tree t)" if "ct_ok H t" for t
    using that nt_contract [OF vec_leaves_ok] by (auto simp: ct_ok_def)
  show "\<exists>w. ct_nested_witness H t p = Some w \<and> proves H w (nt_as_hash_tree H vec_as_hash_tree t) p"
    if "ct_ok H t" for t p
    using that nt_witness_total [OF vec_leaves_ok, of H t p]
    by (auto simp: ct_ok_def ct_nested_witness_def proves_def)
qed

lemma ct_digest: "ct_ok H t \<Longrightarrow> digest H (ct_as_hash_tree H t) = ct_root_hash H t"
  using nt_contract [OF vec_leaves_ok] by (auto simp: ct_as_hash_tree_def ct_root_hash_def ct_ok_def)

lemma ct_sorted: "ct_ok H t \<Longrightarrow> sorted_tree (ct_as_hash_tree H t)"
  by (simp add: ct_as_hash_tree_def ct.full_sorted)

lemma ct_lookup_Cons [simp]:
  "lookup_subtree (Labeled x w) (x # p) = lookup_subtree w p"
  by simp

subsection \<open>Presence in a tidy tree\<close>

lemma nt_contains_iff:
  "nt_tidy t \<Longrightarrow> nt_wf H vrh vok t \<Longrightarrow> p \<noteq> [] \<Longrightarrow>
     nt_contains_path t p \<longleftrightarrow> (\<exists>q v. nt_get t (p @ q) = Some v)"
proof (induction p arbitrary: t)
  case (Cons key p)
  show ?case
  proof (cases t)
    case (Nested tree)
    with Cons.prems have rb: "rb_wf H (nt_root_hash H vrh) tree"
      and kids: "\<And>k c. rb_abs tree k = Some c \<Longrightarrow> nt_tidy c \<and> \<not> nt_empty c \<and> nt_wf H vrh vok c" by auto
    show ?thesis
    proof (cases "rb_get tree key")
      case (Some c)
      then have c: "nt_tidy c" "\<not> nt_empty c" "nt_wf H vrh vok c" using kids rb.get_abs [OF rb] by auto
      show ?thesis
      proof (cases "p = []")
        case True
        with nt_tidy_leaf_below [OF c(1,3,2)] Some Nested show ?thesis by simp
      next
        case False
        with Cons.IH [OF c(1,3)] Some Nested show ?thesis by simp
      qed
    qed (use Nested in simp)
  qed simp
qed simp

lemma ct_contains_iff:
  assumes "ct_ok H t" and "p \<noteq> []"
  shows "nt_contains_path t p \<longleftrightarrow> (\<exists>q. p @ q \<in> certified_paths t)"
  using assms nt_contains_iff [of t H _ _ p] by (fastforce simp: ct_ok_def certified_paths_def)

text \<open>The full tree finds a path exactly when an entry stands at or below it, and its leaf exactly
  when the path is certified.\<close>

lemma ct_full_lookup:
  assumes ok: "ct_ok H t" and p: "p \<noteq> []"
  shows "(\<exists>n. lookup_subtree (ct_as_hash_tree H t) (PATH_PREFIX # p) = SLR_Found n) \<longleftrightarrow>
      (\<exists>q. p @ q \<in> certified_paths t)"
    and "lookup_subtree (ct_as_hash_tree H t) (PATH_PREFIX # p) = SLR_Absent \<longleftrightarrow>
      \<not> (\<exists>q. p @ q \<in> certified_paths t)"
    and "lookup_path (ct_as_hash_tree H t) (PATH_PREFIX # p) = LR_Found [] \<longleftrightarrow> p \<in> certified_paths t"
proof -
  from ok have wf: "nt_wf H (vec_root_hash H) (\<lambda>_. True) t" by (simp add: ct_ok_def)
  show "lookup_subtree (ct_as_hash_tree H t) (PATH_PREFIX # p) = SLR_Absent \<longleftrightarrow>
      \<not> (\<exists>q. p @ q \<in> certified_paths t)"
    using nt_lookup_contains [OF wf, of p] ct_contains_iff [OF ok p]
    by (simp add: ct_as_hash_tree_def del: lookup_subtree.simps)
  then show "(\<exists>n. lookup_subtree (ct_as_hash_tree H t) (PATH_PREFIX # p) = SLR_Found n) \<longleftrightarrow>
      (\<exists>q. p @ q \<in> certified_paths t)"
    using sorted_subtree_known [OF ct_sorted [OF ok], of "PATH_PREFIX # p"]
    by (cases "lookup_subtree (ct_as_hash_tree H t) (PATH_PREFIX # p)") auto
  show "lookup_path (ct_as_hash_tree H t) (PATH_PREFIX # p) = LR_Found [] \<longleftrightarrow> p \<in> certified_paths t"
    using nt_lookup_get [OF wf, of p "[]"] by (simp add: ct_as_hash_tree_def certified_paths_def)
qed

subsection \<open>Histories\<close>

datatype ct_op =
    CtInsert tree_entry
  | CtDelete tree_entry
  | CtDeleteByPath certification_path
  | CtClear

fun ct_step :: "(bytes \<Rightarrow> hash) \<Rightarrow> ct_op \<Rightarrow> certification_tree \<Rightarrow> certification_tree option" where
  "ct_step H (CtInsert e) t = ct_insert H t e"
| "ct_step H (CtDelete e) t = ct_delete H t e"
| "ct_step H (CtDeleteByPath p) t = ct_delete_by_path H t p"
| "ct_step H CtClear t = Some (ct_clear t)"

fun ct_run :: "(bytes \<Rightarrow> hash) \<Rightarrow> ct_op list \<Rightarrow> certification_tree \<Rightarrow> certification_tree option" where
  "ct_run H [] t = Some t"
| "ct_run H (a # ops) t = do { t \<leftarrow> ct_step H a t; ct_run H ops t }"

text \<open>The abstract machine: a set of certified paths, none of which is a prefix of another.\<close>

fun ct_spec_step :: "ct_op \<Rightarrow> path set \<Rightarrow> path set" where
  "ct_spec_step (CtInsert e) S =
     insert (entry_to_tree_path e)
       {p \<in> S. \<not> starts_with p (entry_to_tree_path e) \<and> \<not> starts_with (entry_to_tree_path e) p}"
| "ct_spec_step (CtDelete e) S = {p \<in> S. \<not> starts_with p (entry_to_tree_path e)}"
| "ct_spec_step (CtDeleteByPath q) S = {p \<in> S. \<not> starts_with p (path_to_tree_path q)}"
| "ct_spec_step CtClear S = {}"

definition ct_spec :: "ct_op list \<Rightarrow> path set \<Rightarrow> path set" where
  "ct_spec ops S = foldl (\<lambda>S a. ct_spec_step a S) S ops"

definition prefix_free :: "path set \<Rightarrow> bool" where
  "prefix_free S \<longleftrightarrow> (\<forall>p \<in> S. \<forall>q \<in> S. starts_with p q \<longrightarrow> p = q)"

lemma prefix_free_step: "prefix_free S \<Longrightarrow> prefix_free (ct_spec_step a S)"
  by (cases a) (auto simp: prefix_free_def)

lemma prefix_free_spec: "prefix_free S \<Longrightarrow> prefix_free (ct_spec ops S)"
  by (induction ops arbitrary: S) (simp_all add: ct_spec_def prefix_free_step)

lemma ct_ok_default [simp]: "ct_ok H ct_default"
  by (simp add: ct_ok_def ct_default_def)

lemma certified_paths_default [simp]: "certified_paths ct_default = {}"
  by (simp add: certified_paths_def ct_default_def)

lemma ct_ok_get: "ct_ok H t \<Longrightarrow> nt_get t p = (if p \<in> certified_paths t then Some [] else None)"
  by (cases "nt_get t p") (auto simp: ct_ok_def certified_paths_def)

text \<open>One operation refines one abstract step.\<close>

lemma ct_deleted:
  assumes "ct_ok H t"
  shows "\<exists>t'. nt_delete H (vec_root_hash H) t p = Some t' \<and> ct_ok H t' \<and>
    certified_paths t' = {q \<in> certified_paths t. \<not> starts_with q p}"
proof -
  from assms nt_delete_total [of H "vec_root_hash H" "\<lambda>_. True" t p] obtain t' where
    t': "nt_delete H (vec_root_hash H) t p = Some t'" "nt_wf H (vec_root_hash H) (\<lambda>_. True) t'"
    "nt_get t' = del_spec p (nt_get t)" "nt_tidy t'"
    by (auto simp: ct_ok_def)
  with assms show ?thesis
    by (auto simp: ct_ok_def certified_paths_def del_spec_def split: if_splits)
qed

lemma ct_inserted:
  assumes "ct_ok H t"
  shows "\<exists>t'. nt_insert (3 * length p + 1) H (vec_root_hash H) t p [] = Some t' \<and> ct_ok H t' \<and>
    certified_paths t' = insert p {q \<in> certified_paths t. \<not> starts_with q p \<and> \<not> starts_with p q}"
proof -
  from assms nt_insert_total [of H "vec_root_hash H" "\<lambda>_. True" t "[]" p "3 * length p + 1"] obtain t' where
    t': "nt_insert (3 * length p + 1) H (vec_root_hash H) t p [] = Some t'"
    "nt_wf H (vec_root_hash H) (\<lambda>_. True) t'" "nt_get t' = ins_spec p [] (nt_get t)" "nt_tidy t'"
    unfolding inserted_def ct_ok_def by blast
  with assms show ?thesis
    by (auto simp: ct_ok_def certified_paths_def ins_spec_def split: if_splits simp del: nt_insert.simps)
qed

lemma ct_step_refines:
  assumes "ct_ok H t"
  shows "\<exists>t'. ct_step H a t = Some t' \<and> ct_ok H t' \<and>
    certified_paths t' = ct_spec_step a (certified_paths t)"
proof (cases a)
  case (CtInsert e)
  with ct_inserted [OF assms] show ?thesis
    by (simp add: ct_insert_def Let_def del: nt_insert.simps)
next
  case CtClear
  then show ?thesis
    using ct_ok_default certified_paths_default
    by (simp add: ct_clear_def nt_clear_def ct_default_def)
qed (use ct_deleted [OF assms] in \<open>simp_all add: ct_delete_def ct_delete_by_path_def\<close>)

lemma ct_run_refines:
  "ct_ok H t \<Longrightarrow> \<exists>t'. ct_run H ops t = Some t' \<and> ct_ok H t' \<and>
     certified_paths t' = ct_spec ops (certified_paths t)"
proof (induction ops arbitrary: t)
  case Nil
  then show ?case by (simp add: ct_spec_def)
next
  case (Cons a ops)
  from ct_step_refines [OF Cons.prems, of a] obtain t1 where
    t1: "ct_step H a t = Some t1" "ct_ok H t1" "certified_paths t1 = ct_spec_step a (certified_paths t)"
    by blast
  with Cons.IH [OF t1(2)] show ?case by (simp add: ct_spec_def)
qed

subsection \<open>Properties\<close>

text \<open>C20: Every sequence of insertions, deletions, deletions by path and clears on an empty
  certification tree runs without a panic and refines the abstract machine on sets of certified
  paths; no certified path is a prefix of another.\<close>

theorem certification_tree_refines:
  "\<exists>t. ct_run H ops ct_default = Some t \<and> certified_paths t = ct_spec ops {} \<and>
     prefix_free (certified_paths t)"
  using ct_run_refines [OF ct_ok_default, of H ops] prefix_free_spec [of "{}" ops]
  by (auto simp: prefix_free_def)

text \<open>The witness for a wildcard entry, whenever the length check lets it be built, has the root
  hash of the tree, and for the requested path, the responding path and every more specific
  wildcard it shows either that the tree certifies nothing at or below it, or what it certifies:
  no lookup of such a path is unknown.\<close>

theorem wildcard_witness_proves:
  assumes "ct_run H ops ct_default = Some t" and "entry_path e = Wildcard_Path p"
    and "length (path_to_tree_path (Wildcard_Path p)) \<le> length (path_to_tree_path (Exact_Path url))"
  shows "\<exists>w ps. more_specific_wildcards_for (path_to_tree_path (Exact_Path url))
        (path_to_tree_path (Wildcard_Path p)) = Some ps \<and>
      ct_witness H t e url = Some (Inr w) \<and> digest H w = ct_root_hash H t \<and>
      (\<forall>q \<in> {path_to_tree_path (Exact_Path url), path_to_tree_path (Wildcard_Path p)} \<union> set ps.
         \<forall>rest. lookup_subtree w (PATH_PREFIX # q @ rest) =
           lookup_subtree (ct_as_hash_tree H t) (PATH_PREFIX # q @ rest))"
proof -
  let ?rq = "path_to_tree_path (Exact_Path url)" and ?rs = "path_to_tree_path (Wildcard_Path p)"
  have ok: "ct_ok H t" using ct_run_refines [OF ct_ok_default, of H ops] assms(1) by auto
  obtain ps where ps: "more_specific_wildcards_for ?rq ?rs = Some ps"
    using wildcards_terminate by blast
  from ct.two_merged [OF ok, of ?rq ?rs ps] obtain w1 w2 m m' where
    w: "ct_nested_witness H t ?rq = Some w1" "ct_nested_witness H t ?rs = Some w2"
    "merge_hash_trees w1 w2 = Some m" "merge_witnesses (ct_nested_witness H t) ps m = Some m'"
    "prunes H m' (nt_as_hash_tree H vec_as_hash_tree t)"
    "\<forall>r \<in> {?rq, ?rs} \<union> set ps. proves H m' (nt_as_hash_tree H vec_as_hash_tree t) r" by blast
  have "ct_witness H t e url = Some (Inr (Labeled PATH_PREFIX m'))"
    using assms(2,3) ps w(1-4) by (simp add: ct_witness_def Let_def del: path_to_tree_path.simps)
  moreover have "digest H (Labeled PATH_PREFIX m') = ct_root_hash H t"
    using ct_digest [OF ok] prunes_digest [OF w(5)] by (simp add: ct_as_hash_tree_def)
  moreover have "\<forall>q \<in> {?rq, ?rs} \<union> set ps. \<forall>rest.
      lookup_subtree (Labeled PATH_PREFIX m') (PATH_PREFIX # q @ rest) =
      lookup_subtree (ct_as_hash_tree H t) (PATH_PREFIX # q @ rest)"
    using w(6) by (simp add: proves_def ct_as_hash_tree_def del: path_to_tree_path.simps)
  ultimately show ?thesis using ps by blast
qed

theorem wildcard_witness_proves_witness:
  "\<exists>t w. ct_run pad_hash [CtInsert \<lparr>entry_path = Wildcard_Path (str_bytes ''/a''),
        entry_certification = certification_skip pad_hash\<rparr>] ct_default = Some t \<and>
      ct_witness pad_hash t \<lparr>entry_path = Wildcard_Path (str_bytes ''/a''),
        entry_certification = certification_skip pad_hash\<rparr> (str_bytes ''/a/b'') = Some (Inr w) \<and>
      digest pad_hash w = ct_root_hash pad_hash t"
proof -
  let ?e = "\<lparr>entry_path = Wildcard_Path (str_bytes ''/a''),
    entry_certification = certification_skip pad_hash\<rparr>"
  obtain t where t: "ct_run pad_hash [CtInsert ?e] ct_default = Some t"
    using ct_run_refines [OF ct_ok_default, of pad_hash "[CtInsert ?e]"] by auto
  have "length (path_to_tree_path (Wildcard_Path (str_bytes ''/a'')))
      \<le> length (path_to_tree_path (Exact_Path (str_bytes ''/a/b'')))"
    by (simp add: path_to_segments_def str_bytes_def ends_with_def)
  with wildcard_witness_proves [OF t, of ?e "str_bytes ''/a''" "str_bytes ''/a/b''"] t
  show ?thesis by (auto simp del: path_to_tree_path.simps ct_run.simps)
qed

end
