(* ===== verification/Rust_Comp.thy ===== *)
theory Rust_Comp
  imports Rust_Prelude
begin

text \<open>
  Computations on a mutable state, as the code has them behind \<^verbatim>\<open>&mut self\<close> and \<^verbatim>\<open>RefCell\<close>: a
  computation takes the state and returns a result with the new state, which an early return with
  \<^verbatim>\<open>?\<close> keeps. \<^term>\<open>None\<close> is a panic. The verification of certificates threads its signature cache
  through them, the asset router its tree and its maps.
\<close>

type_synonym ('c, 'e, 'a) comp = "'c \<Rightarrow> (('e + 'a) \<times> 'c) option"

text \<open>\<open>seq m f\<close> is \<^verbatim>\<open>let x = m?; f(x)\<close>, \<open>pure\<close> a result that does not touch the cache, \<open>no_panic\<close> a
  value whose computation may panic.\<close>

definition seq :: "('c, 'e, 'a) comp \<Rightarrow> ('a \<Rightarrow> ('c, 'e, 'b) comp) \<Rightarrow> ('c, 'e, 'b) comp" where
  "seq m f c =
     (case m c of
        None \<Rightarrow> None
      | Some (Inl e, c') \<Rightarrow> Some (Inl e, c')
      | Some (Inr x, c') \<Rightarrow> f x c')"

definition pure :: "'e + 'a \<Rightarrow> ('c, 'e, 'a) comp" where
  "pure r c = Some (r, c)"

definition no_panic :: "'a option \<Rightarrow> ('c, 'e, 'a) comp" where
  "no_panic r c = map_option (\<lambda>x. (Inr x, c)) r"

definition map_comp_err :: "('e \<Rightarrow> 'f) \<Rightarrow> ('c, 'e, 'a) comp \<Rightarrow> ('c, 'f, 'a) comp" where
  "map_comp_err f m c = map_option (\<lambda>(r, c'). (map_err f r, c')) (m c)"

lemma seq_Ok: "seq m f c = Some (Inr y, c') \<longleftrightarrow>
    (\<exists>x c1. m c = Some (Inr x, c1) \<and> f x c1 = Some (Inr y, c'))"
  by (auto simp: seq_def split: option.splits sum.splits prod.splits)

lemma seq_OkE:
  assumes "seq m f c = Some (Inr y, c')"
  obtains x c1 where "m c = Some (Inr x, c1)" and "f x c1 = Some (Inr y, c')"
  using assms by (auto simp: seq_Ok)

lemma pure_Ok [simp]: "pure r c = Some (Inr x, c') \<longleftrightarrow> r = Inr x \<and> c' = c"
  by (auto simp: pure_def)

lemma no_panic_Ok [simp]: "no_panic r c = Some (Inr x, c') \<longleftrightarrow> r = Some x \<and> c' = c"
  by (auto simp: no_panic_def)

lemma map_comp_err_Ok [simp]: "map_comp_err f m c = Some (Inr x, c') \<longleftrightarrow> m c = Some (Inr x, c')"
  by (auto simp: map_comp_err_def)

text \<open>A property of the state that a computation keeps, whatever it returns.\<close>

definition keeps :: "('c \<Rightarrow> bool) \<Rightarrow> ('c, 'e, 'a) comp \<Rightarrow> bool" where
  "keeps P m \<longleftrightarrow> (\<forall>c r c'. P c \<longrightarrow> m c = Some (r, c') \<longrightarrow> P c')"

lemma keepsD: "keeps P m \<Longrightarrow> m c = Some (r, c') \<Longrightarrow> P c \<Longrightarrow> P c'"
  by (auto simp: keeps_def)

lemma keeps_pure [simp, intro]: "keeps P (pure r)" "keeps P (no_panic x)"
  by (auto simp: keeps_def pure_def no_panic_def)

lemma keeps_map_comp_err [simp]: "keeps P m \<Longrightarrow> keeps P (map_comp_err f m)"
  by (auto simp: keeps_def map_comp_err_def)

lemma keeps_seq:
  assumes "keeps P m" and "\<And>x c c'. m c = Some (Inr x, c') \<Longrightarrow> keeps P (f x)"
  shows "keeps P (seq m f)"
  unfolding keeps_def
proof (intro allI impI)
  fix c r c'
  assume P: "P c" and run: "seq m f c = Some (r, c')"
  then obtain r1 c1 where m: "m c = Some (r1, c1)" by (auto simp: seq_def split: option.splits)
  with P assms(1) have "P c1" by (auto simp: keeps_def)
  with run m assms(2) show "P c'" by (auto simp: seq_def keeps_def split: sum.splits)
qed

subsection \<open>Loops\<close>

text \<open>\<^verbatim>\<open>for x in xs { f(x)? }\<close>, and a step that only changes the state.\<close>

fun for_each :: "('a \<Rightarrow> ('c, 'e, unit) comp) \<Rightarrow> 'a list \<Rightarrow> ('c, 'e, unit) comp" where
  "for_each f [] = pure (Inr ())"
| "for_each f (x # xs) = seq (f x) (\<lambda>_. for_each f xs)"

definition update :: "('c \<Rightarrow> 'c) \<Rightarrow> ('c, 'e, unit) comp" where
  "update f c = Some (Inr (), f c)"

definition update_partial :: "('c \<Rightarrow> 'c option) \<Rightarrow> ('c, 'e, unit) comp" where
  "update_partial f c = map_option (\<lambda>c'. (Inr (), c')) (f c)"

text \<open>From the states with a property the computation does not panic and keeps the property.\<close>

definition runs :: "('c \<Rightarrow> bool) \<Rightarrow> ('c, 'e, 'a) comp \<Rightarrow> bool" where
  "runs P m \<longleftrightarrow> (\<forall>c. P c \<longrightarrow> (\<exists>r c'. m c = Some (r, c') \<and> P c'))"

lemma runsE:
  assumes "runs P m" and "P c"
  obtains r c' where "m c = Some (r, c')" and "P c'"
  using assms by (auto simp: runs_def)

lemma runs_pure [simp, intro]: "runs P (pure r)"
  by (simp add: runs_def pure_def)

lemma runs_update: "(\<And>c. P c \<Longrightarrow> P (f c)) \<Longrightarrow> runs P (update f)"
  by (simp add: runs_def update_def)

lemma runs_update_partial: "(\<And>c. P c \<Longrightarrow> \<exists>c'. f c = Some c' \<and> P c') \<Longrightarrow> runs P (update_partial f)"
  by (fastforce simp: runs_def update_partial_def)

lemma runs_seq:
  assumes "runs P m" and "\<And>x c c'. m c = Some (Inr x, c') \<Longrightarrow> runs P (f x)"
  shows "runs P (seq m f)"
  unfolding runs_def
proof (intro allI impI)
  fix c
  assume "P c"
  with assms(1) obtain r c' where m: "m c = Some (r, c')" "P c'" by (rule runsE)
  then show "\<exists>r c'. seq m f c = Some (r, c') \<and> P c'"
    using assms(2) by (cases r) (auto simp: seq_def runs_def)
qed

lemma runs_for_each: "(\<And>x. x \<in> set xs \<Longrightarrow> runs P (f x)) \<Longrightarrow> runs P (for_each f xs)"
  by (induction xs) (auto intro!: runs_seq)

end
