(* ===== verification/Certificate_Verification.thy ===== *)
theory Certificate_Verification
  imports Hash_Tree_Pruning Cbor Rust_Comp
begin

text \<open>
  The certificate verification of \<^verbatim>\<open>packages/ic-certificate-verification\<close>: the DER prefix of a key,
  the canister ranges of a delegation, the time window, the signature over the root hash and the
  cache of verified signatures. The BLS library, the LRU cache, the leb128 reader and the principals
  of candid are parameters. A computation threads the cache; \<^term>\<open>None\<close> is a panic.
\<close>

subsection \<open>Libraries\<close>

text \<open>\<^verbatim>\<open>SizedCache\<close> of the crate \<^verbatim>\<open>cached\<close>: a lookup says whether the key is present and updates the
  recency order.\<close>

record 'c cache_lib =
  cache_with_size :: "nat \<Rightarrow> 'c"
  cache_get :: "hash \<Rightarrow> 'c \<Rightarrow> bool \<times> 'c"
  cache_set :: "hash \<Rightarrow> 'c \<Rightarrow> 'c"

text \<open>Its documentation: the keys are those set, less evicted ones.\<close>

definition cache_documented :: "'c cache_lib \<Rightarrow> ('c \<Rightarrow> hash set) \<Rightarrow> bool" where
  "cache_documented cl keys \<longleftrightarrow>
     (\<forall>n. keys (cache_with_size cl n) = {}) \<and>
     (\<forall>k c. fst (cache_get cl k c) \<longleftrightarrow> k \<in> keys c) \<and>
     (\<forall>k c. keys (snd (cache_get cl k c)) = keys c) \<and>
     (\<forall>k c. keys (cache_set cl k c) \<subseteq> insert k (keys c))"

text \<open>A concrete cache with this behaviour.\<close>

definition lru_ref :: "(nat \<times> hash list) cache_lib" where
  "lru_ref = \<lparr>
     cache_with_size = (\<lambda>n. (n, [])),
     cache_get = (\<lambda>k (n, ks). if k \<in> set ks then (True, (n, k # remove1 k ks)) else (False, (n, ks))),
     cache_set = (\<lambda>k (n, ks). (n, take n (k # remove1 k ks)))\<rparr>"

lemma lru_ref_documented [simp]: "cache_documented lru_ref (set \<circ> snd)"
proof -
  have "set (remove1 k ks) \<subseteq> set ks" for k :: hash and ks by (rule set_remove1_subset)
  moreover have "insert k (set (remove1 k ks)) = set ks" if "k \<in> set ks" for k :: hash and ks
  proof
    show "insert k (set (remove1 k ks)) \<subseteq> set ks" using that set_remove1_subset by fastforce
    show "set ks \<subseteq> insert k (set (remove1 k ks))"
      by (cases "distinct ks"; auto) (metis in_set_remove1)+
  qed
  ultimately show ?thesis
    by (fastforce simp: cache_documented_def lru_ref_def split: prod.splits dest: in_set_takeD)
qed

text \<open>\<^verbatim>\<open>core_verify\<close> takes the signature, the message and the key, and is true for \<^verbatim>\<open>BLS_OK\<close>.
  \<open>leb_read\<close> returns the number, or the rest of the slice on an error. \<open>from_slice\<close> panics on more
  than 29 bytes; \<^typ>\<open>'p\<close> are the principals with their order.\<close>

record ('e, 'p, 'c) cert_lib =
  cl_nom :: "'e nom_lib"
  cl_cache :: "'c cache_lib"
  core_verify :: "bytes \<Rightarrow> bytes \<Rightarrow> bytes \<Rightarrow> bool"
  leb_read :: "bytes \<Rightarrow> bytes + 64 word"
  from_slice :: "bytes \<Rightarrow> 'p option"
  to_text :: "'p \<Rightarrow> bytes"

subsection \<open>Errors\<close>

datatype ('e, 'p) certificate_error =
    DerKeyLengthMismatch nat nat
  | DerPrefixMismatch bytes bytes
  | TimeTooFarInTheFuture "128 word" "128 word"
  | TimeTooFarInThePast "128 word" "128 word"
  | PrincipalOutOfRange 'p "('p \<times> 'p) list"
  | SubnetCanisterIdRangesNotFound "bytes list"
  | SubnetPublicKeyNotFound "bytes list"
  | MissingTimePathInTree "bytes list"
  | TimeDecodingFailed bytes
  | SignatureVerificationFailed
  | CertCborDecodingFailed "'e cbor_error"
  | CertificateHasTooManyDelegations

subsection \<open>Keys and ranges\<close>

definition IC_STATE_ROOT_DOMAIN_SEPARATOR :: bytes where
  "IC_STATE_ROOT_DOMAIN_SEPARATOR = 0x0D # str_bytes ''ic-state-root''"

definition DER_PREFIX :: bytes where
  "DER_PREFIX =
     [0x30, 0x81, 0x82, 0x30, 0x1d, 0x06, 0x0d, 0x2b, 0x06, 0x01, 0x04, 0x01, 0x82, 0xdc, 0x7c, 0x05,
      0x03, 0x01, 0x02, 0x01, 0x06, 0x0c, 0x2b, 0x06, 0x01, 0x04, 0x01, 0x82, 0xdc, 0x7c, 0x05, 0x03,
      0x02, 0x01, 0x03, 0x61, 0x00]"

definition KEY_LENGTH :: nat where
  "KEY_LENGTH = 96"

definition extract_der :: "bytes \<Rightarrow> ('e, 'p) certificate_error + bytes" where
  "extract_der buf =
     (let expected_length = length DER_PREFIX + KEY_LENGTH
      in if length buf \<noteq> expected_length
         then Inl (DerKeyLengthMismatch expected_length (length buf))
         else let pre = take (length DER_PREFIX) buf
              in if pre \<noteq> DER_PREFIX then Inl (DerPrefixMismatch DER_PREFIX pre)
                 else Inr (drop (length DER_PREFIX) buf))"

definition principal_is_within_ranges :: "'p::linorder \<Rightarrow> ('p \<times> 'p) list \<Rightarrow> bool" where
  "principal_is_within_ranges p ranges = list_ex (\<lambda>r. fst r \<le> p \<and> p \<le> snd r) ranges"

subsection \<open>Signatures\<close>

definition signature_cache_entry :: "(bytes \<Rightarrow> hash) \<Rightarrow> bytes \<Rightarrow> bytes \<Rightarrow> bytes \<Rightarrow> hash" where
  "signature_cache_entry H pk sig msg = H (pk @ sig @ msg)"

definition SIZE_OF_GLOBAL_CACHE :: nat where
  "SIZE_OF_GLOBAL_CACHE = 100000"

definition signature_cache_new :: "'c cache_lib \<Rightarrow> nat \<Rightarrow> 'c" where
  "signature_cache_new cl max_size = cache_with_size cl max_size"

definition signature_cache_global :: "'c cache_lib \<Rightarrow> 'c" where
  "signature_cache_global cl = signature_cache_new cl SIZE_OF_GLOBAL_CACHE"

definition signature_cache_contains :: "'c cache_lib \<Rightarrow> hash \<Rightarrow> 'c \<Rightarrow> bool \<times> 'c" where
  "signature_cache_contains cl entry c = cache_get cl entry c"

definition signature_cache_insert :: "'c cache_lib \<Rightarrow> hash \<Rightarrow> 'c \<Rightarrow> 'c" where
  "signature_cache_insert cl entry c = cache_set cl entry c"

definition verify_signature ::
  "(bytes \<Rightarrow> hash) \<Rightarrow> ('e, 'p, 'c) cert_lib \<Rightarrow> bytes \<Rightarrow> bytes \<Rightarrow> bytes \<Rightarrow>
     ('c, ('e, 'p) certificate_error, unit) comp" where
  "verify_signature H lib pk sig msg c =
     (let entry = signature_cache_entry H pk sig msg;
          (found, c) = signature_cache_contains (cl_cache lib) entry c
      in if found then Some (Inr (), c)
         else if \<not> core_verify lib sig msg pk then Some (Inl SignatureVerificationFailed, c)
         else Some (Inr (), signature_cache_insert (cl_cache lib) entry c))"

definition verify_certificate_signature ::
  "(bytes \<Rightarrow> hash) \<Rightarrow> ('e, 'p, 'c) cert_lib \<Rightarrow> certificate \<Rightarrow> bytes \<Rightarrow>
     ('c, ('e, 'p) certificate_error, unit) comp" where
  "verify_certificate_signature H lib certificate der_key =
     (let root_hash = digest H (cert_tree certificate);
          msg = IC_STATE_ROOT_DOMAIN_SEPARATOR @ root_hash
      in seq (pure (extract_der der_key)) (\<lambda>pk.
         verify_signature H lib pk (cert_signature certificate) msg))"

subsection \<open>Time\<close>

definition saturating_add :: "128 word \<Rightarrow> 128 word \<Rightarrow> 128 word" where
  "saturating_add a b = (if 2 ^ 128 \<le> unat a + unat b then - 1 else a + b)"

definition saturating_sub :: "128 word \<Rightarrow> 128 word \<Rightarrow> 128 word" where
  "saturating_sub a b = (if a < b then 0 else a - b)"

definition verify_certificate_time ::
  "('e, 'p, 'c) cert_lib \<Rightarrow> certificate \<Rightarrow> 128 word \<Rightarrow> 128 word \<Rightarrow>
     ('e, 'p) certificate_error + unit" where
  "verify_certificate_time lib certificate current_time_ns allowed_certificate_time_offset =
     (let time_path = [str_bytes ''time'']
      in case lookup_path (cert_tree certificate) time_path of
        LR_Found encoded_certificate_time \<Rightarrow>
          and_then (map_err TimeDecodingFailed (leb_read lib encoded_certificate_time)) (\<lambda>time.
          let certificate_time = ucast time;
              max_certificate_time = saturating_add current_time_ns allowed_certificate_time_offset;
              min_certificate_time = saturating_sub current_time_ns allowed_certificate_time_offset
          in if max_certificate_time < certificate_time
             then Inl (TimeTooFarInTheFuture certificate_time max_certificate_time)
             else if certificate_time < min_certificate_time
             then Inl (TimeTooFarInThePast certificate_time min_certificate_time)
             else Inr ())
      | _ \<Rightarrow> Inl (MissingTimePathInTree time_path))"

subsection \<open>Certificates\<close>

definition verify_delegation ::
  "(bytes \<Rightarrow> hash) \<Rightarrow> ('e, 'p::linorder, 'c) cert_lib \<Rightarrow> delegation \<Rightarrow> bytes \<Rightarrow> bytes \<Rightarrow>
     ('c, ('e, 'p) certificate_error, bytes) comp" where
  "verify_delegation H lib delegation canister_id root_public_key =
     seq (pure (map_err CertCborDecodingFailed
            (certificate_from_cbor (cl_nom lib) (delegation_certificate delegation)))) (\<lambda>cert.
     seq (pure (if cert_delegation cert \<noteq> None then Inl CertificateHasTooManyDelegations else Inr ()))
       (\<lambda>_.
     seq (verify_certificate_signature H lib cert root_public_key) (\<lambda>_.
     let canister_range_path =
           [str_bytes ''subnet'', subnet_id delegation, str_bytes ''canister_ranges'']
     in seq (pure (case lookup_path (cert_tree cert) canister_range_path of
               LR_Found canister_range \<Rightarrow> Inr canister_range
             | _ \<Rightarrow> Inl (SubnetCanisterIdRangesNotFound canister_range_path))) (\<lambda>canister_range.
     seq (no_panic (from_slice lib canister_id)) (\<lambda>canister_id.
     seq (no_panic (parse_cbor_principals_array (cl_nom lib) (from_slice lib) canister_range))
       (\<lambda>parsed.
     seq (pure (map_err CertCborDecodingFailed parsed)) (\<lambda>canister_ranges.
     seq (pure (if \<not> principal_is_within_ranges canister_id canister_ranges
           then Inl (PrincipalOutOfRange canister_id canister_ranges) else Inr ())) (\<lambda>_.
     let public_key_path = [str_bytes ''subnet'', subnet_id delegation, str_bytes ''public_key'']
     in pure (case lookup_path (cert_tree cert) public_key_path of
          LR_Found subnet_public_key \<Rightarrow> Inr subnet_public_key
        | _ \<Rightarrow> Inl (SubnetPublicKeyNotFound public_key_path))))))))))"

definition certificate_verify ::
  "(bytes \<Rightarrow> hash) \<Rightarrow> ('e, 'p::linorder, 'c) cert_lib \<Rightarrow> certificate \<Rightarrow> bytes \<Rightarrow> bytes \<Rightarrow> 128 word \<Rightarrow>
     128 word \<Rightarrow> ('c, ('e, 'p) certificate_error, unit) comp" where
  "certificate_verify H lib certificate canister_id root_public_key current_time_ns offset =
     seq (pure (verify_certificate_time lib certificate current_time_ns offset)) (\<lambda>_.
     seq (case cert_delegation certificate of
            Some delegation \<Rightarrow> verify_delegation H lib delegation canister_id root_public_key
          | None \<Rightarrow> pure (Inr root_public_key)) (\<lambda>der_key.
     verify_certificate_signature H lib certificate der_key))"

text \<open>A concrete library for the instances of the properties: a signature is valid when it is the
  message, a timestamp is one byte, a principal is its bytes.\<close>

definition plain_cert :: "(string, bytes, nat \<times> hash list) cert_lib" where
  "plain_cert = \<lparr>
     cl_nom = nom_ref, cl_cache = lru_ref,
     core_verify = (\<lambda>sig msg pk. sig = msg),
     leb_read = (\<lambda>bs. case bs of [b] \<Rightarrow> Inr (ucast b) | _ \<Rightarrow> Inl bs),
     from_slice = (\<lambda>b. if length b \<le> 29 then Some b else None),
     to_text = (\<lambda>b. b)\<rparr>"

lemma plain_cert_simps [simp]:
  "cl_nom plain_cert = nom_ref" "cl_cache plain_cert = lru_ref"
  "core_verify plain_cert sig msg pk \<longleftrightarrow> sig = msg"
  "leb_read plain_cert [b] = Inr (ucast b)"
  "length b' \<le> 29 \<Longrightarrow> from_slice plain_cert b' = Some b'"
  by (simp_all add: plain_cert_def)

lemma length_DER_PREFIX [simp]: "length DER_PREFIX = 37"
  by (simp add: DER_PREFIX_def)

lemma extract_der_Ok: "extract_der key = Inr pk \<longleftrightarrow> key = DER_PREFIX @ pk \<and> length pk = KEY_LENGTH"
proof
  assume "extract_der key = Inr pk"
  then have len: "length key = 37 + KEY_LENGTH" "take 37 key = DER_PREFIX" "pk = drop 37 key"
    by (auto simp: extract_der_def Let_def split: if_splits)
  have "key = take 37 key @ drop 37 key" by simp
  with len show "key = DER_PREFIX @ pk \<and> length pk = KEY_LENGTH" by simp
qed (simp add: extract_der_def Let_def)

end
