(* ===== verification/Signature_Cache.thy ===== *)
theory Signature_Cache
  imports Certificate_Verification
begin

text \<open>
  The cache of verified signatures never changes a verdict: the contract of one cached check, the
  histories of checks on the global cache, and the interleavings of concurrent checks, which lock the
  cache for the lookup and again for the insertion.
\<close>

subsection \<open>Queries\<close>

text \<open>A query is a key, a signature and a message; the checks of the crate pass keys of 96 and
  messages of 46 bytes, so that the concatenation that is hashed determines the query.\<close>

type_synonym sig_query = "bytes \<times> bytes \<times> bytes"

fun sized :: "sig_query \<Rightarrow> bool" where
  "sized (pk, sig, msg) \<longleftrightarrow> length pk = KEY_LENGTH \<and> length msg = 46"

fun query_input :: "sig_query \<Rightarrow> bytes" where
  "query_input (pk, sig, msg) = pk @ sig @ msg"

fun query_entry :: "(bytes \<Rightarrow> hash) \<Rightarrow> sig_query \<Rightarrow> hash" where
  "query_entry H (pk, sig, msg) = signature_cache_entry H pk sig msg"

fun query_valid :: "('e, 'p, 'c) cert_lib \<Rightarrow> sig_query \<Rightarrow> bool" where
  "query_valid lib (pk, sig, msg) = core_verify lib sig msg pk"

fun check_query ::
  "(bytes \<Rightarrow> hash) \<Rightarrow> ('e, 'p, 'c) cert_lib \<Rightarrow> sig_query \<Rightarrow>
     ('c, ('e, 'p) certificate_error, unit) comp" where
  "check_query H lib (pk, sig, msg) = verify_signature H lib pk sig msg"

lemma query_entry_input: "query_entry H q = H (query_input q)"
  by (cases q) (simp add: signature_cache_entry_def)

lemma query_input_inj: "sized q \<Longrightarrow> sized q' \<Longrightarrow> query_input q = query_input q' \<Longrightarrow> q = q'"
proof -
  assume s: "sized q" "sized q'" and eq: "query_input q = query_input q'"
  obtain pk sig msg pk' sig' msg' where q: "q = (pk, sig, msg)" "q' = (pk', sig', msg')"
    by (cases q, cases q') auto
  from s q have len: "length pk = length pk'" "length msg = length msg'" by auto
  with eq q have "pk = pk'" "sig @ msg = sig' @ msg'" by auto
  with len q show "q = q'" by auto
qed

subsection \<open>The contract of the cache\<close>

text \<open>Every key in the cache is the entry of a valid query of a given set.\<close>

definition cache_sound ::
  "(bytes \<Rightarrow> hash) \<Rightarrow> ('e, 'p, 'c) cert_lib \<Rightarrow> ('c \<Rightarrow> hash set) \<Rightarrow> 'c \<Rightarrow> sig_query set \<Rightarrow> bool" where
  "cache_sound H lib keys c Q \<longleftrightarrow>
     (\<forall>q \<in> Q. sized q) \<and> (\<forall>k \<in> keys c. \<exists>q \<in> Q. query_entry H q = k \<and> query_valid lib q)"

lemma cache_sound_mono: "cache_sound H lib keys c Q \<Longrightarrow> Q \<subseteq> R \<Longrightarrow> (\<forall>q \<in> R. sized q) \<Longrightarrow> cache_sound H lib keys c R"
  by (fastforce simp: cache_sound_def)

lemma cache_sound_get:
  assumes "cache_documented (cl_cache lib) keys" and "cache_sound H lib keys c Q"
  shows "cache_sound H lib keys (snd (signature_cache_contains (cl_cache lib) k c)) Q"
  using assms by (simp add: cache_documented_def cache_sound_def signature_cache_contains_def)

lemma cache_sound_insert:
  assumes "cache_documented (cl_cache lib) keys" and "cache_sound H lib keys c Q"
    and "q \<in> Q" and "query_valid lib q"
  shows "cache_sound H lib keys (signature_cache_insert (cl_cache lib) (query_entry H q) c) Q"
proof -
  from assms(1) have "keys (signature_cache_insert (cl_cache lib) (query_entry H q) c)
      \<subseteq> insert (query_entry H q) (keys c)"
    by (simp add: cache_documented_def signature_cache_insert_def)
  with assms(2-4) show ?thesis unfolding cache_sound_def by blast
qed

lemma cache_hit_valid:
  assumes "cache_documented (cl_cache lib) keys" and "cache_sound H lib keys c Q"
    and "inj_on H (query_input ` Q)" and "q \<in> Q"
    and "fst (signature_cache_contains (cl_cache lib) (query_entry H q) c)"
  shows "query_valid lib q"
proof -
  from assms(1,5) have "query_entry H q \<in> keys c"
    by (simp add: cache_documented_def signature_cache_contains_def)
  with assms(2) obtain r where r: "r \<in> Q" "query_entry H r = query_entry H q" "query_valid lib r"
    unfolding cache_sound_def by blast
  with assms(3,4) have "query_input r = query_input q"
    by (auto simp: query_entry_input dest: inj_onD)
  with query_input_inj [of r q] assms(2,4) r show ?thesis by (auto simp: cache_sound_def)
qed

text \<open>A cached check gives the verdict of the BLS library and keeps the cache sound.\<close>

lemma check_query_exact:
  assumes doc: "cache_documented (cl_cache lib) keys" and so: "cache_sound H lib keys c Q"
    and inj: "inj_on H (query_input ` Q)" and q: "q \<in> Q"
  shows "\<exists>c'. check_query H lib q c =
      Some (if query_valid lib q then Inr () else Inl SignatureVerificationFailed, c') \<and>
    cache_sound H lib keys c' Q"
proof -
  obtain pk sig msg where qq: "q = (pk, sig, msg)" by (cases q)
  obtain found c1 where get: "signature_cache_contains (cl_cache lib) (query_entry H q) c = (found, c1)"
    by fastforce
  have c1: "cache_sound H lib keys c1 Q" using cache_sound_get [OF doc so] get by (metis snd_conv)
  show ?thesis
  proof (cases found)
    case True
    with cache_hit_valid [OF doc so inj q] get have "query_valid lib q" by simp
    with True get c1 qq show ?thesis by (simp add: verify_signature_def)
  next
    case False
    with get c1 qq cache_sound_insert [OF doc c1 q] show ?thesis
      by (cases "query_valid lib q") (simp_all add: verify_signature_def)
  qed
qed

subsection \<open>Histories\<close>

fun check_queries ::
  "(bytes \<Rightarrow> hash) \<Rightarrow> ('e, 'p, 'c) cert_lib \<Rightarrow> sig_query list \<Rightarrow> 'c \<Rightarrow>
     ((('e, 'p) certificate_error + unit) list \<times> 'c) option" where
  "check_queries H lib [] c = Some ([], c)"
| "check_queries H lib (q # qs) c =
     (case check_query H lib q c of
        None \<Rightarrow> None
      | Some (r, c) \<Rightarrow> map_option (\<lambda>(rs, c). (r # rs, c)) (check_queries H lib qs c))"

lemma check_queries_exact:
  assumes doc: "cache_documented (cl_cache lib) keys" and inj: "inj_on H (query_input ` Q)"
  shows "cache_sound H lib keys c Q \<Longrightarrow> set qs \<subseteq> Q \<Longrightarrow>
    \<exists>c'. check_queries H lib qs c =
      Some (map (\<lambda>q. if query_valid lib q then Inr () else Inl SignatureVerificationFailed) qs, c')"
proof (induction qs arbitrary: c)
  case (Cons q qs)
  from check_query_exact [OF doc Cons.prems(1) inj, of q] Cons.prems(2) obtain c1 where
    "check_query H lib q c =
      Some (if query_valid lib q then Inr () else Inl SignatureVerificationFailed, c1)"
    "cache_sound H lib keys c1 Q" by auto
  with Cons.IH [of c1] Cons.prems(2) show ?case by auto
qed simp

subsection \<open>Interleavings\<close>

text \<open>Concurrent checks: a check locks the cache to look its entry up, verifies the signature outside
  of the lock, and locks the cache again to insert the entry.\<close>

record 'c check_state =
  shared_cache :: 'c
  asked :: "sig_query set"
  in_check :: "sig_query set"
  verified :: "sig_query set"
  accepted :: "sig_query set"

definition check_init :: "('e, 'p, 'c) cert_lib \<Rightarrow> 'c check_state" where
  "check_init lib = \<lparr>shared_cache = signature_cache_global (cl_cache lib), asked = {}, in_check = {},
     verified = {}, accepted = {}\<rparr>"

inductive check_step ::
  "(bytes \<Rightarrow> hash) \<Rightarrow> ('e, 'p, 'c) cert_lib \<Rightarrow> 'c check_state \<Rightarrow> 'c check_state \<Rightarrow> bool"
  for H :: "bytes \<Rightarrow> hash" and lib :: "('e, 'p, 'c) cert_lib" where
  step_hit: "sized q \<Longrightarrow>
    signature_cache_contains (cl_cache lib) (query_entry H q) (shared_cache s) = (True, c) \<Longrightarrow>
    check_step H lib s
      (s\<lparr>shared_cache := c, asked := insert q (asked s), accepted := insert q (accepted s)\<rparr>)"
| step_miss: "sized q \<Longrightarrow>
    signature_cache_contains (cl_cache lib) (query_entry H q) (shared_cache s) = (False, c) \<Longrightarrow>
    check_step H lib s
      (s\<lparr>shared_cache := c, asked := insert q (asked s), in_check := insert q (in_check s)\<rparr>)"
| step_reject: "q \<in> in_check s \<Longrightarrow> \<not> query_valid lib q \<Longrightarrow>
    check_step H lib s (s\<lparr>in_check := in_check s - {q}\<rparr>)"
| step_verify: "q \<in> in_check s \<Longrightarrow> query_valid lib q \<Longrightarrow>
    check_step H lib s (s\<lparr>in_check := in_check s - {q}, verified := insert q (verified s)\<rparr>)"
| step_insert: "q \<in> verified s \<Longrightarrow>
    check_step H lib s
      (s\<lparr>shared_cache := signature_cache_insert (cl_cache lib) (query_entry H q) (shared_cache s),
        verified := verified s - {q}, accepted := insert q (accepted s)\<rparr>)"

inductive check_reachable ::
  "(bytes \<Rightarrow> hash) \<Rightarrow> ('e, 'p, 'c) cert_lib \<Rightarrow> 'c check_state \<Rightarrow> bool"
  for H :: "bytes \<Rightarrow> hash" and lib :: "('e, 'p, 'c) cert_lib" where
  reach_init: "check_reachable H lib (check_init lib)"
| reach_step: "check_reachable H lib s \<Longrightarrow> check_step H lib s s' \<Longrightarrow> check_reachable H lib s'"

definition check_inv ::
  "(bytes \<Rightarrow> hash) \<Rightarrow> ('e, 'p, 'c) cert_lib \<Rightarrow> ('c \<Rightarrow> hash set) \<Rightarrow> 'c check_state \<Rightarrow> bool" where
  "check_inv H lib keys s \<longleftrightarrow>
     cache_sound H lib keys (shared_cache s) (asked s) \<and> in_check s \<subseteq> asked s \<and>
     verified s \<subseteq> asked s \<and> accepted s \<subseteq> asked s \<and>
     (\<forall>q \<in> verified s \<union> accepted s. query_valid lib q)"

lemma check_init_inv:
  "cache_documented (cl_cache lib) keys \<Longrightarrow> check_inv H lib keys (check_init lib)"
  by (simp add: check_inv_def check_init_def cache_sound_def cache_documented_def
      signature_cache_global_def signature_cache_new_def)

lemma check_step_asked: "check_step H lib s s' \<Longrightarrow> asked s \<subseteq> asked s'"
  by (cases rule: check_step.cases) auto

lemma check_step_inv:
  assumes doc: "cache_documented (cl_cache lib) keys" and step: "check_step H lib s s'"
    and inv: "check_inv H lib keys s" and inj: "inj_on H (query_input ` asked s')"
  shows "check_inv H lib keys s'"
  using step
proof (cases rule: check_step.cases)
  case (step_hit q c)
  with inv have so: "cache_sound H lib keys (shared_cache s) (insert q (asked s))"
    by (auto simp: check_inv_def cache_sound_def)
  have "query_valid lib q"
    by (rule cache_hit_valid [OF doc so]) (use step_hit inj in auto)
  moreover have "cache_sound H lib keys c (insert q (asked s))"
    using cache_sound_get [OF doc so, of "query_entry H q"] step_hit by simp
  ultimately show ?thesis using inv step_hit(1) by (auto simp: check_inv_def)
next
  case (step_miss q c)
  with inv have so: "cache_sound H lib keys (shared_cache s) (insert q (asked s))"
    by (auto simp: check_inv_def cache_sound_def)
  have "cache_sound H lib keys c (insert q (asked s))"
    using cache_sound_get [OF doc so, of "query_entry H q"] step_miss by simp
  with inv step_miss(1) show ?thesis by (auto simp: check_inv_def)
next
  case (step_insert q)
  with inv have "cache_sound H lib keys (shared_cache s) (asked s)" "q \<in> asked s" "query_valid lib q"
    by (auto simp: check_inv_def)
  from cache_sound_insert [OF doc this] inv step_insert show ?thesis by (auto simp: check_inv_def)
qed (use inv in \<open>auto simp: check_inv_def\<close>)

lemma check_reachable_inv:
  assumes doc: "cache_documented (cl_cache lib) keys"
  shows "check_reachable H lib s \<Longrightarrow> inj_on H (query_input ` asked s) \<Longrightarrow> check_inv H lib keys s"
proof (induction s rule: check_reachable.induct)
  case reach_init
  show ?case by (rule check_init_inv [OF doc])
next
  case (reach_step s s')
  have "inj_on H (query_input ` asked s)"
    by (rule inj_on_subset [OF reach_step.prems]) (use check_step_asked [OF reach_step.hyps(2)] in auto)
  with reach_step.IH check_step_inv [OF doc reach_step.hyps(2) _ reach_step.prems] show ?case by blast
qed

subsection \<open>Properties\<close>

text \<open>C13: The signature cache never changes a verdict: starting from the empty global cache, a sequence
  of checks of keys of 96 and messages of 46 bytes answers each query as the BLS library does, unless
  the hash function collides on the queries; whatever the cache evicts.\<close>

theorem signature_cache_transparent:
  assumes "cache_documented (cl_cache lib) keys" and "\<forall>q \<in> set qs. sized q"
    and "inj_on H (query_input ` set qs)"
  shows "\<exists>c. check_queries H lib qs (signature_cache_global (cl_cache lib)) =
    Some (map (\<lambda>q. if query_valid lib q then Inr () else Inl SignatureVerificationFailed) qs, c)"
proof -
  have "cache_sound H lib keys (signature_cache_global (cl_cache lib)) (set qs)"
    using assms(1,2) by (simp add: cache_sound_def cache_documented_def signature_cache_global_def
        signature_cache_new_def)
  from check_queries_exact [OF assms(1,3) this] show ?thesis by simp
qed

theorem signature_cache_transparent_witness:
  "\<exists>c. check_queries pad_hash plain_cert
      [(replicate 96 0, replicate 46 1, replicate 46 1), (replicate 96 0, replicate 46 1, replicate 46 1),
       (replicate 96 2, [], replicate 46 1)]
      (signature_cache_global (cl_cache plain_cert)) =
    Some ([Inr (), Inr (), Inl SignatureVerificationFailed], c)"
proof -
  let ?q = "(replicate 96 0, replicate 46 1, replicate 46 1) :: sig_query"
    and ?r = "(replicate 96 2, [], replicate 46 1) :: sig_query"
  have "pad_hash (query_input ?q) \<noteq> pad_hash (query_input ?r)" by code_simp
  then have "inj_on pad_hash (query_input ` set [?q, ?q, ?r])"
    by (simp add: inj_on_def del: query_input.simps)
  from signature_cache_transparent [of plain_cert "set \<circ> snd" "[?q, ?q, ?r]", OF _ _ this]
  show ?thesis by (simp add: KEY_LENGTH_def)
qed



end
