(* ===== verification/Certificate_Chain.thy ===== *)
theory Certificate_Chain
  imports Signature_Cache
begin

text \<open>
  What it means that a certificate is accepted: its time lies in the window, and its root hash is
  signed by the root key or by the key of a subnet whose delegation, signed by the root key, covers
  the canister.
\<close>

subsection \<open>The time window\<close>

lemma unat_saturating_add: "unat (saturating_add a b) = min (unat a + unat b) (2 ^ 128 - 1)"
proof (cases "2 ^ 128 \<le> unat a + unat b")
  case True
  have "unat (- 1 :: 128 word) = 2 ^ 128 - 1" by (simp add: unsigned_minus_1_eq_mask mask_eq_exp_minus_1)
  with True show ?thesis by (simp add: saturating_add_def)
next
  case False
  then have "unat (a + b) = unat a + unat b" by (simp add: unat_add_lem [symmetric])
  with False show ?thesis by (simp add: saturating_add_def)
qed

lemma unat_saturating_sub: "unat (saturating_sub a b) = unat a - unat b"
  by (auto simp: saturating_sub_def word_less_nat_alt unat_sub word_le_nat_alt)

lemma unat_ucast_time: "unat (ucast (t :: 64 word) :: 128 word) = unat t"
  proof -
  have "unat t < 2 ^ 128" using unsigned_less [of t, where 'a = nat] by simp
  then show ?thesis by (simp add: unsigned_ucast_eq take_bit_nat_eq_self)
qed

definition time_in_window :: "128 word \<Rightarrow> 128 word \<Rightarrow> 64 word \<Rightarrow> bool" where
  "time_in_window now offset t \<longleftrightarrow>
     unat now \<le> unat t + unat offset \<and> unat t \<le> unat now + unat offset"

lemma window_saturating:
  "time_in_window now offset t \<longleftrightarrow>
     \<not> saturating_add now offset < ucast t \<and> \<not> ucast t < saturating_sub now offset"
proof -
  have "unat t < 2 ^ 128" using unsigned_less [of t, where 'a = nat] by simp
  then have "\<not> min (unat now + unat offset) (2 ^ 128 - 1) < unat t \<longleftrightarrow> unat t \<le> unat now + unat offset"
    by (simp add: min_def not_less)
  moreover have "\<not> unat t < unat now - unat offset \<longleftrightarrow> unat now \<le> unat t + unat offset" by arith
  ultimately show ?thesis
    by (auto simp: time_in_window_def word_less_nat_alt unat_saturating_add unat_saturating_sub
        unat_ucast_time)
qed

lemma verify_time_iff:
  "verify_certificate_time lib cert now offset = Inr () \<longleftrightarrow>
     (\<exists>bs t. lookup_path (cert_tree cert) [str_bytes ''time''] = LR_Found bs \<and>
        leb_read lib bs = Inr t \<and> time_in_window now offset t)"
  by (auto simp: verify_certificate_time_def Let_def and_then_eq_Inr window_saturating
      split: lookup_result.splits if_splits)

subsection \<open>Signatures\<close>

definition signed_message :: "(bytes \<Rightarrow> hash) \<Rightarrow> certificate \<Rightarrow> bytes" where
  "signed_message H cert = IC_STATE_ROOT_DOMAIN_SEPARATOR @ digest H (cert_tree cert)"

definition signed_by ::
  "(bytes \<Rightarrow> hash) \<Rightarrow> ('e, 'p, 'c) cert_lib \<Rightarrow> certificate \<Rightarrow> bytes \<Rightarrow> bool" where
  "signed_by H lib cert der_key \<longleftrightarrow>
     (\<exists>pk. der_key = DER_PREFIX @ pk \<and> length pk = KEY_LENGTH \<and>
        core_verify lib (cert_signature cert) (signed_message H cert) pk)"

text \<open>The query that a check of a certificate asks.\<close>

definition cert_query :: "(bytes \<Rightarrow> hash) \<Rightarrow> certificate \<Rightarrow> bytes \<Rightarrow> sig_query" where
  "cert_query H cert pk = (pk, cert_signature cert, signed_message H cert)"

definition cert_queries :: "(bytes \<Rightarrow> hash) \<Rightarrow> certificate \<Rightarrow> bytes \<Rightarrow> sig_query set" where
  "cert_queries H cert der_key =
     {cert_query H cert pk | pk. der_key = DER_PREFIX @ pk \<and> length pk = KEY_LENGTH}"

lemma length_signed_message:
  "hash32 H \<Longrightarrow> well_sized (cert_tree cert) \<Longrightarrow> length (signed_message H cert) = 46"
  by (simp add: signed_message_def IC_STATE_ROOT_DOMAIN_SEPARATOR_def)

lemma cert_queries_sized:
  "hash32 H \<Longrightarrow> well_sized (cert_tree cert) \<Longrightarrow> q \<in> cert_queries H cert der_key \<Longrightarrow> sized q"
  by (auto simp: cert_queries_def cert_query_def length_signed_message)

lemma verify_certificate_signature_iff:
  fixes lib :: "('e, 'p, 'c) cert_lib"
  assumes doc: "cache_documented (cl_cache lib) keys" and so: "cache_sound H lib keys c Q"
    and inj: "inj_on H (query_input ` Q)" and q: "cert_queries H cert der_key \<subseteq> Q"
  shows "\<exists>r c'. verify_certificate_signature H lib cert der_key c = Some (r, c') \<and>
    (r = Inr () \<longleftrightarrow> signed_by H lib cert der_key) \<and> cache_sound H lib keys c' Q"
proof (cases "extract_der der_key :: ('e, 'p) certificate_error + bytes")
  case (Inl e)
  have "\<not> signed_by H lib cert der_key"
  proof
    assume "signed_by H lib cert der_key"
    then obtain pk where "(extract_der der_key :: ('e, 'p) certificate_error + bytes) = Inr pk"
      by (auto simp: signed_by_def extract_der_Ok)
    with Inl show False by simp
  qed
  with Inl so show ?thesis
    by (simp add: verify_certificate_signature_def Let_def seq_def pure_def)
next
  case (Inr pk)
  then have pk: "der_key = DER_PREFIX @ pk" "length pk = KEY_LENGTH" by (simp_all add: extract_der_Ok)
  then have "cert_query H cert pk \<in> Q" using q by (auto simp: cert_queries_def)
  from check_query_exact [OF doc so inj this] obtain c' where
    c': "check_query H lib (cert_query H cert pk) c =
      Some (if query_valid lib (cert_query H cert pk) then Inr () else Inl SignatureVerificationFailed, c')"
    "cache_sound H lib keys c' Q" by blast
  have "signed_by H lib cert der_key \<longleftrightarrow> query_valid lib (cert_query H cert pk)"
    using pk by (auto simp: signed_by_def cert_query_def)
  with c' Inr show ?thesis
    by (auto simp: verify_certificate_signature_def Let_def seq_def pure_def cert_query_def signed_message_def)
qed

subsection \<open>Chains\<close>

text \<open>The key that a delegation gives to a canister.\<close>

definition delegated_key ::
  "(bytes \<Rightarrow> hash) \<Rightarrow> ('e, 'p::linorder, 'c) cert_lib \<Rightarrow> delegation \<Rightarrow> bytes \<Rightarrow> bytes \<Rightarrow> bytes \<Rightarrow> bool" where
  "delegated_key H lib d canister_id root_key key \<longleftrightarrow>
     (\<exists>cert range p ranges.
        certificate_from_cbor (cl_nom lib) (delegation_certificate d) = Inr cert \<and>
        cert_delegation cert = None \<and> signed_by H lib cert root_key \<and>
        lookup_path (cert_tree cert) [str_bytes ''subnet'', subnet_id d, str_bytes ''canister_ranges'']
          = LR_Found range \<and>
        from_slice lib canister_id = Some p \<and>
        parse_cbor_principals_array (cl_nom lib) (from_slice lib) range = Some (Inr ranges) \<and>
        (\<exists>r \<in> set ranges. fst r \<le> p \<and> p \<le> snd r) \<and>
        lookup_path (cert_tree cert) [str_bytes ''subnet'', subnet_id d, str_bytes ''public_key'']
          = LR_Found key)"

definition certificate_key ::
  "(bytes \<Rightarrow> hash) \<Rightarrow> ('e, 'p::linorder, 'c) cert_lib \<Rightarrow> certificate \<Rightarrow> bytes \<Rightarrow> bytes \<Rightarrow> bytes \<Rightarrow> bool" where
  "certificate_key H lib cert canister_id root_key key \<longleftrightarrow>
     (case cert_delegation cert of
        None \<Rightarrow> key = root_key
      | Some d \<Rightarrow> delegated_key H lib d canister_id root_key key)"

definition certificate_valid ::
  "(bytes \<Rightarrow> hash) \<Rightarrow> ('e, 'p::linorder, 'c) cert_lib \<Rightarrow> certificate \<Rightarrow> bytes \<Rightarrow> bytes \<Rightarrow> 128 word \<Rightarrow>
     128 word \<Rightarrow> bool" where
  "certificate_valid H lib cert canister_id root_key now offset \<longleftrightarrow>
     (\<exists>bs t. lookup_path (cert_tree cert) [str_bytes ''time''] = LR_Found bs \<and>
        leb_read lib bs = Inr t \<and> time_in_window now offset t) \<and>
     (\<exists>key. certificate_key H lib cert canister_id root_key key \<and> signed_by H lib cert key)"

text \<open>The queries a certificate can ask: of its own tree under any key, and of its delegation's
  certificate under the root key.\<close>

definition chain_queries ::
  "(bytes \<Rightarrow> hash) \<Rightarrow> ('e, 'p::linorder, 'c) cert_lib \<Rightarrow> certificate \<Rightarrow> bytes \<Rightarrow> sig_query set" where
  "chain_queries H lib cert root_key =
     (case cert_delegation cert of
        None \<Rightarrow> cert_queries H cert root_key
      | Some d \<Rightarrow>
          (case certificate_from_cbor (cl_nom lib) (delegation_certificate d) of
             Inl _ \<Rightarrow> {}
           | Inr dc \<Rightarrow> cert_queries H dc root_key \<union>
               (case lookup_path (cert_tree dc) [str_bytes ''subnet'', subnet_id d, str_bytes ''public_key''] of
                  LR_Found key \<Rightarrow> cert_queries H cert key
                | _ \<Rightarrow> {})))"

lemma parsed_tree_well_sized: "parsed_cbor_to_tree v = (Inr t :: 'e cbor_error + hash_tree) \<Longrightarrow> well_sized t"
  by (induction v arbitrary: t rule: parsed_cbor_to_tree.induct)
    (fastforce simp: and_then_eq_Inr split: cbor_hash_tree.splits cbor_value.splits list.splits if_splits)+

lemma certificate_from_cbor_well_sized:
  "certificate_from_cbor nm bs = Inr cert \<Longrightarrow> well_sized (cert_tree cert)"
  by (auto simp: certificate_from_cbor_def parsed_cbor_to_certificate_def and_then_eq_Inr
      dest!: parsed_tree_well_sized)

lemma chain_queries_sized:
  assumes "hash32 H" and "well_sized (cert_tree cert)" and "q \<in> chain_queries H lib cert root_key"
  shows "sized q"
proof -
  have sz: "q \<in> cert_queries H dc key \<Longrightarrow> well_sized (cert_tree dc) \<Longrightarrow> sized q" for dc key
    by (rule cert_queries_sized [OF assms(1)])
  show ?thesis
    using assms(2,3) certificate_from_cbor_well_sized [of "cl_nom lib"]
    by (auto simp: chain_queries_def simp del: lookup_path.simps intro: sz
        split: option.splits sum.splits lookup_result.splits)
qed

lemma within_ranges_iff:
  "principal_is_within_ranges p ranges \<longleftrightarrow> (\<exists>r \<in> set ranges. fst r \<le> p \<and> p \<le> snd r)"
  by (simp add: principal_is_within_ranges_def list_ex_iff)

lemma verify_delegation_iff:
  fixes lib :: "('e, 'p::linorder, 'c) cert_lib"
  assumes doc: "cache_documented (cl_cache lib) keys" and so: "cache_sound H lib keys c Q"
    and inj: "inj_on H (query_input ` Q)"
    and q: "\<And>dc. certificate_from_cbor (cl_nom lib) (delegation_certificate d) = Inr dc \<Longrightarrow>
      cert_queries H dc root_key \<subseteq> Q"
  shows "(\<exists>c'. verify_delegation H lib d canister_id root_key c = Some (Inr key, c')) \<longleftrightarrow>
      delegated_key H lib d canister_id root_key key"
    and "verify_delegation H lib d canister_id root_key c = Some (r, c') \<Longrightarrow> cache_sound H lib keys c' Q"
proof -
  have found: "(case r of LR_Found v \<Rightarrow> Inr v | _ \<Rightarrow> Inl e) = Inr v \<longleftrightarrow> r = LR_Found v"
    for r and e :: "('e, 'p) certificate_error" and v by (cases r) auto
  have guard: "(if b then Inl e else Inr ()) = Inr u \<longleftrightarrow> \<not> b" for b u and e :: "('e, 'p) certificate_error"
    by simp
  show "(\<exists>c'. verify_delegation H lib d canister_id root_key c = Some (Inr key, c')) \<longleftrightarrow>
      delegated_key H lib d canister_id root_key key"
  proof (cases "certificate_from_cbor (cl_nom lib) (delegation_certificate d)")
    case (Inl e)
    then show ?thesis by (simp add: verify_delegation_def delegated_key_def seq_Ok)
  next
    case (Inr dc)
    from verify_certificate_signature_iff [OF doc so inj q [OF Inr]] obtain r c1 where
      r: "verify_certificate_signature H lib dc root_key c = Some (r, c1)"
      "r = Inr () \<longleftrightarrow> signed_by H lib dc root_key" by blast
    show ?thesis
      using r(2) unfolding verify_delegation_def delegated_key_def Let_def within_ranges_iff [symmetric]
      by (auto simp: Inr r(1) seq_Ok found guard simp del: lookup_path.simps)
  qed
  show "cache_sound H lib keys c' Q"
    if v: "verify_delegation H lib d canister_id root_key c = Some (r, c')"
  proof -
    have "keeps (\<lambda>c. cache_sound H lib keys c Q) (verify_certificate_signature H lib dc root_key)"
      if "certificate_from_cbor (cl_nom lib) (delegation_certificate d) = Inr dc" for dc
      using verify_certificate_signature_iff [OF doc _ inj q [OF that]] by (fastforce simp: keeps_def)
    then have "keeps (\<lambda>c. cache_sound H lib keys c Q)
        (verify_delegation H lib d canister_id root_key :: ('c, ('e, 'p) certificate_error, bytes) comp)"
      unfolding verify_delegation_def Let_def by (auto intro!: keeps_seq)
    from keepsD [OF this v] so show ?thesis by simp
  qed
qed

lemma certificate_key_checked:
  fixes lib :: "('e, 'p::linorder, 'c) cert_lib"
  assumes doc: "cache_documented (cl_cache lib) keys" and so: "cache_sound H lib keys c Q"
    and inj: "inj_on H (query_input ` Q)" and q: "chain_queries H lib cert root_key \<subseteq> Q"
  fixes canister_id :: bytes
  defines "m \<equiv> (case cert_delegation cert of
      Some d \<Rightarrow> verify_delegation H lib d canister_id root_key | None \<Rightarrow> pure (Inr root_key))"
  shows "(\<exists>c'. m c = Some (Inr key, c')) \<longleftrightarrow> certificate_key H lib cert canister_id root_key key"
    and "m c = Some (Inr key, c') \<Longrightarrow> cache_sound H lib keys c' Q \<and> cert_queries H cert key \<subseteq> Q"
proof -
  have d: "cert_queries H dc root_key \<subseteq> Q"
    if "cert_delegation cert = Some d" "certificate_from_cbor (cl_nom lib) (delegation_certificate d) = Inr dc"
    for d dc
    using q that by (auto simp: chain_queries_def)
  show "(\<exists>c'. m c = Some (Inr key, c')) \<longleftrightarrow> certificate_key H lib cert canister_id root_key key"
    using verify_delegation_iff(1) [OF doc so inj d] unfolding m_def certificate_key_def
    by (cases "cert_delegation cert") auto
  show "cache_sound H lib keys c' Q \<and> cert_queries H cert key \<subseteq> Q" if m: "m c = Some (Inr key, c')"
  proof (cases "cert_delegation cert")
    case None
    with m so q show ?thesis by (auto simp: m_def chain_queries_def)
  next
    case (Some dl)
    with m have v: "verify_delegation H lib dl canister_id root_key c = Some (Inr key, c')"
      by (simp add: m_def)
    then have "delegated_key H lib dl canister_id root_key key"
      using verify_delegation_iff(1) [OF doc so inj d [OF Some]] by blast
    then have "cert_queries H cert key \<subseteq> Q"
      using q Some by (auto simp: delegated_key_def chain_queries_def simp del: lookup_path.simps)
    with verify_delegation_iff(2) [OF doc so inj d [OF Some] v] show ?thesis by simp
  qed
qed

lemma certificate_verify_iff:
  fixes lib :: "('e, 'p::linorder, 'c) cert_lib"
  assumes doc: "cache_documented (cl_cache lib) keys" and so: "cache_sound H lib keys c Q"
    and inj: "inj_on H (query_input ` Q)" and q: "chain_queries H lib cert root_key \<subseteq> Q"
  shows "(\<exists>c'. certificate_verify H lib cert canister_id root_key now offset c = Some (Inr (), c') \<and>
      cache_sound H lib keys c' Q) \<longleftrightarrow>
    certificate_valid H lib cert canister_id root_key now offset"
proof -
  let ?m = "case cert_delegation cert of
      Some d \<Rightarrow> verify_delegation H lib d canister_id root_key | None \<Rightarrow> pure (Inr root_key)"
  note key = certificate_key_checked [OF assms, of canister_id]
  have step: "(\<exists>c'. certificate_verify H lib cert canister_id root_key now offset c = Some (Inr (), c') \<and>
      cache_sound H lib keys c' Q) \<longleftrightarrow>
    verify_certificate_time lib cert now offset = Inr () \<and>
    (\<exists>key c1 c'. ?m c = Some (Inr key, c1) \<and>
      verify_certificate_signature H lib cert key c1 = Some (Inr (), c') \<and> cache_sound H lib keys c' Q)"
    unfolding certificate_verify_def seq_Ok by auto
  have "(\<exists>c'. verify_certificate_signature H lib cert key c1 = Some (Inr (), c') \<and>
      cache_sound H lib keys c' Q) \<longleftrightarrow> signed_by H lib cert key"
    if "?m c = Some (Inr key, c1)" for key c1
    using verify_certificate_signature_iff [OF doc _ inj] key(2) [OF that] by fastforce
  then show ?thesis
    unfolding step verify_time_iff certificate_valid_def using key(1) by metis
qed

subsection \<open>Properties\<close>

text \<open>C38: The certificate's time is accepted exactly when it lies within the allowed offset of the
  current time as numbers without bound: the saturating bounds of the code never widen or narrow the window.\<close>

theorem certificate_time_window:
  "verify_certificate_time lib cert now offset = Inr () \<longleftrightarrow>
     (\<exists>bs t. lookup_path (cert_tree cert) [str_bytes ''time''] = LR_Found bs \<and>
        leb_read lib bs = Inr t \<and>
        unat now \<le> unat t + unat offset \<and> unat t \<le> unat now + unat offset)"
  using verify_time_iff [of lib cert now offset] by (simp add: time_in_window_def)

text \<open>C4: A certificate is accepted exactly when its time lies in the window and its root hash is
  signed by the root key, or by the public key of a subnet whose delegation certificate is itself not
  delegated, is signed by the root key and has a range with the canister; the cache of signatures
  makes no difference and stays sound, unless the hash function collides on the queries.\<close>

theorem certificate_verify_exact:
  assumes doc: "cache_documented (cl_cache lib) keys" and so: "cache_sound H lib keys c Q"
    and inj: "inj_on H (query_input ` Q)" and q: "chain_queries H lib cert root_key \<subseteq> Q"
  shows "(\<exists>c'. certificate_verify H lib cert canister_id root_key now offset c = Some (Inr (), c') \<and>
      cache_sound H lib keys c' Q) \<longleftrightarrow>
    certificate_valid H lib cert canister_id root_key now offset"
  by (rule certificate_verify_iff [OF assms])

theorem certificate_verify_exact_witness:
  "\<exists>c'. certificate_verify pad_hash plain_cert
      \<lparr>cert_tree = Labeled (str_bytes ''time'') (Leaf [5]),
       cert_signature = IC_STATE_ROOT_DOMAIN_SEPARATOR @ digest pad_hash (Labeled (str_bytes ''time'') (Leaf [5])),
       cert_delegation = None\<rparr>
      [1] (DER_PREFIX @ replicate 96 0) 6 2 (signature_cache_global lru_ref) = Some (Inr (), c')"
proof -
  let ?cert = "\<lparr>cert_tree = Labeled (str_bytes ''time'') (Leaf [5]),
       cert_signature = IC_STATE_ROOT_DOMAIN_SEPARATOR @ digest pad_hash (Labeled (str_bytes ''time'') (Leaf [5])),
       cert_delegation = None\<rparr>"
  let ?key = "DER_PREFIX @ replicate 96 0" and ?c = "signature_cache_global lru_ref"
  let ?q = "cert_query pad_hash ?cert (replicate 96 0)"
  have Q: "chain_queries pad_hash plain_cert ?cert ?key = {?q}"
    by (auto simp: chain_queries_def cert_queries_def KEY_LENGTH_def)
  have "sized ?q" by (simp add: cert_query_def length_signed_message KEY_LENGTH_def)
  then have so: "cache_sound pad_hash plain_cert (set \<circ> snd) ?c {?q}"
    by (simp add: cache_sound_def signature_cache_global_def signature_cache_new_def lru_ref_def)
  have "(ucast (5 :: 8 word) :: 64 word) = 5" by simp
  then have "certificate_valid pad_hash plain_cert ?cert [1] ?key 6 2"
    by (simp add: certificate_valid_def certificate_key_def signed_by_def signed_message_def
        KEY_LENGTH_def time_in_window_def)
  moreover have "(\<exists>c'. certificate_verify pad_hash plain_cert ?cert [1] ?key 6 2 ?c = Some (Inr (), c') \<and>
      cache_sound pad_hash plain_cert (set \<circ> snd) c' {?q}) \<longleftrightarrow>
    certificate_valid pad_hash plain_cert ?cert [1] ?key 6 2"
    by (rule certificate_verify_exact [OF _ so _ equalityD1 [OF Q]]) simp_all
  ultimately show ?thesis by blast
qed

end
