(* ===== verification/Response_Types.thy ===== *)
theory Response_Types
  imports Http_Types Cel_Parser Certificate_Verification
begin

text \<open>
  The errors and the results of \<^verbatim>\<open>packages/ic-response-verification\<close> (\<^verbatim>\<open>src/error.rs\<close>,
  \<^verbatim>\<open>src/types\<close>). The type parameters are the errors of the CBOR parser, of the text parser and of
  base64, and the principals. Display texts and the conversion to JavaScript are not modelled, but the
  error codes are.
\<close>

text \<open>\<^verbatim>\<open>std::num::ParseIntError\<close>, for \<^verbatim>\<open>u8\<close>.\<close>

datatype parse_int_error = PIE_Empty | PIE_InvalidDigit | PIE_PosOverflow

datatype ('e, 'f, 'p, 'b) response_error =
    IoError bytes
  | UnsupportedVerificationVersion "8 word" "8 word" "8 word"
  | RequestedVerificationVersionMismatch "8 word" "8 word"
  | CelError "'f cel_error"
  | Base64DecodingError 'b
  | ParseIntError parse_int_error
  | InvalidTreeRootHash
  | CertificateMissingCertifiedData bytes
  | UnexpectedExpressionPathPrefix "bytes list"
  | UnexpectedExpressionPathSuffix "bytes list"
  | ExactExpressionPathNotFoundInTree "bytes list"
  | ExactExpressionPathMismatch "bytes list" bytes
  | ExactExpressionPathMightExistInTree "bytes list" "bytes list" bytes
  | WildcardExpressionPathNotFoundInTree "bytes list" bytes
  | WildcardExpressionPathMismatch "bytes list" bytes
  | MoreSpecificWildcardExpressionMightExistInTree "bytes list" "bytes list" bytes
  | InvalidExpressionHash "bytes list"
  | InvalidRequestAndResponseHashes "bytes list"
  | MissingLeafNode "bytes list"
  | InvalidResponseBody
  | HeaderMissingCertificate
  | HeaderMissingTree
  | HeaderMissingCertificateExpressionPath
  | HeaderMissingCertificateExpression
  | HeaderMissingCertification
  | CborDecodingFailed "'e cbor_error"
  | CertificateVerificationFailed "('e, 'p) certificate_error"
  | HttpCertificationError http_error

datatype response_error_code =
    CodeIoError
  | CodeUnsupportedVerificationVersion
  | CodeRequestedVerificationVersionMismatch
  | CodeCelError
  | CodeBase64DecodingError
  | CodeParseIntError
  | CodeInvalidTreeRootHash
  | CodeCertificateMissingCertifiedData
  | CodeUnexpectedExpressionPathPrefix
  | CodeUnexpectedExpressionPathSuffix
  | CodeExactExpressionPathNotFoundInTree
  | CodeExactExpressionPathMismatch
  | CodeExactExpressionPathMightExistInTree
  | CodeWildcardExpressionPathNotFoundInTree
  | CodeWildcardExpressionPathMismatch
  | CodeMoreSpecificWildcardExpressionMightExistInTree
  | CodeInvalidExpressionHash
  | CodeInvalidRequestAndResponseHashes
  | CodeMissingLeafNode
  | CodeInvalidResponseBody
  | CodeHeaderMissingCertificate
  | CodeHeaderMissingTree
  | CodeHeaderMissingCertificateExpression
  | CodeMissingCertificateExpression
  | CodeHeaderMissingCertification
  | CodeCborDecodingFailed
  | CodeCertificateVerificationFailed
  | CodeHttpCertificationError

fun error_code :: "('e, 'f, 'p, 'b) response_error \<Rightarrow> response_error_code" where
  "error_code (IoError _) = CodeIoError"
| "error_code (UnsupportedVerificationVersion _ _ _) = CodeUnsupportedVerificationVersion"
| "error_code (RequestedVerificationVersionMismatch _ _) = CodeRequestedVerificationVersionMismatch"
| "error_code (CelError _) = CodeCelError"
| "error_code (Base64DecodingError _) = CodeBase64DecodingError"
| "error_code (ParseIntError _) = CodeParseIntError"
| "error_code InvalidTreeRootHash = CodeInvalidTreeRootHash"
| "error_code (CertificateMissingCertifiedData _) = CodeCertificateMissingCertifiedData"
| "error_code (UnexpectedExpressionPathPrefix _) = CodeUnexpectedExpressionPathPrefix"
| "error_code (UnexpectedExpressionPathSuffix _) = CodeUnexpectedExpressionPathSuffix"
| "error_code (ExactExpressionPathNotFoundInTree _) = CodeExactExpressionPathNotFoundInTree"
| "error_code (ExactExpressionPathMismatch _ _) = CodeExactExpressionPathMismatch"
| "error_code (ExactExpressionPathMightExistInTree _ _ _) = CodeExactExpressionPathMightExistInTree"
| "error_code (WildcardExpressionPathNotFoundInTree _ _) = CodeWildcardExpressionPathNotFoundInTree"
| "error_code (WildcardExpressionPathMismatch _ _) = CodeWildcardExpressionPathMismatch"
| "error_code (MoreSpecificWildcardExpressionMightExistInTree _ _ _) =
     CodeMoreSpecificWildcardExpressionMightExistInTree"
| "error_code (InvalidExpressionHash _) = CodeInvalidExpressionHash"
| "error_code (InvalidRequestAndResponseHashes _) = CodeInvalidRequestAndResponseHashes"
| "error_code (MissingLeafNode _) = CodeMissingLeafNode"
| "error_code InvalidResponseBody = CodeInvalidResponseBody"
| "error_code HeaderMissingCertificate = CodeHeaderMissingCertificate"
| "error_code HeaderMissingTree = CodeHeaderMissingTree"
| "error_code HeaderMissingCertificateExpressionPath = CodeHeaderMissingCertificateExpression"
| "error_code HeaderMissingCertificateExpression = CodeMissingCertificateExpression"
| "error_code HeaderMissingCertification = CodeHeaderMissingCertification"
| "error_code (CborDecodingFailed _) = CodeCborDecodingFailed"
| "error_code (CertificateVerificationFailed _) = CodeCertificateVerificationFailed"
| "error_code (HttpCertificationError _) = CodeHttpCertificationError"

record verified_response =
  vr_status_code :: "16 word option"
  vr_headers :: "header_field list"
  vr_body :: bytes

record verification_info =
  vi_response :: "verified_response option"
  vi_verification_version :: "16 word"

end
