(* ===== verification/Certificate_Header.thy ===== *)
theory Certificate_Header
  imports Response_Types
begin

text \<open>
  The \<^verbatim>\<open>IC-Certificate\<close> header of \<^verbatim>\<open>packages/ic-response-verification/src/verification\<close>
  (\<^verbatim>\<open>certificate_header_field.rs\<close>, \<^verbatim>\<open>certificate_header.rs\<close>): the fields, separated by commas, and
  their values.
\<close>

subsection \<open>Fields\<close>

text \<open>The parsers of \<^verbatim>\<open>nom\<close> that a field needs, beside those of the CEL parser.\<close>

record 'f header_lib =
  hl_text :: "'f cel_lib"
  take_until :: "bytes \<Rightarrow> ('f, bytes) str_parser"
  nom_tag :: "bytes \<Rightarrow> ('f, bytes) str_parser"
  str_eof :: "('f, bytes) str_parser"

text \<open>Their documentation, for a delimiter of one character.\<close>

definition header_lib_documented :: "'f header_lib \<Rightarrow> bool" where
  "header_lib_documented hl \<longleftrightarrow>
     cel_lib_documented (hl_text hl) \<and>
     (\<forall>c p i. c \<notin> set p \<longrightarrow> take_until hl [c] (p @ c # i) = Inr (c # i, p)) \<and>
     (\<forall>c i. c \<notin> set i \<longrightarrow> (\<exists>e. take_until hl [c] i = Inl (Str_Error e))) \<and>
     (\<forall>t i. nom_tag hl t (t @ i) = Inr (i, t)) \<and>
     str_eof hl [] = Inr ([], []) \<and> (\<forall>i. i \<noteq> [] \<longrightarrow> (\<exists>e. str_eof hl i = Inl (Str_Error e)))"

text \<open>A concrete library with this behaviour.\<close>

definition header_ref :: "string header_lib" where
  "header_ref = \<lparr>
     hl_text = cel_ref,
     take_until = (\<lambda>t i. let p = takeWhile (\<lambda>b. [b] \<noteq> t) i in
        if p = i then Inl (Str_Error ''TakeUntil'') else Inr (drop (length p) i, p)),
     nom_tag = (\<lambda>t i. if starts_with i t then Inr (drop (length t) i, t) else Inl (Str_Error ''Tag'')),
     str_eof = (\<lambda>i. if i = [] then Inr ([], []) else Inl (Str_Error ''Eof''))\<rparr>"

text \<open>\<^verbatim>\<open>opt\<close> turns an \<^verbatim>\<open>Error\<close> into an absent value and consumes nothing then.\<close>

fun opt_parser :: "bytes \<Rightarrow> 'f str_err + bytes \<times> 'a \<Rightarrow> 'f str_err + bytes \<times> 'a option" where
  "opt_parser i (Inr (i', v)) = Inr (i', Some v)"
| "opt_parser i (Inl (Str_Error _)) = Inr (i, None)"
| "opt_parser i (Inl e) = Inl e"

definition drop_delimiters :: "'f header_lib \<Rightarrow> byte \<Rightarrow> ('f, bytes) str_parser" where
  "drop_delimiters hl v i =
     and_then (opt_parser i (nom_char (hl_text hl) v i)) (\<lambda>(i, _).
     and_then (take_while (hl_text hl) (\<lambda>e. e \<noteq> unat v) i) (\<lambda>(i, x).
     and_then (opt_parser i (nom_char (hl_text hl) v i)) (\<lambda>(i, _). Inr (i, x))))"

definition until_terminated :: "'f header_lib \<Rightarrow> bytes \<Rightarrow> ('f, bytes) str_parser" where
  "until_terminated hl v i =
     and_then (take_until hl v i) (\<lambda>(i, x). and_then (nom_tag hl v i) (\<lambda>(i, _). Inr (i, x)))"

text \<open>Byte 61 is \<^verbatim>\<open>=\<close>, byte 58 is \<^verbatim>\<open>:\<close>, byte 44 is a comma.\<close>

definition header_extract :: "'f header_lib \<Rightarrow> ('f, bytes \<times> bytes) str_parser" where
  "header_extract hl i =
     and_then (until_terminated hl [61] i) (\<lambda>(i, name).
     and_then (drop_delimiters hl 58 i) (\<lambda>(i, val).
     and_then (str_eof hl i) (\<lambda>_. Inr (i, (name, val)))))"

definition extract_header_field :: "'f header_lib \<Rightarrow> bytes \<Rightarrow> (bytes \<times> bytes) option" where
  "extract_header_field hl header_field =
     (case header_extract hl header_field of
        Inl _ \<Rightarrow> None
      | Inr (_, (name, val)) \<Rightarrow> if name = [] \<or> val = [] then None else Some (name, val))"

definition certificate_header_field :: "'f header_lib \<Rightarrow> bytes \<Rightarrow> (bytes \<times> bytes) option" where
  "certificate_header_field hl header_field = extract_header_field hl (trim header_field)"

subsection \<open>Numbers\<close>

text \<open>\<^verbatim>\<open>str::parse::<u8>\<close>: an optional plus sign and decimal digits; a lone sign is not a number.\<close>

fun parse_digits :: "nat \<Rightarrow> bytes \<Rightarrow> parse_int_error + 8 word" where
  "parse_digits r [] = Inr (of_nat r)"
| "parse_digits r (c # cs) =
     (if \<not> (48 \<le> c \<and> c \<le> 57) then Inl PIE_InvalidDigit
      else let r = r * 10 + (unat c - 48) in if 255 < r then Inl PIE_PosOverflow else parse_digits r cs)"

definition parse_u8 :: "bytes \<Rightarrow> parse_int_error + 8 word" where
  "parse_u8 s =
     (if s = [] then Inl PIE_Empty
      else if s = [43] \<or> s = [45] then Inl PIE_InvalidDigit
      else parse_digits 0 (if hd s = 43 then tl s else s))"

subsection \<open>The header\<close>

record header_fields =
  hf_certificate :: "certificate option"
  hf_tree :: "hash_tree option"
  hf_version :: "8 word option"
  hf_expr_path :: "bytes list option"

record certificate_header =
  ch_certificate :: certificate
  ch_tree :: hash_tree
  ch_version :: "8 word"
  ch_expr_path :: "bytes list option"

definition MIN_VERIFICATION_VERSION :: "8 word" where
  "MIN_VERIFICATION_VERSION = 1"

definition MAX_VERIFICATION_VERSION :: "8 word" where
  "MAX_VERIFICATION_VERSION = 2"

definition decode_base64_header :: "(bytes \<Rightarrow> 'b + bytes) \<Rightarrow> bytes \<Rightarrow> ('e, 'f, 'p, 'b) response_error + bytes" where
  "decode_base64_header b64d val = map_err Base64DecodingError (b64d val)"

definition parse_int_header :: "bytes \<Rightarrow> ('e, 'f, 'p, 'b) response_error + 8 word" where
  "parse_int_header val = map_err ParseIntError (parse_u8 val)"

text \<open>One field; a duplicate is ignored, as is an unknown name.\<close>

definition header_field_step ::
  "'e nom_lib \<Rightarrow> (bytes \<Rightarrow> 'b + bytes) \<Rightarrow> bytes \<times> bytes \<Rightarrow> header_fields \<Rightarrow>
     ('e, 'f, 'p, 'b) response_error + header_fields" where
  "header_field_step nm b64d field acc =
     (let (name, val) = field in
      if name = str_bytes ''certificate''
      then (case hf_certificate acc of
              None \<Rightarrow> and_then (decode_base64_header b64d val) (\<lambda>bs.
                and_then (map_err CborDecodingFailed (certificate_from_cbor nm bs)) (\<lambda>c.
                Inr (acc\<lparr>hf_certificate := Some c\<rparr>)))
            | Some _ \<Rightarrow> Inr acc)
      else if name = str_bytes ''tree''
      then (case hf_tree acc of
              None \<Rightarrow> and_then (decode_base64_header b64d val) (\<lambda>bs.
                and_then (map_err CborDecodingFailed (hash_tree_from_cbor nm bs)) (\<lambda>t.
                Inr (acc\<lparr>hf_tree := Some t\<rparr>)))
            | Some _ \<Rightarrow> Inr acc)
      else if name = str_bytes ''version''
      then (case hf_version acc of
              None \<Rightarrow> and_then (parse_int_header val) (\<lambda>v. Inr (acc\<lparr>hf_version := Some v\<rparr>))
            | Some _ \<Rightarrow> Inr acc)
      else if name = str_bytes ''expr_path''
      then (case hf_expr_path acc of
              None \<Rightarrow> and_then (decode_base64_header b64d val) (\<lambda>bs.
                and_then (map_err CborDecodingFailed (parse_cbor_string_array nm bs)) (\<lambda>p.
                Inr (acc\<lparr>hf_expr_path := Some p\<rparr>)))
            | Some _ \<Rightarrow> Inr acc)
      else Inr acc)"

fun header_field_loop ::
  "'e nom_lib \<Rightarrow> 'f header_lib \<Rightarrow> (bytes \<Rightarrow> 'b + bytes) \<Rightarrow> bytes list \<Rightarrow> header_fields \<Rightarrow>
     ('e, 'f, 'p, 'b) response_error + header_fields" where
  "header_field_loop nm hl b64d [] acc = Inr acc"
| "header_field_loop nm hl b64d (field # fs) acc =
     and_then
       (case certificate_header_field hl field of
          Some f \<Rightarrow> header_field_step nm b64d f acc
        | None \<Rightarrow> Inr acc)
       (header_field_loop nm hl b64d fs)"

definition certificate_header_from ::
  "'e nom_lib \<Rightarrow> 'f header_lib \<Rightarrow> (bytes \<Rightarrow> 'b + bytes) \<Rightarrow> bytes \<Rightarrow>
     ('e, 'f, 'p, 'b) response_error + certificate_header" where
  "certificate_header_from nm hl b64d header_value =
     and_then (header_field_loop nm hl b64d (split_on 44 header_value)
       \<lparr>hf_certificate = None, hf_tree = None, hf_version = None, hf_expr_path = None\<rparr>) (\<lambda>acc.
     and_then (ok_or (hf_certificate acc) HeaderMissingCertificate) (\<lambda>certificate.
     and_then (ok_or (hf_tree acc) HeaderMissingTree) (\<lambda>tree.
     Inr \<lparr>ch_certificate = certificate, ch_tree = tree,
       ch_version = unwrap_or (hf_version acc) MIN_VERIFICATION_VERSION,
       ch_expr_path = hf_expr_path acc\<rparr>)))"

lemma takeWhile_until: "c \<notin> set p \<Longrightarrow> takeWhile (\<lambda>b. b \<noteq> c) (p @ c # i) = p"
  by (induction p) auto

lemma header_ref_documented [simp]: "header_lib_documented header_ref"
  by (auto simp: header_lib_documented_def header_ref_def Let_def starts_with_iff takeWhile_eq_all_conv
      takeWhile_until)

end
