(* ===== verification/Header_Roundtrip.thy ===== *)
theory Header_Roundtrip
  imports Certificate_Header Certification_Tree
begin

text \<open>
  The \<^verbatim>\<open>IC-Certificate\<close> header that the canister library writes is the header that the verifier
  reads: \<^verbatim>\<open>add_v2_certificate_header\<close> against \<^verbatim>\<open>CertificateHeader::from\<close>.
\<close>

subsection \<open>Base64\<close>

text \<open>What the code relies on: decoding undoes encoding, and the text is not empty unless the data is,
  and holds letters, digits, \<^verbatim>\<open>+\<close>, \<^verbatim>\<open>/\<close> and \<^verbatim>\<open>=\<close> only.\<close>

definition base64_char :: "byte \<Rightarrow> bool" where
  "base64_char b \<longleftrightarrow> ascii_alphanumeric b \<or> b = 43 \<or> b = 47 \<or> b = 61"

definition b64_documented :: "(bytes \<Rightarrow> bytes) \<Rightarrow> (bytes \<Rightarrow> 'b + bytes) \<Rightarrow> bool" where
  "b64_documented b64 b64d \<longleftrightarrow>
     (\<forall>x. b64d (b64 x) = Inr x) \<and> (\<forall>x. x \<noteq> [] \<longrightarrow> b64 x \<noteq> []) \<and> (\<forall>x. \<forall>c \<in> set (b64 x). base64_char c)"

text \<open>A concrete pair for the instances: two letters from A to P for each byte.\<close>

definition hex_enc :: "bytes \<Rightarrow> bytes" where
  "hex_enc x = concat (map (\<lambda>b. [65 + b div 16, 65 + b mod 16]) x)"

fun hex_dec :: "bytes \<Rightarrow> unit + bytes" where
  "hex_dec [] = Inr []"
| "hex_dec [_] = Inl ()"
| "hex_dec (h # l # x) = and_then (hex_dec x) (\<lambda>y. Inr (((h - 65) * 16 + (l - 65)) # y))"

lemma hex_bytes:
  "base64_char (65 + b div 16)" "base64_char (65 + b mod 16)"
  "((65 + b div 16) - 65) * 16 + ((65 + b mod 16) - 65) = (b :: byte)"
proof -
  have "unat (b div 16) < 16" "unat (b mod 16) < 16"
    using unsigned_less [of b, where 'a = nat] by (simp_all add: unat_div unat_mod)
  then have "unat (65 + b div 16) = 65 + unat (b div 16)" "unat (65 + b mod 16) = 65 + unat (b mod 16)"
    by (simp_all add: unat_plus_if')
  with \<open>unat (b div 16) < 16\<close> \<open>unat (b mod 16) < 16\<close>
  show "base64_char (65 + b div 16)" "base64_char (65 + b mod 16)"
    by (auto simp: base64_char_def ascii_alphanumeric_def word_le_nat_alt)
  show "((65 + b div 16) - 65) * 16 + ((65 + b mod 16) - 65) = b"
    by (simp add: word_mod_div_equality)
qed

lemma hex_documented [simp]: "b64_documented hex_enc hex_dec"
proof -
  have "hex_dec (hex_enc x) = Inr x" for x
    by (induction x) (simp_all add: hex_enc_def word_mod_div_equality)
  moreover have "\<forall>c \<in> set (hex_enc x). base64_char c" for x
    by (auto simp: hex_enc_def hex_bytes)
  ultimately show ?thesis by (auto simp: b64_documented_def hex_enc_def neq_Nil_conv)
qed

lemma base64_char_facts:
  assumes "base64_char c"
  shows "c \<noteq> 44" "c \<noteq> 58" "c \<le> 0x7F" "unat c \<noteq> 58"
proof -
  show c: "c \<noteq> 44" "c \<noteq> 58" "c \<le> 0x7F"
    using assms by (auto simp: base64_char_def ascii_alphanumeric_def word_le_nat_alt)
  have "c = of_nat (unat c)" by simp
  with c(2) show "unat c \<noteq> 58" by (metis of_nat_numeral)
qed

subsection \<open>Fields\<close>

lemma header_parsers:
  assumes "header_lib_documented hl"
  shows "c \<notin> set p \<Longrightarrow> take_until hl [c] (p @ c # i) = Inr (c # i, p)"
    and "nom_tag hl [c] (c # i) = Inr (i, [c])"
    and "str_eof hl [] = Inr ([], [])"
    and "take_while (hl_text hl) P i = Inr (chars_rest P i, chars_while P i)"
    and "c \<le> 0x7F \<Longrightarrow> nom_char (hl_text hl) c (c # i) = Inr (i, c)"
    and "i = [] \<or> hd i \<noteq> c \<Longrightarrow> \<exists>e. nom_char (hl_text hl) c i = Inl (Str_Error e)"
proof -
  have "nom_tag hl [c] ([c] @ i) = Inr (i, [c])" using assms unfolding header_lib_documented_def by blast
  then show "nom_tag hl [c] (c # i) = Inr (i, [c])" by simp
  show "c \<notin> set p \<Longrightarrow> take_until hl [c] (p @ c # i) = Inr (c # i, p)" "str_eof hl [] = Inr ([], [])"
    using assms by (simp_all add: header_lib_documented_def)
  have cel: "cel_lib_documented (hl_text hl)" using assms by (simp add: header_lib_documented_def)
  then show "take_while (hl_text hl) P i = Inr (chars_rest P i, chars_while P i)"
    "c \<le> 0x7F \<Longrightarrow> nom_char (hl_text hl) c (c # i) = Inr (i, c)"
    by (simp_all add: cel_lib_documented_def)
  from cel have "\<forall>c i. (i = [] \<or> hd i \<noteq> c) \<longrightarrow> (\<exists>e. nom_char (hl_text hl) c i = Inl (Str_Error e))"
    unfolding cel_lib_documented_def by (elim conjE)
  then show "i = [] \<or> hd i \<noteq> c \<Longrightarrow> \<exists>e. nom_char (hl_text hl) c i = Inl (Str_Error e)" by blast
qed

lemma opt_absent:
  assumes "header_lib_documented hl" and "i = [] \<or> hd i \<noteq> c"
  shows "opt_parser i (nom_char (hl_text hl) c i) = Inr (i, None)"
  using header_parsers(6) [OF assms] by auto

lemma extract_delimited:
  assumes hl: "header_lib_documented hl" and name: "name \<noteq> []" "61 \<notin> set name"
    and v: "v \<noteq> []" "\<And>c. c \<in> set v \<Longrightarrow> base64_char c"
  shows "extract_header_field hl (name @ 61 # 58 # v @ [58]) = Some (name, v)"
proof -
  have P: "\<forall>b \<in> set v. b \<le> 0x7F \<and> unat b \<noteq> 58" using v(2) base64_char_facts by blast
  have w: "chars_rest (\<lambda>e. e \<noteq> 58) (v @ [58]) = [58]" "chars_while (\<lambda>e. e \<noteq> 58) (v @ [58]) = v"
    using chars_rest_ascii [of v "\<lambda>e. e \<noteq> 58" "[58]"] chars_while_ascii [of v "\<lambda>e. e \<noteq> 58" "[58]"] P
    by simp_all
  have "header_extract hl (name @ 61 # 58 # v @ [58]) = Inr ([], (name, v))"
    using header_parsers(1) [OF hl name(2)] w
    by (simp add: header_extract_def until_terminated_def drop_delimiters_def header_parsers(2-5) [OF hl])
  with name v show ?thesis by (simp add: extract_header_field_def)
qed

lemma extract_version:
  assumes hl: "header_lib_documented hl"
  shows "extract_header_field hl (str_bytes ''version=2'') = Some (str_bytes ''version'', [50])"
proof -
  have w: "chars_rest (\<lambda>e. e \<noteq> 58) [50] = []" "chars_while (\<lambda>e. e \<noteq> 58) [50] = [50]"
    using chars_rest_ascii [of "[50]" "\<lambda>e. e \<noteq> 58" "[]"] chars_while_ascii [of "[50]" "\<lambda>e. e \<noteq> 58" "[]"]
    by simp_all
  have "take_until hl [61] (str_bytes ''version'' @ 61 # [50]) = Inr ([61, 50], str_bytes ''version'')"
    by (rule header_parsers(1) [OF hl]) (simp add: str_bytes_def)
  moreover have "str_bytes ''version=2'' = str_bytes ''version'' @ 61 # [50]" by (simp add: str_bytes_def)
  moreover have "opt_parser [50] (nom_char (hl_text hl) 58 [50]) = Inr ([50], None)"
    "opt_parser [] (nom_char (hl_text hl) 58 []) = Inr ([], None)"
    by (rule opt_absent [OF hl]; simp)+
  ultimately have "header_extract hl (str_bytes ''version=2'') = Inr ([], (str_bytes ''version'', [50]))"
    using w by (simp add: header_extract_def until_terminated_def drop_delimiters_def header_parsers(2-4) [OF hl])
  then show ?thesis by (simp add: extract_header_field_def str_bytes_def)
qed

text \<open>The names of the three base64 fields.\<close>

lemma field_delimited:
  assumes hl: "header_lib_documented hl"
    and name: "name \<in> {str_bytes ''certificate'', str_bytes ''tree'', str_bytes ''expr_path''}"
    and v: "v \<noteq> []" "\<And>c. c \<in> set v \<Longrightarrow> base64_char c"
  shows "certificate_header_field hl (name @ 61 # 58 # v @ [58]) = Some (name, v)"
    and "certificate_header_field hl (32 # name @ 61 # 58 # v @ [58]) = Some (name, v)"
proof -
  let ?s = "name @ 61 # 58 # v @ [58]"
  have n: "name \<noteq> []" "61 \<notin> set name" "plain_char (hd name)"
    using name by (auto simp: str_bytes_def plain_char_def)
  then have s: "?s \<noteq> []" "plain_char (hd ?s)" "plain_char (last ?s)"
    by (simp_all add: plain_char_def)
  from trim_plain [OF this] extract_delimited [OF hl n(1,2) v]
  show "certificate_header_field hl ?s = Some (name, v)"
    "certificate_header_field hl (32 # ?s) = Some (name, v)"
    by (simp_all add: certificate_header_field_def)
qed

lemma field_version:
  "header_lib_documented hl \<Longrightarrow>
     certificate_header_field hl (str_bytes '' version=2'') = Some (str_bytes ''version'', [50])"
  using trim_plain(2) [of "str_bytes ''version=2''"] extract_version [of hl]
  by (simp add: certificate_header_field_def plain_char_def str_bytes_def)

subsection \<open>The header\<close>

lemma header_pieces:
  assumes "\<And>c. c \<in> set a \<union> set b \<union> set e \<Longrightarrow> base64_char c"
  shows "split_on 44 (str_bytes ''certificate=:'' @ a @ str_bytes '':, tree=:'' @ b @
      str_bytes '':, expr_path=:'' @ e @ str_bytes '':, version=2'') =
    [str_bytes ''certificate'' @ 61 # 58 # a @ [58], 32 # str_bytes ''tree'' @ 61 # 58 # b @ [58],
     32 # str_bytes ''expr_path'' @ 61 # 58 # e @ [58], str_bytes '' version=2'']"
proof -
  let ?p = "str_bytes ''certificate'' @ 61 # 58 # a @ [58]"
    and ?q = "32 # str_bytes ''tree'' @ 61 # 58 # b @ [58]"
    and ?r = "32 # str_bytes ''expr_path'' @ 61 # 58 # e @ [58]" and ?v = "str_bytes '' version=2''"
  have no: "44 \<notin> set a" "44 \<notin> set b" "44 \<notin> set e" using assms base64_char_facts(1) by blast+
  have "str_bytes ''certificate=:'' @ a @ str_bytes '':, tree=:'' @ b @
      str_bytes '':, expr_path=:'' @ e @ str_bytes '':, version=2'' = ?p @ 44 # ?q @ 44 # ?r @ 44 # ?v"
    by (simp add: str_bytes_def)
  moreover have "44 \<notin> set ?p" "44 \<notin> set ?q" "44 \<notin> set ?r" "44 \<notin> set ?v"
    using no by (simp_all add: str_bytes_def)
  ultimately show ?thesis by (simp only: split_on_append split_on_single not_False_eq_True)
qed

lemma empty_cbor: "nom_documented nm \<Longrightarrow> certificate_from_cbor nm [] \<noteq> Inr cert"
  by (auto simp: nom_documented_def certificate_from_cbor_def parse_cbor_def peek_cbor_type_def
      extract_cbor_type_def and_then_eq_Inr)

lemma cbor_encode_ne: "cbor_encode self_describe_tag enc v \<noteq> []"
  by (simp add: cbor_encode_def self_describe_tag_def)

lemma header_read_back:
  fixes nm :: "'e nom_lib" and hl :: "'f header_lib"
  assumes nm: "nom_documented nm" and hl: "header_lib_documented hl" and enc: "cbor_documented enc"
    and b64: "b64_documented b64 b64d" and dc: "certificate_from_cbor nm data_certificate = Inr cert"
    and w: "tree_small w" and ep: "length ep < 2 ^ 64"
      "\<And>s. s \<in> set ep \<Longrightarrow> utf8_valid s \<and> length s < 2 ^ 64"
  shows "certificate_header_from nm hl b64d
      (certificate_header_value b64 self_describe_tag enc data_certificate w ep) =
    (Inr \<lparr>ch_certificate = cert, ch_tree = w, ch_version = 2, ch_expr_path = Some ep\<rparr>
       :: ('e, 'f, 'p, 'b) response_error + certificate_header)"
proof -
  let ?w = "cbor_encode self_describe_tag enc (hash_tree_serialize w)"
    and ?e = "cbor_encode self_describe_tag enc (string_array_serialize ep)"
  have "serde_small (string_array_serialize ep)" using ep by (simp add: string_array_serialize_def)
  from parse_cbor_encoded [OF nm enc this] parse_cbor_encoded [OF nm enc tree_small_serde [OF w]]
  have rd: "hash_tree_from_cbor nm ?w = Inr w" "parse_cbor_string_array nm ?e = Inr ep"
    using w ep(2)
    by (simp_all add: hash_tree_from_cbor_def tree_of_serde parse_cbor_string_array_def
        string_array_serialize_def comp_def string_elems_serde)
  have dec: "b64d (b64 x) = Inr x" and chars: "\<And>c. c \<in> set (b64 x) \<Longrightarrow> base64_char c" for x
    using b64 by (simp_all add: b64_documented_def)
  have "data_certificate \<noteq> []" using dc empty_cbor [OF nm] by auto
  then have ne: "b64 data_certificate \<noteq> []" "b64 ?w \<noteq> []" "b64 ?e \<noteq> []"
    using b64 cbor_encode_ne by (simp_all add: b64_documented_def)
  have f: "certificate_header_field hl (str_bytes ''certificate'' @ 61 # 58 # b64 data_certificate @ [58]) =
      Some (str_bytes ''certificate'', b64 data_certificate)"
    "certificate_header_field hl (32 # str_bytes ''tree'' @ 61 # 58 # b64 ?w @ [58]) =
      Some (str_bytes ''tree'', b64 ?w)"
    "certificate_header_field hl (32 # str_bytes ''expr_path'' @ 61 # 58 # b64 ?e @ [58]) =
      Some (str_bytes ''expr_path'', b64 ?e)"
    using field_delimited [OF hl _ ne(1) chars] field_delimited [OF hl _ ne(2) chars]
      field_delimited [OF hl _ ne(3) chars] by simp_all
  have two: "parse_u8 [50] = Inr 2" by (simp add: parse_u8_def)
  have p: "split_on 44 (certificate_header_value b64 self_describe_tag enc data_certificate w ep) =
    [str_bytes ''certificate'' @ 61 # 58 # b64 data_certificate @ [58], 32 # str_bytes ''tree'' @ 61 # 58 # b64 ?w @ [58],
     32 # str_bytes ''expr_path'' @ 61 # 58 # b64 ?e @ [58], str_bytes '' version=2'']"
    unfolding certificate_header_value_def by (rule header_pieces) (use chars in blast)
  show ?thesis
    by (simp add: certificate_header_from_def p f field_version [OF hl]
        header_field_step_def decode_base64_header_def parse_int_header_def dec dc rd two)
qed

subsection \<open>Properties\<close>

text \<open>C26: The verifier reads the header that the canister library writes: the certificate of the data
  certificate, the witness, version 2 and the expression path.\<close>

theorem certificate_header_roundtrip:
  fixes nm :: "'e nom_lib" and hl :: "'f header_lib"
  assumes "nom_documented nm" and "header_lib_documented hl" and "cbor_documented enc"
    and "b64_documented b64 b64d" and "certificate_from_cbor nm data_certificate = Inr cert"
    and "tree_small w" and "length ep < 2 ^ 64"
    and "\<And>s. s \<in> set ep \<Longrightarrow> utf8_valid s \<and> length s < 2 ^ 64"
  shows "certificate_header_from nm hl b64d
      (certificate_header_value b64 self_describe_tag enc data_certificate w ep) =
    (Inr \<lparr>ch_certificate = cert, ch_tree = w, ch_version = 2, ch_expr_path = Some ep\<rparr>
       :: ('e, 'f, 'p, 'b) response_error + certificate_header)"
  by (rule header_read_back [OF assms])

theorem certificate_header_roundtrip_witness:
  "certificate_header_from nom_ref header_ref hex_dec
      (certificate_header_value hex_enc self_describe_tag cbor_enc
        (cbor_encode self_describe_tag cbor_enc (certificate_serialize
          \<lparr>cert_tree = Leaf [1], cert_signature = [2], cert_delegation = None\<rparr>))
        (Labeled PATH_PREFIX (Leaf [])) [PATH_PREFIX, EXACT_PATH_TERMINATOR]) =
    (Inr \<lparr>ch_certificate = \<lparr>cert_tree = Leaf [1], cert_signature = [2], cert_delegation = None\<rparr>,
       ch_tree = Labeled PATH_PREFIX (Leaf []), ch_version = 2,
       ch_expr_path = Some [PATH_PREFIX, EXACT_PATH_TERMINATOR]\<rparr>
       :: (string, string, bytes, unit) response_error + certificate_header)"
proof (rule certificate_header_roundtrip)
  show "certificate_from_cbor nom_ref (cbor_encode self_describe_tag cbor_enc (certificate_serialize
      \<lparr>cert_tree = Leaf [1], cert_signature = [2], cert_delegation = None\<rparr>)) =
    Inr \<lparr>cert_tree = Leaf [1], cert_signature = [2], cert_delegation = None\<rparr>"
    (is "_ = Inr ?c")
  proof -
    have "certificate_small ?c" by (simp add: certificate_small_def)
    from parse_cbor_encoded [OF nom_ref_documented cbor_enc_documented certificate_serde_small [OF this]]
      certificate_of_serde [OF this] show ?thesis by (simp add: certificate_from_cbor_def)
  qed
qed (auto simp: PATH_PREFIX_def EXACT_PATH_TERMINATOR_def str_bytes_def)

end
