(* ===== verification/Response_Validation.thy ===== *)
theory Response_Validation
  imports Response_Types Wildcard_Paths Cel_Expr
begin

text \<open>
  The checks of \<^verbatim>\<open>packages/ic-response-verification/src/validation\<close> on the hash tree of a response:
  its root hash, the body of version 1, and the expression path, the expression hash and the hashes
  of version 2. Paths in errors are UTF-8 already, so \<^verbatim>\<open>from_utf8_lossy\<close> is the identity.
\<close>

subsection \<open>Common\<close>

definition validate_tree ::
  "(bytes \<Rightarrow> hash) \<Rightarrow> ('e, 'p, 'c) cert_lib \<Rightarrow> bytes \<Rightarrow> certificate \<Rightarrow> hash_tree \<Rightarrow>
     ('c, ('e, 'f, 'p, 'b) response_error, unit) comp" where
  "validate_tree H lib canister_id certificate tree =
     (let certified_data_path = [str_bytes ''canister'', canister_id, str_bytes ''certified_data'']
      in case lookup_path (cert_tree certificate) certified_data_path of
        LR_Found witness \<Rightarrow>
          pure (if witness \<noteq> digest H tree then Inl InvalidTreeRootHash else Inr ())
      | _ \<Rightarrow> seq (no_panic (from_slice lib canister_id)) (\<lambda>p.
               pure (Inl (CertificateMissingCertifiedData (to_text lib p)))))"

subsection \<open>Version 1\<close>

definition validate_body :: "hash_tree \<Rightarrow> bytes \<Rightarrow> hash \<Rightarrow> bool" where
  "validate_body tree request_path body_sha =
     (let asset_path = [str_bytes ''http_assets'', request_path];
          index_fallback_path = [str_bytes ''http_assets'', str_bytes ''/index.html'']
      in case lookup_path tree asset_path of
        LR_Found tree_sha \<Rightarrow> body_sha = tree_sha
      | _ \<Rightarrow> (case lookup_path tree index_fallback_path of
                LR_Found tree_sha \<Rightarrow> body_sha = tree_sha
              | _ \<Rightarrow> False))"

subsection \<open>Version 2: the expression path\<close>

definition path_might_exist_in_tree :: "path \<Rightarrow> hash_tree \<Rightarrow> bool" where
  "path_might_exist_in_tree p tree \<longleftrightarrow> lookup_subtree tree p \<noteq> SLR_Absent"

definition path_exists_in_tree :: "path \<Rightarrow> hash_tree \<Rightarrow> bool" where
  "path_exists_in_tree p tree \<longleftrightarrow>
     (case lookup_subtree tree p of SLR_Found _ \<Rightarrow> True | _ \<Rightarrow> False)"

definition expr_path_has_valid_suffix :: "path \<Rightarrow> bool" where
  "expr_path_has_valid_suffix expr_path \<longleftrightarrow>
     ends_with expr_path [str_bytes ''<$>''] \<or> ends_with expr_path [str_bytes ''<*>'']"

definition expr_path_has_valid_prefix :: "path \<Rightarrow> bool" where
  "expr_path_has_valid_prefix expr_path \<longleftrightarrow> starts_with expr_path [str_bytes ''http_expr'']"

text \<open>The parts of the requested URL; byte 47 is the slash.\<close>

definition request_url_parts :: "bytes \<Rightarrow> path" where
  "request_url_parts request_path =
     [str_bytes ''http_expr''] @ filter (\<lambda>e. e \<noteq> []) (split_on 47 request_path) @
     (if ends_with request_path [47] then [[]] else [])"

fun check_more_specific ::
  "path \<Rightarrow> bytes \<Rightarrow> hash_tree \<Rightarrow> path list \<Rightarrow> ('e, 'f, 'p, 'b) response_error + unit" where
  "check_more_specific expr_path request_path tree [] = Inr ()"
| "check_more_specific expr_path request_path tree (wildcard_path # ws) =
     (if path_might_exist_in_tree (PATH_PREFIX # wildcard_path) tree
      then Inl (MoreSpecificWildcardExpressionMightExistInTree expr_path (PATH_PREFIX # wildcard_path)
             request_path)
      else check_more_specific expr_path request_path tree ws)"

text \<open>\<^term>\<open>None\<close> stands for a search for wildcards that does not end; it always does.\<close>

definition validate_expr_path ::
  "path \<Rightarrow> bytes \<Rightarrow> hash_tree \<Rightarrow> (('e, 'f, 'p, 'b) response_error + unit) option" where
  "validate_expr_path expr_path request_path tree =
     (if \<not> expr_path_has_valid_prefix expr_path
      then Some (Inl (UnexpectedExpressionPathPrefix expr_path))
      else if \<not> expr_path_has_valid_suffix expr_path
      then Some (Inl (UnexpectedExpressionPathSuffix expr_path))
      else
        let request_url_path = request_url_parts request_path;
            exact_path = request_url_path @ [str_bytes ''<$>'']
        in if expr_path = exact_path
           then Some (if path_exists_in_tree expr_path tree then Inr ()
                      else Inl (ExactExpressionPathNotFoundInTree expr_path))
           else if ends_with expr_path [EXACT_PATH_TERMINATOR]
           then Some (Inl (ExactExpressionPathMismatch expr_path (concat exact_path)))
           else if path_might_exist_in_tree exact_path tree
           then Some (Inl (ExactExpressionPathMightExistInTree expr_path exact_path request_path))
           else
             let potential_path = butlast expr_path
             in if \<not> is_wildcard_path_valid_for_request_path potential_path request_url_path
                then Some (Inl (WildcardExpressionPathMismatch potential_path request_path))
                else do {
                  ws \<leftarrow> more_specific_wildcards_for request_url_path expr_path;
                  Some (and_then (check_more_specific expr_path request_path tree ws) (\<lambda>_.
                    if path_exists_in_tree expr_path tree then Inr ()
                    else Inl (WildcardExpressionPathNotFoundInTree expr_path request_path)))
                })"

subsection \<open>Version 2: the hashes\<close>

definition validate_expr_hash ::
  "path \<Rightarrow> hash \<Rightarrow> hash_tree \<Rightarrow> ('e, 'f, 'p, 'b) response_error + hash_tree" where
  "validate_expr_hash expr_path expr_hash tree =
     (case lookup_subtree tree (expr_path @ [expr_hash]) of
        SLR_Found expr_tree \<Rightarrow> Inr expr_tree
      | _ \<Rightarrow> Inl (InvalidExpressionHash expr_path))"

definition expr_tree_path :: "cel_expression \<Rightarrow> hash option \<Rightarrow> hash \<Rightarrow> path" where
  "expr_tree_path certification rq rs =
     [case (certification, rq) of (CelDefault (CelFull _), Some h) \<Rightarrow> h | _ \<Rightarrow> [], rs]"

definition validate_hashes ::
  "hash \<Rightarrow> hash option \<Rightarrow> hash \<Rightarrow> path \<Rightarrow> hash_tree \<Rightarrow> cel_expression \<Rightarrow>
     ('e, 'f, 'p, 'b) response_error + unit" where
  "validate_hashes expr_hash rq rs expr_path tree certification =
     and_then (validate_expr_hash expr_path expr_hash tree) (\<lambda>expr_tree.
     case lookup_subtree expr_tree (expr_tree_path certification rq rs) of
       SLR_Found res_tree \<Rightarrow> if res_tree = Leaf [] then Inr () else Inl (MissingLeafNode expr_path)
     | _ \<Rightarrow> Inl (InvalidRequestAndResponseHashes expr_path))"

end
