(* ===== verification/Response_Verification.thy ===== *)
theory Response_Verification
  imports Response_Validation Certificate_Header Cel_Ast Http_Hash
begin

text \<open>
  The verification of a request and response pair of \<^verbatim>\<open>packages/ic-response-verification\<close>
  (\<^verbatim>\<open>src/verification/body.rs\<close>, \<^verbatim>\<open>src/verification/verify_request_response_pair.rs\<close>): decoding of the
  body, and the two versions of the verification.
\<close>

subsection \<open>Decoding the body\<close>

text \<open>The decoders of the crate \<^verbatim>\<open>flate2\<close>: a read of a number of bytes gives those that it read, none at
  the end, or an I/O error.\<close>

record 'd decoder_lib =
  gz_decoder :: "bytes \<Rightarrow> 'd"
  deflate_decoder :: "bytes \<Rightarrow> 'd"
  decoder_read :: "nat \<Rightarrow> 'd \<Rightarrow> (bytes + bytes) \<times> 'd"

definition MAX_CHUNK_SIZE_TO_DECOMPRESS :: nat where
  "MAX_CHUNK_SIZE_TO_DECOMPRESS = 1024"

partial_function (option) body_from_decoder ::
  "'d decoder_lib \<Rightarrow> 'd \<Rightarrow> bytes \<Rightarrow> (('e, 'f, 'p, 'b) response_error + bytes) option" where
  "body_from_decoder dl decoder decoded =
     (case decoder_read dl MAX_CHUNK_SIZE_TO_DECOMPRESS decoder of
        (Inl e, _) \<Rightarrow> Some (Inl (IoError e))
      | (Inr bs, decoder) \<Rightarrow>
          if bs = [] then Some (Inr decoded) else body_from_decoder dl decoder (decoded @ bs))"

definition decode_body ::
  "'d decoder_lib \<Rightarrow> bytes \<Rightarrow> bytes option \<Rightarrow> (('e, 'f, 'p, 'b) response_error + bytes) option" where
  "decode_body dl body encoding =
     (if encoding = Some (str_bytes ''gzip'') then body_from_decoder dl (gz_decoder dl body) []
      else if encoding = Some (str_bytes ''deflate'') then body_from_decoder dl (deflate_decoder dl body) []
      else Some (Inr body))"

subsection \<open>Libraries\<close>

record ('e, 'f, 'p, 'b, 'c, 'd) verify_lib =
  vl_cert :: "('e, 'p, 'c) cert_lib"
  vl_header :: "'f header_lib"
  vl_http :: http_lib
  vl_b64 :: "bytes \<Rightarrow> 'b + bytes"
  vl_lower :: "bytes \<Rightarrow> bytes"
  vl_leb :: "64 word \<Rightarrow> bytes"
  vl_decoder :: "'d decoder_lib"

text \<open>The steps of the functions below: a call of the certificate verification with its error
  converted, and one of a function that may panic or not end.\<close>

definition checked_certificate ::
  "(bytes \<Rightarrow> hash) \<Rightarrow> ('e, 'f, 'p::linorder, 'b, 'c, 'd) verify_lib \<Rightarrow> certificate \<Rightarrow> bytes \<Rightarrow>
     bytes \<Rightarrow> 128 word \<Rightarrow> 128 word \<Rightarrow> ('c, ('e, 'f, 'p, 'b) response_error, unit) comp" where
  "checked_certificate H vl certificate canister_id ic_public_key now offset =
     map_comp_err CertificateVerificationFailed
       (certificate_verify H (vl_cert vl) certificate canister_id ic_public_key now offset)"

definition partial :: "('e + 'a) option \<Rightarrow> ('c, 'e, 'a) comp" where
  "partial r = seq (no_panic r) pure"

lemma partial_Ok [simp]: "partial r c = Some (Inr x, c') \<longleftrightarrow> r = Some (Inr x) \<and> c' = c"
  by (auto simp: partial_def seq_Ok)

subsection \<open>Version 1\<close>

definition v1_verification ::
  "(bytes \<Rightarrow> hash) \<Rightarrow> ('e, 'f, 'p::linorder, 'b, 'c, 'd) verify_lib \<Rightarrow> http_request \<Rightarrow> http_response \<Rightarrow>
     bytes \<Rightarrow> 128 word \<Rightarrow> 128 word \<Rightarrow> hash_tree \<Rightarrow> certificate \<Rightarrow> bytes option \<Rightarrow> bytes \<Rightarrow>
     ('c, ('e, 'f, 'p, 'b) response_error, verification_info) comp" where
  "v1_verification H vl request response canister_id now offset tree certificate encoding
     ic_public_key =
     seq (checked_certificate H vl certificate canister_id ic_public_key now offset) (\<lambda>_.
     seq (pure (map_err HttpCertificationError (get_path (vl_http vl) request))) (\<lambda>request_path.
     seq (partial (decode_body (vl_decoder vl) (resp_body response) encoding)) (\<lambda>decoded_body.
     let decoded_body_sha = sha_hash H decoded_body
     in seq (validate_tree H (vl_cert vl) canister_id certificate tree) (\<lambda>_.
     let valid_body = validate_body tree request_path decoded_body_sha;
         valid_body =
           (if encoding \<noteq> None \<and> \<not> valid_body
            then validate_body tree request_path (sha_hash H (resp_body response)) else valid_body)
     in pure (if \<not> valid_body then Inl InvalidResponseBody
          else Inr \<lparr>vi_response = Some \<lparr>vr_status_code = None, vr_headers = [],
                     vr_body = resp_body response\<rparr>,
                 vi_verification_version = 1\<rparr>)))))"

subsection \<open>Version 2\<close>

definition v2_certifications ::
  "cel_expression \<Rightarrow> (request_certification option \<times> response_certification) option" where
  "v2_certifications certification =
     (case certification of
        CelDefault CelSkip \<Rightarrow> None
      | CelDefault (CelResponseOnly c) \<Rightarrow> Some (None, only_response c)
      | CelDefault (CelFull c) \<Rightarrow> Some (Some (full_request c), full_response c))"

definition opt_request_hash ::
  "(bytes \<Rightarrow> hash) \<Rightarrow> ('e, 'f, 'p, 'b, 'c, 'd) verify_lib \<Rightarrow> http_request \<Rightarrow>
     request_certification option \<Rightarrow> http_error + hash option" where
  "opt_request_hash H vl request rc =
     (case rc of
        None \<Rightarrow> Inr None
      | Some rc \<Rightarrow> and_then (request_hash H (vl_leb vl) (vl_http vl) request rc) (\<lambda>h. Inr (Some h)))"

definition v2_verification ::
  "(bytes \<Rightarrow> hash) \<Rightarrow> ('e, 'f, 'p::linorder, 'b, 'c, 'd) verify_lib \<Rightarrow> http_request \<Rightarrow> http_response \<Rightarrow>
     bytes \<Rightarrow> 128 word \<Rightarrow> 128 word \<Rightarrow> hash_tree \<Rightarrow> certificate \<Rightarrow> path \<Rightarrow> hash \<Rightarrow> cel_expression \<Rightarrow> bytes \<Rightarrow>
     ('c, ('e, 'f, 'p, 'b) response_error, verification_info) comp" where
  "v2_verification H vl request response canister_id now offset tree certificate expr_path expr_hash
     certification ic_public_key =
     seq (pure (map_err HttpCertificationError (get_path (vl_http vl) request))) (\<lambda>request_path.
     seq (checked_certificate H vl certificate canister_id ic_public_key now offset) (\<lambda>_.
     seq (validate_tree H (vl_cert vl) canister_id certificate tree) (\<lambda>_.
     seq (partial (validate_expr_path expr_path request_path tree)) (\<lambda>_.
     case v2_certifications certification of
       None \<Rightarrow>
         seq (pure (validate_expr_hash expr_path expr_hash tree)) (\<lambda>_.
         pure (Inr \<lparr>vi_response = None, vi_verification_version = 2\<rparr>))
     | Some (request_certification, response_certification) \<Rightarrow>
         seq (pure (map_err HttpCertificationError
           (opt_request_hash H vl request request_certification))) (\<lambda>rq.
         let body_hash = sha_hash H (resp_body response);
             filtered = filter_response_headers response response_certification;
             headers_hash = response_headers_hash H (vl_leb vl) (ucast (resp_status response)) filtered;
             rs = sha_hash H (headers_hash @ body_hash)
         in seq (pure (validate_hashes expr_hash rq rs expr_path tree certification)) (\<lambda>_.
         pure (case rh_certificate filtered of
             None \<Rightarrow> Inl HeaderMissingCertification
           | Some certificate_header_str \<Rightarrow>
               Inr \<lparr>vi_response = Some
                      \<lparr>vr_status_code = Some (resp_status response),
                       vr_headers = rh_headers filtered @ [(CERTIFICATE_HEADER_NAME, certificate_header_str)],
                       vr_body = resp_body response\<rparr>,
                    vi_verification_version = 2\<rparr>)))))))"

subsection \<open>The entry point\<close>

text \<open>The \<^verbatim>\<open>HashMap\<close> of the lower-cased headers: a later header replaces an earlier one.\<close>

definition header_map :: "(bytes \<Rightarrow> bytes) \<Rightarrow> http_response \<Rightarrow> bytes \<Rightarrow> bytes option" where
  "header_map lower response = map_of (rev (map (\<lambda>(k, v). (lower k, v)) (resp_headers response)))"

definition verify_request_response_pair ::
  "(bytes \<Rightarrow> hash) \<Rightarrow> ('e, 'f, 'p::linorder, 'b, 'c, 'd) verify_lib \<Rightarrow> http_request \<Rightarrow> http_response \<Rightarrow>
     bytes \<Rightarrow> 128 word \<Rightarrow> 128 word \<Rightarrow> bytes \<Rightarrow> 8 word \<Rightarrow>
     ('c, ('e, 'f, 'p, 'b) response_error, verification_info) comp" where
  "verify_request_response_pair H vl request response canister_id now offset ic_public_key
     min_requested_verification_version =
     (let headers = header_map (vl_lower vl) response
      in seq (pure (ok_or (headers (vl_lower vl CERTIFICATE_HEADER_NAME)) HeaderMissingCertification))
        (\<lambda>certificate_header_str.
      seq (pure (certificate_header_from (cl_nom (vl_cert vl)) (vl_header vl) (vl_b64 vl)
             certificate_header_str)) (\<lambda>certificate_header.
      let version = ch_version certificate_header
      in if version < min_requested_verification_version
         then pure (Inl (RequestedVerificationVersionMismatch min_requested_verification_version version))
         else if version = 1
         then v1_verification H vl request response canister_id now offset
                (ch_tree certificate_header) (ch_certificate certificate_header)
                (headers (str_bytes ''content-encoding'')) ic_public_key
         else if version = 2
         then (case headers (vl_lower vl CERTIFICATE_EXPRESSION_HEADER_NAME) of
             Some certificate_expression_header \<Rightarrow>
               seq (pure (ok_or (ch_expr_path certificate_header) HeaderMissingCertificateExpressionPath))
                 (\<lambda>expr_path.
               seq (pure (map_err CelError
                 (and_then (parse_cel_expression (hl_text (vl_header vl)) certificate_expression_header)
                    map_cel_ast))) (\<lambda>certification.
               let expr_hash = sha_hash H certificate_expression_header
               in v2_verification H vl request response canister_id now offset
                    (ch_tree certificate_header) (ch_certificate certificate_header) expr_path expr_hash
                    certification ic_public_key))
           | None \<Rightarrow> pure (Inl HeaderMissingCertification))
         else pure (Inl (UnsupportedVerificationVersion MIN_VERIFICATION_VERSION
                MAX_VERIFICATION_VERSION version)))))"

end
