(* ===== verification/Response_Soundness.thy ===== *)
theory Response_Soundness
  imports Response_Verification Certification_Witness Certificate_Chain
begin

text \<open>
  What the acceptance of a response says about the certification tree of the canister: the checks on
  a witness with the root hash of the tree, and their converse for the witnesses that the library
  builds.
\<close>

subsection \<open>Paths of the tree and of the header\<close>

definition url_segments :: "bytes \<Rightarrow> path" where
  "url_segments p = filter (\<lambda>e. e \<noteq> []) (split_on 47 p) @ (if ends_with p [47] then [[]] else [])"

lemma path_segments [simp]:
  "path_to_tree_path (Exact_Path p) = url_segments p @ [EXACT_PATH_TERMINATOR]"
  "path_to_tree_path (Wildcard_Path p) = url_segments p @ [WILDCARD_PATH_TERMINATOR]"
  "to_expr_path (Exact_Path p) = PATH_PREFIX # url_segments p @ [EXACT_PATH_TERMINATOR]"
  "to_expr_path (Wildcard_Path p) = PATH_PREFIX # url_segments p @ [WILDCARD_PATH_TERMINATOR]"
  "request_url_parts p = PATH_PREFIX # url_segments p"
  by (simp_all add: url_segments_def path_to_segments_def path_to_string_segments_def
      request_url_parts_def PATH_PREFIX_def)

declare path_to_tree_path.simps [simp del] to_expr_path.simps [simp del]

lemma terminators [simp]:
  "str_bytes ''<$>'' = EXACT_PATH_TERMINATOR" "str_bytes ''<*>'' = WILDCARD_PATH_TERMINATOR"
  "str_bytes ''http_expr'' = PATH_PREFIX"
  "EXACT_PATH_TERMINATOR \<noteq> WILDCARD_PATH_TERMINATOR" "WILDCARD_PATH_TERMINATOR \<noteq> EXACT_PATH_TERMINATOR"
  "EXACT_PATH_TERMINATOR \<noteq> []" "WILDCARD_PATH_TERMINATOR \<noteq> []"
  "PATH_PREFIX \<noteq> EXACT_PATH_TERMINATOR" "EXACT_PATH_TERMINATOR \<noteq> PATH_PREFIX"
  "PATH_PREFIX \<noteq> WILDCARD_PATH_TERMINATOR" "WILDCARD_PATH_TERMINATOR \<noteq> PATH_PREFIX"
  "length EXACT_PATH_TERMINATOR = 3" "length WILDCARD_PATH_TERMINATOR = 3"
  by (simp_all add: EXACT_PATH_TERMINATOR_def WILDCARD_PATH_TERMINATOR_def PATH_PREFIX_def str_bytes_def)

text \<open>Only the last segment of a path is empty.\<close>

lemma url_segments_ne: "i < length (url_segments p) - 1 \<Longrightarrow> url_segments p ! i \<noteq> []"
proof -
  assume i: "i < length (url_segments p) - 1"
  let ?f = "filter (\<lambda>e. e \<noteq> []) (split_on 47 p)"
  from i have "i < length ?f" by (auto simp: url_segments_def split: if_splits)
  then have "?f ! i \<in> set ?f" by (rule nth_mem)
  with \<open>i < length ?f\<close> show ?thesis by (simp add: url_segments_def nth_append)
qed

definition plain_last :: "path \<Rightarrow> bool" where
  "plain_last p \<longleftrightarrow> p = [] \<or> last p \<noteq> EXACT_PATH_TERMINATOR \<and> last p \<noteq> WILDCARD_PATH_TERMINATOR"

definition plain_first :: "path \<Rightarrow> bool" where
  "plain_first p \<longleftrightarrow> p = [] \<or> hd p \<noteq> PATH_PREFIX"

text \<open>The segments that the search for wildcards strips off.\<close>

lemma strip_leading_url:
  assumes "\<And>i. i < length p - 1 \<Longrightarrow> p ! i \<noteq> []"
  shows "strip_leading_separator p = p"
  using assms [of 0] by (cases p) (auto simp: strip_leading_separator_def slice_first_def PATH_DIR_SEPARATOR_def)

lemma strip_request:
  "plain_last p \<Longrightarrow> (\<And>i. i < length p - 1 \<Longrightarrow> p ! i \<noteq> []) \<Longrightarrow> strip_path_affixes (PATH_PREFIX # p) = p"
  using strip_leading_url [of p]
  by (auto simp: strip_path_affixes_def strip_prefix_def slice_first_def strip_terminator_def slice_last_def
      plain_last_def)

lemma strip_header_wildcard:
  assumes "\<And>i. i < length r - 1 \<Longrightarrow> r ! i \<noteq> []"
  shows "strip_path_affixes (PATH_PREFIX # r @ [WILDCARD_PATH_TERMINATOR]) = r"
  using strip_leading_url [of r] assms
  by (simp add: strip_path_affixes_def strip_prefix_def slice_first_def strip_terminator_def)

lemma strip_tree_path:
  assumes "\<And>i. i < length r - 1 \<Longrightarrow> r ! i \<noteq> []" and "plain_first r"
    and "x \<in> {EXACT_PATH_TERMINATOR, WILDCARD_PATH_TERMINATOR}"
  shows "strip_path_affixes (r @ [x]) = r"
proof -
  have "strip_prefix (r @ [x]) = r @ [x]"
    using assms(2,3) by (cases r) (auto simp: strip_prefix_def slice_first_def plain_first_def)
  with strip_leading_url [OF assms(1)] assms(3) show ?thesis
    by (auto simp: strip_path_affixes_def strip_terminator_def)
qed

subsection \<open>Acceptance of an expression path\<close>

text \<open>Something is certified at or below a path.\<close>

definition certified_below :: "certification_tree \<Rightarrow> path \<Rightarrow> bool" where
  "certified_below t p \<longleftrightarrow> (\<exists>q. p @ q \<in> certified_paths t)"

lemma exists_sound:
  assumes ok: "ct_ok H t" and pr: "prunes H w (ct_as_hash_tree H t)" and p: "p \<noteq> []"
    and ex: "path_exists_in_tree (PATH_PREFIX # p) w"
  shows "certified_below t p"
proof -
  from ex obtain n where "lookup_subtree w (PATH_PREFIX # p) = SLR_Found n"
    by (auto simp: path_exists_in_tree_def split: subtree_lookup_result.splits)
  with lookup_subtree_pruned [OF pr ct_sorted [OF ok], of "PATH_PREFIX # p"]
  have "\<exists>m. lookup_subtree (ct_as_hash_tree H t) (PATH_PREFIX # p) = SLR_Found m" by auto
  with ct_full_lookup(1) [OF ok p] show ?thesis by (simp add: certified_below_def)
qed

lemma absent_sound:
  assumes ok: "ct_ok H t" and pr: "prunes H w (ct_as_hash_tree H t)" and p: "p \<noteq> []"
    and ab: "\<not> path_might_exist_in_tree (PATH_PREFIX # p) w"
  shows "\<not> certified_below t p"
proof -
  from ab have "lookup_subtree w (PATH_PREFIX # p) = SLR_Absent" by (simp add: path_might_exist_in_tree_def)
  with lookup_subtree_pruned [OF pr ct_sorted [OF ok], of "PATH_PREFIX # p"]
  have "lookup_subtree (ct_as_hash_tree H t) (PATH_PREFIX # p) = SLR_Absent" by auto
  with ct_full_lookup(2) [OF ok p] show ?thesis by (simp add: certified_below_def)
qed

lemma check_more_specific_Ok:
  "check_more_specific ep rp w ws = Inr () \<longleftrightarrow> (\<forall>p \<in> set ws. \<not> path_might_exist_in_tree (PATH_PREFIX # p) w)"
  by (induction ws) simp_all

text \<open>The cases in which the check of an expression path succeeds.\<close>

lemma validate_expr_path_Ok:
  "validate_expr_path ep rp w = Some (Inr ()) \<longleftrightarrow>
     (ep = PATH_PREFIX # url_segments rp @ [EXACT_PATH_TERMINATOR] \<and> path_exists_in_tree ep w) \<or>
     (\<exists>r ws. ep = PATH_PREFIX # r @ [WILDCARD_PATH_TERMINATOR] \<and>
        \<not> path_might_exist_in_tree (PATH_PREFIX # url_segments rp @ [EXACT_PATH_TERMINATOR]) w \<and>
        is_wildcard_path_valid_for_request_path (PATH_PREFIX # r) (PATH_PREFIX # url_segments rp) \<and>
        more_specific_wildcards_for (PATH_PREFIX # url_segments rp) ep = Some ws \<and>
        (\<forall>p \<in> set ws. \<not> path_might_exist_in_tree (PATH_PREFIX # p) w) \<and> path_exists_in_tree ep w)"
  (is "?lhs \<longleftrightarrow> ?exact \<or> ?wild")
proof -
  have pre: "expr_path_has_valid_prefix ep \<longleftrightarrow> (\<exists>q. ep = PATH_PREFIX # q)"
    by (auto simp: expr_path_has_valid_prefix_def starts_with_iff)
  have suf: "expr_path_has_valid_suffix ep \<longleftrightarrow>
      (\<exists>q. ep = q @ [EXACT_PATH_TERMINATOR] \<or> ep = q @ [WILDCARD_PATH_TERMINATOR])"
    by (auto simp: expr_path_has_valid_suffix_def ends_with_iff)
  show ?thesis
  proof (cases "\<exists>r. ep = PATH_PREFIX # r @ [WILDCARD_PATH_TERMINATOR]")
    case True
    then obtain r where r: "ep = PATH_PREFIX # r @ [WILDCARD_PATH_TERMINATOR]" by blast
    have e: "\<not> ends_with ep [EXACT_PATH_TERMINATOR]"
      using ends_with_single [of "PATH_PREFIX # r" WILDCARD_PATH_TERMINATOR EXACT_PATH_TERMINATOR] r by simp
    obtain ws where ws: "more_specific_wildcards_for (PATH_PREFIX # url_segments rp) ep = Some ws"
      using wildcards_terminate by blast
    have "expr_path_has_valid_prefix ep" "expr_path_has_valid_suffix ep" using pre suf r by auto
    moreover have "butlast ep = PATH_PREFIX # r" using r by simp
    moreover have "ep \<noteq> PATH_PREFIX # url_segments rp @ [EXACT_PATH_TERMINATOR]" using r by simp
    ultimately show ?thesis
      using e ws r
      by (auto simp: validate_expr_path_def Let_def and_then_eq_Inr check_more_specific_Ok)
  next
    case no: False
    have "?lhs \<longleftrightarrow> ?exact"
    proof (cases "expr_path_has_valid_prefix ep \<and> expr_path_has_valid_suffix ep")
      case True
      with pre suf obtain q q' where q: "ep = PATH_PREFIX # q"
        "ep = q' @ [EXACT_PATH_TERMINATOR] \<or> ep = q' @ [WILDCARD_PATH_TERMINATOR]" by blast
      have "q' \<noteq> []" using q by auto
      with q no have "ep = q' @ [EXACT_PATH_TERMINATOR]" by (auto simp: Cons_eq_append_conv)
      then have "ends_with ep [EXACT_PATH_TERMINATOR]" by simp
      with True show ?thesis by (auto simp: validate_expr_path_def Let_def)
    next
      case False
      with pre suf have "\<not> ?exact" by (metis append_Cons)
      with False show ?thesis by (auto simp: validate_expr_path_def)
    qed
    with no show ?thesis by blast
  qed
qed

subsection \<open>Acceptance of the hashes\<close>

lemma lookup_subtree_append:
  "lookup_subtree w (p @ q) =
     (case lookup_subtree w p of SLR_Found n \<Rightarrow> lookup_subtree n q | a \<Rightarrow> a)"
  by (induction p arbitrary: w) (auto split: lookup_label_result.splits)

lemma validate_expr_hash_Ok:
  "validate_expr_hash ep eh w = Inr n \<longleftrightarrow> lookup_subtree w (ep @ [eh]) = SLR_Found n"
  by (auto simp: validate_expr_hash_def split: subtree_lookup_result.splits)

lemma validate_hashes_Ok:
  "validate_hashes eh rq rs ep w cel = Inr () \<longleftrightarrow>
     lookup_subtree w (ep @ eh # expr_tree_path cel rq rs) = SLR_Found (Leaf [])"
proof -
  have app: "lookup_subtree w (ep @ eh # expr_tree_path cel rq rs) =
      (case lookup_subtree w (ep @ [eh]) of
         SLR_Found n \<Rightarrow> lookup_subtree n (expr_tree_path cel rq rs) | a \<Rightarrow> a)"
    using lookup_subtree_append [of w "ep @ [eh]" "expr_tree_path cel rq rs"]
    by (simp only: append_assoc append_Cons append_Nil)
  show ?thesis
  proof (cases "lookup_subtree w (ep @ [eh])")
    case (SLR_Found n)
    then have v: "validate_hashes eh rq rs ep w cel =
        (case lookup_subtree n (expr_tree_path cel rq rs) of
           SLR_Found res_tree \<Rightarrow> if res_tree = Leaf [] then Inr () else Inl (MissingLeafNode ep)
         | _ \<Rightarrow> Inl (InvalidRequestAndResponseHashes ep))"
      by (simp only: validate_hashes_def validate_expr_hash_def subtree_lookup_result.simps and_then.simps)
    show ?thesis unfolding v app SLR_Found
      by (simp only: subtree_lookup_result.simps split: subtree_lookup_result.split) auto
  qed (simp_all add: validate_hashes_def validate_expr_hash_def app del: lookup_subtree.simps)
qed

lemma leaf_certified:
  assumes ok: "ct_ok H t" and pr: "prunes H w (ct_as_hash_tree H t)" and p: "p \<noteq> []"
    and f: "lookup_subtree w (PATH_PREFIX # p) = SLR_Found (Leaf [])"
  shows "p \<in> certified_paths t"
proof -
  from lookup_subtree_pruned [OF pr ct_sorted [OF ok], of "PATH_PREFIX # p"] f obtain m where
    m: "lookup_subtree (ct_as_hash_tree H t) (PATH_PREFIX # p) = SLR_Found m" "prunes H (Leaf []) m"
    by auto
  then have "m = Leaf []" by (cases m) auto
  with m have "lookup_path (ct_as_hash_tree H t) (PATH_PREFIX # p) = LR_Found []"
    by (subst lookup_path_subtree) (simp del: lookup_subtree.simps(1))
  with ct_full_lookup(3) [OF ok p] show ?thesis by simp
qed

lemma found_certified_below:
  assumes ok: "ct_ok H t" and pr: "prunes H w (ct_as_hash_tree H t)" and p: "p \<noteq> []"
    and f: "lookup_subtree w (PATH_PREFIX # p) = SLR_Found n"
  shows "certified_below t p"
  using exists_sound [OF assms(1-3)] f by (simp add: path_exists_in_tree_def del: lookup_subtree.simps)

subsection \<open>What an accepted path means\<close>

text \<open>The paths that may answer a request in a tree: the exact path of the request; or, when the tree
  certifies nothing under the exact path, a wildcard that is valid for the request and such that the
  tree certifies nothing under the more specific wildcards.\<close>

definition answers :: "certification_tree \<Rightarrow> bytes \<Rightarrow> path \<Rightarrow> bool" where
  "answers t rp p \<longleftrightarrow>
     (p = url_segments rp @ [EXACT_PATH_TERMINATOR] \<and> certified_below t p) \<or>
     (\<exists>r. p = r @ [WILDCARD_PATH_TERMINATOR] \<and> certified_below t p \<and>
        is_wildcard_path_valid_for_request_path r (url_segments rp) \<and>
        \<not> certified_below t (url_segments rp @ [EXACT_PATH_TERMINATOR]) \<and>
        (r \<in> set (wildcard_chain (url_segments rp)) \<longrightarrow>
          (\<forall>q \<in> set (takeWhile (\<lambda>q. q \<noteq> r) (wildcard_chain (url_segments rp))).
             \<not> certified_below t (q @ [WILDCARD_PATH_TERMINATOR]))))"

lemma valid_prefixed [simp]:
  "is_wildcard_path_valid_for_request_path (x # r) (x # p) \<longleftrightarrow> is_wildcard_path_valid_for_request_path r p"
  if "r \<noteq> []"
  using that by (cases r rule: rev_cases)
    (auto simp: is_wildcard_path_valid_for_request_path_def ends_with_iff Cons_eq_append_conv)

lemma valid_prefixed_Nil [simp]: "is_wildcard_path_valid_for_request_path [x] (x # p)"
  "is_wildcard_path_valid_for_request_path [] p"
  by (simp_all add: is_wildcard_path_valid_for_request_path_def)

lemma valid_prefixed_iff:
  "is_wildcard_path_valid_for_request_path (x # r) (x # p) \<longleftrightarrow> is_wildcard_path_valid_for_request_path r p"
  by (cases "r = []") simp_all

lemma chain_segments:
  assumes "r \<in> set (wildcard_chain p)" and "\<And>i. i < length p - 1 \<Longrightarrow> p ! i \<noteq> []" and "i < length r - 1"
  shows "r ! i \<noteq> []"
  using assms by (auto simp: mem_wildcard_chain nth_append)

text \<open>The wildcards that the verifier checks are those of the chain before the responding one.\<close>

lemma verifier_wildcards:
  assumes "plain_last (url_segments rp)" and r: "r \<in> set (wildcard_chain (url_segments rp))"
  shows "more_specific_wildcards_for (PATH_PREFIX # url_segments rp)
      (PATH_PREFIX # r @ [WILDCARD_PATH_TERMINATOR]) =
    Some (map (\<lambda>q. q @ [WILDCARD_PATH_TERMINATOR])
      (takeWhile (\<lambda>q. q \<noteq> r) (wildcard_chain (url_segments rp))))"
proof (rule more_specific_wildcards_chain [OF _ _ r])
  show "strip_path_affixes (PATH_PREFIX # r @ [WILDCARD_PATH_TERMINATOR]) = r"
    by (rule strip_header_wildcard) (rule chain_segments [OF r url_segments_ne])
  show "strip_path_affixes (PATH_PREFIX # url_segments rp) = url_segments rp"
    by (rule strip_request [OF assms(1) url_segments_ne])
qed

lemma expr_path_sound:
  assumes ok: "ct_ok H t" and pr: "prunes H w (ct_as_hash_tree H t)"
    and acc: "validate_expr_path ep rp w = Some (Inr ())" and last: "plain_last (url_segments rp)"
  shows "\<exists>p. ep = PATH_PREFIX # p \<and> p \<noteq> [] \<and> answers t rp p"
proof -
  let ?u = "url_segments rp"
  note exists = exists_sound [OF ok pr] and absent = absent_sound [OF ok pr]
  from acc consider
    (exact) "ep = PATH_PREFIX # ?u @ [EXACT_PATH_TERMINATOR]" "path_exists_in_tree ep w"
  | (wild) r ws where "ep = PATH_PREFIX # r @ [WILDCARD_PATH_TERMINATOR]"
      "\<not> path_might_exist_in_tree (PATH_PREFIX # ?u @ [EXACT_PATH_TERMINATOR]) w"
      "is_wildcard_path_valid_for_request_path (PATH_PREFIX # r) (PATH_PREFIX # ?u)"
      "more_specific_wildcards_for (PATH_PREFIX # ?u) ep = Some ws"
      "\<forall>p \<in> set ws. \<not> path_might_exist_in_tree (PATH_PREFIX # p) w" "path_exists_in_tree ep w"
    unfolding validate_expr_path_Ok by blast
  then show ?thesis
  proof cases
    case exact
    with exists [of "?u @ [EXACT_PATH_TERMINATOR]"] show ?thesis by (auto simp: answers_def)
  next
    case wild
    have "\<not> certified_below t (q @ [WILDCARD_PATH_TERMINATOR])"
      if "r \<in> set (wildcard_chain ?u)" "q \<in> set (takeWhile (\<lambda>q. q \<noteq> r) (wildcard_chain ?u))" for q
      using verifier_wildcards [OF last that(1)] wild(1,4,5) that(2) absent by auto
    with wild exists [of "r @ [WILDCARD_PATH_TERMINATOR]"] absent [of "?u @ [EXACT_PATH_TERMINATOR]"]
    show ?thesis by (auto simp: answers_def valid_prefixed_iff)
  qed
qed

subsection \<open>Witnesses that the library builds\<close>

lemma proved_lookup:
  assumes ok: "ct_ok H t" and p: "p \<noteq> []"
    and eq: "lookup_subtree w (PATH_PREFIX # p) = lookup_subtree (ct_as_hash_tree H t) (PATH_PREFIX # p)"
  shows "path_exists_in_tree (PATH_PREFIX # p) w \<longleftrightarrow> certified_below t p"
    and "path_might_exist_in_tree (PATH_PREFIX # p) w \<longleftrightarrow> certified_below t p"
  using ct_full_lookup(1,2) [OF ok p] unfolding path_exists_in_tree_def path_might_exist_in_tree_def
    certified_below_def eq
  by (cases "lookup_subtree (ct_as_hash_tree H t) (PATH_PREFIX # p)"; simp)+

lemma proved_leaf:
  assumes ok: "ct_ok H t" and p: "p \<in> certified_paths t" and ne: "p \<noteq> []"
    and eq: "lookup_subtree w (PATH_PREFIX # p) = lookup_subtree (ct_as_hash_tree H t) (PATH_PREFIX # p)"
  shows "lookup_subtree w (PATH_PREFIX # p) = SLR_Found (Leaf [])"
proof -
  have "lookup_path (ct_as_hash_tree H t) (PATH_PREFIX # p) = LR_Found []"
    using ct_full_lookup(3) [OF ok ne] p by simp
  then obtain n where "lookup_subtree (ct_as_hash_tree H t) (PATH_PREFIX # p) = SLR_Found n"
    "lookup_path n [] = LR_Found []"
    by (subst (asm) lookup_path_subtree) (auto split: subtree_lookup_result.splits simp del: lookup_subtree.simps)
  moreover from this(2) have "n = Leaf []" by (cases n) auto
  ultimately show ?thesis using eq by simp
qed

text \<open>What the verifier checks for a certification once its hashes are those of the entry.\<close>

fun entry_accepted :: "hash_tree \<Rightarrow> path \<Rightarrow> http_certification \<Rightarrow> bool" where
  "entry_accepted w ep (Skip_Certification eh) \<longleftrightarrow> (\<exists>n. lookup_subtree w (ep @ [eh]) = SLR_Found n)"
| "entry_accepted w ep (ResponseOnly_Certification eh rs) \<longleftrightarrow>
     lookup_subtree w (ep @ [eh, [], rs]) = SLR_Found (Leaf [])"
| "entry_accepted w ep (Full_Certification eh rq rs) \<longleftrightarrow>
     lookup_subtree w (ep @ [eh, rq, rs]) = SLR_Found (Leaf [])"

lemma entry_acceptedI:
  "lookup_subtree w (ep @ certification_to_tree_path cert) = SLR_Found (Leaf []) \<Longrightarrow> entry_accepted w ep cert"
  by (cases cert) simp_all

lemma certified_below_prefix: "p @ q \<in> certified_paths t \<Longrightarrow> certified_below t p"
  by (auto simp: certified_below_def)

lemma plain_first_chain: "plain_first p \<Longrightarrow> r \<in> set (wildcard_chain p) \<Longrightarrow> plain_first r"
  by (cases p) (auto simp: mem_wildcard_chain plain_first_def PATH_PREFIX_def str_bytes_def take_Cons'
      split: if_splits)

lemma library_wildcards:
  assumes "plain_first (url_segments url)" and r: "r \<in> set (wildcard_chain (url_segments url))"
  shows "more_specific_wildcards_for (url_segments url @ [EXACT_PATH_TERMINATOR]) (r @ [WILDCARD_PATH_TERMINATOR]) =
    Some (map (\<lambda>q. q @ [WILDCARD_PATH_TERMINATOR])
      (takeWhile (\<lambda>q. q \<noteq> r) (wildcard_chain (url_segments url))))"
proof (rule more_specific_wildcards_chain [OF _ _ r])
  show "strip_path_affixes (r @ [WILDCARD_PATH_TERMINATOR]) = r"
    by (rule strip_tree_path) (use chain_segments [OF r url_segments_ne] plain_first_chain [OF assms] in auto)
  show "strip_path_affixes (url_segments url @ [EXACT_PATH_TERMINATOR]) = url_segments url"
    by (rule strip_tree_path) (use url_segments_ne assms(1) in auto)
qed

lemma exact_witness_accepted:
  assumes ok: "ct_ok H t" and e: "entry_path e = Exact_Path p" and seg: "url_segments p = url_segments url"
    and cert: "entry_to_tree_path e \<in> certified_paths t"
  shows "\<exists>w. ct_witness H t e url = Some (Inr w) \<and> prunes H w (ct_as_hash_tree H t) \<and>
    validate_expr_path (to_expr_path (entry_path e)) url w = Some (Inr ()) \<and>
    entry_accepted w (to_expr_path (entry_path e)) (entry_certification e)"
proof -
  let ?q = "entry_to_tree_path e" and ?b = "url_segments url @ [EXACT_PATH_TERMINATOR]"
  obtain w where w: "ct_nested_witness H t ?q = Some w" "proves H w (nt_as_hash_tree H vec_as_hash_tree t) ?q"
    using ct.wit_proves [OF ok] by blast
  let ?w = "Labeled PATH_PREFIX w"
  have q: "?q = ?b @ certification_to_tree_path (entry_certification e)"
    using e seg by (simp add: entry_to_tree_path_def)
  have "prunes H ?w (ct_as_hash_tree H t)"
    using w(2) by (simp add: proves_def ct_as_hash_tree_def prunes_Labeled_iff)
  moreover have ne: "?q \<noteq> []" by (simp add: q)
  have eq: "lookup_subtree ?w (PATH_PREFIX # ?q) = lookup_subtree (ct_as_hash_tree H t) (PATH_PREFIX # ?q)"
    using w(2) unfolding proves_def by (metis append_Nil2 ct_as_hash_tree_def ct_lookup_Cons)
  have leaf: "lookup_subtree ?w (PATH_PREFIX # ?q) = SLR_Found (Leaf [])"
    by (rule proved_leaf [OF ok cert ne eq])
  moreover have "path_exists_in_tree (PATH_PREFIX # ?b) ?w"
    using leaf lookup_subtree_append [of ?w "PATH_PREFIX # ?b" "certification_to_tree_path (entry_certification e)"]
    by (simp add: q path_exists_in_tree_def del: lookup_subtree.simps split: subtree_lookup_result.splits)
  ultimately show ?thesis
    using w(1) e seg entry_acceptedI [of ?w "PATH_PREFIX # ?b" "entry_certification e"]
    by (simp add: ct_witness_def validate_expr_path_Ok q del: lookup_subtree.simps)
qed

lemma wildcard_witness_accepted:
  assumes ok: "ct_ok H t" and e: "entry_path e = Wildcard_Path p"
    and cert: "entry_to_tree_path e \<in> certified_paths t"
    and ans: "answers t url (path_to_tree_path (entry_path e))"
    and chain: "url_segments p \<in> set (wildcard_chain (url_segments url))"
    and plain: "plain_first (url_segments url)" "plain_last (url_segments url)"
  shows "\<exists>w. ct_witness H t e url = Some (Inr w) \<and> prunes H w (ct_as_hash_tree H t) \<and>
    validate_expr_path (to_expr_path (entry_path e)) url w = Some (Inr ()) \<and>
    entry_accepted w (to_expr_path (entry_path e)) (entry_certification e)"
proof -
  let ?u = "url_segments url" and ?r = "url_segments p"
  let ?rq = "?u @ [EXACT_PATH_TERMINATOR]" and ?rs = "?r @ [WILDCARD_PATH_TERMINATOR]"
  let ?ws = "map (\<lambda>q. q @ [WILDCARD_PATH_TERMINATOR]) (takeWhile (\<lambda>q. q \<noteq> ?r) (wildcard_chain ?u))"
  let ?full = "nt_as_hash_tree H vec_as_hash_tree t"
  from ct.two_merged [OF ok, of ?rq ?rs ?ws] obtain w1 w2 m m' where
    w: "ct_nested_witness H t ?rq = Some w1" "ct_nested_witness H t ?rs = Some w2"
    "merge_hash_trees w1 w2 = Some m" "merge_witnesses (ct_nested_witness H t) ?ws m = Some m'"
    "prunes H m' ?full" "\<forall>r \<in> {?rq, ?rs} \<union> set ?ws. proves H m' ?full r" by blast
  let ?w = "Labeled PATH_PREFIX m'"
  have look: "lookup_subtree ?w (PATH_PREFIX # q @ rest) = lookup_subtree (ct_as_hash_tree H t) (PATH_PREFIX # q @ rest)"
    if "q \<in> {?rq, ?rs} \<union> set ?ws" for q rest
  proof -
    from w(6) that have "proves H m' ?full q" by blast
    then show ?thesis by (simp add: proves_def ct_as_hash_tree_def)
  qed
  have look0: "lookup_subtree ?w (PATH_PREFIX # q) = lookup_subtree (ct_as_hash_tree H t) (PATH_PREFIX # q)"
    if "q \<in> {?rq, ?rs} \<union> set ?ws" for q using look [OF that, of "[]"] by (simp only: append_Nil2)
  note below = proved_lookup [OF ok _ look0]
  have len: "length ?rs \<le> length ?rq" using wildcard_chain_length [OF chain] by simp
  have "ct_witness H t e url = Some (Inr ?w)"
    using e len w(1-4) library_wildcards [OF plain(1) chain] by (simp add: ct_witness_def Let_def)
  moreover have "prunes H ?w (ct_as_hash_tree H t)"
    using w(5) by (simp add: ct_as_hash_tree_def prunes_Labeled_iff)
  moreover have "validate_expr_path (to_expr_path (entry_path e)) url ?w = Some (Inr ())"
  proof -
    from ans e chain have a: "certified_below t ?rs" "\<not> certified_below t ?rq"
      "is_wildcard_path_valid_for_request_path ?r ?u" "\<forall>q \<in> set ?ws. \<not> certified_below t q"
      by (auto simp: answers_def)
    have "\<not> path_might_exist_in_tree (PATH_PREFIX # q) ?w" if "q \<in> insert ?rq (set ?ws)" for q
      using below(2) [of q] a(2,4) that by auto
    moreover have "path_exists_in_tree (PATH_PREFIX # ?rs) ?w" using below(1) [of ?rs] a(1) by simp
    ultimately show ?thesis
      unfolding validate_expr_path_Ok using e a(3) verifier_wildcards [OF plain(2) chain]
      by (auto simp: valid_prefixed_iff)
  qed
  moreover have "lookup_subtree ?w (PATH_PREFIX # entry_to_tree_path e) = SLR_Found (Leaf [])"
    using look [of ?rs "certification_to_tree_path (entry_certification e)"] e
    by (intro proved_leaf [OF ok cert]) (simp_all add: entry_to_tree_path_def del: lookup_subtree.simps)
  then have "entry_accepted ?w (to_expr_path (entry_path e)) (entry_certification e)"
    using e by (intro entry_acceptedI) (simp add: entry_to_tree_path_def del: lookup_subtree.simps)
  ultimately show ?thesis by blast
qed

end
