(* ===== verification/Response_Correct.thy ===== *)
theory Response_Correct
  imports Response_Soundness Cel_Roundtrip
begin

text \<open>
  The correctness of response verification: what an accepted response says about the canister's
  certification tree and about the response that the canister certified, and the acceptance of what
  the canister library builds.
\<close>

subsection \<open>From digests to trees\<close>

lemma ct_run_ok: "ct_run H ops ct_default = Some t \<Longrightarrow> ct_ok H t \<and> certified_paths t = ct_spec ops {}"
  using ct_run_refines [OF ct_ok_default, of H ops] by auto

text \<open>A hash tree with the root hash of the certification tree, and no collision between the two.\<close>

definition bound_to :: "(bytes \<Rightarrow> hash) \<Rightarrow> hash_tree \<Rightarrow> certification_tree \<Rightarrow> bool" where
  "bound_to H w t \<longleftrightarrow> well_sized w \<and> digest H w = ct_root_hash H t \<and>
     inj_on H (set (hash_inputs H w) \<union> set (hash_inputs H (ct_as_hash_tree H t)))"

lemma bound_prunes:
  assumes "hash32 H" and "ct_ok H t" and "bound_to H w t"
  shows "prunes H w (ct_as_hash_tree H t)"
  using digest_binding [OF assms(1), of w "ct_as_hash_tree H t"] assms(3) ct_digest [OF assms(2)]
    sorted_tree_unpruned [OF ct_sorted [OF assms(2)]]
  by (simp add: bound_to_def)

text \<open>The certificate speaks of a state in which the canister's certified data is a hash.\<close>

definition certifies_data :: "(bytes \<Rightarrow> hash) \<Rightarrow> certificate \<Rightarrow> bytes \<Rightarrow> hash \<Rightarrow> bool" where
  "certifies_data H cert canister_id d \<longleftrightarrow>
     (\<exists>S. sorted_tree S \<and> digest H (cert_tree cert) = digest H S \<and>
        lookup_path S [str_bytes ''canister'', canister_id, str_bytes ''certified_data''] = LR_Found d \<and>
        inj_on H (set (hash_inputs H (cert_tree cert)) \<union> set (hash_inputs H S)))"

lemma certified_data_lookup:
  assumes H: "hash32 H" and w: "well_sized (cert_tree cert)" and c: "certifies_data H cert canister_id d"
    and f: "lookup_path (cert_tree cert)
      [str_bytes ''canister'', canister_id, str_bytes ''certified_data''] = LR_Found d'"
  shows "d' = d"
proof -
  from c obtain S where S: "sorted_tree S" "digest H (cert_tree cert) = digest H S"
    "lookup_path S [str_bytes ''canister'', canister_id, str_bytes ''certified_data''] = LR_Found d"
    "inj_on H (set (hash_inputs H (cert_tree cert)) \<union> set (hash_inputs H S))"
    unfolding certifies_data_def by blast
  have "prunes H (cert_tree cert) S"
    by (rule digest_binding [OF H w sorted_tree_unpruned [OF S(1)] S(4,2)])
  from lookup_path_pruned [OF this S(1), of "[str_bytes ''canister'', canister_id, str_bytes ''certified_data'']"]
    f S(3) show ?thesis by (simp del: lookup_path.simps)
qed

lemma validate_tree_Ok:
  "validate_tree H lib canister_id cert tree c = Some (Inr (), c') \<longleftrightarrow>
     c' = c \<and> lookup_path (cert_tree cert)
       [str_bytes ''canister'', canister_id, str_bytes ''certified_data''] = LR_Found (digest H tree)"
  by (cases "lookup_path (cert_tree cert) [str_bytes ''canister'', canister_id, str_bytes ''certified_data'']")
    (auto simp: validate_tree_def Let_def seq_Ok simp del: lookup_path.simps terminators)

subsection \<open>Version 2\<close>

text \<open>What the tree certifies for a request and response under an expression.\<close>

fun certified_pair ::
  "(bytes \<Rightarrow> hash) \<Rightarrow> (64 word \<Rightarrow> bytes) \<Rightarrow> http_lib \<Rightarrow> certification_tree \<Rightarrow> path \<Rightarrow> hash \<Rightarrow>
     http_request \<Rightarrow> http_response \<Rightarrow> cel_expression \<Rightarrow> bool" where
  "certified_pair H leb lib t p eh request response (CelDefault CelSkip) \<longleftrightarrow> certified_below t (p @ [eh])"
| "certified_pair H leb lib t p eh request response (CelDefault (CelResponseOnly c)) \<longleftrightarrow>
     p @ [eh, [], response_hash H leb response (only_response c) None] \<in> certified_paths t"
| "certified_pair H leb lib t p eh request response (CelDefault (CelFull c)) \<longleftrightarrow>
     (\<exists>rq. request_hash H leb lib request (full_request c) = Inr rq \<and>
        p @ [eh, rq, response_hash H leb response (full_response c) None] \<in> certified_paths t)"

text \<open>What is returned: nothing of a skipped response, and otherwise its status, its body, the
  certified headers and the certificate header.\<close>

definition returned_response :: "http_response \<Rightarrow> cel_expression \<Rightarrow> verified_response option \<Rightarrow> bool" where
  "returned_response response cel r \<longleftrightarrow>
     (case v2_certifications cel of
        None \<Rightarrow> r = None
      | Some (_, rc) \<Rightarrow> (\<exists>v. r = Some \<lparr>vr_status_code = Some (resp_status response),
          vr_headers = certified_headers rc (resp_headers response) @ [(CERTIFICATE_HEADER_NAME, v)],
          vr_body = resp_body response\<rparr>))"

lemma response_hash_unfold:
  "sha_hash H (response_headers_hash H leb (ucast (resp_status r)) (filter_response_headers r rc) @
     sha_hash H (resp_body r)) = response_hash H leb r rc None"
  by (simp add: response_hash_def Let_def)

lemma v2_steps:
  fixes vl :: "('e, 'f, 'p::linorder, 'b, 'c, 'd) verify_lib"
  assumes "v2_verification H vl request response canister_id now offset tree cert ep eh cel key c =
    Some (Inr info, c')"
  shows "\<exists>rp. get_path (vl_http vl) request = Inr rp \<and>
    checked_certificate H vl cert canister_id key now offset c = Some (Inr (), c') \<and>
    lookup_path (cert_tree cert)
       [str_bytes ''canister'', canister_id, str_bytes ''certified_data''] = LR_Found (digest H tree) \<and>
    validate_expr_path ep rp tree =
      (Some (Inr ()) :: (('e, 'f, 'p, 'b) response_error + unit) option) \<and>
    (case v2_certifications cel of
        None \<Rightarrow> (\<exists>n. lookup_subtree tree (ep @ [eh]) = SLR_Found n) \<and>
          info = \<lparr>vi_response = None, vi_verification_version = 2\<rparr>
      | Some (qc, rc) \<Rightarrow> (\<exists>rq v. opt_request_hash H vl request qc = Inr rq \<and>
          lookup_subtree tree (ep @ eh # expr_tree_path cel rq (response_hash H (vl_leb vl) response rc None)) =
            SLR_Found (Leaf []) \<and>
          info = \<lparr>vi_response = Some
              \<lparr>vr_status_code = Some (resp_status response),
               vr_headers = certified_headers rc (resp_headers response) @ [(CERTIFICATE_HEADER_NAME, v)],
               vr_body = resp_body response\<rparr>, vi_verification_version = 2\<rparr>))"
proof -
  define tail :: "('c, ('e, 'f, 'p, 'b) response_error, verification_info) comp" where
    "tail = (case v2_certifications cel of
       None \<Rightarrow>
         seq (pure (validate_expr_hash ep eh tree)) (\<lambda>_.
         pure (Inr \<lparr>vi_response = None, vi_verification_version = 2\<rparr>))
     | Some (request_certification, response_certification) \<Rightarrow>
         seq (pure (map_err HttpCertificationError
           (opt_request_hash H vl request request_certification))) (\<lambda>rq.
         seq (pure (validate_hashes eh rq
            (response_hash H (vl_leb vl) response response_certification None) ep tree cel)) (\<lambda>_.
         pure (case rh_certificate (filter_response_headers response response_certification) of
             None \<Rightarrow> Inl HeaderMissingCertification
           | Some certificate_header_str \<Rightarrow>
               Inr \<lparr>vi_response = Some
                      \<lparr>vr_status_code = Some (resp_status response),
                       vr_headers = certified_headers response_certification (resp_headers response) @
                         [(CERTIFICATE_HEADER_NAME, certificate_header_str)],
                       vr_body = resp_body response\<rparr>,
                    vi_verification_version = 2\<rparr>))))"
  have "v2_verification H vl request response canister_id now offset tree cert ep eh cel key =
      seq (pure (map_err HttpCertificationError (get_path (vl_http vl) request))) (\<lambda>rp.
      seq (checked_certificate H vl cert canister_id key now offset) (\<lambda>_.
      seq (validate_tree H (vl_cert vl) canister_id cert tree) (\<lambda>_.
      seq (partial (validate_expr_path ep rp tree)) (\<lambda>_. tail))))"
    by (simp only: v2_verification_def tail_def Let_def response_hash_unfold filter_response_headers_spec)
  from assms [unfolded this] obtain rp c1 where rp: "get_path (vl_http vl) request = Inr rp"
    "checked_certificate H vl cert canister_id key now offset c = Some (Inr (), c1)"
    "lookup_path (cert_tree cert)
       [str_bytes ''canister'', canister_id, str_bytes ''certified_data''] = LR_Found (digest H tree)"
    "validate_expr_path ep rp tree =
      (Some (Inr ()) :: (('e, 'f, 'p, 'b) response_error + unit) option)"
    and rest: "tail c1 = Some (Inr info, c')"
    by (elim seq_OkE) (simp add: validate_tree_Ok del: lookup_path.simps terminators)
  show ?thesis
  proof (cases "v2_certifications cel")
    case None
    with rest have "\<exists>n. validate_expr_hash ep eh tree = (Inr n :: ('e, 'f, 'p, 'b) response_error + hash_tree)"
      "info = \<lparr>vi_response = None, vi_verification_version = 2\<rparr>" "c' = c1"
      by (auto simp: tail_def seq_Ok)
    with rp None show ?thesis by (simp add: validate_expr_hash_Ok del: lookup_path.simps terminators)
  next
    case (Some cs)
    obtain qc rc where cs: "cs = (qc, rc)" by (cases cs)
    from rest Some cs obtain rq v where "opt_request_hash H vl request qc = Inr rq"
      "validate_hashes eh rq (response_hash H (vl_leb vl) response rc None) ep tree cel =
        (Inr () :: ('e, 'f, 'p, 'b) response_error + unit)"
      "info = \<lparr>vi_response = Some
          \<lparr>vr_status_code = Some (resp_status response),
           vr_headers = certified_headers rc (resp_headers response) @ [(CERTIFICATE_HEADER_NAME, v)],
           vr_body = resp_body response\<rparr>, vi_verification_version = 2\<rparr>" "c' = c1"
      by (auto simp: tail_def seq_Ok split: option.splits)
    with rp Some cs show ?thesis
      by (simp add: validate_hashes_Ok del: lookup_path.simps lookup_subtree.simps terminators)
  qed
qed

text \<open>An accepted response of version 2 is certified by the canister's tree.\<close>

lemma v2_certified:
  fixes vl :: "('e, 'f, 'p::linorder, 'b, 'c, 'd) verify_lib"
  assumes H: "hash32 H" and t: "ct_ok H t"
    and state: "well_sized (cert_tree cert)" "certifies_data H cert canister_id (ct_root_hash H t)"
    and coll: "well_sized tree" "inj_on H (set (hash_inputs H tree) \<union> set (hash_inputs H (ct_as_hash_tree H t)))"
    and run: "v2_verification H vl request response canister_id now offset tree cert ep eh cel key c =
      Some (Inr info, c')"
    and rp: "get_path (vl_http vl) request = Inr rp" "plain_last (url_segments rp)"
  shows "\<exists>p. ep = PATH_PREFIX # p \<and> answers t rp p \<and>
    certified_pair H (vl_leb vl) (vl_http vl) t p eh request response cel \<and>
    returned_response response cel (vi_response info)"
proof -
  note steps = v2_steps [OF run]
  have acc: "validate_expr_path ep rp tree = (Some (Inr ()) :: (('e, 'f, 'p, 'b) response_error + unit) option)"
    using steps rp(1) by auto
  have "digest H tree = ct_root_hash H t"
    using steps certified_data_lookup [OF H state] by blast
  with coll have pr: "prunes H tree (ct_as_hash_tree H t)"
    by (intro bound_prunes [OF H t]) (simp add: bound_to_def)
  from expr_path_sound [OF t pr acc rp(2)] obtain p where p: "ep = PATH_PREFIX # p" "answers t rp p" by blast
  note leaf = leaf_certified [OF t pr]
  show ?thesis
  proof (cases "v2_certifications cel")
    case None
    then have cel: "cel = CelDefault CelSkip"
      by (cases cel; cases "case cel of CelDefault d \<Rightarrow> d") (auto simp: v2_certifications_def)
    from None steps p(1) obtain n where "lookup_subtree tree (PATH_PREFIX # p @ [eh]) = SLR_Found n"
      and info: "vi_response info = None" by auto
    from found_certified_below [OF t pr _ this(1)] cel p info None show ?thesis
      by (auto simp: returned_response_def)
  next
    case (Some cs)
    obtain qc rc where cs: "cs = (qc, rc)" by (cases cs)
    with Some steps p(1) obtain rq v where rq: "opt_request_hash H vl request qc = Inr rq"
      "lookup_subtree tree (PATH_PREFIX # p @ eh #
         expr_tree_path cel rq (response_hash H (vl_leb vl) response rc None)) = SLR_Found (Leaf [])"
      and info: "vi_response info = Some \<lparr>vr_status_code = Some (resp_status response),
           vr_headers = certified_headers rc (resp_headers response) @ [(CERTIFICATE_HEADER_NAME, v)],
           vr_body = resp_body response\<rparr>"
      by (auto simp del: lookup_subtree.simps)
    have ret: "returned_response response cel (vi_response info)"
      using info Some cs by (auto simp: returned_response_def)
    have mem: "p @ eh # expr_tree_path cel rq (response_hash H (vl_leb vl) response rc None) \<in> certified_paths t"
      by (rule leaf [OF _ rq(2)]) simp
    show ?thesis
    proof (cases cel)
      case (CelDefault d)
      with Some cs rq(1) mem p ret show ?thesis
        by (cases d) (auto simp: v2_certifications_def opt_request_hash_def expr_tree_path_def
            and_then_eq_Inr)
    qed
  qed
qed

subsection \<open>The canister's entries\<close>

text \<open>Headers that leave the place of the expression header free.\<close>

definition no_expression_header :: "(bytes \<Rightarrow> bytes) \<Rightarrow> header_field list \<Rightarrow> bool" where
  "no_expression_header lower hs \<longleftrightarrow>
     (\<forall>h \<in> set hs. lower (fst h) \<noteq> lower CERTIFICATE_EXPRESSION_HEADER_NAME)"

lemma validate_headers_skip:
  "no_expression_header lower hs \<Longrightarrow>
     validate_response_headers lower expr found (hs @ hs') = validate_response_headers lower expr found hs'"
  by (induction hs) (auto simp: no_expression_header_def)

lemma lower_text: "lower_ascii lower \<Longrightarrow> is_ascii s \<Longrightarrow> lower s = to_ascii_lowercase s"
  by (simp add: lower_ascii_def)

text \<open>What a canister certifies with the constructors of \<^verbatim>\<open>HttpCertification\<close>.\<close>

datatype certified_source =
    Source_Skip
  | Source_ResponseOnly response_only_cel_expr http_response
  | Source_Full full_cel_expr http_request http_response

fun source_certification ::
  "(bytes \<Rightarrow> hash) \<Rightarrow> (64 word \<Rightarrow> bytes) \<Rightarrow> http_lib \<Rightarrow> (bytes \<Rightarrow> bytes) \<Rightarrow> certified_source \<Rightarrow>
     http_error + http_certification" where
  "source_certification H leb lib lower Source_Skip = Inr (certification_skip H)"
| "source_certification H leb lib lower (Source_ResponseOnly c response) =
     certification_response_only H leb lower c response None"
| "source_certification H leb lib lower (Source_Full c request response) =
     certification_full H leb lib lower c request response None"

text \<open>Every inserted entry was made from a source, for its path.\<close>

definition made_from ::
  "(bytes \<Rightarrow> hash) \<Rightarrow> (64 word \<Rightarrow> bytes) \<Rightarrow> http_lib \<Rightarrow> (bytes \<Rightarrow> bytes) \<Rightarrow>
     (certification_path \<times> certified_source) set \<Rightarrow> ct_op list \<Rightarrow> bool" where
  "made_from H leb lib lower S ops \<longleftrightarrow>
     (\<forall>e. CtInsert e \<in> set ops \<longrightarrow> (\<exists>s. (entry_path e, s) \<in> S \<and>
        source_certification H leb lib lower s = Inr (entry_certification e)))"

lemma spec_step_inserted:
  "p \<in> ct_spec_step a S \<Longrightarrow> p \<in> S \<or> (\<exists>e. a = CtInsert e \<and> entry_to_tree_path e = p)"
  by (cases a) auto

lemma spec_inserted:
  "p \<in> ct_spec ops S \<Longrightarrow> p \<in> S \<or> (\<exists>e. CtInsert e \<in> set ops \<and> entry_to_tree_path e = p)"
proof (induction ops arbitrary: S)
  case (Cons a ops)
  then have "p \<in> ct_spec ops (ct_spec_step a S)" by (simp add: ct_spec_def)
  with Cons.IH [of "ct_spec_step a S"] spec_step_inserted [of p a S] show ?case by auto
qed (simp add: ct_spec_def)

lemma request_hash_length:
  "hash32 H \<Longrightarrow> request_hash H leb lib request c = Inr rq \<Longrightarrow> length rq = 32"
  by (auto simp: request_hash_def and_then_eq_Inr Let_def sha_hash_def)

lemma tree_path_last: "\<exists>us T. path_to_tree_path cp = us @ [T] \<and> length T = 3"
  by (cases cp) auto

lemma source_hashes:
  assumes "hash32 H" and "source_certification H leb lib lower s = Inr cert"
  shows "case s of
      Source_Skip \<Rightarrow> certification_to_tree_path cert = [sha_hash H (create_cel_expr skip_certification)]
    | Source_ResponseOnly c response \<Rightarrow> certification_to_tree_path cert =
        [sha_hash H (create_default_response_only_cel_expr c), [], response_hash H leb response (only_response c) None]
    | Source_Full c request response \<Rightarrow> \<exists>rq. request_hash H leb lib request (full_request c) = Inr rq \<and>
        certification_to_tree_path cert =
          [sha_hash H (create_default_full_cel_expr c), rq, response_hash H leb response (full_response c) None]"
  using assms(2)
  by (cases s) (auto simp: certification_skip_def certification_response_only_def certification_full_def
      Let_def and_then_eq_Inr)

lemma entry_split:
  assumes "entry_to_tree_path e = p @ [a, b, c]" and "length b \<noteq> 3"
    and "length (certification_to_tree_path (entry_certification e)) \<in> {1, 3}"
  shows "path_to_tree_path (entry_path e) = p \<and> certification_to_tree_path (entry_certification e) = [a, b, c]"
proof -
  obtain us T where T: "path_to_tree_path (entry_path e) = us @ [T]" "length T = 3"
    using tree_path_last by blast
  let ?c = "certification_to_tree_path (entry_certification e)"
  from assms(1) T have eq: "us @ [T] @ ?c = p @ [a, b, c]" by (simp add: entry_to_tree_path_def)
  have "length ?c \<noteq> 1"
  proof
    assume "length ?c = 1"
    then obtain x where "?c = [x]" by (cases ?c) auto
    with eq have "us @ [T, x] = (p @ [a]) @ [b, c]" by simp
    then have "[T, x] = [b, c]" by (subst (asm) append_eq_append_conv) auto
    with T(2) assms(2) show False by simp
  qed
  with assms(3) have "length ?c = 3" by simp
  then have "length ?c = length [a, b, c]" by simp
  with eq T(1) show ?thesis by (metis append_assoc append_eq_append_conv)
qed

lemma inserted_source:
  assumes H: "hash32 H" and made: "made_from H leb lib lower S ops"
    and p: "p @ [a, b, c] \<in> ct_spec ops {}" and b: "length b \<noteq> 3"
  obtains e s where "CtInsert e \<in> set ops" and "path_to_tree_path (entry_path e) = p"
    and "(entry_path e, s) \<in> S" and "source_certification H leb lib lower s = Inr (entry_certification e)"
    and "certification_to_tree_path (entry_certification e) = [a, b, c]"
proof -
  from spec_inserted [OF p] obtain e where e: "CtInsert e \<in> set ops" "entry_to_tree_path e = p @ [a, b, c]"
    by auto
  with made obtain s where s: "(entry_path e, s) \<in> S"
    "source_certification H leb lib lower s = Inr (entry_certification e)"
    unfolding made_from_def by blast
  have "length (certification_to_tree_path (entry_certification e)) \<in> {1, 3}"
    by (cases "entry_certification e") auto
  with entry_split [OF e(2) b] that e(1) s show thesis by blast
qed

subsection \<open>Agreement with the source\<close>

definition same_response :: "response_certification \<Rightarrow> http_response \<Rightarrow> http_response \<Rightarrow> bool" where
  "same_response rc r r' \<longleftrightarrow> resp_status r = resp_status r' \<and> resp_body r = resp_body r' \<and>
     mset (certified_headers rc (resp_headers r)) = mset (certified_headers rc (resp_headers r'))"

definition same_request :: "http_lib \<Rightarrow> request_certification \<Rightarrow> http_request \<Rightarrow> http_request \<Rightarrow> bool" where
  "same_request lib rc r r' \<longleftrightarrow> req_method r = req_method r' \<and> req_body r = req_body r' \<and>
     (\<exists>q q'. get_query lib r = Inr q \<and> get_query lib r' = Inr q' \<and>
        certified_query q rc = certified_query q' rc) \<and>
     mset (header_entries (req_headers r) rc) = mset (header_entries (req_headers r') rc)"

text \<open>The accepted request and response against a source.\<close>

fun from_source ::
  "http_lib \<Rightarrow> cel_expression \<Rightarrow> http_request \<Rightarrow> http_response \<Rightarrow> certified_source \<Rightarrow> bool" where
  "from_source lib (CelDefault CelSkip) request response s \<longleftrightarrow> s = Source_Skip"
| "from_source lib (CelDefault (CelResponseOnly c)) request response s \<longleftrightarrow>
     (\<exists>r0. s = Source_ResponseOnly c r0 \<and> same_response (only_response c) r0 response)"
| "from_source lib (CelDefault (CelFull c)) request response s \<longleftrightarrow>
     (\<exists>q0 r0. s = Source_Full c q0 r0 \<and> same_request lib (full_request c) q0 request \<and>
        same_response (full_response c) r0 response)"

fun source_expr :: "certified_source \<Rightarrow> cel_expression" where
  "source_expr Source_Skip = CelDefault CelSkip"
| "source_expr (Source_ResponseOnly c _) = CelDefault (CelResponseOnly c)"
| "source_expr (Source_Full c _ _) = CelDefault (CelFull c)"

definition no_status_header :: "http_response \<Rightarrow> bool" where
  "no_status_header r \<longleftrightarrow>
     (\<forall>h \<in> set (resp_headers r). to_ascii_lowercase (fst h) \<noteq> RESPONSE_STATUS_PSEUDO_HEADER_NAME)"

text \<open>A source whose expression has the names the parser accepts, and whose response does not use the
  name of the status pseudo header.\<close>

definition source_ok :: "certified_source \<Rightarrow> bool" where
  "source_ok s \<longleftrightarrow> expr_ok (source_expr s) \<and>
     (case s of Source_Skip \<Rightarrow> True | Source_ResponseOnly _ r \<Rightarrow> no_status_header r
      | Source_Full _ _ r \<Rightarrow> no_status_header r)"

text \<open>A path without the terminators among its segments.\<close>

definition plain_path :: "certification_path \<Rightarrow> bool" where
  "plain_path cp \<longleftrightarrow> (\<forall>x \<in> set (butlast (path_to_tree_path cp)).
     x \<noteq> EXACT_PATH_TERMINATOR \<and> x \<noteq> WILDCARD_PATH_TERMINATOR)"

text \<open>What is hashed for a source and for the response that is verified.\<close>

definition opt_request_inputs ::
  "(bytes \<Rightarrow> hash) \<Rightarrow> (64 word \<Rightarrow> bytes) \<Rightarrow> http_lib \<Rightarrow> http_request \<Rightarrow> request_certification \<Rightarrow> bytes set" where
  "opt_request_inputs H leb lib r rc =
     (case get_query lib r of Inl _ \<Rightarrow> {} | Inr q \<Rightarrow> request_inputs H leb r q rc)"

definition source_inputs ::
  "(bytes \<Rightarrow> hash) \<Rightarrow> (64 word \<Rightarrow> bytes) \<Rightarrow> http_lib \<Rightarrow> http_request \<Rightarrow> http_response \<Rightarrow> bytes \<Rightarrow>
     certified_source \<Rightarrow> bytes set" where
  "source_inputs H leb lib request response expr s =
     {expr, create_cel_expr (source_expr s)} \<union>
     (case s of
        Source_Skip \<Rightarrow> {}
      | Source_ResponseOnly c r0 \<Rightarrow>
          response_inputs H leb r0 (only_response c) \<union> response_inputs H leb response (only_response c)
      | Source_Full c q0 r0 \<Rightarrow>
          opt_request_inputs H leb lib q0 (full_request c) \<union>
          opt_request_inputs H leb lib request (full_request c) \<union>
          response_inputs H leb r0 (full_response c) \<union> response_inputs H leb response (full_response c))"

lemma no_status_certified:
  "no_status_header r \<Longrightarrow> RESPONSE_STATUS_PSEUDO_HEADER_NAME \<notin> fst ` set (certified_headers rc (resp_headers r))"
  by (auto simp: no_status_header_def certified_headers_def)

lemma plain_names_no_colon:
  assumes "request_names_ok rc" and "n \<in> fst ` set (header_entries hs rc)"
  shows "n \<notin> {str_bytes '':ic-cert-method'', str_bytes '':ic-cert-query''}"
proof -
  from assms obtain h m where h: "str_ok h" "eq_ignore_ascii_case h m" "n = to_ascii_lowercase m"
    by (auto simp: header_entries_def request_names_ok_def list_ex_iff list_all_iff)
  then have "n = to_ascii_lowercase h" by (simp add: eq_ignore_ascii_case_def)
  moreover obtain b h' where "h = b # h'" "ascii_alphanumeric b \<or> b = 45"
    using h(1) by (cases h) (auto simp: str_ok_def)
  moreover have "ascii_lower b \<noteq> 58" if "ascii_alphanumeric b \<or> b = 45" for b
  proof
    assume eq: "ascii_lower b = 58"
    show False
    proof (cases "65 \<le> b \<and> b \<le> 90")
      case True
      with eq have "b = 58 - 32" by (simp add: ascii_lower_def eq_diff_eq)
      with True show False by simp
    next
      case False
      with eq that show False by (auto simp: ascii_lower_def ascii_alphanumeric_def split: if_splits)
    qed
  qed
  ultimately show ?thesis by (auto simp: to_ascii_lowercase_def str_bytes_def)
qed

lemma same_responseI:
  assumes "hash32 H" and "inj_on leb (range (ucast :: 16 word \<Rightarrow> 64 word))" and "no_status_header r0"
    and "inj_on H (response_inputs H leb r0 rc \<union> response_inputs H leb r rc)"
    and "response_hash H leb r0 rc None = response_hash H leb r rc None"
  shows "same_response rc r0 r"
proof -
  have "inj_on leb {ucast (resp_status r0), ucast (resp_status r)}"
    by (rule inj_on_subset [OF assms(2)]) auto
  from response_hash_iff [OF assms(1) this assms(4) no_status_certified [OF assms(3)]] assms(5)
  show ?thesis by (simp add: same_response_def)
qed

lemma same_requestI:
  assumes H: "hash32 H" and ok: "request_names_ok rc"
    and inj: "inj_on H (opt_request_inputs H leb lib r0 rc \<union> opt_request_inputs H leb lib r rc)"
    and h: "request_hash H leb lib r0 rc = Inr x" "request_hash H leb lib r rc = Inr x"
  shows "same_request lib rc r0 r"
proof -
  from h obtain q0 q where q: "get_query lib r0 = Inr q0" "get_query lib r = Inr q"
    by (auto simp: request_hash_def and_then_eq_Inr)
  have names: "fst ` set (header_entries (req_headers r0) rc @ header_entries (req_headers r) rc) \<inter>
      {str_bytes '':ic-cert-method'', str_bytes '':ic-cert-query''} = {}"
    using plain_names_no_colon [OF ok] by (auto simp only: set_append image_Un)
  from inj q have "inj_on H (request_inputs H leb r0 q0 rc \<union> request_inputs H leb r q rc)"
    by (simp add: opt_request_inputs_def)
  from request_hash_iff [OF H q this names] h q show ?thesis by (simp add: same_request_def)
qed

text \<open>The text of a source determines its expression.\<close>

lemma source_text:
  assumes "cel_lib_documented nm" and "source_ok s"
    and "and_then (parse_cel_expression nm (create_cel_expr (source_expr s))) map_cel_ast = Inr cel"
  shows "cel = source_expr s"
  using cel_expr_parsed [OF assms(1), of "source_expr s"] assms(2,3) by (simp add: source_ok_def)

lemma sha_text_inj:
  "inj_on H (source_inputs H leb lib request response expr s) \<Longrightarrow>
     sha_hash H expr = sha_hash H (create_cel_expr (source_expr s)) \<Longrightarrow> expr = create_cel_expr (source_expr s)"
  by (auto simp: source_inputs_def sha_hash_def dest: inj_onD)

lemma source_agrees:
  assumes H: "hash32 H" and leb: "inj_on leb (range (ucast :: 16 word \<Rightarrow> 64 word))"
    and nm: "cel_lib_documented nm" and ok: "source_ok s"
    and inj: "inj_on H (source_inputs H leb lib request response expr s)"
    and cel: "and_then (parse_cel_expression nm expr) map_cel_ast = Inr cel"
    and src: "source_certification H leb lib lower s = Inr cert"
    and p: "certification_to_tree_path cert = [sha_hash H expr, b, c]"
    and mt: "case cel of CelDefault CelSkip \<Rightarrow> False
      | CelDefault (CelResponseOnly d) \<Rightarrow> b = [] \<and> c = response_hash H leb response (only_response d) None
      | CelDefault (CelFull d) \<Rightarrow> request_hash H leb lib request (full_request d) = Inr b \<and>
          c = response_hash H leb response (full_response d) None"
  shows "from_source lib cel request response s"
proof -
  note hashes = source_hashes [OF H src]
  have eq: "sha_hash H expr = sha_hash H (create_cel_expr (source_expr s))"
    using hashes p by (cases s) auto
  have expr: "expr = create_cel_expr (source_expr s)" by (rule sha_text_inj [OF inj eq])
  have c: "cel = source_expr s" using source_text [OF nm ok] cel expr by blast
  show ?thesis
  proof (cases s)
    case Source_Skip
    with c mt show ?thesis by simp
  next
    case (Source_ResponseOnly d r0)
    then have "inj_on H (response_inputs H leb r0 (only_response d) \<union> response_inputs H leb response (only_response d))"
      using inj by (auto simp: source_inputs_def intro: inj_on_subset)
    moreover have "response_hash H leb r0 (only_response d) None = response_hash H leb response (only_response d) None"
      using hashes p mt c Source_ResponseOnly by simp
    moreover have "no_status_header r0" using ok Source_ResponseOnly by (simp add: source_ok_def)
    ultimately show ?thesis using same_responseI [OF H leb] c Source_ResponseOnly by simp
  next
    case (Source_Full d q0 r0)
    then have inj': "inj_on H (response_inputs H leb r0 (full_response d) \<union> response_inputs H leb response (full_response d))"
      "inj_on H (opt_request_inputs H leb lib q0 (full_request d) \<union> opt_request_inputs H leb lib request (full_request d))"
      using inj by (auto simp: source_inputs_def intro: inj_on_subset)
    obtain rq where rq: "request_hash H leb lib q0 (full_request d) = Inr rq" "b = rq"
      "response_hash H leb r0 (full_response d) None = c"
      using hashes p Source_Full by auto
    have "no_status_header r0" "request_names_ok (full_request d)"
      using ok Source_Full by (simp_all add: source_ok_def)
    with same_responseI [OF H leb _ inj'(1)] same_requestI [OF H _ inj'(2) rq(1)] rq mt c Source_Full
    show ?thesis by simp
  qed
qed

lemma skipped_source:
  assumes H: "hash32 H" and nm: "cel_lib_documented nm" and made: "made_from H leb lib lower S ops"
    and S: "\<And>cp s. (cp, s) \<in> S \<Longrightarrow> plain_path cp \<and> source_ok s \<and>
      inj_on H (source_inputs H leb lib request response expr s)"
    and cel: "and_then (parse_cel_expression nm expr) map_cel_ast = Inr (CelDefault CelSkip)"
    and p: "r @ [T] @ sha_hash H expr # q \<in> ct_spec ops {}"
    and T: "T \<in> {EXACT_PATH_TERMINATOR, WILDCARD_PATH_TERMINATOR}"
  shows "\<exists>cp. (cp, Source_Skip) \<in> S \<and> path_to_tree_path cp = r @ [T]"
proof -
  from spec_inserted [OF p] obtain e where e: "CtInsert e \<in> set ops"
    "entry_to_tree_path e = r @ [T] @ sha_hash H expr # q" by auto
  with made obtain s where s: "(entry_path e, s) \<in> S"
    "source_certification H leb lib lower s = Inr (entry_certification e)"
    unfolding made_from_def by blast
  let ?cs = "certification_to_tree_path (entry_certification e)"
  note hashes = source_hashes [OF H s(2)]
  have first: "\<exists>cs'. ?cs = sha_hash H (create_cel_expr (source_expr s)) # cs'"
    using hashes by (cases s) (auto simp: skip_certification_def)
  have sizes: "length c \<noteq> 3" if "c \<in> set ?cs" for c
  proof -
    have "length c \<in> {0, 32}"
      using that hashes H request_hash_length [OF H]
      by (cases s) (auto simp: sha_hash_def response_hash_def Let_def)
    then show ?thesis by auto
  qed
  obtain us T' where cp: "path_to_tree_path (entry_path e) = us @ [T']" "T \<notin> set us"
    using S [OF s(1)] T by (cases "entry_path e") (auto simp: plain_path_def)
  from e(2) cp(1) have eq: "us @ [T'] @ ?cs = r @ [T] @ sha_hash H expr # q"
    by (simp add: entry_to_tree_path_def)
  have "length T = 3"
    using T by (auto simp: EXACT_PATH_TERMINATOR_def WILDCARD_PATH_TERMINATOR_def str_bytes_def simp del: terminators)
  with sizes have "T \<notin> set ?cs" by blast
  have "length us = length r"
  proof (rule linorder_cases [of "length us" "length r"])
    assume less: "length us < length r"
    then have "T \<in> set ?cs"
    proof -
      have "(us @ [T'] @ ?cs) ! length r = T" unfolding eq by simp
      moreover have "length r < length (us @ [T'] @ ?cs)" unfolding eq by simp
      ultimately have "?cs ! (length r - Suc (length us)) = T" "length r - Suc (length us) < length ?cs"
        using less by (auto simp: nth_append)
      then show ?thesis by (metis nth_mem)
    qed
    with \<open>T \<notin> set ?cs\<close> show ?thesis by simp
  next
    assume more: "length r < length us"
    have "(us @ [T'] @ ?cs) ! length r = T" unfolding eq by simp
    with more have "us ! length r = T" by (simp add: nth_append)
    with more cp(2) show ?thesis by (metis nth_mem)
  qed
  with eq have us: "us = r" "T' = T" "?cs = sha_hash H expr # q" by auto
  with first have "sha_hash H expr = sha_hash H (create_cel_expr (source_expr s))" by auto
  then have "expr = create_cel_expr (source_expr s)" using S [OF s(1)] by (intro sha_text_inj) auto
  with source_text [OF nm _ cel [unfolded this]] S [OF s(1)] have "source_expr s = CelDefault CelSkip" by simp
  then have "s = Source_Skip" by (cases s) auto
  with s(1) cp(1) us show ?thesis by auto
qed

lemma certified_source_found:
  assumes H: "hash32 H" and leb: "inj_on leb (range (ucast :: 16 word \<Rightarrow> 64 word))"
    and nm: "cel_lib_documented nm" and t: "ct_run H ops ct_default = Some t"
    and made: "made_from H leb lib lower S ops"
    and S: "\<And>cp s. (cp, s) \<in> S \<Longrightarrow> plain_path cp \<and> source_ok s \<and>
      inj_on H (source_inputs H leb lib request response expr s)"
    and cel: "and_then (parse_cel_expression nm expr) map_cel_ast = Inr cel"
    and ans: "answers t rp p"
    and pair: "certified_pair H leb lib t p (sha_hash H expr) request response cel"
  shows "\<exists>cp s. (cp, s) \<in> S \<and> path_to_tree_path cp = p \<and> from_source lib cel request response s"
proof -
  have t': "certified_paths t = ct_spec ops {}" using ct_run_ok [OF t] by simp
  obtain d where d: "cel = CelDefault d" by (cases cel)
  have agree: ?thesis
    if three: "p @ [sha_hash H expr, b, c] \<in> ct_spec ops {}" and b: "length b \<noteq> 3"
      and mt: "case cel of CelDefault CelSkip \<Rightarrow> False
      | CelDefault (CelResponseOnly d) \<Rightarrow> b = [] \<and> c = response_hash H leb response (only_response d) None
      | CelDefault (CelFull d) \<Rightarrow> request_hash H leb lib request (full_request d) = Inr b \<and>
          c = response_hash H leb response (full_response d) None" for b c
  proof -
    obtain e s where
      e: "CtInsert e \<in> set ops" "path_to_tree_path (entry_path e) = p" "(entry_path e, s) \<in> S"
      "source_certification H leb lib lower s = Inr (entry_certification e)"
      "certification_to_tree_path (entry_certification e) = [sha_hash H expr, b, c]"
      by (rule inserted_source [OF H made three b]) assumption
    from S [OF e(3)] have "source_ok s" "inj_on H (source_inputs H leb lib request response expr s)" by blast+
    from source_agrees [OF H leb nm this cel e(4,5) mt] e(2,3) show ?thesis by blast
  qed
  show ?thesis
  proof (cases d)
    case (CelFull f)
    with pair d t' obtain rq where rq: "request_hash H leb lib request (full_request f) = Inr rq"
      "p @ [sha_hash H expr, rq, response_hash H leb response (full_response f) None] \<in> ct_spec ops {}" by auto
    with agree [OF rq(2)] request_hash_length [OF H rq(1)] d CelFull show ?thesis by simp
  next
    case (CelResponseOnly f)
    with pair d t' agree show ?thesis by auto
  next
    case CelSkip
    with pair d t' obtain q where q: "p @ sha_hash H expr # q \<in> ct_spec ops {}"
      by (auto simp: certified_below_def)
    obtain r T where T: "p = r @ [T]" "T \<in> {EXACT_PATH_TERMINATOR, WILDCARD_PATH_TERMINATOR}"
      using ans by (auto simp: answers_def)
    have "r @ [T] @ sha_hash H expr # q \<in> ct_spec ops {}" using q T(1) by simp
    from skipped_source [OF H nm made S cel [unfolded d CelSkip] this T(2)] T(1) d CelSkip
    show ?thesis by fastforce
  qed
qed

end
