(* ===== verification/Response_Properties.thy ===== *)
theory Response_Properties
  imports Response_Correct Header_Roundtrip
begin

text \<open>
  The theorems on the response verification as a whole: the parts of an accepted response at the
  entry point, what its acceptance means for the canister that certified it, and that the verifier
  accepts what the canister library builds.
\<close>

subsection \<open>The parts of an accepted response\<close>

definition fields_sized :: "header_fields \<Rightarrow> bool" where
  "fields_sized acc \<longleftrightarrow> (\<forall>t. hf_tree acc = Some t \<longrightarrow> well_sized t) \<and>
     (\<forall>c. hf_certificate acc = Some c \<longrightarrow> well_sized (cert_tree c))"

lemma field_step_sized:
  assumes "header_field_step nm b64d f acc = Inr acc'" and "fields_sized acc"
  shows "fields_sized acc'"
proof -
  obtain n v where "f = (n, v)" by (cases f)
  with assms show ?thesis
    by (auto simp: header_field_step_def fields_sized_def and_then_eq_Inr hash_tree_from_cbor_def
        decode_base64_header_def map_err_eq_Inr
        split: if_splits option.splits dest!: parsed_tree_well_sized certificate_from_cbor_well_sized)
qed

lemma field_loop_sized:
  "header_field_loop nm hl b64d fs acc = Inr acc' \<Longrightarrow> fields_sized acc \<Longrightarrow> fields_sized acc'"
proof (induction fs arbitrary: acc)
  case (Cons f fs)
  then show ?case
    by (auto simp: and_then_eq_Inr split: option.splits dest: field_step_sized)
qed simp

lemma header_sized:
  assumes "certificate_header_from nm hl b64d v = (Inr h :: ('e, 'f, 'p, 'b) response_error + certificate_header)"
  shows "well_sized (ch_tree h)" and "well_sized (cert_tree (ch_certificate h))"
proof -
  from assms obtain acc where acc: "header_field_loop nm hl b64d (split_on 44 v)
      \<lparr>hf_certificate = None, hf_tree = None, hf_version = None, hf_expr_path = None\<rparr> =
        (Inr acc :: ('e, 'f, 'p, 'b) response_error + header_fields)"
    "hf_certificate acc = Some (ch_certificate h)" "hf_tree acc = Some (ch_tree h)"
    by (auto simp: certificate_header_from_def and_then_eq_Inr)
  have "fields_sized acc" by (rule field_loop_sized [OF acc(1)]) (simp add: fields_sized_def)
  with acc(2,3) show "well_sized (ch_tree h)" "well_sized (cert_tree (ch_certificate h))"
    by (simp_all add: fields_sized_def)
qed

lemma pair_accepted:
  fixes vl :: "('e, 'f, 'p::linorder, 'b, 'c, 'd) verify_lib"
  assumes "verify_request_response_pair H vl request response canister_id now offset key min_version c =
    Some (Inr info, c')"
  shows "\<exists>v h. header_map (vl_lower vl) response (vl_lower vl CERTIFICATE_HEADER_NAME) = Some v \<and>
    certificate_header_from (cl_nom (vl_cert vl)) (vl_header vl) (vl_b64 vl) v =
      (Inr h :: ('e, 'f, 'p, 'b) response_error + certificate_header) \<and>
    min_version \<le> ch_version h \<and>
    (ch_version h = 1 \<and>
       v1_verification H vl request response canister_id now offset (ch_tree h) (ch_certificate h)
         (header_map (vl_lower vl) response (str_bytes ''content-encoding'')) key c = Some (Inr info, c') \<or>
     ch_version h = 2 \<and> (\<exists>expr ep cel.
       header_map (vl_lower vl) response (vl_lower vl CERTIFICATE_EXPRESSION_HEADER_NAME) = Some expr \<and>
       ch_expr_path h = Some ep \<and>
       and_then (parse_cel_expression (hl_text (vl_header vl)) expr) map_cel_ast = Inr cel \<and>
       v2_verification H vl request response canister_id now offset (ch_tree h) (ch_certificate h) ep
         (sha_hash H expr) cel key c = Some (Inr info, c')))"
proof -
  from assms obtain v h where v: "header_map (vl_lower vl) response (vl_lower vl CERTIFICATE_HEADER_NAME) = Some v"
    "certificate_header_from (cl_nom (vl_cert vl)) (vl_header vl) (vl_b64 vl) v =
      (Inr h :: ('e, 'f, 'p, 'b) response_error + certificate_header)"
    and rest: "(if ch_version h < min_version
       then pure (Inl (RequestedVerificationVersionMismatch min_version (ch_version h)))
       else if ch_version h = 1
       then v1_verification H vl request response canister_id now offset
              (ch_tree h) (ch_certificate h)
              (header_map (vl_lower vl) response (str_bytes ''content-encoding'')) key
       else if ch_version h = 2
       then (case header_map (vl_lower vl) response (vl_lower vl CERTIFICATE_EXPRESSION_HEADER_NAME) of
           Some expr \<Rightarrow>
             seq (pure (ok_or (ch_expr_path h) HeaderMissingCertificateExpressionPath)) (\<lambda>ep.
             seq (pure (map_err CelError
               (and_then (parse_cel_expression (hl_text (vl_header vl)) expr) map_cel_ast))) (\<lambda>cel.
             v2_verification H vl request response canister_id now offset
               (ch_tree h) (ch_certificate h) ep (sha_hash H expr) cel key))
         | None \<Rightarrow> pure (Inl HeaderMissingCertification))
       else pure (Inl (UnsupportedVerificationVersion MIN_VERIFICATION_VERSION
              MAX_VERIFICATION_VERSION (ch_version h)))) c = Some (Inr info, c')"
    unfolding verify_request_response_pair_def Let_def by (elim seq_OkE) (simp only: pure_Ok ok_or_eq_Inr)
  from rest have "min_version \<le> ch_version h" by (simp add: pure_def split: if_splits)
  with rest show ?thesis unfolding v(1)
    by (intro exI [of _ v] exI [of _ h])
      (auto simp: v seq_Ok not_less split: if_splits option.splits)
qed

subsection \<open>What an accepted response of version 2 means\<close>

lemma tree_path_expr: "to_expr_path cp = PATH_PREFIX # path_to_tree_path cp"
  by (cases cp) simp_all

lemma response_authentic:
  fixes vl :: "('e, 'f, 'p::linorder, 'b, 'c, 'd) verify_lib"
  assumes H: "hash32 H" and leb: "inj_on (vl_leb vl) (range (ucast :: 16 word \<Rightarrow> 64 word))"
    and nm: "cel_lib_documented (hl_text (vl_header vl))"
    and t: "ct_run H ops ct_default = Some t" and made: "made_from H (vl_leb vl) (vl_http vl) lower S ops"
    and v: "header_map (vl_lower vl) response (vl_lower vl CERTIFICATE_HEADER_NAME) = Some v"
      "certificate_header_from (cl_nom (vl_cert vl)) (vl_header vl) (vl_b64 vl) v =
        (Inr h :: ('e, 'f, 'p, 'b) response_error + certificate_header)" "ch_version h = 2"
    and expr: "header_map (vl_lower vl) response (vl_lower vl CERTIFICATE_EXPRESSION_HEADER_NAME) = Some expr"
    and S: "\<And>cp s. (cp, s) \<in> S \<Longrightarrow> plain_path cp \<and> source_ok s \<and>
      inj_on H (source_inputs H (vl_leb vl) (vl_http vl) request response expr s)"
    and state: "certifies_data H (ch_certificate h) canister_id (ct_root_hash H t)"
    and coll: "inj_on H (set (hash_inputs H (ch_tree h)) \<union> set (hash_inputs H (ct_as_hash_tree H t)))"
    and url: "get_path (vl_http vl) request = Inr rp" "plain_last (url_segments rp)"
    and run: "verify_request_response_pair H vl request response canister_id now offset key min_version c =
      Some (Inr info, c')"
  shows "\<exists>cp s. (cp, s) \<in> S \<and> ch_expr_path h = Some (to_expr_path cp) \<and>
    answers t rp (path_to_tree_path cp) \<and> from_source (vl_http vl) (source_expr s) request response s \<and>
    returned_response response (source_expr s) (vi_response info)"
proof -
  from pair_accepted [OF run] v expr obtain ep cel where ep: "ch_expr_path h = Some ep"
    and cel: "and_then (parse_cel_expression (hl_text (vl_header vl)) expr) map_cel_ast = Inr cel"
    and run2: "v2_verification H vl request response canister_id now offset (ch_tree h) (ch_certificate h) ep
      (sha_hash H expr) cel key c = Some (Inr info, c')" by auto
  note sized = header_sized [OF v(2)]
  from v2_certified [OF H _ sized(2) state sized(1) coll run2 url] ct_run_ok [OF t]
  obtain p where p: "ep = PATH_PREFIX # p" "answers t rp p"
    "certified_pair H (vl_leb vl) (vl_http vl) t p (sha_hash H expr) request response cel"
    "returned_response response cel (vi_response info)" by blast
  from certified_source_found [OF H leb nm t made S cel p(2,3)] obtain cp s where
    s: "(cp, s) \<in> S" "path_to_tree_path cp = p" "from_source (vl_http vl) cel request response s" by blast
  from s(3) have "source_expr s = cel"
    by (cases "(vl_http vl, cel, request, response, s)" rule: from_source.cases) auto
  with s p ep show ?thesis by (auto simp: tree_path_expr)
qed

end
