(* ===== verification/Response_Complete.thy ===== *)
theory Response_Complete
  imports Response_Properties
begin

text \<open>
  The verifier accepts what the canister library builds: a response made from a source of the
  certification tree, with the witness and the header of the library and a valid certificate.
\<close>

subsection \<open>The headers of the response\<close>

lemma header_map_add:
  "header_map lower (add_header r (n, v)) = (header_map lower r)(lower n \<mapsto> v)"
  by (rule ext) (simp add: header_map_def add_header_def)

lemma validated_headers:
  "validate_response_headers lower expr found hs = Inr True \<Longrightarrow>
     \<forall>h \<in> set hs. lower (fst h) = lower CERTIFICATE_EXPRESSION_HEADER_NAME \<longrightarrow> snd h = expr"
  "validate_response_headers lower expr found hs = Inr True \<Longrightarrow>
     found \<or> (\<exists>h \<in> set hs. lower (fst h) = lower CERTIFICATE_EXPRESSION_HEADER_NAME)"
  by (induction lower expr found hs rule: validate_response_headers.induct) (auto split: if_splits)

lemma validated_header:
  assumes "validate_response lower r expr = Inr ()"
  shows "header_map lower r (lower CERTIFICATE_EXPRESSION_HEADER_NAME) = Some expr"
proof -
  let ?k = "lower CERTIFICATE_EXPRESSION_HEADER_NAME"
  let ?m = "rev (map (\<lambda>(k, v). (lower k, v)) (resp_headers r))"
  from assms have v: "validate_response_headers lower expr False (resp_headers r) = Inr True"
    by (auto simp: validate_response_def and_then_eq_Inr split: if_splits)
  from validated_headers(2) [OF v] have "?k \<in> fst ` set ?m" by force
  then obtain x where x: "map_of ?m ?k = Some x" by (metis map_of_eq_None_iff not_None_eq)
  then have "(?k, x) \<in> set ?m" by (rule map_of_SomeD)
  with validated_headers(1) [OF v] have "x = expr" by auto
  with x show ?thesis by (simp add: header_map_def)
qed

lemma certificate_header_uncertified [simp]:
  "certified_headers rc (hs @ [(CERTIFICATE_HEADER_NAME, v)]) = certified_headers rc hs"
  by (simp add: certified_headers_def certifies_def)

lemma response_hash_add_certificate [simp]:
  "response_hash H leb (add_header r (CERTIFICATE_HEADER_NAME, v)) rc b = response_hash H leb r rc b"
  by (simp add: response_hash_def response_headers_hash_def response_pairs_def
      filter_response_headers_spec add_header_def Let_def split: option.split)

lemma rh_certificate_add [simp]:
  "rh_certificate (filter_response_headers (add_header r (CERTIFICATE_HEADER_NAME, v)) rc) = Some v"
  by (simp add: filter_response_certificate add_header_def split: list.split)
    (metis last_snoc list.distinct(1) append_is_Nil_conv snd_conv last.simps)

lemma certificate_names_differ:
  assumes "lower_ascii lower"
  shows "lower CERTIFICATE_HEADER_NAME \<noteq> lower CERTIFICATE_EXPRESSION_HEADER_NAME"
proof -
  have "is_ascii CERTIFICATE_HEADER_NAME" "is_ascii CERTIFICATE_EXPRESSION_HEADER_NAME"
    by (simp_all add: CERTIFICATE_HEADER_NAME_def CERTIFICATE_EXPRESSION_HEADER_NAME_def str_bytes_def
        is_ascii_def)
  with assms show ?thesis
    by (auto simp: lower_ascii_def CERTIFICATE_HEADER_NAME_def CERTIFICATE_EXPRESSION_HEADER_NAME_def
        str_bytes_def to_ascii_lowercase_def dest: arg_cong [where f = length])
qed

subsection \<open>Acceptance\<close>

lemma validate_tree_accepts:
  "lookup_path (cert_tree cert) [str_bytes ''canister'', canister_id, str_bytes ''certified_data''] =
     LR_Found (digest H tree) \<Longrightarrow> validate_tree H lib canister_id cert tree c = Some (Inr (), c)"
  by (simp add: validate_tree_Ok del: lookup_path.simps)

lemma v2_accepts:
  fixes vl :: "('e, 'f, 'p::linorder, 'b, 'c, 'd) verify_lib"
  assumes url: "get_path (vl_http vl) request = Inr rp"
    and cert: "certificate_verify H (vl_cert vl) cert canister_id key now offset c = Some (Inr (), c')"
    and data: "lookup_path (cert_tree cert)
      [str_bytes ''canister'', canister_id, str_bytes ''certified_data''] = LR_Found (digest H tree)"
    and path: "validate_expr_path ep rp tree = (Some (Inr ()) :: (('e, 'f, 'p, 'b) response_error + unit) option)"
    and hashes: "case v2_certifications cel of
        None \<Rightarrow> \<exists>n. lookup_subtree tree (ep @ [eh]) = SLR_Found n
      | Some (qc, rc) \<Rightarrow> \<exists>rq v. opt_request_hash H vl request qc = Inr rq \<and>
          lookup_subtree tree (ep @ eh # expr_tree_path cel rq (response_hash H (vl_leb vl) response rc None)) =
            SLR_Found (Leaf []) \<and> rh_certificate (filter_response_headers response rc) = Some v"
  shows "\<exists>info. v2_verification H vl request response canister_id now offset tree cert ep eh cel key c =
    Some (Inr info, c') \<and> vi_verification_version info = 2"
proof -
  have checked: "checked_certificate H vl cert canister_id key now offset c =
      (Some (Inr (), c') :: ((('e, 'f, 'p, 'b) response_error + unit) \<times> 'c) option)"
    using cert by (simp add: checked_certificate_def)
  have tree: "validate_tree H (vl_cert vl) canister_id cert tree c' =
      (Some (Inr (), c') :: ((('e, 'f, 'p, 'b) response_error + unit) \<times> 'c) option)"
    by (rule validate_tree_accepts [OF data])
  note steps = url checked tree path
  show ?thesis
  proof (cases "v2_certifications cel")
    case None
    with hashes obtain n where "validate_expr_hash ep eh tree = (Inr n :: ('e, 'f, 'p, 'b) response_error + hash_tree)"
      by (auto simp: validate_expr_hash_Ok)
    with steps None show ?thesis by (simp add: v2_verification_def seq_def pure_def partial_def no_panic_def)
  next
    case (Some cs)
    obtain qc rc where cs: "cs = (qc, rc)" by (cases cs)
    from hashes Some cs obtain rq v where rq: "opt_request_hash H vl request qc = Inr rq"
      "rh_certificate (filter_response_headers response rc) = Some v"
      and l: "lookup_subtree tree (ep @ eh # expr_tree_path cel rq (response_hash H (vl_leb vl) response rc None)) =
        SLR_Found (Leaf [])" by (auto simp del: lookup_subtree.simps)
    from l have "validate_hashes eh rq (response_hash H (vl_leb vl) response rc None) ep tree cel =
        (Inr () :: ('e, 'f, 'p, 'b) response_error + unit)" by (simp only: validate_hashes_Ok)
    with steps Some cs rq show ?thesis
      by (simp add: v2_verification_def seq_def pure_def partial_def no_panic_def Let_def
          response_hash_def)
  qed
qed

text \<open>Requests that agree on what an expression certifies have the same hash.\<close>

lemma same_request_hash:
  assumes "same_request lib rc r0 r"
  shows "request_hash H leb lib r rc = request_hash H leb lib r0 rc"
proof -
  from assms obtain q0 q where q: "get_query lib r0 = Inr q0" "get_query lib r = Inr q"
    "certified_query q0 rc = certified_query q rc"
    and same: "req_method r0 = req_method r" "req_body r0 = req_body r"
    and h: "mset (header_entries (req_headers r0) rc) = mset (header_entries (req_headers r) rc)"
    by (auto simp: same_request_def)
  have filtered: "get_filtered_headers hs rc = map (\<lambda>(n, v). (n, VString v)) (header_entries hs rc)" for hs
    by (simp add: get_filtered_headers_def header_entries_def case_prod_unfold comp_def)
  have "mset (request_pairs (req_headers r0) m x rc) = mset (request_pairs (req_headers r) m x rc)" for m x
    using h by (simp add: request_pairs_def filtered)
  then have "representation_independent_hash H leb (request_pairs (req_headers r0) m x rc) =
      representation_independent_hash H leb (request_pairs (req_headers r) m x rc)" for m x
    by (rule rih_perm)
  with q same show ?thesis by (simp add: request_hash_def Let_def certified_query_def)
qed

text \<open>A request and a response as a source certifies them, and the requests that an entry answers.\<close>

fun canister_answer ::
  "http_lib \<Rightarrow> (bytes \<Rightarrow> bytes) \<Rightarrow> http_request \<Rightarrow> http_response \<Rightarrow> certified_source \<Rightarrow> bool" where
  "canister_answer lib lower request response Source_Skip \<longleftrightarrow>
     validate_response lower response (create_cel_expr skip_certification) = Inr ()"
| "canister_answer lib lower request response (Source_ResponseOnly c r0) \<longleftrightarrow> response = r0"
| "canister_answer lib lower request response (Source_Full c q0 r0) \<longleftrightarrow>
     same_request lib (full_request c) q0 request \<and> response = r0"

definition routed :: "certification_tree \<Rightarrow> bytes \<Rightarrow> certification_path \<Rightarrow> bool" where
  "routed t url cp \<longleftrightarrow> answers t url (path_to_tree_path cp) \<and>
     (case cp of
        Exact_Path p \<Rightarrow> url_segments p = url_segments url
      | Wildcard_Path p \<Rightarrow> url_segments p \<in> set (wildcard_chain (url_segments url)) \<and>
          plain_first (url_segments url) \<and> plain_last (url_segments url))"

lemma certified_leaf_below:
  "entry_to_tree_path e \<in> certified_paths t \<Longrightarrow> certified_below t (path_to_tree_path (entry_path e))"
  by (auto simp: certified_below_def entry_to_tree_path_def)

lemma exact_routed:
  "entry_to_tree_path e \<in> certified_paths t \<Longrightarrow> entry_path e = Exact_Path url \<Longrightarrow> routed t url (entry_path e)"
  using certified_leaf_below [of e t] by (simp add: routed_def answers_def)

lemma routed_witness:
  assumes "ct_ok H t" and "routed t url (entry_path e)" and "entry_to_tree_path e \<in> certified_paths t"
  shows "\<exists>w. ct_witness H t e url = Some (Inr w) \<and> prunes H w (ct_as_hash_tree H t) \<and>
    validate_expr_path (to_expr_path (entry_path e)) url w = Some (Inr ()) \<and>
    entry_accepted w (to_expr_path (entry_path e)) (entry_certification e)"
proof (cases "entry_path e")
  case (Exact_Path p)
  with exact_witness_accepted [OF assms(1) Exact_Path _ assms(3), of url] assms(2) show ?thesis
    by (simp add: routed_def)
next
  case (Wildcard_Path p)
  with wildcard_witness_accepted [OF assms(1) Wildcard_Path assms(3), of url] assms(2) show ?thesis
    by (simp add: routed_def)
qed

lemma source_validated:
  "source_certification H leb lib lower s = Inr cert \<Longrightarrow> canister_answer lib' lower q r s \<Longrightarrow>
     validate_response lower r (create_cel_expr (source_expr s)) = Inr ()"
  by (cases s) (auto simp: certification_response_only_def certification_full_def Let_def and_then_eq_Inr
      skip_certification_def)

lemma source_hashes_found:
  fixes vl :: "('e, 'f, 'p, 'b, 'c, 'd) verify_lib"
  assumes H: "hash32 H" and src: "source_certification H (vl_leb vl) (vl_http vl) lower s = Inr cert"
    and ans: "canister_answer (vl_http vl) lower request r0 s" and acc: "entry_accepted w ep cert"
    and r: "r = add_header r0 (CERTIFICATE_HEADER_NAME, v)"
  shows "case v2_certifications (source_expr s) of
      None \<Rightarrow> \<exists>n. lookup_subtree w (ep @ [sha_hash H (create_cel_expr (source_expr s))]) = SLR_Found n
    | Some (qc, rc) \<Rightarrow> \<exists>rq v. opt_request_hash H vl request qc = Inr rq \<and>
        lookup_subtree w (ep @ sha_hash H (create_cel_expr (source_expr s)) #
          expr_tree_path (source_expr s) rq (response_hash H (vl_leb vl) r rc None)) = SLR_Found (Leaf []) \<and>
        rh_certificate (filter_response_headers r rc) = Some v"
proof (cases s)
  case Source_Skip
  with src acc show ?thesis
    by (auto simp: v2_certifications_def certification_skip_def skip_certification_def simp del: lookup_subtree.simps)
next
  case (Source_ResponseOnly c q)
  with source_hashes [OF H src] acc ans r show ?thesis
    by (cases cert) (simp_all add: v2_certifications_def opt_request_hash_def expr_tree_path_def del: lookup_subtree.simps)
next
  case (Source_Full c q p)
  with ans have "request_hash H (vl_leb vl) (vl_http vl) request (full_request c) =
      request_hash H (vl_leb vl) (vl_http vl) q (full_request c)"
    by (simp add: same_request_hash)
  with Source_Full source_hashes [OF H src] acc ans r show ?thesis
    by (cases cert) (auto simp: v2_certifications_def opt_request_hash_def expr_tree_path_def simp del: lookup_subtree.simps)
qed

lemma pair_v2:
  fixes vl :: "('e, 'f, 'p::linorder, 'b, 'c, 'd) verify_lib"
  assumes "header_map (vl_lower vl) response (vl_lower vl CERTIFICATE_HEADER_NAME) = Some v"
    and "header_map (vl_lower vl) response (vl_lower vl CERTIFICATE_EXPRESSION_HEADER_NAME) = Some expr"
    and "certificate_header_from (cl_nom (vl_cert vl)) (vl_header vl) (vl_b64 vl) v =
      (Inr \<lparr>ch_certificate = cert, ch_tree = w, ch_version = 2, ch_expr_path = Some ep\<rparr>
         :: ('e, 'f, 'p, 'b) response_error + certificate_header)"
    and "and_then (parse_cel_expression (hl_text (vl_header vl)) expr) map_cel_ast = Inr cel"
    and "min_version \<le> 2"
  shows "verify_request_response_pair H vl request response canister_id now offset key min_version c =
    v2_verification H vl request response canister_id now offset w cert ep (sha_hash H expr) cel key c"
proof -
  have "\<not> (2 :: 8 word) < min_version" using assms(5) by (simp add: not_less)
  with assms(1-4) show ?thesis
    by (simp add: verify_request_response_pair_def seq_def pure_def Let_def)
qed

lemma header_cel_documented: "header_lib_documented hl \<Longrightarrow> cel_lib_documented (hl_text hl)"
  by (simp add: header_lib_documented_def)

text \<open>Without query parameters in the expression the query of a request is not certified.\<close>

lemma no_query_certified:
  "certified_query x \<lparr>certified_request_headers = hs, certified_query_parameters = []\<rparr> = None"
  by (cases x) (auto simp: certified_query_def get_filtered_query_def Let_def filter_empty_conv split: option.split)

text \<open>The whole exchange: a canister with a tree that holds the entry makes the response of its source
  and adds the certificate header with the witness.\<close>

lemma tree_response_accepted:
  fixes vl :: "('e, 'f, 'p::linorder, 'b, 'c, 'd) verify_lib"
  assumes libs: "nom_documented (cl_nom (vl_cert vl))" "header_lib_documented (vl_header vl)"
      "cbor_documented enc" "b64_documented b64 (vl_b64 vl)" "lower_ascii (vl_lower vl)"
    and H: "hash32 H" and t: "ct_ok H t" and e: "entry_to_tree_path e \<in> certified_paths t"
    and s: "source_certification H (vl_leb vl) (vl_http vl) (vl_lower vl) s = Inr (entry_certification e)"
      "expr_ok (source_expr s)"
    and ans: "canister_answer (vl_http vl) (vl_lower vl) request r0 s"
    and url: "get_path (vl_http vl) request = Inr url" "routed t url (entry_path e)"
    and w: "ct_witness H t e url = Some (Inr w)" "tree_small w"
    and ep: "\<forall>x \<in> set (to_expr_path (entry_path e)). utf8_valid x \<and> length x < 2 ^ 64"
      "length (to_expr_path (entry_path e)) < 2 ^ 64"
    and cert: "certificate_from_cbor (cl_nom (vl_cert vl)) dc = Inr cert"
      "certificate_verify H (vl_cert vl) cert canister_id key now offset c = Some (Inr (), c')"
      "lookup_path (cert_tree cert) [str_bytes ''canister'', canister_id, str_bytes ''certified_data''] =
         LR_Found (ct_root_hash H t)"
    and min: "min_version \<le> 2"
  shows "\<exists>info. verify_request_response_pair H vl request
      (add_v2_certificate_header b64 self_describe_tag enc dc r0 w (to_expr_path (entry_path e)))
      canister_id now offset key min_version c = Some (Inr info, c') \<and> vi_verification_version info = 2"
proof -
  let ?ep = "to_expr_path (entry_path e)" and ?expr = "create_cel_expr (source_expr s)"
  let ?v = "certificate_header_value b64 self_describe_tag enc dc w ?ep"
  let ?r = "add_header r0 (CERTIFICATE_HEADER_NAME, ?v)"
  from routed_witness [OF t url(2) e] w(1) have pr: "prunes H w (ct_as_hash_tree H t)" and w':
    "validate_expr_path ?ep url w = (Some (Inr ()) :: (('e, 'f, 'p, 'b) response_error + unit) option)"
    "entry_accepted w ?ep (entry_certification e)" by auto
  have dg: "digest H w = ct_root_hash H t" using prunes_digest [OF pr] ct_digest [OF t] by simp
  have hdr: "certificate_header_from (cl_nom (vl_cert vl)) (vl_header vl) (vl_b64 vl) ?v =
    (Inr \<lparr>ch_certificate = cert, ch_tree = w, ch_version = 2, ch_expr_path = Some ?ep\<rparr>
       :: ('e, 'f, 'p, 'b) response_error + certificate_header)"
    by (rule header_read_back [OF libs(1-4) cert(1) w(2) ep(2)]) (use ep(1) in blast)
  have m: "header_map (vl_lower vl) ?r (vl_lower vl CERTIFICATE_HEADER_NAME) = Some ?v"
    "header_map (vl_lower vl) ?r (vl_lower vl CERTIFICATE_EXPRESSION_HEADER_NAME) = Some ?expr"
    using validated_header [OF source_validated [OF s(1) ans]] certificate_names_differ [OF libs(5)]
    by (simp_all add: header_map_add)
  have cel: "and_then (parse_cel_expression (hl_text (vl_header vl)) ?expr) map_cel_ast = Inr (source_expr s)"
    by (rule cel_expr_parsed [OF header_cel_documented [OF libs(2)] s(2)])
  have "lookup_path (cert_tree cert) [str_bytes ''canister'', canister_id, str_bytes ''certified_data''] =
      LR_Found (digest H w)" using cert(3) dg by simp
  from v2_accepts [OF url(1) cert(2) this w'(1) source_hashes_found [OF H s(1) ans w'(2) refl]]
  obtain info where "v2_verification H vl request ?r canister_id now offset w cert ?ep (sha_hash H ?expr)
      (source_expr s) key c = Some (Inr info, c')" "vi_verification_version info = 2" by blast
  then show ?thesis
    by (simp add: add_v2_certificate_header_def pair_v2 [OF m hdr cel min])
qed

text \<open>The tree that a history of operations leaves.\<close>

lemma library_response_accepted:
  fixes vl :: "('e, 'f, 'p::linorder, 'b, 'c, 'd) verify_lib"
  assumes libs: "nom_documented (cl_nom (vl_cert vl))" "header_lib_documented (vl_header vl)"
      "cbor_documented enc" "b64_documented b64 (vl_b64 vl)" "lower_ascii (vl_lower vl)"
    and H: "hash32 H" and t: "ct_run H ops ct_default = Some t"
    and e: "entry_to_tree_path e \<in> ct_spec ops {}"
    and s: "source_certification H (vl_leb vl) (vl_http vl) (vl_lower vl) s = Inr (entry_certification e)"
      "expr_ok (source_expr s)"
    and ans: "canister_answer (vl_http vl) (vl_lower vl) request r0 s"
    and url: "get_path (vl_http vl) request = Inr url" "routed t url (entry_path e)"
    and w: "ct_witness H t e url = Some (Inr w)" "tree_small w"
    and ep: "\<forall>x \<in> set (to_expr_path (entry_path e)). utf8_valid x \<and> length x < 2 ^ 64"
      "length (to_expr_path (entry_path e)) < 2 ^ 64"
    and cert: "certificate_from_cbor (cl_nom (vl_cert vl)) dc = Inr cert"
      "certificate_verify H (vl_cert vl) cert canister_id key now offset c = Some (Inr (), c')"
      "lookup_path (cert_tree cert) [str_bytes ''canister'', canister_id, str_bytes ''certified_data''] =
         LR_Found (ct_root_hash H t)"
    and min: "min_version \<le> 2"
  shows "\<exists>info. verify_request_response_pair H vl request
      (add_v2_certificate_header b64 self_describe_tag enc dc r0 w (to_expr_path (entry_path e)))
      canister_id now offset key min_version c = Some (Inr info, c') \<and> vi_verification_version info = 2"
  using ct_run_ok [OF t] e
  by (intro tree_response_accepted [OF libs H _ _ s ans url w ep cert min]) simp_all

subsection \<open>Concrete libraries\<close>

text \<open>Libraries with the documented behaviour, and a certificate that they accept, for the instances
  of the properties.\<close>

definition plain_decoder :: "bytes decoder_lib" where
  "plain_decoder = \<lparr>gz_decoder = (\<lambda>b. b), deflate_decoder = (\<lambda>b. b),
     decoder_read = (\<lambda>n b. (Inr (take n b), drop n b))\<rparr>"

definition plain_lib :: "(string, string, bytes, unit, nat \<times> hash list, bytes) verify_lib" where
  "plain_lib = \<lparr>
     vl_cert = plain_cert, vl_header = header_ref, vl_http = plain_http, vl_b64 = hex_dec,
     vl_lower = to_ascii_lowercase, vl_leb = two_bytes, vl_decoder = plain_decoder\<rparr>"

lemma plain_lib_simps [simp]:
  "vl_cert plain_lib = plain_cert" "vl_header plain_lib = header_ref" "vl_http plain_lib = plain_http"
  "vl_b64 plain_lib = hex_dec" "vl_lower plain_lib = to_ascii_lowercase" "vl_leb plain_lib = two_bytes"
  "vl_decoder plain_lib = plain_decoder"
  by (simp_all add: plain_lib_def)

abbreviation plain_key :: bytes where
  "plain_key \<equiv> DER_PREFIX @ replicate 96 0"

abbreviation plain_cache :: "nat \<times> hash list" where
  "plain_cache \<equiv> signature_cache_global lru_ref"

definition plain_certificate :: "(bytes \<Rightarrow> hash) \<Rightarrow> bytes \<Rightarrow> certificate" where
  "plain_certificate H d =
     (let t = Fork
          (Labeled (str_bytes ''canister'') (Labeled [1] (Labeled (str_bytes ''certified_data'') (Leaf d))))
          (Labeled (str_bytes ''time'') (Leaf [5]))
      in \<lparr>cert_tree = t, cert_signature = IC_STATE_ROOT_DOMAIN_SEPARATOR @ digest H t, cert_delegation = None\<rparr>)"

definition plain_data :: "(bytes \<Rightarrow> hash) \<Rightarrow> bytes \<Rightarrow> bytes" where
  "plain_data H d = cbor_encode self_describe_tag cbor_enc (certificate_serialize (plain_certificate H d))"

lemma plain_certificate_verified:
  assumes "hash32 H"
  shows "\<exists>c'. certificate_verify H plain_cert (plain_certificate H d) [1] plain_key 6 2 plain_cache = Some (Inr (), c')"
proof -
  let ?cert = "plain_certificate H d"
  let ?q = "cert_query H ?cert (replicate 96 0)"
  have sized: "well_sized (cert_tree ?cert)" by (simp add: plain_certificate_def Let_def)
  have Q: "chain_queries H plain_cert ?cert plain_key = {?q}"
    by (auto simp: chain_queries_def cert_queries_def KEY_LENGTH_def plain_certificate_def Let_def)
  have "sized ?q" using chain_queries_sized [OF assms sized, of ?q plain_cert plain_key] Q by simp
  then have so: "cache_sound H plain_cert (set \<circ> snd) plain_cache {?q}"
    by (simp add: cache_sound_def signature_cache_global_def signature_cache_new_def lru_ref_def)
  have "(ucast (5 :: 8 word) :: 64 word) = 5" by simp
  then have "certificate_valid H plain_cert ?cert [1] plain_key 6 2"
    by (simp add: certificate_valid_def certificate_key_def signed_by_def signed_message_def
        KEY_LENGTH_def time_in_window_def plain_certificate_def Let_def str_bytes_def)
  with certificate_verify_iff [OF _ so _ equalityD1 [OF Q], of "[1]" 6 2] show ?thesis by auto
qed

lemma plain_data_read:
  assumes "hash32 H" and "length d = 32"
  shows "certificate_from_cbor nom_ref (plain_data H d) = Inr (plain_certificate H d)"
proof -
  have small: "certificate_small (plain_certificate H d)"
    using assms by (simp add: certificate_small_def plain_certificate_def Let_def str_bytes_def
        IC_STATE_ROOT_DOMAIN_SEPARATOR_def fork_hash_def sha_hash_def)
  from parse_cbor_encoded [OF nom_ref_documented cbor_enc_documented certificate_serde_small [OF small]]
    certificate_of_serde [OF small] show ?thesis by (simp add: certificate_from_cbor_def plain_data_def)
qed

lemma plain_certified_data:
  "lookup_path (cert_tree (plain_certificate H d)) [str_bytes ''canister'', [1], str_bytes ''certified_data''] =
     LR_Found d"
  by (simp add: plain_certificate_def Let_def str_bytes_def)

end
