(* ===== verification/Tree_Sizes.thy ===== *)
theory Tree_Sizes
  imports Response_Complete
begin

text \<open>
  Certification trees and their witnesses fit the wire format, whose lengths are below $2^{64}$: a tree
  does when the labels of its certified paths do, and a witness when its tree does.
\<close>

declare path_to_tree_path.simps [simp del] to_expr_path.simps [simp del]

subsection \<open>Sizes of certification trees\<close>

lemma three_way_small:
  "tree_small l \<Longrightarrow> length k < 2 ^ 64 \<Longrightarrow> tree_small x \<Longrightarrow> tree_small r \<Longrightarrow>
     tree_small (three_way_fork H l (Labeled k x) r)"
  by (simp add: three_way_Labeled)

lemma full_tree_small:
  "\<forall>e \<in> set (entries t). length (fst e) < 2 ^ 64 \<and> tree_small (aht (snd e)) \<Longrightarrow>
     tree_small (full_tree H aht t)"
  by (induction t rule: node_ref_induct) (auto intro!: three_way_small)

definition path_small :: "path \<Rightarrow> bool" where
  "path_small p \<longleftrightarrow> (\<forall>x \<in> set p. length x < 2 ^ 64)"

lemma nested_tree_small:
  "nt_tidy t \<Longrightarrow> nt_wf H vrh vok t \<Longrightarrow>
     (\<And>p v. nt_get t p = Some v \<Longrightarrow> path_small p \<and> tree_small (vaht v)) \<Longrightarrow> tree_small (nt_as_hash_tree H vaht t)"
proof (induction t rule: nt_tidy.induct)
  case (nt_tidy_leaf v)
  from nt_tidy_leaf(2) [of "[]" v] show ?case by simp
next
  case (nt_tidy_nested tree)
  then have rb: "rb_wf H (nt_root_hash H vrh) tree" by simp
  have "length (fst e) < 2 ^ 64 \<and> tree_small (nt_as_hash_tree H vaht (snd e))" if "e \<in> set (entries (root tree))" for e
  proof -
    from rb_abs_entries [OF rb that] have c: "rb_abs tree (fst e) = Some (snd e)" .
    then have wf: "nt_wf H vrh vok (snd e)" using nt_tidy_nested.prems(1) by simp
    have below: "path_small (fst e # q) \<and> tree_small (vaht v)" if "nt_get (snd e) q = Some v" for q v
      by (rule nt_tidy_nested.prems(2)) (use that c rb.get_abs [OF rb] in simp)
    from nt_tidy_leaf_below [OF nt_tidy_nested.hyps(1) [OF c] wf nt_tidy_nested.hyps(2) [OF c]] obtain q v where
      "nt_get (snd e) q = Some v" by blast
    with below have "length (fst e) < 2 ^ 64" by (auto simp: path_small_def)
    moreover have "tree_small (nt_as_hash_tree H vaht (snd e))"
      using below by (intro nt_tidy_nested.IH [OF c wf]) (auto simp: path_small_def)
    ultimately show ?thesis ..
  qed
  then show ?case by (simp add: rb_as_hash_tree_def full_tree_small)
qed

lemma certification_tree_small:
  assumes "ct_ok H t" and "\<forall>p \<in> certified_paths t. path_small p"
  shows "tree_small (ct_as_hash_tree H t)"
proof -
  have leaf: "path_small p \<and> tree_small (vec_as_hash_tree v)" if "nt_get t p = Some v" for p v
    using assms that ct_ok_get [OF assms(1), of p] by (auto simp: vec_as_hash_tree_def split: if_splits)
  from assms(1) have "nt_tidy t" "nt_wf H (vec_root_hash H) (\<lambda>_. True) t" by (simp_all add: ct_ok_def)
  then have "tree_small (nt_as_hash_tree H vec_as_hash_tree t)" by (rule nested_tree_small) (rule leaf)
  then show ?thesis by (simp add: ct_as_hash_tree_def PATH_PREFIX_def del: terminators(3))
qed

subsection \<open>Entries\<close>

text \<open>The certifications with three hashes have short ones.\<close>

definition cert_sized :: "http_certification \<Rightarrow> bool" where
  "cert_sized cert \<longleftrightarrow>
     (\<exists>a b c. certification_to_tree_path cert = [a, b, c] \<and> length a \<le> 32 \<and> length b \<le> 32 \<and> length c \<le> 32)"

lemma certification_full_sized:
  "hash32 H \<Longrightarrow> certification_full H leb lib lower cel request response bh = Inr cert \<Longrightarrow> cert_sized cert"
  using request_hash_length [of H leb lib request "full_request cel"]
  by (auto simp: certification_full_def Let_def and_then_eq_Inr cert_sized_def sha_hash_def response_hash_def)

lemma certification_only_sized:
  "hash32 H \<Longrightarrow> certification_response_only H leb lower cel response bh = Inr cert \<Longrightarrow> cert_sized cert"
  by (auto simp: certification_response_only_def Let_def and_then_eq_Inr cert_sized_def sha_hash_def response_hash_def)

abbreviation entry_of :: "certification_path \<Rightarrow> http_certification \<Rightarrow> tree_entry" where
  "entry_of tp cert \<equiv> \<lparr>entry_path = tp, entry_certification = cert\<rparr>"

subsection \<open>Witnesses\<close>

lemma prunes_tree_small:
  "hash32 H \<Longrightarrow> prunes H w t \<Longrightarrow> well_sized t \<Longrightarrow> tree_small t \<Longrightarrow> tree_small w"
  by (induction H w t rule: prunes.induct) auto

lemma witness_small:
  assumes "hash32 H" and "ct_ok H t" and "tree_small (ct_as_hash_tree H t)"
    and "routed t url (entry_path e)" and "entry_to_tree_path e \<in> certified_paths t"
    and "ct_witness H t e url = Some (Inr w)"
  shows "tree_small w"
proof -
  from routed_witness [OF assms(2,4,5)] assms(6) have "prunes H w (ct_as_hash_tree H t)" by auto
  from prunes_tree_small [OF assms(1) this _ assms(3)] show ?thesis
    using unpruned_well_sized [OF sorted_tree_unpruned [OF ct_sorted [OF assms(2)]]] by blast
qed

end
