(* ===== verification/Skip_Certification.thy ===== *)
theory Skip_Certification
  imports Response_Complete
begin

text \<open>
  The skip certification helpers of \<^verbatim>\<open>packages/ic-http-certification/src/utils/skip_certification.rs\<close>:
  their constant tree is the certification tree with a single skip entry for every path, and the
  verifier accepts a response with their headers for every request.
\<close>

subsection \<open>A tree with one entry\<close>

fun label_chain :: "path \<Rightarrow> hash_tree \<Rightarrow> hash_tree" where
  "label_chain [] t = t"
| "label_chain (x # p) t = Labeled x (label_chain p t)"

lemma bytes_cmp_refl [simp]: "bytes_cmp k k = Equal"
  by (simp add: bytes_cmp_iff)

lemma nt_insert_single:
  "2 * length p < fuel \<Longrightarrow> \<exists>t. nt_insert fuel H vrh nt_default p v = Some t \<and>
     nt_as_hash_tree H vaht t = label_chain p (vaht v)"
proof (induction p arbitrary: fuel)
  case Nil
  then show ?case by (cases fuel) simp_all
next
  case (Cons k p)
  then obtain f where f: "fuel = Suc (Suc f)" "2 * length p < f"
    by (metis Suc_lessE length_Cons mult_Suc_right add_2_eq_Suc Suc_less_eq2)
  from Cons.IH [OF f(2)] obtain t where t: "nt_insert f H vrh nt_default p v = Some t"
    "nt_as_hash_tree H vaht t = label_chain p (vaht v)" by blast
  then show ?case
    by (simp add: f(1) nt_default_def rb_new_def rb_insert_def new_node_def rb_modify_def rb_get_def
        rb_as_hash_tree_def update_subtree_hash_def data_tree_def)
qed

lemma single_entry:
  assumes "ct_run H [CtInsert e] ct_default = Some t"
  shows "ct_as_hash_tree H t = Labeled PATH_PREFIX (label_chain (entry_to_tree_path e) (Leaf []))"
proof -
  let ?p = "entry_to_tree_path e"
  have "2 * length ?p < 3 * length ?p + 1" by simp
  from nt_insert_single [OF this, of H "vec_root_hash H" "[]" vec_as_hash_tree] assms show ?thesis
    by (auto simp: ct_insert_def ct_default_def ct_as_hash_tree_def vec_as_hash_tree_def)
qed

lemma label_chain_append: "label_chain (p @ q) t = label_chain p (label_chain q t)"
  by (induction p) simp_all

subsection \<open>The constant tree\<close>

definition skip_entry :: "(bytes \<Rightarrow> hash) \<Rightarrow> tree_entry" where
  "skip_entry H = \<lparr>entry_path = Wildcard_Path [], entry_certification = certification_skip H\<rparr>"

lemma skip_entry_path [simp]:
  "entry_to_tree_path (skip_entry H) =
     [WILDCARD_PATH_TERMINATOR, sha_hash H (create_cel_expr skip_certification)]"
  by (simp add: skip_entry_def entry_to_tree_path_def certification_skip_def url_segments_def)

lemma skip_tree:
  assumes "ct_run H [CtInsert (skip_entry H)] ct_default = Some t"
  shows "ct_as_hash_tree H t = skip_certification_asset_tree H"
    and "ct_root_hash H t = skip_certification_certified_data H"
proof -
  show tree: "ct_as_hash_tree H t = skip_certification_asset_tree H"
    using single_entry [OF assms] by (simp add: skip_certification_asset_tree_def)
  have "ct_ok H t" using ct_run_ok [OF assms] by simp
  from ct_digest [OF this] tree show "ct_root_hash H t = skip_certification_certified_data H"
    by (simp add: skip_certification_certified_data_def)
qed

subsection \<open>Acceptance\<close>

lemma skip_path_valid:
  assumes H: "hash32 H"
  shows "validate_expr_path [PATH_PREFIX, WILDCARD_PATH_TERMINATOR] url (skip_certification_asset_tree H) =
    Some (Inr ())"
proof -
  let ?w = "skip_certification_asset_tree H" and ?eh = "sha_hash H (create_cel_expr skip_certification)"
  let ?p = "strip_path_affixes (PATH_PREFIX # url_segments url)"
  obtain t where t: "ct_run H [CtInsert (skip_entry H)] ct_default = Some t"
    using ct_run_refines [OF ct_ok_default, of H "[CtInsert (skip_entry H)]"] by blast
  have ok: "ct_ok H t" and paths: "certified_paths t = {[WILDCARD_PATH_TERMINATOR, ?eh]}"
    using ct_run_ok [OF t] by (simp_all add: ct_spec_def)
  have eh: "?eh \<noteq> WILDCARD_PATH_TERMINATOR" "?eh \<noteq> EXACT_PATH_TERMINATOR"
    using H hash32D [OF H, of "create_cel_expr skip_certification"]
    by (auto simp: sha_hash_def dest: arg_cong [where f = length])
  have w: "?w = ct_as_hash_tree H t" using skip_tree(1) [OF t] by simp
  note below = proved_lookup [OF ok _ arg_cong [OF w, of "\<lambda>w. lookup_subtree w _"]]
  have "\<not> path_might_exist_in_tree (PATH_PREFIX # url_segments url @ [EXACT_PATH_TERMINATOR]) ?w"
    using below(2) [of "url_segments url @ [EXACT_PATH_TERMINATOR]"] eh
    by (auto simp: certified_below_def paths append_eq_Cons_conv)
  moreover have "more_specific_wildcards_for (PATH_PREFIX # url_segments url) [PATH_PREFIX, WILDCARD_PATH_TERMINATOR] =
      Some (map (\<lambda>q. q @ [WILDCARD_PATH_TERMINATOR]) (takeWhile (\<lambda>q. q \<noteq> []) (wildcard_chain ?p)))"
    using strip_header_wildcard [of "[]"]
    by (intro more_specific_wildcards_chain) (auto simp: mem_wildcard_chain)
  moreover have "\<not> path_might_exist_in_tree (PATH_PREFIX # q @ [WILDCARD_PATH_TERMINATOR]) ?w"
    if "q \<in> set (takeWhile (\<lambda>q. q \<noteq> []) (wildcard_chain ?p))" for q
  proof -
    from that have "q \<noteq> []" using set_takeWhileD by fastforce
    with eh below(2) [of "q @ [WILDCARD_PATH_TERMINATOR]"] show ?thesis
      by (auto simp: certified_below_def paths append_eq_Cons_conv)
  qed
  moreover have "path_exists_in_tree [PATH_PREFIX, WILDCARD_PATH_TERMINATOR] ?w"
    using below(1) [of "[WILDCARD_PATH_TERMINATOR]"] by (simp add: certified_below_def paths)
  ultimately show ?thesis unfolding validate_expr_path_Ok by auto
qed

lemma skip_tree_small: "hash32 H \<Longrightarrow> tree_small (skip_certification_asset_tree H)"
  by (simp add: skip_certification_asset_tree_def sha_hash_def str_bytes_def)

lemma skip_response_accepted:
  fixes vl :: "('e, 'f, 'p::linorder, 'b, 'c, 'd) verify_lib"
  assumes libs: "nom_documented (cl_nom (vl_cert vl))" "header_lib_documented (vl_header vl)"
      "cbor_documented enc" "b64_documented b64 (vl_b64 vl)" "lower_ascii (vl_lower vl)"
    and H: "hash32 H" and url: "get_path (vl_http vl) request = Inr url"
    and cert: "certificate_from_cbor (cl_nom (vl_cert vl)) dc = Inr cert"
      "certificate_verify H (vl_cert vl) cert canister_id key now offset c = Some (Inr (), c')"
      "lookup_path (cert_tree cert) [str_bytes ''canister'', canister_id, str_bytes ''certified_data''] =
         LR_Found (skip_certification_certified_data H)"
    and min: "min_version \<le> 2"
  shows "verify_request_response_pair H vl request
      (add_skip_certification_header H b64 self_describe_tag enc dc response)
      canister_id now offset key min_version c =
    Some (Inr \<lparr>vi_response = None, vi_verification_version = 2\<rparr>, c')"
proof -
  let ?w = "skip_certification_asset_tree H" and ?ep = "[PATH_PREFIX, WILDCARD_PATH_TERMINATOR]"
  let ?r = "add_skip_certification_header H b64 self_describe_tag enc dc response"
  let ?v = "certificate_header_value b64 self_describe_tag enc dc ?w ?ep"
  let ?expr = "create_cel_expr skip_certification"
  have ep: "url_segments [] = []" by (simp add: url_segments_def)
  have m: "header_map (vl_lower vl) ?r (vl_lower vl CERTIFICATE_HEADER_NAME) = Some ?v"
    "header_map (vl_lower vl) ?r (vl_lower vl CERTIFICATE_EXPRESSION_HEADER_NAME) = Some ?expr"
    using certificate_names_differ [OF libs(5)]
    by (simp_all add: add_skip_certification_header_def add_v2_certificate_header_def header_map_add ep)
  have hdr: "certificate_header_from (cl_nom (vl_cert vl)) (vl_header vl) (vl_b64 vl) ?v =
    (Inr \<lparr>ch_certificate = cert, ch_tree = ?w, ch_version = 2, ch_expr_path = Some ?ep\<rparr>
       :: ('e, 'f, 'p, 'b) response_error + certificate_header)"
    by (rule header_read_back [OF libs(1-4) cert(1) skip_tree_small [OF H]])
      (auto simp: PATH_PREFIX_def WILDCARD_PATH_TERMINATOR_def str_bytes_def simp del: terminators)
  have cel: "and_then (parse_cel_expression (hl_text (vl_header vl)) ?expr) map_cel_ast = Inr skip_certification"
    by (rule cel_expr_parsed [OF header_cel_documented [OF libs(2)]]) (simp add: skip_certification_def)
  have data: "lookup_path (cert_tree cert) [str_bytes ''canister'', canister_id, str_bytes ''certified_data''] =
      LR_Found (digest H ?w)" using cert(3) by (simp add: skip_certification_certified_data_def)
  have none: "v2_certifications skip_certification = None"
    by (simp add: v2_certifications_def skip_certification_def)
  have "lookup_subtree ?w (?ep @ [sha_hash H ?expr]) = SLR_Found (Leaf [])"
    by (simp add: skip_certification_asset_tree_def)
  from v2_accepts [OF url cert(2) data skip_path_valid [OF H], where cel = skip_certification
      and eh = "sha_hash H ?expr" and response = ?r] this none
  obtain info where "v2_verification H vl request ?r canister_id now offset ?w cert ?ep (sha_hash H ?expr)
      skip_certification key c = Some (Inr info, c')" by (auto simp del: lookup_subtree.simps)
  with v2_steps [OF this] none show ?thesis
    by (auto simp: pair_v2 [OF m hdr cel min])
qed

subsection \<open>Properties\<close>

text \<open>C27: A response with the headers of the skip certification helpers is accepted, with nothing
  returned as verified, for every request whose URL parses and every response they are put on, when
  the certificate verifies and the canister's certified data is that of the helpers.\<close>

theorem skip_certification_accepted:
  fixes vl :: "('e, 'f, 'p::linorder, 'b, 'c, 'd) verify_lib"
  assumes "nom_documented (cl_nom (vl_cert vl))" and "header_lib_documented (vl_header vl)"
    and "cbor_documented enc" and "b64_documented b64 (vl_b64 vl)" and "lower_ascii (vl_lower vl)"
    and "hash32 H" and "get_path (vl_http vl) request = Inr url"
    and "certificate_from_cbor (cl_nom (vl_cert vl)) dc = Inr cert"
    and "certificate_verify H (vl_cert vl) cert canister_id key now offset c = Some (Inr (), c')"
    and "lookup_path (cert_tree cert) [str_bytes ''canister'', canister_id, str_bytes ''certified_data''] =
         LR_Found (skip_certification_certified_data H)"
    and "min_version \<le> 2"
  shows "verify_request_response_pair H vl request
      (add_skip_certification_header H b64 self_describe_tag enc dc response)
      canister_id now offset key min_version c =
    Some (Inr \<lparr>vi_response = None, vi_verification_version = 2\<rparr>, c')"
  by (rule skip_response_accepted [OF assms])

theorem skip_certification_accepted_witness:
  "\<exists>c'. verify_request_response_pair pad_hash plain_lib
      \<lparr>req_method = str_bytes ''GET'', req_url = str_bytes ''/a'', req_headers = [], req_body = [],
       req_certificate_version = None\<rparr>
      (add_skip_certification_header pad_hash hex_enc self_describe_tag cbor_enc
        (plain_data pad_hash (skip_certification_certified_data pad_hash))
        \<lparr>resp_status = 200, resp_headers = [], resp_body = [1], resp_upgrade = None\<rparr>)
      [1] 6 2 plain_key 2 plain_cache =
    Some (Inr \<lparr>vi_response = None, vi_verification_version = 2\<rparr>, c')"
proof -
  let ?d = "skip_certification_certified_data pad_hash"
  have len: "length ?d = 32"
    by (simp add: skip_certification_certified_data_def skip_certification_asset_tree_def labeled_hash_def
        sha_hash_def)
  obtain c' where c': "certificate_verify pad_hash plain_cert (plain_certificate pad_hash ?d) [1] plain_key 6 2
      plain_cache = Some (Inr (), c')" using plain_certificate_verified [of pad_hash ?d] by auto
  show ?thesis
    by (rule exI [of _ c'], rule skip_certification_accepted [where url = "str_bytes ''/a''"
          and cert = "plain_certificate pad_hash ?d"])
      (use c' plain_data_read [OF _ len] plain_certified_data in
       \<open>simp_all add: get_path_def plain_http_def str_bytes_def del: lookup_path.simps\<close>)
qed

end
