(* ===== verification/Response_Checks.thy ===== *)
theory Response_Checks
  imports Skip_Certification
begin

text \<open>
  What acceptance means for both versions: the certificate is valid, the hash tree of the response
  has the certified data as its root hash, and in version 1 it holds the hash of the body; and the
  decoding of a body ends with what the decoder decompresses.
\<close>

subsection \<open>Decoding\<close>

text \<open>A decoder over decompressed bytes that are left to read: a read returns some of them, and none
  only at the end.\<close>

definition decoder_documented :: "'d decoder_lib \<Rightarrow> ('d \<Rightarrow> bytes) \<Rightarrow> bool" where
  "decoder_documented dl rest \<longleftrightarrow>
     (\<forall>n d. 0 < n \<longrightarrow> (\<exists>k d'. decoder_read dl n d = (Inr (take k (rest d)), d') \<and>
        rest d' = drop k (rest d) \<and> k \<le> n \<and> (k = 0 \<longrightarrow> rest d = [])))"

lemma plain_decoder_documented [simp]: "decoder_documented plain_decoder (\<lambda>d. d)"
  unfolding decoder_documented_def
proof (intro allI impI)
  fix n :: nat and d :: bytes
  assume "0 < n"
  then show "\<exists>k d'. decoder_read plain_decoder n d = (Inr (take k d), d') \<and> d' = drop k d \<and> k \<le> n \<and>
      (k = 0 \<longrightarrow> d = [])"
    by (intro exI [of _ n]) (simp add: plain_decoder_def)
qed

lemma body_from_decoder_reads:
  assumes doc: "decoder_documented dl rest"
  shows "body_from_decoder dl d acc = Some (Inr (acc @ rest d))"
proof (induction "length (rest d)" arbitrary: d acc rule: less_induct)
  case less
  have pos: "0 < MAX_CHUNK_SIZE_TO_DECOMPRESS" by (simp add: MAX_CHUNK_SIZE_TO_DECOMPRESS_def)
  with doc obtain k d' where read: "decoder_read dl MAX_CHUNK_SIZE_TO_DECOMPRESS d = (Inr (take k (rest d)), d')"
    "rest d' = drop k (rest d)" "k = 0 \<longrightarrow> rest d = []" unfolding decoder_documented_def by blast
  show ?case
  proof (cases "rest d = []")
    case True
    with read show ?thesis by (simp add: body_from_decoder.simps [of dl d])
  next
    case False
    with read have "0 < k" by simp
    with False read less [of d' "acc @ take k (rest d)"] show ?thesis
      by (simp add: body_from_decoder.simps [of dl d])
  qed
qed

subsection \<open>Version 1\<close>

lemma v1_steps:
  fixes vl :: "('e, 'f, 'p::linorder, 'b, 'c, 'd) verify_lib"
  assumes "v1_verification H vl request response canister_id now offset tree cert encoding key c =
    Some (Inr info, c')"
  shows "checked_certificate H vl cert canister_id key now offset c =
      (Some (Inr (), c') :: ((('e, 'f, 'p, 'b) response_error + unit) \<times> 'c) option) \<and>
    lookup_path (cert_tree cert)
       [str_bytes ''canister'', canister_id, str_bytes ''certified_data''] = LR_Found (digest H tree) \<and>
    (\<exists>rp body. get_path (vl_http vl) request = Inr rp \<and>
       decode_body (vl_decoder vl) (resp_body response) encoding =
         (Some (Inr body) :: (('e, 'f, 'p, 'b) response_error + bytes) option) \<and>
       (validate_body tree rp (sha_hash H body) \<or>
        encoding \<noteq> None \<and> validate_body tree rp (sha_hash H (resp_body response)))) \<and>
    info = \<lparr>vi_response = Some \<lparr>vr_status_code = None, vr_headers = [], vr_body = resp_body response\<rparr>,
      vi_verification_version = 1\<rparr>"
  using assms unfolding v1_verification_def Let_def
  by (elim seq_OkE) (auto simp: validate_tree_Ok split: if_splits simp del: lookup_path.simps terminators)

subsection \<open>Both versions\<close>

lemma accepted_checked:
  fixes vl :: "('e, 'f, 'p::linorder, 'b, 'c, 'd) verify_lib"
  assumes run: "verify_request_response_pair H vl request response canister_id now offset key min_version c =
      Some (Inr info, c')"
    and v: "header_map (vl_lower vl) response (vl_lower vl CERTIFICATE_HEADER_NAME) = Some v"
      "certificate_header_from (cl_nom (vl_cert vl)) (vl_header vl) (vl_b64 vl) v =
        (Inr h :: ('e, 'f, 'p, 'b) response_error + certificate_header)"
  shows "certificate_verify H (vl_cert vl) (ch_certificate h) canister_id key now offset c = Some (Inr (), c')"
    and "lookup_path (cert_tree (ch_certificate h))
       [str_bytes ''canister'', canister_id, str_bytes ''certified_data''] = LR_Found (digest H (ch_tree h))"
    and "min_version \<le> ch_version h" and "ch_version h \<in> {1, 2}" and "vi_verification_version info = ucast (ch_version h)"
proof -
  from pair_accepted [OF run] v have ver: "min_version \<le> ch_version h" and
    c: "ch_version h = 1 \<and>
       v1_verification H vl request response canister_id now offset (ch_tree h) (ch_certificate h)
         (header_map (vl_lower vl) response (str_bytes ''content-encoding'')) key c = Some (Inr info, c') \<or>
     ch_version h = 2 \<and> (\<exists>eh ep cel.
       v2_verification H vl request response canister_id now offset (ch_tree h) (ch_certificate h) ep
         eh cel key c = Some (Inr info, c'))"
    by auto
  from c have "certificate_verify H (vl_cert vl) (ch_certificate h) canister_id key now offset c = Some (Inr (), c') \<and>
    lookup_path (cert_tree (ch_certificate h))
       [str_bytes ''canister'', canister_id, str_bytes ''certified_data''] = LR_Found (digest H (ch_tree h)) \<and>
    ch_version h \<in> {1, 2} \<and> vi_verification_version info = ucast (ch_version h)"
  proof (elim disjE conjE exE)
    assume "ch_version h = 1" and "v1_verification H vl request response canister_id now offset (ch_tree h)
      (ch_certificate h) (header_map (vl_lower vl) response (str_bytes ''content-encoding'')) key c = Some (Inr info, c')"
    with v1_steps [OF this(2)] show ?thesis by (simp add: checked_certificate_def del: lookup_path.simps)
  next
    fix eh ep cel
    assume "ch_version h = 2" and "v2_verification H vl request response canister_id now offset (ch_tree h)
      (ch_certificate h) ep eh cel key c = Some (Inr info, c')"
    with v2_steps [OF this(2)] show ?thesis
      by (auto simp: checked_certificate_def simp del: lookup_path.simps split: option.splits)
  qed
  with ver show "certificate_verify H (vl_cert vl) (ch_certificate h) canister_id key now offset c = Some (Inr (), c')"
    "lookup_path (cert_tree (ch_certificate h))
       [str_bytes ''canister'', canister_id, str_bytes ''certified_data''] = LR_Found (digest H (ch_tree h))"
    "min_version \<le> ch_version h" "ch_version h \<in> {1, 2}" "vi_verification_version info = ucast (ch_version h)"
    by blast+
qed

lemma certificate_verify_keeps:
  fixes lib :: "('e, 'p::linorder, 'c) cert_lib"
  assumes doc: "cache_documented (cl_cache lib) keys" and so: "cache_sound H lib keys c Q"
    and inj: "inj_on H (query_input ` Q)" and q: "chain_queries H lib cert root_key \<subseteq> Q"
    and run: "certificate_verify H lib cert canister_id root_key now offset c = Some (Inr (), c')"
  shows "cache_sound H lib keys c' Q"
proof -
  from run obtain key c1 where k: "(case cert_delegation cert of
      Some d \<Rightarrow> verify_delegation H lib d canister_id root_key | None \<Rightarrow> pure (Inr root_key)) c = Some (Inr key, c1)"
    and s: "verify_certificate_signature H lib cert key c1 = Some (Inr (), c')"
    unfolding certificate_verify_def seq_Ok by auto
  from certificate_key_checked(2) [OF doc so inj q k]
  have "cache_sound H lib keys c1 Q" "cert_queries H cert key \<subseteq> Q" by simp_all
  from verify_certificate_signature_iff [OF doc this(1) inj this(2)] s show ?thesis by auto
qed

subsection \<open>Properties\<close>



text \<open>C17: Whatever the version, an accepted response has a valid certificate for the canister in its
  header, at a version that the client asked for; the certified data of the canister in the
  certificate is the root hash of the hash tree of the header; and the cache of signatures stays
  sound.\<close>

theorem accepted_response_checked:
  fixes vl :: "('e, 'f, 'p::linorder, 'b, 'c, 'd) verify_lib"
  assumes "cache_documented (cl_cache (vl_cert vl)) keys" and "cache_sound H (vl_cert vl) keys c Q"
    and "inj_on H (query_input ` Q)"
    and "header_map (vl_lower vl) response (vl_lower vl CERTIFICATE_HEADER_NAME) = Some v"
    and "certificate_header_from (cl_nom (vl_cert vl)) (vl_header vl) (vl_b64 vl) v =
        (Inr h :: ('e, 'f, 'p, 'b) response_error + certificate_header)"
    and "chain_queries H (vl_cert vl) (ch_certificate h) key \<subseteq> Q"
    and "verify_request_response_pair H vl request response canister_id now offset key min_version c =
      Some (Inr info, c')"
  shows "certificate_valid H (vl_cert vl) (ch_certificate h) canister_id key now offset \<and>
    lookup_path (cert_tree (ch_certificate h))
      [str_bytes ''canister'', canister_id, str_bytes ''certified_data''] = LR_Found (digest H (ch_tree h)) \<and>
    min_version \<le> ch_version h \<and> ch_version h \<in> {1, 2} \<and>
    vi_verification_version info = ucast (ch_version h) \<and> cache_sound H (vl_cert vl) keys c' Q"
proof -
  note checked = accepted_checked [OF assms(7,4,5)]
  note sound = certificate_verify_keeps [OF assms(1-3,6) checked(1)]
  with checked(1) certificate_verify_iff [OF assms(1-3,6)]
  have "certificate_valid H (vl_cert vl) (ch_certificate h) canister_id key now offset" by blast
  with checked(2-5) sound show ?thesis by blast
qed

theorem accepted_response_checked_witness:
  "certificate_valid pad_hash plain_cert (plain_certificate pad_hash (skip_certification_certified_data pad_hash))
     [1] plain_key 6 2"
proof -
  let ?d = "skip_certification_certified_data pad_hash"
  let ?cert = "plain_certificate pad_hash ?d"
  let ?ep = "[PATH_PREFIX, WILDCARD_PATH_TERMINATOR]" and ?w = "skip_certification_asset_tree pad_hash"
  let ?request = "\<lparr>req_method = str_bytes ''GET'', req_url = str_bytes ''/a'', req_headers = [], req_body = [],
       req_certificate_version = None\<rparr>"
  let ?response = "add_skip_certification_header pad_hash hex_enc self_describe_tag cbor_enc (plain_data pad_hash ?d)
      \<lparr>resp_status = 200, resp_headers = [], resp_body = [1], resp_upgrade = None\<rparr>"
  let ?v = "certificate_header_value hex_enc self_describe_tag cbor_enc (plain_data pad_hash ?d) ?w ?ep"
  let ?q = "cert_query pad_hash ?cert (replicate 96 0)"
  have len: "length ?d = 32"
    by (simp add: skip_certification_certified_data_def skip_certification_asset_tree_def labeled_hash_def
        sha_hash_def)
  obtain c' where c': "certificate_verify pad_hash plain_cert ?cert [1] plain_key 6 2
      plain_cache = Some (Inr (), c')" using plain_certificate_verified [of pad_hash ?d] by auto
  have run: "verify_request_response_pair pad_hash plain_lib ?request ?response [1] 6 2 plain_key 2 plain_cache =
    Some (Inr \<lparr>vi_response = None, vi_verification_version = 2\<rparr>, c')"
    by (rule skip_response_accepted [where url = "str_bytes ''/a''" and cert = ?cert])
      (use c' plain_data_read [OF _ len] plain_certified_data in
       \<open>simp_all add: get_path_def plain_http_def str_bytes_def del: lookup_path.simps\<close>)
  have hdr: "certificate_header_from nom_ref header_ref hex_dec ?v =
    (Inr \<lparr>ch_certificate = ?cert, ch_tree = ?w, ch_version = 2, ch_expr_path = Some ?ep\<rparr>
       :: (string, string, bytes, unit) response_error + certificate_header)"
    by (rule header_read_back [OF _ _ _ _ plain_data_read [OF _ len] skip_tree_small])
      (auto simp: PATH_PREFIX_def WILDCARD_PATH_TERMINATOR_def str_bytes_def simp del: terminators)
  have sized: "well_sized (cert_tree ?cert)" by (simp add: plain_certificate_def Let_def)
  have Q: "chain_queries pad_hash plain_cert ?cert plain_key = {?q}"
    by (auto simp: chain_queries_def cert_queries_def KEY_LENGTH_def plain_certificate_def Let_def)
  have "sized ?q" using chain_queries_sized [OF hash32_pad_hash sized, of ?q plain_cert plain_key] Q by simp
  then have so: "cache_sound pad_hash plain_cert (set \<circ> snd) plain_cache {?q}"
    by (simp add: cache_sound_def signature_cache_global_def signature_cache_new_def lru_ref_def)
  have m: "header_map to_ascii_lowercase ?response (to_ascii_lowercase CERTIFICATE_HEADER_NAME) = Some ?v"
    using certificate_names_differ [OF lower_ascii_to_ascii_lowercase]
    by (simp add: add_skip_certification_header_def add_v2_certificate_header_def header_map_add url_segments_def)
  show ?thesis
    using accepted_response_checked [where vl = plain_lib and v = ?v and Q = "{?q}" and c = plain_cache
        and keys = "set \<circ> snd"
        and h = "\<lparr>ch_certificate = ?cert, ch_tree = ?w, ch_version = 2, ch_expr_path = Some ?ep\<rparr>",
      OF _ _ _ _ _ _ run] so m hdr Q by simp
qed

end
