(* ===== verification/Response_Theorems.thy ===== *)
theory Response_Theorems
  imports Skip_Certification Tree_Sizes
begin

text \<open>
  The properties of the response verification, and the exchange on which they are instantiated: a
  canister that certifies one response for every path, and a client that requests one of them.
\<close>

subsection \<open>An exchange\<close>

text \<open>A hash function that keeps the length of its input.\<close>

definition tag_hash :: "bytes \<Rightarrow> hash" where
  "tag_hash x = pad_hash (of_nat (length x) # x)"

lemma hash32_tag_hash [simp]: "hash32 tag_hash"
  using hash32_pad_hash by (simp add: hash32_def tag_hash_def)

definition example_expr :: response_only_cel_expr where
  "example_expr = \<lparr>only_response = CertifiedResponseHeaders []\<rparr>"

definition example_response :: http_response where
  "example_response = \<lparr>resp_status = 200,
     resp_headers = [(CERTIFICATE_EXPRESSION_HEADER_NAME, create_default_response_only_cel_expr example_expr)],
     resp_body = [120], resp_upgrade = None\<rparr>"

definition example_request :: http_request where
  "example_request = \<lparr>req_method = str_bytes ''GET'', req_url = str_bytes ''/a'', req_headers = [],
     req_body = [], req_certificate_version = Some 2\<rparr>"

definition example_entry :: tree_entry where
  "example_entry = \<lparr>entry_path = Wildcard_Path [],
     entry_certification = ResponseOnly_Certification
       (sha_hash tag_hash (create_default_response_only_cel_expr example_expr))
       (response_hash tag_hash two_bytes example_response (only_response example_expr) None)\<rparr>"

definition example_tree :: certification_tree where
  "example_tree = the (ct_run tag_hash [CtInsert example_entry] ct_default)"

abbreviation example_root :: hash where
  "example_root \<equiv> ct_root_hash tag_hash example_tree"

abbreviation example_source :: certified_source where
  "example_source \<equiv> Source_ResponseOnly example_expr example_response"

lemma example_tree: "ct_run tag_hash [CtInsert example_entry] ct_default = Some example_tree"
  using ct_run_refines [OF ct_ok_default, of tag_hash "[CtInsert example_entry]"]
  unfolding example_tree_def by auto

lemma example_source_certified:
  "source_certification tag_hash two_bytes plain_http to_ascii_lowercase example_source =
     Inr (entry_certification example_entry)"
proof -
  have "validate_response to_ascii_lowercase example_response (create_default_response_only_cel_expr example_expr) = Inr ()"
    by (simp add: validate_response_def example_response_def)
  then show ?thesis by (simp add: certification_response_only_def example_entry_def)
qed

subsection \<open>Prunings of the example\<close>

fun longest_label :: "hash_tree \<Rightarrow> nat" where
  "longest_label (Fork l r) = max (longest_label l) (longest_label r)"
| "longest_label (Labeled x t) = max (length x) (longest_label t)"
| "longest_label (Leaf v) = length v"
| "longest_label _ = 0"

lemma tree_smallI: "well_sized t \<Longrightarrow> longest_label t < 2 ^ 64 \<Longrightarrow> tree_small t"
  by (induction t) simp_all

lemma prunes_inputs: "prunes H w t \<Longrightarrow> set (hash_inputs H w) \<subseteq> set (hash_inputs H t)"
proof (induction H w t rule: prunes.induct)
  case (4 H l r l' r')
  then have "digest H l = digest H l'" "digest H r = digest H r'" by (simp_all add: prunes_digest)
  with 4 show ?case by auto
next
  case (6 H x s y s')
  then have "digest H s = digest H s'" by (auto dest: prunes_digest)
  with 6 show ?case by auto
qed auto

lemma inj_on_distinct: "distinct (map f (remdups xs)) \<Longrightarrow> inj_on f (set xs)"
  by (metis distinct_map set_remdups)

lemma example_full_tree:
  "ct_as_hash_tree tag_hash example_tree =
     Labeled PATH_PREFIX (label_chain (entry_to_tree_path example_entry) (Leaf []))"
  by (rule single_entry [OF example_tree])

lemma example_computed:
  "longest_label (Labeled PATH_PREFIX (label_chain (entry_to_tree_path example_entry) (Leaf []))) \<le> 33 \<and>
     distinct (map tag_hash (remdups (hash_inputs tag_hash
       (Labeled PATH_PREFIX (label_chain (entry_to_tree_path example_entry) (Leaf []))))))"
  by code_simp

lemma example_witness:
  obtains w where "ct_witness tag_hash example_tree example_entry (str_bytes ''/a'') = Some (Inr w)"
    and "tree_small w" and "inj_on tag_hash (set (hash_inputs tag_hash w) \<union>
      set (hash_inputs tag_hash (ct_as_hash_tree tag_hash example_tree)))"
    and "routed example_tree (str_bytes ''/a'') (entry_path example_entry)"
proof -
  let ?full = "ct_as_hash_tree tag_hash example_tree" and ?url = "str_bytes ''/a''"
  have ok: "ct_ok tag_hash example_tree" and paths: "certified_paths example_tree = {entry_to_tree_path example_entry}"
    using ct_run_ok [OF example_tree] by (simp_all add: ct_spec_def)
  have seg: "url_segments ?url = [[97]]" "url_segments [] = []"
    by (simp_all add: url_segments_def str_bytes_def ends_with_def)
  obtain a b c where p: "entry_to_tree_path example_entry = [WILDCARD_PATH_TERMINATOR, a, b, c]"
    by (simp add: entry_to_tree_path_def example_entry_def seg)
  have chain: "wildcard_chain [[97]] = [[[97]], [[]], []]"
    by (simp add: wildcard_chain_def)
  have "[97] \<noteq> EXACT_PATH_TERMINATOR" "[97] \<noteq> WILDCARD_PATH_TERMINATOR" "[97] \<noteq> PATH_PREFIX"
    "[] \<noteq> EXACT_PATH_TERMINATOR" "[] \<noteq> WILDCARD_PATH_TERMINATOR"
    by (simp_all add: EXACT_PATH_TERMINATOR_def WILDCARD_PATH_TERMINATOR_def PATH_PREFIX_def str_bytes_def
        del: terminators)
  then have "routed example_tree ?url (Wildcard_Path [])"
    by (auto simp: routed_def answers_def seg chain certified_below_def paths p plain_first_def plain_last_def)
  then have r: "routed example_tree ?url (entry_path example_entry)" by (simp add: example_entry_def)
  from routed_witness [OF ok r] paths obtain w where
    w: "ct_witness tag_hash example_tree example_entry ?url = Some (Inr w)" "prunes tag_hash w ?full" by auto
  have "unpruned ?full" using sorted_tree_unpruned [OF ct_sorted [OF ok]] .
  then have sized: "well_sized ?full" by (rule unpruned_well_sized)
  have "longest_label ?full < 2 ^ 64" using example_computed unfolding example_full_tree
    by (elim conjE) (rule le_less_trans, assumption, simp)
  with sized have "tree_small ?full" by (rule tree_smallI)
  with prunes_tree_small [OF hash32_tag_hash w(2) sized] have "tree_small w" by blast
  moreover have "inj_on tag_hash (set (hash_inputs tag_hash ?full))"
    using example_computed unfolding example_full_tree by (intro inj_on_distinct) (elim conjE)
  then have "inj_on tag_hash (set (hash_inputs tag_hash w) \<union> set (hash_inputs tag_hash ?full))"
    using prunes_inputs [OF w(2)] by (simp add: Un_absorb1)
  ultimately show thesis using that w(1) r by blast
qed

lemma length_example_root: "length example_root = 32"
  by (simp add: ct_root_hash_def labeled_hash_def sha_hash_def)

lemma example_url: "get_path plain_http example_request = Inr (str_bytes ''/a'')"
  by (simp add: get_path_def example_request_def plain_http_def str_bytes_def)

lemma example_answers: "canister_answer plain_http to_ascii_lowercase example_request example_response example_source"
  by simp

lemma example_expr_ok: "expr_ok (source_expr example_source)"
  by (simp add: example_expr_def response_names_ok_def response_list_def)

lemma example_expr_path:
  "\<forall>x \<in> set (to_expr_path (entry_path example_entry)). utf8_valid x \<and> length x < 2 ^ 64"
  "length (to_expr_path (entry_path example_entry)) < 2 ^ 64"
  by (auto simp: example_entry_def url_segments_def PATH_PREFIX_def WILDCARD_PATH_TERMINATOR_def str_bytes_def
      simp del: terminators)

lemma example_inserted: "entry_to_tree_path example_entry \<in> ct_spec [CtInsert example_entry] {}"
  by (simp add: ct_spec_def)

abbreviation example_answer :: "hash_tree \<Rightarrow> http_response" where
  "example_answer w \<equiv> add_v2_certificate_header hex_enc self_describe_tag cbor_enc
     (plain_data tag_hash example_root)
     example_response w (to_expr_path (entry_path example_entry))"

lemma response_inputs_add_certificate [simp]:
  "response_inputs H leb (add_header r (CERTIFICATE_HEADER_NAME, v)) rc = response_inputs H leb r rc"
  by (simp add: response_inputs_def response_pairs_def filter_response_headers_spec add_header_def)

lemma example_no_collision:
  "inj_on tag_hash (source_inputs tag_hash two_bytes plain_http example_request (example_answer w)
     (create_default_response_only_cel_expr example_expr) example_source)"
proof -
  have "inj_on tag_hash (insert (create_default_response_only_cel_expr example_expr)
      (response_inputs tag_hash two_bytes example_response (only_response example_expr)))"
    by (rule eq_card_imp_inj_on, simp add: response_inputs_def, code_simp)
  then show ?thesis by (simp add: source_inputs_def add_v2_certificate_header_def)
qed

lemma inj_tag_hash:
  "distinct (map (\<lambda>x. of_nat (length x) :: byte) xs) \<Longrightarrow> inj_on tag_hash (set xs)"
  by (auto simp: inj_on_def distinct_map tag_hash_def pad_hash_def)

lemma plain_state:
  assumes "length d = 32"
  shows "certifies_data tag_hash (plain_certificate tag_hash d) [1] d"
  unfolding certifies_data_def
proof (intro exI conjI)
  let ?t = "cert_tree (plain_certificate tag_hash d)"
  show "sorted_tree ?t"
    by (simp add: plain_certificate_def Let_def str_bytes_def bytes_cmp_iff)
  have "inj_on tag_hash (set (hash_inputs tag_hash ?t))"
    by (rule inj_tag_hash)
      (simp add: plain_certificate_def Let_def assms labeled_hash_def fork_hash_def leaf_hash_def sha_hash_def
        domain_sep_def)
  then show "inj_on tag_hash (set (hash_inputs tag_hash ?t) \<union> set (hash_inputs tag_hash ?t))" by simp
qed (use plain_certified_data in simp_all)

lemma two_bytes_inj: "inj_on two_bytes (range (ucast :: 16 word \<Rightarrow> 64 word))"
proof (rule inj_onI)
  fix x y :: "64 word"
  assume "x \<in> range (ucast :: 16 word \<Rightarrow> 64 word)" "y \<in> range (ucast :: 16 word \<Rightarrow> 64 word)"
    and eq: "two_bytes x = two_bytes y"
  then obtain a b :: "16 word" where ab: "x = ucast a" "y = ucast b" by blast
  from eq have "(ucast x :: byte) = ucast y" "(ucast (drop_bit 8 x) :: byte) = ucast (drop_bit 8 y)"
    by (simp_all add: two_bytes_def)
  then have bits: "bit (ucast x :: byte) n = bit (ucast y :: byte) n"
    "bit (ucast (drop_bit 8 x) :: byte) n = bit (ucast (drop_bit 8 y) :: byte) n" for n by simp_all
  have low: "bit x n = bit y n" and high: "bit x (8 + n) = bit y (8 + n)" if "n < 8" for n
    using that bits [of n] by (simp_all add: bit_simps)
  show "x = y"
  proof (rule bit_word_eqI)
    fix n
    show "bit x n = bit y n"
    proof (cases "n < 8 \<or> 16 \<le> n")
      case True
      then show ?thesis using low ab by (auto simp: bit_simps dest: bit_imp_le_length)
    next
      case False
      then have "n = 8 + (n - 8)" "n - 8 < 8" by arith+
      with high show ?thesis by metis
    qed
  qed
qed

subsection \<open>Properties\<close>

text \<open>C2: The verifier accepts what the canister library builds. A canister that inserted an entry for
  a response, and answers a request that the entry is the one to answer with that response, the
  certificate header of the library with the witness of its tree, and a certificate that verifies
  and holds the root hash of the tree as the canister's certified data, has its response accepted as
  verified under version 2.\<close>

theorem honest_response_accepted:
  fixes vl :: "('e, 'f, 'p::linorder, 'b, 'c, 'd) verify_lib"
  assumes "nom_documented (cl_nom (vl_cert vl))" and "header_lib_documented (vl_header vl)"
    and "cbor_documented enc" and "b64_documented b64 (vl_b64 vl)" and "lower_ascii (vl_lower vl)"
    and "hash32 H" and "ct_run H ops ct_default = Some t"
    and "entry_to_tree_path e \<in> ct_spec ops {}"
    and "source_certification H (vl_leb vl) (vl_http vl) (vl_lower vl) s = Inr (entry_certification e)"
    and "expr_ok (source_expr s)"
    and "canister_answer (vl_http vl) (vl_lower vl) request r0 s"
    and "get_path (vl_http vl) request = Inr url" and "routed t url (entry_path e)"
    and "ct_witness H t e url = Some (Inr w)" and "tree_small w"
    and "\<forall>x \<in> set (to_expr_path (entry_path e)). utf8_valid x \<and> length x < 2 ^ 64"
    and "length (to_expr_path (entry_path e)) < 2 ^ 64"
    and "certificate_from_cbor (cl_nom (vl_cert vl)) dc = Inr cert"
    and "certificate_verify H (vl_cert vl) cert canister_id key now offset c = Some (Inr (), c')"
    and "lookup_path (cert_tree cert) [str_bytes ''canister'', canister_id, str_bytes ''certified_data''] =
         LR_Found (ct_root_hash H t)"
    and "min_version \<le> 2"
  shows "\<exists>info. verify_request_response_pair H vl request
      (add_v2_certificate_header b64 self_describe_tag enc dc r0 w (to_expr_path (entry_path e)))
      canister_id now offset key min_version c = Some (Inr info, c') \<and> vi_verification_version info = 2"
  by (rule library_response_accepted [OF assms])

theorem honest_response_accepted_witness:
  "\<exists>w c' info. ct_witness tag_hash example_tree example_entry (str_bytes ''/a'') = Some (Inr w) \<and>
     verify_request_response_pair tag_hash plain_lib example_request
       (add_v2_certificate_header hex_enc self_describe_tag cbor_enc
     (plain_data tag_hash example_root) example_response w
          (to_expr_path (entry_path example_entry)))
       [1] 6 2 plain_key 2 plain_cache = Some (Inr info, c') \<and>
     vi_verification_version info = 2"
proof -
  obtain w where w: "ct_witness tag_hash example_tree example_entry (str_bytes ''/a'') = Some (Inr w)"
    "tree_small w" "routed example_tree (str_bytes ''/a'') (entry_path example_entry)"
    by (rule example_witness)
  obtain c' where c': "certificate_verify tag_hash plain_cert (plain_certificate tag_hash example_root) [1] plain_key 6 2
      plain_cache = Some (Inr (), c')" using plain_certificate_verified by fastforce
  have "\<exists>info. verify_request_response_pair tag_hash plain_lib example_request
      (add_v2_certificate_header hex_enc self_describe_tag cbor_enc
     (plain_data tag_hash example_root) example_response w
        (to_expr_path (entry_path example_entry)))
      [1] 6 2 plain_key 2 plain_cache = Some (Inr info, c') \<and>
      vi_verification_version info = 2"
    by (rule honest_response_accepted [where ops = "[CtInsert example_entry]" and t = example_tree
          and s = example_source and cert = "plain_certificate tag_hash example_root" and url = "str_bytes ''/a''"])
      (use w c' example_tree example_inserted example_source_certified example_url example_answers
        example_expr_ok example_expr_path plain_data_read [OF hash32_tag_hash length_example_root] plain_certified_data in
       \<open>simp_all del: lookup_path.simps ct_run.simps expr_ok.simps source_expr.simps\<close>)
  with w(1) show ?thesis by blast
qed

text \<open>C1: A response accepted under version 2 is the response of a source that the canister certified:
  for a canister whose tree was filled from a set of sources and whose certified data is the root
  hash of the tree, the expression path of the response is that of a certified entry which the tree
  lets answer the request, the entry's source agrees with the request and the response on everything
  its expression certifies, and what is returned is the status, the body and the certified headers
  of the response. The hash function does not collide on what is hashed.\<close>

theorem accepted_response_authentic:
  fixes vl :: "('e, 'f, 'p::linorder, 'b, 'c, 'd) verify_lib"
  assumes "hash32 H" and "inj_on (vl_leb vl) (range (ucast :: 16 word \<Rightarrow> 64 word))"
    and "cel_lib_documented (hl_text (vl_header vl))"
    and "ct_run H ops ct_default = Some t" and "made_from H (vl_leb vl) (vl_http vl) lower S ops"
    and "header_map (vl_lower vl) response (vl_lower vl CERTIFICATE_HEADER_NAME) = Some v"
    and "certificate_header_from (cl_nom (vl_cert vl)) (vl_header vl) (vl_b64 vl) v =
      (Inr h :: ('e, 'f, 'p, 'b) response_error + certificate_header)" and "ch_version h = 2"
    and "header_map (vl_lower vl) response (vl_lower vl CERTIFICATE_EXPRESSION_HEADER_NAME) = Some expr"
    and "\<And>cp s. (cp, s) \<in> S \<Longrightarrow> plain_path cp \<and> source_ok s \<and>
      inj_on H (source_inputs H (vl_leb vl) (vl_http vl) request response expr s)"
    and "certifies_data H (ch_certificate h) canister_id (ct_root_hash H t)"
    and "inj_on H (set (hash_inputs H (ch_tree h)) \<union> set (hash_inputs H (ct_as_hash_tree H t)))"
    and "get_path (vl_http vl) request = Inr rp" and "plain_last (url_segments rp)"
    and "verify_request_response_pair H vl request response canister_id now offset key min_version c =
      Some (Inr info, c')"
  shows "\<exists>cp s. (cp, s) \<in> S \<and> ch_expr_path h = Some (to_expr_path cp) \<and>
    answers t rp (path_to_tree_path cp) \<and> from_source (vl_http vl) (source_expr s) request response s \<and>
    returned_response response (source_expr s) (vi_response info)"
  by (rule response_authentic [OF assms(1-9) _ assms(11-15)]) (rule assms(10))

theorem accepted_response_authentic_witness:
  "\<exists>w c' info. ct_witness tag_hash example_tree example_entry (str_bytes ''/a'') = Some (Inr w) \<and>
     verify_request_response_pair tag_hash plain_lib example_request (example_answer w)
       [1] 6 2 plain_key 2 plain_cache = Some (Inr info, c') \<and>
     same_response (only_response example_expr) example_response (example_answer w) \<and>
     returned_response (example_answer w) (CelDefault (CelResponseOnly example_expr)) (vi_response info)"
proof -
  let ?ep = "to_expr_path (entry_path example_entry)"
  let ?expr = "create_default_response_only_cel_expr example_expr"
  obtain w where w: "ct_witness tag_hash example_tree example_entry (str_bytes ''/a'') = Some (Inr w)"
    "tree_small w" "inj_on tag_hash (set (hash_inputs tag_hash w) \<union>
      set (hash_inputs tag_hash (ct_as_hash_tree tag_hash example_tree)))"
    "routed example_tree (str_bytes ''/a'') (entry_path example_entry)"
    by (rule example_witness)
  obtain c' where c': "certificate_verify tag_hash plain_cert (plain_certificate tag_hash example_root) [1] plain_key 6 2
      plain_cache = Some (Inr (), c')" using plain_certificate_verified by fastforce
  let ?v = "certificate_header_value hex_enc self_describe_tag cbor_enc
     (plain_data tag_hash example_root) w ?ep"
  have "\<exists>info. verify_request_response_pair tag_hash plain_lib example_request (example_answer w)
      [1] 6 2 plain_key 2 plain_cache = Some (Inr info, c') \<and>
      vi_verification_version info = 2"
    by (rule library_response_accepted [where ops = "[CtInsert example_entry]" and t = example_tree
          and s = example_source and cert = "plain_certificate tag_hash example_root" and url = "str_bytes ''/a''"])
      (use w c' example_tree example_inserted example_source_certified example_url example_answers
        example_expr_ok example_expr_path plain_data_read [OF hash32_tag_hash length_example_root] plain_certified_data in
       \<open>simp_all del: lookup_path.simps ct_run.simps expr_ok.simps source_expr.simps\<close>)
  then obtain info where run: "verify_request_response_pair tag_hash plain_lib example_request (example_answer w)
      [1] 6 2 plain_key 2 plain_cache = Some (Inr info, c')" by blast
  have hdr: "certificate_header_from nom_ref header_ref hex_dec ?v =
    (Inr \<lparr>ch_certificate = (plain_certificate tag_hash example_root), ch_tree = w, ch_version = 2, ch_expr_path = Some ?ep\<rparr>
       :: (string, string, bytes, unit) response_error + certificate_header)"
    by (rule header_read_back [OF _ _ _ _ plain_data_read [OF hash32_tag_hash length_example_root] w(2) example_expr_path(2)])
      (use example_expr_path(1) in simp_all)
  have exp: "header_map to_ascii_lowercase (example_answer w)
      (to_ascii_lowercase CERTIFICATE_EXPRESSION_HEADER_NAME) = Some ?expr"
    using certificate_names_differ [OF lower_ascii_to_ascii_lowercase]
      validated_header [OF source_validated [OF example_source_certified example_answers]]
    by (simp add: add_v2_certificate_header_def header_map_add)
  let ?h = "\<lparr>ch_certificate = (plain_certificate tag_hash example_root), ch_tree = w, ch_version = 2, ch_expr_path = Some ?ep\<rparr>"
  have "\<exists>cp s. (cp, s) \<in> {(entry_path example_entry, example_source)} \<and>
      ch_expr_path ?h = Some (to_expr_path cp) \<and>
      answers example_tree (str_bytes ''/a'') (path_to_tree_path cp) \<and>
      from_source (vl_http plain_lib) (source_expr s) example_request (example_answer w) s \<and>
      returned_response (example_answer w) (source_expr s) (vi_response info)"
  proof (rule accepted_response_authentic [where ops = "[CtInsert example_entry]" and expr = ?expr and v = ?v
        and lower = to_ascii_lowercase and h = ?h and canister_id = "[1]" and H = tag_hash])
    show "made_from tag_hash (vl_leb plain_lib) (vl_http plain_lib) to_ascii_lowercase
        {(entry_path example_entry, example_source)} [CtInsert example_entry]"
      using example_source_certified by (simp add: made_from_def)
    show "plain_path cp \<and> source_ok s \<and> inj_on tag_hash (source_inputs tag_hash (vl_leb plain_lib)
        (vl_http plain_lib) example_request (example_answer w) ?expr s)"
      if "(cp, s) \<in> {(entry_path example_entry, example_source)}" for cp s
    proof -
      have "plain_path (entry_path example_entry)"
        by (simp add: plain_path_def example_entry_def url_segments_def)
      moreover have "source_ok example_source"
        using example_expr_ok by (simp add: source_ok_def no_status_header_def example_response_def
            RESPONSE_STATUS_PSEUDO_HEADER_NAME_def CERTIFICATE_EXPRESSION_HEADER_NAME_def str_bytes_def
            to_ascii_lowercase_def)
      ultimately show ?thesis using that example_no_collision by simp
    qed
    show "plain_last (url_segments (str_bytes ''/a''))"
      by (simp add: plain_last_def url_segments_def str_bytes_def ends_with_def EXACT_PATH_TERMINATOR_def
          WILDCARD_PATH_TERMINATOR_def del: terminators)
  qed (use run hdr exp example_tree plain_state [OF length_example_root] w(3) two_bytes_inj example_url header_cel_documented [OF header_ref_documented]
      in \<open>simp_all add: add_v2_certificate_header_def header_map_add del: ct_run.simps\<close>)
  with w(1) run show ?thesis by auto
qed

end
