(* ===== verification/Rust_Num.thy ===== *)
theory Rust_Num
  imports Rust_Str
begin

text \<open>
  Decimal numbers of the Rust standard library: \<^verbatim>\<open>Display\<close> of an unsigned integer and
  \<^verbatim>\<open>str::parse::<usize>\<close>, whose bound is an argument.
\<close>

subsection \<open>Printing\<close>

definition digit_char :: "nat \<Rightarrow> byte" where
  "digit_char d = of_nat (48 + d)"

fun decimal :: "nat \<Rightarrow> bytes" where
  "decimal n = (if n < 10 then [digit_char n] else decimal (n div 10) @ [digit_char (n mod 10)])"

declare decimal.simps [simp del]

subsection \<open>Parsing\<close>

text \<open>\<^verbatim>\<open>IntErrorKind\<close>. A leading plus sign is accepted; bytes 43 and 45 are the signs. In every step an
  invalid digit is found before an overflow of the product or the sum.\<close>

datatype int_error = IntEmpty | IntInvalidDigit | IntPosOverflow

definition to_digit :: "byte \<Rightarrow> nat option" where
  "to_digit c = (if 48 \<le> c \<and> c \<le> 57 then Some (unat c - 48) else None)"

fun parse_digits :: "nat \<Rightarrow> nat \<Rightarrow> bytes \<Rightarrow> int_error + nat" where
  "parse_digits bound acc [] = Inr acc"
| "parse_digits bound acc (c # cs) =
     (case to_digit c of
        None \<Rightarrow> Inl IntInvalidDigit
      | Some d \<Rightarrow>
          if bound < acc * 10 then Inl IntPosOverflow
          else if bound < acc * 10 + d then Inl IntPosOverflow
          else parse_digits bound (acc * 10 + d) cs)"

definition parse_usize :: "nat \<Rightarrow> bytes \<Rightarrow> int_error + nat" where
  "parse_usize bound s =
     (if s = [] then Inl IntEmpty
      else if s = [43] \<or> s = [45] then Inl IntInvalidDigit
      else parse_digits bound 0 (if hd s = 43 then tl s else s))"

subsection \<open>Round trip\<close>

lemma to_digit_char [simp]: "d < 10 \<Longrightarrow> to_digit (digit_char d) = Some d"
proof -
  assume d: "d < 10"
  then have "unat (digit_char d) = 48 + d"
    unfolding digit_char_def unat_of_nat by simp
  with d show ?thesis by (simp add: to_digit_def word_le_nat_alt)
qed

lemma parse_digits_append:
  "parse_digits bound acc (s @ t) = and_then (parse_digits bound acc s) (\<lambda>n. parse_digits bound n t)"
  by (induction s arbitrary: acc) (auto split: option.split)

lemma parse_digits_decimal: "n \<le> bound \<Longrightarrow> parse_digits bound 0 (decimal n) = Inr n"
proof (induction n rule: decimal.induct)
  case (1 n)
  show ?case
  proof (cases "n < 10")
    case True
    with 1 show ?thesis by (subst decimal.simps) simp
  next
    case False
    with 1 have "parse_digits bound 0 (decimal (n div 10)) = Inr (n div 10)" by simp
    with False 1(2) show ?thesis
      by (subst decimal.simps) (simp add: parse_digits_append div_mult_mod_eq minus_mod_eq_div_mult [symmetric])
  qed
qed

lemma digit_char_range: "d < 10 \<Longrightarrow> 48 \<le> digit_char d \<and> digit_char d \<le> 57"
  using to_digit_char [of d] by (simp add: to_digit_def split: if_splits)

lemma decimal_chars: "c \<in> set (decimal n) \<Longrightarrow> 48 \<le> c \<and> c \<le> 57"
proof (induction n rule: decimal.induct)
  case (1 n)
  then show ?case
    using digit_char_range [of "n mod 10"] digit_char_range [of n]
    by (subst (asm) (2) decimal.simps) (auto split: if_splits)
qed

lemma decimal_ne [simp]: "decimal n \<noteq> []"
  by (subst decimal.simps) simp

lemma parse_usize_decimal: "n \<le> bound \<Longrightarrow> parse_usize bound (decimal n) = Inr n"
proof -
  assume n: "n \<le> bound"
  obtain c cs where d: "decimal n = c # cs" by (cases "decimal n") auto
  then have "48 \<le> c" using decimal_chars [of c n] by simp
  then have "c \<noteq> 43" "c \<noteq> 45" by auto
  with d parse_digits_decimal [OF n] show ?thesis by (simp add: parse_usize_def)
qed

end
