(* ===== verification/Asset_Config.thy ===== *)
theory Asset_Config
  imports Certification_Tree Rust_Num
begin

text \<open>
  The data of \<^verbatim>\<open>packages/ic-asset-certification\<close>: assets, their configuration, the errors of the crate,
  and the keys and values of the maps of the router (\<^verbatim>\<open>asset.rs\<close>, \<^verbatim>\<open>asset_config.rs\<close>, \<^verbatim>\<open>error.rs\<close>,
  \<^verbatim>\<open>types.rs\<close>). The crate \<^verbatim>\<open>globset\<close> is a parameter: \<open>glob\<close> compiles a pattern or fails, \<open>is_match\<close>
  runs a compiled one.
\<close>

subsection \<open>Assets\<close>

record asset =
  asset_path :: bytes
  asset_url :: bytes
  asset_content :: bytes

definition path_to_url :: "bytes \<Rightarrow> bytes" where
  "path_to_url p = (if \<not> starts_with p [47] then [47] @ p else p)"

definition asset_new :: "bytes \<Rightarrow> bytes \<Rightarrow> asset" where
  "asset_new p content = \<lparr>asset_path = p, asset_url = path_to_url p, asset_content = content\<rparr>"

subsection \<open>Errors\<close>

text \<open>The text of a \<^verbatim>\<open>RequestError\<close> is kept as the case that produced it, with the pieces it is
  formatted from.\<close>

datatype range_error =
    InvalidRangeHeader bytes
  | MalformedRangeBegin bytes int_error
  | MalformedRangeEnd bytes int_error
  | InvalidRangeValues bytes

datatype 'm asset_error =
    NoAssetMatchingRequestUrl bytes
  | HttpCertificationError http_error
  | GlobsetError 'm
  | RequestError range_error

subsection \<open>Configuration\<close>

datatype asset_encoding =
    Identity_Encoding | Brotli_Encoding | Zstd_Encoding | Gzip_Encoding | Deflate_Encoding

fun encoding_to_string :: "asset_encoding \<Rightarrow> bytes" where
  "encoding_to_string Identity_Encoding = str_bytes ''identity''"
| "encoding_to_string Brotli_Encoding = str_bytes ''br''"
| "encoding_to_string Zstd_Encoding = str_bytes ''zstd''"
| "encoding_to_string Gzip_Encoding = str_bytes ''gzip''"
| "encoding_to_string Deflate_Encoding = str_bytes ''deflate''"

definition default_config :: "asset_encoding \<Rightarrow> asset_encoding \<times> bytes" where
  "default_config e =
     (e, case e of
        Identity_Encoding \<Rightarrow> []
      | Brotli_Encoding \<Rightarrow> str_bytes ''.br''
      | Zstd_Encoding \<Rightarrow> str_bytes ''.zst''
      | Gzip_Encoding \<Rightarrow> str_bytes ''.gz''
      | Deflate_Encoding \<Rightarrow> str_bytes ''.zz'')"

definition custom_config :: "asset_encoding \<Rightarrow> bytes \<Rightarrow> asset_encoding \<times> bytes" where
  "custom_config e extension = (e, extension)"

record asset_fallback_config =
  afc_scope :: bytes
  afc_status_code :: "16 word option"

datatype asset_redirect_kind = Permanent_Redirect | Temporary_Redirect

text \<open>The fields of \<^verbatim>\<open>AssetConfig\<close>, in its order: path, content type, headers, fallbacks, aliases and
  encodings of a file; pattern, content type, headers and encodings of a pattern; from, to, kind and
  headers of a redirect. The normalised configuration holds a compiled pattern.\<close>

datatype 'p asset_config_of =
    Config_File bytes "bytes option" "header_field list" "asset_fallback_config list" "bytes list"
      "(asset_encoding \<times> bytes) list"
  | Config_Pattern 'p "bytes option" "header_field list" "(asset_encoding \<times> bytes) list"
  | Config_Redirect bytes bytes asset_redirect_kind "header_field list"

type_synonym asset_config = "bytes asset_config_of"

type_synonym 'g normalized_asset_config = "'g asset_config_of"

fun normalized_try_from ::
  "(bytes \<Rightarrow> 'm + 'g) \<Rightarrow> asset_config \<Rightarrow> 'm asset_error + 'g normalized_asset_config" where
  "normalized_try_from glob (Config_File p content_type headers fallback_for aliased_by encodings) =
     Inr (Config_File p content_type headers fallback_for aliased_by encodings)"
| "normalized_try_from glob (Config_Pattern pattern content_type headers encodings) =
     and_then (map_err GlobsetError (glob pattern)) (\<lambda>pattern.
       Inr (Config_Pattern pattern content_type headers encodings))"
| "normalized_try_from glob (Config_Redirect from to kind headers) =
     Inr (Config_Redirect from to kind headers)"

fun matches_asset :: "('g \<Rightarrow> bytes \<Rightarrow> bool) \<Rightarrow> 'g normalized_asset_config \<Rightarrow> asset \<Rightarrow> bool" where
  "matches_asset is_match (Config_File p _ _ _ _ _) a \<longleftrightarrow> p = asset_path a"
| "matches_asset is_match (Config_Pattern pattern _ _ _) a \<longleftrightarrow> is_match pattern (asset_path a)"
| "matches_asset is_match (Config_Redirect _ _ _ _) a \<longleftrightarrow> False"

subsection \<open>Stored responses\<close>

record certified_asset_response =
  car_response :: http_response
  car_tree_entry :: tree_entry

record request_key =
  rk_path :: bytes
  rk_encoding :: "bytes option"
  rk_range_begin :: "nat option"

definition request_key_new :: "bytes \<Rightarrow> bytes option \<Rightarrow> nat option \<Rightarrow> request_key" where
  "request_key_new p encoding range_begin =
     \<lparr>rk_path = p, rk_encoding = encoding, rk_range_begin = range_begin\<rparr>"

text \<open>A \<^verbatim>\<open>HashMap\<close> of responses is an association list without duplicate keys. \<^verbatim>\<open>AssetMap\<close> gives
  read access to it.\<close>

type_synonym response_map = "(request_key \<times> certified_asset_response) list"

definition asset_map_get ::
  "response_map \<Rightarrow> bytes \<Rightarrow> asset_encoding option \<Rightarrow> nat option \<Rightarrow> http_response option" where
  "asset_map_get m p encoding range_begin =
     (let req_key = request_key_new p (map_option encoding_to_string encoding) range_begin
      in map_option car_response (map_of m req_key))"

definition asset_map_len :: "response_map \<Rightarrow> nat" where
  "asset_map_len m = length m"

definition asset_map_is_empty :: "response_map \<Rightarrow> bool" where
  "asset_map_is_empty m \<longleftrightarrow> asset_map_len m = 0"

text \<open>\<^verbatim>\<open>AssetMapIterator\<close>: the projection of the pairs; their order is that of the hash map, which the
  parameter \<open>order\<close> stands for.\<close>

definition asset_map_iter ::
  "(response_map \<Rightarrow> response_map) \<Rightarrow> response_map \<Rightarrow>
     ((bytes \<times> bytes option \<times> nat option) \<times> http_response) list" where
  "asset_map_iter order m =
     map (\<lambda>(key, a). ((rk_path key, rk_encoding key, rk_range_begin key), car_response a)) (order m)"

end
