(* ===== verification/Asset_Router.thy ===== *)
theory Asset_Router
  imports Asset_Config Rust_Comp "HOL-Library.AList"
begin

text \<open>
  The asset router of \<^verbatim>\<open>packages/ic-asset-certification/src/asset_router.rs\<close>: the responses it prepares
  and certifies for assets, their chunks, encodings, aliases, fallbacks and redirects, their deletion,
  and the choice of the response to a request. The router is the state of a computation
  (\<^verbatim>\<open>Rust_Comp\<close>): an error leaves the changes made before it, \<^term>\<open>None\<close> is a panic. The tree is the
  content of the shared \<^verbatim>\<open>Rc<RefCell<HttpCertificationTree>>\<close>.
\<close>

subsection \<open>State and parameters\<close>

record asset_router =
  ar_tree :: certification_tree
  ar_responses :: response_map
  ar_fallback_responses :: response_map

text \<open>Parameters: the glob library; the order in which a hash map of assets is iterated
  (\<open>al_order\<close>); \<^verbatim>\<open>sort_unstable_by\<close> on encodings with their qualities, descending (\<open>al_sort\<close>);
  \<^verbatim>\<open>str::to_lowercase\<close>; leb128 and the HTTP libraries of the hashes; \<^verbatim>\<open>usize::MAX\<close>.\<close>

record ('g, 'm) asset_lib =
  al_glob :: "bytes \<Rightarrow> 'm + 'g"
  al_is_match :: "'g \<Rightarrow> bytes \<Rightarrow> bool"
  al_order :: "(bytes \<times> asset) list \<Rightarrow> (bytes \<times> asset) list"
  al_sort :: "(bytes \<times> nat) list \<Rightarrow> (bytes \<times> nat) list"
  al_lower :: "bytes \<Rightarrow> bytes"
  al_leb :: "64 word \<Rightarrow> bytes"
  al_http :: http_lib
  al_usize_max :: nat

type_synonym ('m, 'a) router_comp = "(asset_router, 'm asset_error, 'a) comp"

definition ASSET_CHUNK_SIZE :: nat where
  "ASSET_CHUNK_SIZE = 2000000"

definition asset_router_with_tree :: "certification_tree \<Rightarrow> asset_router" where
  "asset_router_with_tree tree = \<lparr>ar_tree = tree, ar_responses = [], ar_fallback_responses = []\<rparr>"

definition asset_router_new :: asset_router where
  "asset_router_new =
     \<lparr>ar_tree = ct_default, ar_responses = [], ar_fallback_responses = []\<rparr>"

definition get_assets :: "asset_router \<Rightarrow> response_map" where
  "get_assets r = ar_responses r"

definition get_fallback_assets :: "asset_router \<Rightarrow> response_map" where
  "get_fallback_assets r = ar_fallback_responses r"

definition router_root_hash :: "(bytes \<Rightarrow> hash) \<Rightarrow> asset_router \<Rightarrow> hash" where
  "router_root_hash H r = ct_root_hash H (ar_tree r)"

definition encoding_str :: "asset_encoding option \<Rightarrow> bytes option" where
  "encoding_str maybe_encoding = map_option encoding_to_string maybe_encoding"

text \<open>The writes to the shared tree and to the maps.\<close>

definition tree_insert :: "(bytes \<Rightarrow> hash) \<Rightarrow> tree_entry \<Rightarrow> ('m, unit) router_comp" where
  "tree_insert H e =
     update_partial (\<lambda>r. map_option (\<lambda>t. r\<lparr>ar_tree := t\<rparr>) (ct_insert H (ar_tree r) e))"

definition tree_delete :: "(bytes \<Rightarrow> hash) \<Rightarrow> tree_entry \<Rightarrow> ('m, unit) router_comp" where
  "tree_delete H e =
     update_partial (\<lambda>r. map_option (\<lambda>t. r\<lparr>ar_tree := t\<rparr>) (ct_delete H (ar_tree r) e))"

definition tree_delete_by_path :: "(bytes \<Rightarrow> hash) \<Rightarrow> certification_path \<Rightarrow> ('m, unit) router_comp" where
  "tree_delete_by_path H p =
     update_partial (\<lambda>r. map_option (\<lambda>t. r\<lparr>ar_tree := t\<rparr>) (ct_delete_by_path H (ar_tree r) p))"

definition responses_insert :: "request_key \<Rightarrow> certified_asset_response \<Rightarrow> ('m, unit) router_comp" where
  "responses_insert k a = update (\<lambda>r. r\<lparr>ar_responses := AList.update k a (ar_responses r)\<rparr>)"

definition responses_remove :: "request_key \<Rightarrow> ('m, unit) router_comp" where
  "responses_remove k = update (\<lambda>r. r\<lparr>ar_responses := AList.delete k (ar_responses r)\<rparr>)"

definition fallback_insert :: "request_key \<Rightarrow> certified_asset_response \<Rightarrow> ('m, unit) router_comp" where
  "fallback_insert k a =
     update (\<lambda>r. r\<lparr>ar_fallback_responses := AList.update k a (ar_fallback_responses r)\<rparr>)"

definition fallback_remove :: "request_key \<Rightarrow> ('m, unit) router_comp" where
  "fallback_remove k =
     update (\<lambda>r. r\<lparr>ar_fallback_responses := AList.delete k (ar_fallback_responses r)\<rparr>)"

subsection \<open>Range requests\<close>

record range_request_values =
  rrv_begin :: nat
  rrv_end :: "nat option"

text \<open>\<^verbatim>\<open>trim_start_matches\<close> removes the prefix as often as it is there. Byte 45 is the dash.\<close>

definition parse_range_header_str :: "nat \<Rightarrow> bytes \<Rightarrow> range_error + range_request_values" where
  "parse_range_header_str usize_max range_str =
     (let str_value = trim range_str
      in if \<not> starts_with str_value (str_bytes ''bytes='') then Inl (InvalidRangeHeader range_str)
         else let str_value = strip_all [str_bytes ''bytes=''] str_value;
                  range_header_parts = split_on 45 str_value
              in if range_header_parts = [] \<or> length range_header_parts \<noteq> 2
                 then Inl (InvalidRangeHeader range_str)
                 else and_then (map_err (MalformedRangeBegin range_str)
                        (parse_usize usize_max (range_header_parts ! 0))) (\<lambda>rb.
                      and_then (if range_header_parts ! 1 = [] then Inr None
                          else map_err (MalformedRangeEnd range_str)
                            (and_then (parse_usize usize_max (range_header_parts ! 1)) (\<lambda>e. Inr (Some e))))
                        (\<lambda>re.
                      if unwrap_or re usize_max < rb then Inl (InvalidRangeValues range_str)
                      else Inr \<lparr>rrv_begin = rb, rrv_end = re\<rparr>)))"

definition get_range_header :: "(bytes \<Rightarrow> bytes) \<Rightarrow> http_request \<Rightarrow> bytes option" where
  "get_range_header lower request =
     map_option snd (List.find (\<lambda>(name, _). lower name = str_bytes ''range'') (req_headers request))"

definition maybe_get_range_begin ::
  "('g, 'm) asset_lib \<Rightarrow> http_request \<Rightarrow> 'm asset_error + nat option" where
  "maybe_get_range_begin lib request =
     (case get_range_header (al_lower lib) request of
        Some range_str \<Rightarrow>
          map_err RequestError (and_then (parse_range_header_str (al_usize_max lib) range_str)
            (\<lambda>e. Inr (Some (rrv_begin e))))
      | None \<Rightarrow> Inr None)"

subsection \<open>Accepted encodings\<close>

text \<open>The qualities, the code's \<^verbatim>\<open>f32\<close> values, in tenths.\<close>

definition default_encoding_quality :: "bytes \<Rightarrow> nat" where
  "default_encoding_quality encoding =
     (if eq_ignore_ascii_case encoding (str_bytes ''br'') then 10
      else if eq_ignore_ascii_case encoding (str_bytes ''zstd'') then 9
      else if eq_ignore_ascii_case encoding (str_bytes ''gzip'') then 8
      else if eq_ignore_ascii_case encoding (str_bytes ''deflate'') then 7
      else if eq_ignore_ascii_case encoding (str_bytes ''identity'') then 5
      else 6)"

text \<open>Byte 44 is the comma, byte 59 the semicolon.\<close>

definition prioritized_encodings ::
  "((bytes \<times> nat) list \<Rightarrow> (bytes \<times> nat) list) \<Rightarrow> bytes \<Rightarrow> (bytes \<times> nat) list" where
  "prioritized_encodings sorter encodings =
     sorter (List.map_filter (\<lambda>encoding.
       map_option (\<lambda>s. (s, default_encoding_quality s))
         (map_option trim (slice_first (split_on 59 encoding)))) (split_on 44 encodings))"

definition get_preferred_encodings :: "('g, 'm) asset_lib \<Rightarrow> http_request \<Rightarrow> bytes list" where
  "get_preferred_encodings lib request =
     (case List.find (\<lambda>(name, _). al_lower lib name = str_bytes ''accept-encoding'')
             (req_headers request) of
        Some (_, encodings) \<Rightarrow> map fst (prioritized_encodings (al_sort lib) encodings)
      | None \<Rightarrow> [])"

subsection \<open>Choosing a response\<close>

fun get_encoded_asset ::
  "asset_router \<Rightarrow> bytes list \<Rightarrow> bytes \<Rightarrow> nat option \<Rightarrow> certified_asset_response option" where
  "get_encoded_asset r [] url maybe_range_begin = None"
| "get_encoded_asset r (encoding # encodings) url maybe_range_begin =
     (case map_of (ar_responses r) (request_key_new url (Some encoding) maybe_range_begin) of
        Some response \<Rightarrow>
          if ASSET_CHUNK_SIZE < length (resp_body (car_response response))
          then map_of (ar_responses r) (request_key_new url (Some encoding) (Some 0))
          else Some response
      | None \<Rightarrow> get_encoded_asset r encodings url maybe_range_begin)"

fun get_encoded_fallback_asset ::
  "asset_router \<Rightarrow> bytes list \<Rightarrow> bytes \<Rightarrow> certified_asset_response option" where
  "get_encoded_fallback_asset r [] scope = None"
| "get_encoded_fallback_asset r (encoding # encodings) scope =
     (case map_of (ar_fallback_responses r) (request_key_new scope (Some encoding) None) of
        Some response \<Rightarrow> Some response
      | None \<Rightarrow> get_encoded_fallback_asset r encodings scope)"

text \<open>One scope of the loop of \<^verbatim>\<open>get_asset_for_request\<close>, and the loop; byte 47 is the slash.\<close>

definition fallback_in_scope ::
  "asset_router \<Rightarrow> bytes list \<Rightarrow> bytes \<Rightarrow> certified_asset_response option" where
  "fallback_in_scope r preferred_encodings scope =
     (case get_encoded_fallback_asset r preferred_encodings scope of
        Some response \<Rightarrow> Some response
      | None \<Rightarrow> map_of (ar_fallback_responses r) (request_key_new scope None None))"

fun fallback_loop ::
  "asset_router \<Rightarrow> bytes list \<Rightarrow> bytes list \<Rightarrow> certified_asset_response option" where
  "fallback_loop r preferred_encodings url_scopes =
     (if url_scopes = [] then None
      else let scope = join [47] url_scopes @ [47]
           in case fallback_in_scope r preferred_encodings scope of
                Some response \<Rightarrow> Some response
              | None \<Rightarrow>
                  (case fallback_in_scope r preferred_encodings (butlast scope) of
                     Some response \<Rightarrow> Some response
                   | None \<Rightarrow> fallback_loop r preferred_encodings (butlast url_scopes)))"

declare fallback_loop.simps [simp del]

definition get_asset_for_request ::
  "asset_router \<Rightarrow> bytes \<Rightarrow> bytes list \<Rightarrow> nat option \<Rightarrow>
     'm asset_error + certified_asset_response" where
  "get_asset_for_request r req_path preferred_encodings maybe_range_begin =
     (let fallback =
        ok_or (fallback_loop r preferred_encodings (butlast (split_on 47 req_path)))
          (NoAssetMatchingRequestUrl req_path)
      in case get_encoded_asset r preferred_encodings req_path maybe_range_begin of
           Some response \<Rightarrow> Inr response
         | None \<Rightarrow>
             (case map_of (ar_responses r) (request_key_new req_path None maybe_range_begin) of
                Some response \<Rightarrow>
                  if ASSET_CHUNK_SIZE < length (resp_body (car_response response))
                  then case map_of (ar_responses r) (request_key_new req_path None (Some 0)) of
                         Some first_chunk_response \<Rightarrow> Inr first_chunk_response
                       | None \<Rightarrow> fallback
                  else Inr response
              | None \<Rightarrow> fallback))"

definition serve_asset ::
  "(bytes \<Rightarrow> hash) \<Rightarrow> ('g, 'm) asset_lib \<Rightarrow> (bytes \<Rightarrow> bytes) \<Rightarrow> bytes \<Rightarrow> (serde \<Rightarrow> bytes) \<Rightarrow>
     asset_router \<Rightarrow> bytes \<Rightarrow> http_request \<Rightarrow> ('m asset_error + http_response) option" where
  "serve_asset H lib b64 sd enc r data_certificate request =
     (let preferred_encodings = get_preferred_encodings lib request
      in case and_then (map_err HttpCertificationError (get_path (al_http lib) request)) (\<lambda>request_url.
              and_then (maybe_get_range_begin lib request) (\<lambda>maybe_range_begin.
              and_then (get_asset_for_request r request_url preferred_encodings maybe_range_begin)
                (\<lambda>cert_response. Inr (request_url, cert_response)))) of
           Inl e \<Rightarrow> Some (Inl e)
         | Inr (request_url, cert_response) \<Rightarrow>
             (case ct_witness H (ar_tree r) (car_tree_entry cert_response) request_url of
                None \<Rightarrow> None
              | Some (Inl e) \<Rightarrow> Some (Inl (HttpCertificationError e))
              | Some (Inr witness) \<Rightarrow>
                  let expr_path = to_expr_path (entry_path (car_tree_entry cert_response))
                  in Some (Inr (add_v2_certificate_header b64 sd enc data_certificate
                       (car_response cert_response) witness expr_path))))"

end
