(* ===== verification/Asset_Operations.thy ===== *)
theory Asset_Operations
  imports Asset_Router
begin

text \<open>
  The operations of the asset router of \<^verbatim>\<open>packages/ic-asset-certification/src/asset_router.rs\<close> that
  change it: the preparation of a response with its certification, insertion and deletion of static
  assets, fallbacks and redirects, and the public operations on lists of assets. A loop over chunks
  follows \<^verbatim>\<open>range_begin\<close> up to the length of the content.
\<close>

subsection \<open>Preparing a response\<close>

definition prepare_response_and_certification ::
  "(bytes \<Rightarrow> hash) \<Rightarrow> ('g, 'm) asset_lib \<Rightarrow> bytes \<Rightarrow> 16 word \<Rightarrow> bytes \<Rightarrow> header_field list \<Rightarrow>
     header_field list \<Rightarrow> 'm asset_error + http_response \<times> http_certification" where
  "prepare_response_and_certification H lib url status_code body additional_response_headers
       request_headers =
     (let cel_expr = full_build
            (full_with_response_certification
              (with_request_headers full_certification (map fst request_headers))
              (ResponseHeaderExclusions []));
          cel_expr_str = create_default_full_cel_expr cel_expr;
          headers = [(str_bytes ''content-length'', decimal (length body))] @
            additional_response_headers @ [(CERTIFICATE_EXPRESSION_HEADER_NAME, cel_expr_str)];
          request = build_request (with_req_headers (request_get url) request_headers);
          response = build_response (with_headers (with_body (with_status_code
            response_builder_new status_code) body) headers)
      in and_then (map_err HttpCertificationError
           (certification_full H (al_leb lib) (al_http lib) (al_lower lib) cel_expr request response None))
           (\<lambda>certification. Inr (response, certification)))"

text \<open>\<^term>\<open>None\<close> when the slice of the chunk is out of range.\<close>

definition prepare_asset_response_and_certification ::
  "(bytes \<Rightarrow> hash) \<Rightarrow> ('g, 'm) asset_lib \<Rightarrow> asset \<Rightarrow> header_field list \<Rightarrow> bytes option \<Rightarrow>
     asset_encoding option \<Rightarrow> nat option \<Rightarrow> 16 word option \<Rightarrow>
     ('m asset_error + http_response \<times> http_certification) option" where
  "prepare_asset_response_and_certification H lib asset additional_headers content_type encoding
       range_begin status_code =
     (let headers = additional_headers @
            (case content_type of Some t \<Rightarrow> [(str_bytes ''content-type'', t)] | None \<Rightarrow> []) @
            (case encoding of
               Some e \<Rightarrow> [(str_bytes ''content-encoding'', encoding_to_string e)] | None \<Rightarrow> [])
      in case range_begin of
           None \<Rightarrow> Some (prepare_response_and_certification H lib (asset_url asset)
             (unwrap_or status_code 200) (asset_content asset) headers [])
         | Some range_begin \<Rightarrow>
             (let total_length = length (asset_content asset);
                  chunk_end = min (range_begin + ASSET_CHUNK_SIZE) total_length
              in if chunk_end = 0 \<or> chunk_end < range_begin then None
                 else let range_end = chunk_end - 1
                 in Some (prepare_response_and_certification H lib (asset_url asset) 206
                      (take (range_end + 1 - range_begin) (drop range_begin (asset_content asset)))
                      (headers @ [(str_bytes ''content-range'',
                         str_bytes ''bytes '' @ decimal range_begin @ str_bytes ''-'' @ decimal range_end @
                         str_bytes ''/'' @ decimal total_length)])
                      (if range_begin \<noteq> 0
                       then [(str_bytes ''range'', str_bytes ''bytes='' @ decimal range_begin @ str_bytes ''-'')]
                       else []))))"

definition prepare_static_asset ::
  "(bytes \<Rightarrow> hash) \<Rightarrow> ('g, 'm) asset_lib \<Rightarrow> asset \<Rightarrow> bytes option \<Rightarrow> header_field list \<Rightarrow>
     asset_encoding option \<Rightarrow> nat option \<Rightarrow> ('m asset_error + certified_asset_response) option" where
  "prepare_static_asset H lib asset content_type additional_headers encoding range_begin =
     map_option (\<lambda>r. and_then r (\<lambda>(response, certification).
         Inr \<lparr>car_response = response, car_tree_entry =
           \<lparr>entry_path = Exact_Path (asset_url asset), entry_certification = certification\<rparr>\<rparr>))
       (prepare_asset_response_and_certification H lib asset additional_headers content_type encoding
          range_begin None)"

definition prepare_fallback_asset ::
  "(bytes \<Rightarrow> hash) \<Rightarrow> ('g, 'm) asset_lib \<Rightarrow> asset \<Rightarrow> header_field list \<Rightarrow> bytes option \<Rightarrow>
     asset_fallback_config \<Rightarrow> asset_encoding option \<Rightarrow>
     ('m asset_error + certified_asset_response) option" where
  "prepare_fallback_asset H lib asset additional_headers content_type fallback_for encoding =
     map_option (\<lambda>r. and_then r (\<lambda>(response, certification).
         Inr \<lparr>car_response = response, car_tree_entry =
           \<lparr>entry_path = Wildcard_Path (afc_scope fallback_for), entry_certification = certification\<rparr>\<rparr>))
       (prepare_asset_response_and_certification H lib asset additional_headers content_type encoding
          None (afc_status_code fallback_for))"

definition prepare_redirect ::
  "(bytes \<Rightarrow> hash) \<Rightarrow> ('g, 'm) asset_lib \<Rightarrow> bytes \<Rightarrow> bytes \<Rightarrow> asset_redirect_kind \<Rightarrow>
     header_field list \<Rightarrow> 'm asset_error + certified_asset_response" where
  "prepare_redirect H lib from to kind additional_headers =
     (let status_code = (case kind of Permanent_Redirect \<Rightarrow> 301 | Temporary_Redirect \<Rightarrow> 307);
          headers = [(str_bytes ''location'', to)] @ additional_headers
      in and_then (prepare_response_and_certification H lib from status_code [] headers [])
           (\<lambda>(response, certification).
         Inr \<lparr>car_response = response, car_tree_entry =
           \<lparr>entry_path = Exact_Path from, entry_certification = certification\<rparr>\<rparr>))"

subsection \<open>Static assets, fallbacks and redirects\<close>

text \<open>\<open>prepared\<close> runs a preparation that may panic or fail. A prepared response is inserted into the
  tree with its entry, then into the map.\<close>

definition prepared :: "('m asset_error + 'a) option \<Rightarrow> ('m, 'a) router_comp" where
  "prepared r s = map_option (\<lambda>x. (x, s)) r"

definition store_response ::
  "(bytes \<Rightarrow> hash) \<Rightarrow> request_key \<Rightarrow> certified_asset_response \<Rightarrow> ('m, unit) router_comp" where
  "store_response H k response =
     seq (tree_insert H (car_tree_entry response)) (\<lambda>_. responses_insert k response)"

definition store_fallback ::
  "(bytes \<Rightarrow> hash) \<Rightarrow> request_key \<Rightarrow> certified_asset_response \<Rightarrow> ('m, unit) router_comp" where
  "store_fallback H k response =
     seq (tree_insert H (car_tree_entry response)) (\<lambda>_. fallback_insert k response)"

function insert_chunks ::
  "(bytes \<Rightarrow> hash) \<Rightarrow> ('g, 'm) asset_lib \<Rightarrow> asset \<Rightarrow> bytes option \<Rightarrow> header_field list \<Rightarrow>
     asset_encoding option \<Rightarrow> nat \<Rightarrow> ('m, unit) router_comp" where
  "insert_chunks H lib asset content_type additional_headers encoding range_begin =
     (if range_begin < length (asset_content asset)
      then
        seq (prepared (prepare_static_asset H lib asset content_type additional_headers encoding
               (Some range_begin))) (\<lambda>response.
        seq (store_response H
               (request_key_new (asset_url asset) (encoding_str encoding) (Some range_begin)) response) (\<lambda>_.
        insert_chunks H lib asset content_type additional_headers encoding
          (range_begin + ASSET_CHUNK_SIZE)))
      else pure (Inr ()))"
  by auto
termination
  by (relation "measure (\<lambda>(H, lib, asset, content_type, hs, e, b). length (asset_content asset) - b)")
    (auto simp: ASSET_CHUNK_SIZE_def)

declare insert_chunks.simps [simp del]

definition insert_static_asset ::
  "(bytes \<Rightarrow> hash) \<Rightarrow> ('g, 'm) asset_lib \<Rightarrow> asset \<Rightarrow> bytes option \<Rightarrow> header_field list \<Rightarrow>
     asset_encoding option \<Rightarrow> ('m, unit) router_comp" where
  "insert_static_asset H lib asset content_type additional_headers encoding =
     seq (if ASSET_CHUNK_SIZE < length (asset_content asset)
          then insert_chunks H lib asset content_type additional_headers encoding 0
          else pure (Inr ())) (\<lambda>_.
     seq (prepared (prepare_static_asset H lib asset content_type additional_headers encoding None))
       (\<lambda>response.
     store_response H (request_key_new (asset_url asset) (encoding_str encoding) None) response))"

function delete_chunks :: "bytes \<Rightarrow> asset_encoding option \<Rightarrow> nat \<Rightarrow> nat \<Rightarrow> ('m, unit) router_comp" where
  "delete_chunks url encoding len range_begin =
     (if range_begin < len
      then
        seq (responses_remove (request_key_new url (encoding_str encoding) (Some range_begin))) (\<lambda>_.
        delete_chunks url encoding len (range_begin + ASSET_CHUNK_SIZE))
      else pure (Inr ()))"
  by auto
termination
  by (relation "measure (\<lambda>(url, e, len, b). len - b)") (auto simp: ASSET_CHUNK_SIZE_def)

declare delete_chunks.simps [simp del]

definition delete_static_asset ::
  "(bytes \<Rightarrow> hash) \<Rightarrow> ('g, 'm) asset_lib \<Rightarrow> asset \<Rightarrow> bytes option \<Rightarrow> header_field list \<Rightarrow>
     asset_encoding option \<Rightarrow> ('m, unit) router_comp" where
  "delete_static_asset H lib asset content_type additional_headers encoding =
     seq (prepared (prepare_static_asset H lib asset content_type additional_headers encoding None))
       (\<lambda>response.
     seq (tree_delete H (car_tree_entry response)) (\<lambda>_.
     seq (responses_remove (request_key_new (asset_url asset) (encoding_str encoding) None)) (\<lambda>_.
     if ASSET_CHUNK_SIZE < length (resp_body (car_response response))
     then delete_chunks (asset_url asset) encoding (length (resp_body (car_response response))) 0
     else pure (Inr ()))))"

definition insert_fallback_asset ::
  "(bytes \<Rightarrow> hash) \<Rightarrow> ('g, 'm) asset_lib \<Rightarrow> asset \<Rightarrow> bytes option \<Rightarrow> header_field list \<Rightarrow>
     asset_fallback_config \<Rightarrow> asset_encoding option \<Rightarrow> ('m, unit) router_comp" where
  "insert_fallback_asset H lib asset content_type additional_headers fallback_for encoding =
     seq (prepared (prepare_fallback_asset H lib asset additional_headers content_type fallback_for encoding))
       (\<lambda>response.
     store_fallback H (request_key_new (afc_scope fallback_for) (encoding_str encoding) None) response)"

definition delete_fallback_asset ::
  "(bytes \<Rightarrow> hash) \<Rightarrow> ('g, 'm) asset_lib \<Rightarrow> asset \<Rightarrow> bytes option \<Rightarrow> header_field list \<Rightarrow>
     asset_fallback_config \<Rightarrow> asset_encoding option \<Rightarrow> ('m, unit) router_comp" where
  "delete_fallback_asset H lib asset content_type additional_headers fallback_for encoding =
     seq (prepared (prepare_fallback_asset H lib asset additional_headers content_type fallback_for encoding))
       (\<lambda>response.
     seq (tree_delete H (car_tree_entry response)) (\<lambda>_.
     fallback_remove (request_key_new (afc_scope fallback_for) (encoding_str encoding) None)))"

definition insert_redirect ::
  "(bytes \<Rightarrow> hash) \<Rightarrow> ('g, 'm) asset_lib \<Rightarrow> bytes \<Rightarrow> bytes \<Rightarrow> asset_redirect_kind \<Rightarrow>
     header_field list \<Rightarrow> ('m, unit) router_comp" where
  "insert_redirect H lib from to kind additional_headers =
     seq (pure (prepare_redirect H lib from to kind additional_headers)) (\<lambda>response.
     store_response H (request_key_new from None None) response)"

definition delete_redirect ::
  "(bytes \<Rightarrow> hash) \<Rightarrow> ('g, 'm) asset_lib \<Rightarrow> bytes \<Rightarrow> bytes \<Rightarrow> asset_redirect_kind \<Rightarrow>
     header_field list \<Rightarrow> ('m, unit) router_comp" where
  "delete_redirect H lib from to kind additional_headers =
     seq (pure (prepare_redirect H lib from to kind additional_headers)) (\<lambda>response.
     seq (tree_delete H (car_tree_entry response)) (\<lambda>_.
     responses_remove (request_key_new from None None)))"

subsection \<open>Assets with their configuration\<close>

text \<open>\<^verbatim>\<open>certify_asset_impl\<close> and \<^verbatim>\<open>delete_asset_impl\<close>: the static response, then the fallbacks, then the
  aliases of the matched configuration.\<close>

definition certify_asset_impl ::
  "(bytes \<Rightarrow> hash) \<Rightarrow> ('g, 'm) asset_lib \<Rightarrow> asset \<Rightarrow> 'g normalized_asset_config option \<Rightarrow>
     asset_encoding option \<Rightarrow> ('m, unit) router_comp" where
  "certify_asset_impl H lib asset asset_config encoding =
     (case asset_config of
        Some (Config_Pattern _ content_type headers _) \<Rightarrow>
          insert_static_asset H lib asset content_type headers encoding
      | Some (Config_File _ content_type headers fallback_for aliased_by _) \<Rightarrow>
          seq (insert_static_asset H lib asset content_type headers encoding) (\<lambda>_.
          seq (for_each (\<lambda>fallback_for.
                 insert_fallback_asset H lib asset content_type headers fallback_for encoding) fallback_for) (\<lambda>_.
          for_each (\<lambda>aliased_by.
            insert_static_asset H lib (asset\<lparr>asset_url := aliased_by\<rparr>) content_type headers encoding)
            aliased_by))
      | _ \<Rightarrow> insert_static_asset H lib asset None [] encoding)"

definition delete_asset_impl ::
  "(bytes \<Rightarrow> hash) \<Rightarrow> ('g, 'm) asset_lib \<Rightarrow> asset \<Rightarrow> 'g normalized_asset_config option \<Rightarrow>
     asset_encoding option \<Rightarrow> ('m, unit) router_comp" where
  "delete_asset_impl H lib asset asset_config encoding =
     (case asset_config of
        Some (Config_Pattern _ content_type headers _) \<Rightarrow>
          delete_static_asset H lib asset content_type headers encoding
      | Some (Config_File _ content_type headers fallback_for aliased_by _) \<Rightarrow>
          seq (delete_static_asset H lib asset content_type headers encoding) (\<lambda>_.
          seq (for_each (\<lambda>fallback_for.
                 delete_fallback_asset H lib asset content_type headers fallback_for encoding) fallback_for) (\<lambda>_.
          for_each (\<lambda>aliased_by.
            delete_static_asset H lib (asset\<lparr>asset_url := aliased_by\<rparr>) content_type headers encoding)
            aliased_by))
      | _ \<Rightarrow> delete_static_asset H lib asset None [] encoding)"

subsection \<open>Lists of assets\<close>

text \<open>\<^verbatim>\<open>collect::<Result<Vec<_>, _>>\<close> stops at the first configuration that fails; the map of assets
  keeps the last asset of a path.\<close>

fun normalize_configs ::
  "('g, 'm) asset_lib \<Rightarrow> asset_config list \<Rightarrow> 'm asset_error + 'g normalized_asset_config list" where
  "normalize_configs lib [] = Inr []"
| "normalize_configs lib (c # cs) =
     and_then (normalized_try_from (al_glob lib) c) (\<lambda>c.
     and_then (normalize_configs lib cs) (\<lambda>cs. Inr (c # cs)))"

definition collect_assets :: "asset list \<Rightarrow> (bytes \<times> asset) list" where
  "collect_assets assets = foldl (\<lambda>m asset. AList.update (asset_path asset) asset m) [] assets"

fun config_encodings :: "'g normalized_asset_config \<Rightarrow> (asset_encoding \<times> bytes) list" where
  "config_encodings (Config_File _ _ _ _ _ encodings) = encodings"
| "config_encodings (Config_Pattern _ _ _ encodings) = encodings"
| "config_encodings (Config_Redirect _ _ _ _) = []"

text \<open>The loops of \<^verbatim>\<open>certify_assets\<close> and \<^verbatim>\<open>delete_assets\<close> differ in the operation on an asset and the
  one on a redirect.\<close>

definition each_encoding ::
  "(bytes \<times> asset) list \<Rightarrow>
     (asset \<Rightarrow> 'g normalized_asset_config option \<Rightarrow> asset_encoding option \<Rightarrow> ('m, unit) router_comp) \<Rightarrow>
     asset \<Rightarrow> 'g normalized_asset_config option \<Rightarrow> ('m, unit) router_comp" where
  "each_encoding asset_map impl asset asset_config =
     for_each (\<lambda>(encoding, postfix).
         case map_of asset_map (asset_path asset @ postfix) of
           Some encoded_asset \<Rightarrow>
             impl (encoded_asset\<lparr>asset_url := asset_url asset\<rparr>) asset_config (Some encoding)
         | None \<Rightarrow> pure (Inr ()))
       (case asset_config of Some c \<Rightarrow> config_encodings c | None \<Rightarrow> [])"

definition each_asset ::
  "('g, 'm) asset_lib \<Rightarrow> (bytes \<times> asset) list \<Rightarrow> 'g normalized_asset_config list \<Rightarrow>
     (asset \<Rightarrow> 'g normalized_asset_config option \<Rightarrow> asset_encoding option \<Rightarrow> ('m, unit) router_comp) \<Rightarrow>
     ('m, unit) router_comp" where
  "each_asset lib asset_map asset_configs impl =
     for_each (\<lambda>asset.
         let asset_config = List.find (\<lambda>c. matches_asset (al_is_match lib) c asset) asset_configs
         in seq (each_encoding asset_map impl asset asset_config) (\<lambda>_. impl asset asset_config None))
       (map snd (al_order lib asset_map))"

definition each_redirect ::
  "(bytes \<Rightarrow> bytes \<Rightarrow> asset_redirect_kind \<Rightarrow> header_field list \<Rightarrow> ('m, unit) router_comp) \<Rightarrow>
     'g normalized_asset_config list \<Rightarrow> ('m, unit) router_comp" where
  "each_redirect op asset_configs =
     for_each (\<lambda>c. case c of
         Config_Redirect from to kind headers \<Rightarrow> op from to kind headers
       | _ \<Rightarrow> pure (Inr ())) asset_configs"

definition certify_assets ::
  "(bytes \<Rightarrow> hash) \<Rightarrow> ('g, 'm) asset_lib \<Rightarrow> asset list \<Rightarrow> asset_config list \<Rightarrow> ('m, unit) router_comp" where
  "certify_assets H lib assets asset_configs =
     seq (pure (normalize_configs lib asset_configs)) (\<lambda>asset_configs.
     seq (each_asset lib (collect_assets assets) asset_configs (certify_asset_impl H lib)) (\<lambda>_.
     each_redirect (insert_redirect H lib) asset_configs))"

definition delete_assets ::
  "(bytes \<Rightarrow> hash) \<Rightarrow> ('g, 'm) asset_lib \<Rightarrow> asset list \<Rightarrow> asset_config list \<Rightarrow> ('m, unit) router_comp" where
  "delete_assets H lib assets asset_configs =
     seq (pure (normalize_configs lib asset_configs)) (\<lambda>asset_configs.
     seq (each_asset lib (collect_assets assets) asset_configs (delete_asset_impl H lib)) (\<lambda>_.
     each_redirect (delete_redirect H lib) asset_configs))"

definition delete_assets_by_path :: "(bytes \<Rightarrow> hash) \<Rightarrow> bytes list \<Rightarrow> ('m, unit) router_comp" where
  "delete_assets_by_path H asset_paths =
     for_each (\<lambda>asset_path.
       seq (responses_remove (request_key_new asset_path None None)) (\<lambda>_.
       tree_delete_by_path H (Exact_Path asset_path))) asset_paths"

definition delete_fallback_assets_by_path :: "(bytes \<Rightarrow> hash) \<Rightarrow> bytes list \<Rightarrow> ('m, unit) router_comp" where
  "delete_fallback_assets_by_path H asset_paths =
     for_each (\<lambda>asset_path.
       seq (fallback_remove (request_key_new asset_path None None)) (\<lambda>_.
       tree_delete_by_path H (Wildcard_Path asset_path))) asset_paths"

definition delete_all_assets :: "('m, unit) router_comp" where
  "delete_all_assets =
     update (\<lambda>r. r\<lparr>ar_responses := [], ar_fallback_responses := [], ar_tree := ct_clear (ar_tree r)\<rparr>)"

end
