(* ===== verification/Asset_Invariant.thy ===== *)
theory Asset_Invariant
  imports Asset_Operations Response_Correct
begin

text \<open>
  The invariants of the asset router. What an operation of the router keeps follows from what storing
  and removing one response keeps: the locale \<open>router_invariant\<close> states that contract and derives
  that certifying lists of assets runs without a panic and keeps the invariant, \<open>router_deletion\<close>
  adds the deletions. Two invariants are instances: every stored response is the one that was
  certified for its key, and every stored response has its entry in the tree.
\<close>

declare path_to_tree_path.simps [simp del] to_expr_path.simps [simp del]

subsection \<open>What the router stores\<close>

text \<open>The expression and the request of a certification, from the certified request headers.\<close>

definition range_headers :: "nat option \<Rightarrow> header_field list" where
  "range_headers b =
     (case b of
        Some n \<Rightarrow>
          if n \<noteq> 0 then [(str_bytes ''range'', str_bytes ''bytes='' @ decimal n @ str_bytes ''-'')] else []
      | None \<Rightarrow> [])"

definition asset_expr :: "header_field list \<Rightarrow> full_cel_expr" where
  "asset_expr hs =
     \<lparr>full_request = \<lparr>certified_request_headers = map fst hs, certified_query_parameters = []\<rparr>,
      full_response = ResponseHeaderExclusions []\<rparr>"

definition asset_request :: "bytes \<Rightarrow> header_field list \<Rightarrow> http_request" where
  "asset_request url hs =
     \<lparr>req_method = str_bytes ''GET'', req_url = url, req_headers = hs, req_body = [],
      req_certificate_version = None\<rparr>"

definition asset_source :: "bytes \<Rightarrow> nat option \<Rightarrow> http_response \<Rightarrow> certified_source" where
  "asset_source url b response =
     Source_Full (asset_expr (range_headers b)) (asset_request url (range_headers b)) response"

text \<open>A stored response stands under the path of its entry, and its certification is that of a
  request for its range.\<close>

definition stored_ok ::
  "(bytes \<Rightarrow> hash) \<Rightarrow> ('g, 'm) asset_lib \<Rightarrow> (bytes \<Rightarrow> certification_path) \<Rightarrow>
     request_key \<Rightarrow> certified_asset_response \<Rightarrow> bool" where
  "stored_ok H lib cp k a \<longleftrightarrow> entry_path (car_tree_entry a) = cp (rk_path k) \<and>
     (\<exists>url. source_certification H (al_leb lib) (al_http lib) (al_lower lib)
        (asset_source url (rk_range_begin k) (car_response a)) = Inr (entry_certification (car_tree_entry a)))"

lemma prepare_response_iff:
  "prepare_response_and_certification H lib url st body hs rhs = Inr (r, cert) \<longleftrightarrow>
     r = \<lparr>resp_status = st, resp_headers = [(str_bytes ''content-length'', decimal (length body))] @ hs @
           [(CERTIFICATE_EXPRESSION_HEADER_NAME, create_default_full_cel_expr (asset_expr rhs))],
          resp_body = body, resp_upgrade = None\<rparr> \<and>
     certification_full H (al_leb lib) (al_http lib) (al_lower lib) (asset_expr rhs) (asset_request url rhs)
       r None = Inr cert"
  by (auto simp: prepare_response_and_certification_def Let_def and_then_eq_Inr map_err_eq_Inr
      asset_expr_def asset_request_def full_build_def full_with_response_certification_def
      with_request_headers_def full_certification_def request_certification_new_def build_request_def
      with_req_headers_def request_get_def with_url_def with_method_def request_builder_new_def
      build_response_def with_headers_def with_body_def with_status_code_def response_builder_new_def)

lemma prepare_asset_range:
  "prepare_asset_response_and_certification H lib a hs ct enc b st = Some (Inr (r, cert)) \<Longrightarrow>
     certification_full H (al_leb lib) (al_http lib) (al_lower lib) (asset_expr (range_headers b))
       (asset_request (asset_url a) (range_headers b)) r None = Inr cert"
  by (auto simp: prepare_asset_response_and_certification_def Let_def prepare_response_iff range_headers_def
      split: option.splits if_splits)

lemma prepare_static_stored:
  "prepare_static_asset H lib a ct hs enc b = Some (Inr x) \<Longrightarrow>
     stored_ok H lib Exact_Path (request_key_new (asset_url a) e b) x"
  by (fastforce simp: prepare_static_asset_def and_then_eq_Inr stored_ok_def asset_source_def request_key_new_def
      dest: prepare_asset_range)

lemma prepare_fallback_stored:
  "prepare_fallback_asset H lib a hs ct fb enc = Some (Inr x) \<Longrightarrow>
     stored_ok H lib Wildcard_Path (request_key_new (afc_scope fb) e None) x"
  by (fastforce simp: prepare_fallback_asset_def and_then_eq_Inr stored_ok_def asset_source_def request_key_new_def
      dest: prepare_asset_range)

lemma prepare_redirect_stored:
  "prepare_redirect H lib from to kind hs = Inr x \<Longrightarrow>
     stored_ok H lib Exact_Path (request_key_new from None None) x"
  by (fastforce simp: prepare_redirect_def and_then_eq_Inr Let_def stored_ok_def asset_source_def request_key_new_def
      prepare_response_iff range_headers_def)

text \<open>Chunks start inside the content, so their slices are in range.\<close>

lemma prepare_static_total:
  assumes "\<And>n. b = Some n \<Longrightarrow> n < length (asset_content a)"
  shows "prepare_static_asset H lib a ct hs enc b \<noteq> None"
  using assms
  by (auto simp: prepare_static_asset_def prepare_asset_response_and_certification_def Let_def
      ASSET_CHUNK_SIZE_def split: option.split)

lemma prepare_fallback_total: "prepare_fallback_asset H lib a hs ct fb enc \<noteq> None"
  by (simp add: prepare_fallback_asset_def prepare_asset_response_and_certification_def Let_def)

lemma runs_prepared: "r \<noteq> None \<Longrightarrow> runs P (prepared r)"
  by (auto simp: runs_def prepared_def)

lemma prepared_Ok: "prepared r c = Some (Inr x, c') \<longleftrightarrow> r = Some (Inr x) \<and> c' = c"
  by (auto simp: prepared_def)

subsection \<open>Assets and configurations with good paths\<close>

fun config_ok :: "(certification_path \<Rightarrow> bool) \<Rightarrow> 'p asset_config_of \<Rightarrow> bool" where
  "config_ok good (Config_File _ _ _ fallback_for aliased_by _) \<longleftrightarrow>
     (\<forall>fb \<in> set fallback_for. good (Wildcard_Path (afc_scope fb))) \<and>
     (\<forall>url \<in> set aliased_by. good (Exact_Path url))"
| "config_ok good (Config_Pattern _ _ _ _) \<longleftrightarrow> True"
| "config_ok good (Config_Redirect from _ _ _) \<longleftrightarrow> good (Exact_Path from)"

definition asset_ok :: "(certification_path \<Rightarrow> bool) \<Rightarrow> asset \<Rightarrow> bool" where
  "asset_ok good a \<longleftrightarrow> good (Exact_Path (asset_url a))"

lemma asset_ok_url [simp]: "asset_ok good (a\<lparr>asset_url := url\<rparr>) \<longleftrightarrow> good (Exact_Path url)"
  by (simp add: asset_ok_def)

lemma normalized_ok:
  "normalized_try_from glob c = Inr n \<Longrightarrow> config_ok good c \<Longrightarrow> config_ok good n"
  by (cases c) (auto simp: and_then_eq_Inr)

lemma normalize_configs_ok:
  "normalize_configs lib cs = Inr ns \<Longrightarrow> \<forall>c \<in> set cs. config_ok good c \<Longrightarrow> \<forall>n \<in> set ns. config_ok good n"
  by (induction cs arbitrary: ns) (auto simp: and_then_eq_Inr dest: normalized_ok)

lemma alist_update_subset: "set (AList.update k v xs) \<subseteq> insert (k, v) (set xs)"
  by (induction xs) auto

lemma collect_assets_subset: "snd ` set (collect_assets assets) \<subseteq> set assets"
proof -
  have "snd ` set (foldl (\<lambda>m a. AList.update (asset_path a) a m) m as) \<subseteq> snd ` set m \<union> set as" for m as
  proof (induction as arbitrary: m)
    case (Cons a as)
    have "snd ` set (AList.update (asset_path a) a m) \<subseteq> insert a (snd ` set m)"
      using alist_update_subset [of "asset_path a" a m] by force
    with Cons.IH [of "AList.update (asset_path a) a m"] show ?case by (auto 4 3)
  qed simp
  from this [of "[]"] show ?thesis by (simp add: collect_assets_def)
qed

definition order_documented :: "('g, 'm) asset_lib \<Rightarrow> bool" where
  "order_documented lib \<longleftrightarrow> (\<forall>m. mset (al_order lib m) = mset m)"

lemma order_set: "order_documented lib \<Longrightarrow> set (al_order lib m) = set m"
  by (metis order_documented_def mset_eq_setD)

subsection \<open>What storing keeps, every insertion keeps\<close>

locale router_invariant =
  fixes H :: "bytes \<Rightarrow> hash" and lib :: "('g, 'm) asset_lib"
    and P :: "asset_router \<Rightarrow> bool" and good :: "certification_path \<Rightarrow> bool"
  assumes store_response: "stored_ok H lib Exact_Path k a \<Longrightarrow> good (Exact_Path (rk_path k)) \<Longrightarrow>
      runs P (store_response H k a :: ('m, unit) router_comp)"
    and store_fallback: "stored_ok H lib Wildcard_Path k a \<Longrightarrow> good (Wildcard_Path (rk_path k)) \<Longrightarrow>
      runs P (store_fallback H k a :: ('m, unit) router_comp)"
begin

lemma store_static:
  assumes "asset_ok good a" and "prepared (prepare_static_asset H lib a ct hs enc b) c = Some (Inr x, c')"
  shows "runs P (store_response H (request_key_new (asset_url a) e b) x :: ('m, unit) router_comp)"
  using assms prepare_static_stored
  by (intro store_response) (auto simp: prepared_Ok asset_ok_def request_key_new_def)

lemma insert_chunks:
  assumes "asset_ok good a"
  shows "runs P (insert_chunks H lib a ct hs enc b)"
proof (induction "length (asset_content a) - b" arbitrary: b rule: less_induct)
  case less
  show ?case
  proof (cases "b < length (asset_content a)")
    case True
    then have "runs P (insert_chunks H lib a ct hs enc (b + ASSET_CHUNK_SIZE))"
      by (intro less) (simp add: ASSET_CHUNK_SIZE_def)
    with True show ?thesis
      by (subst insert_chunks.simps)
        (auto intro!: runs_seq runs_prepared prepare_static_total store_static [OF assms])
  qed (subst insert_chunks.simps, auto)
qed

lemma insert_static: "asset_ok good a \<Longrightarrow> runs P (insert_static_asset H lib a ct hs enc)"
  by (auto simp: insert_static_asset_def
      intro!: runs_seq runs_prepared prepare_static_total store_static insert_chunks)

lemma insert_fallback:
  "good (Wildcard_Path (afc_scope fb)) \<Longrightarrow> runs P (insert_fallback_asset H lib a ct hs fb enc)"
  unfolding insert_fallback_asset_def
  by (intro runs_seq runs_prepared prepare_fallback_total store_fallback)
    (auto simp: prepared_Ok request_key_new_def dest!: prepare_fallback_stored [where e = "encoding_str enc"])

lemma insert_redirect: "good (Exact_Path from) \<Longrightarrow> runs P (insert_redirect H lib from to kind hs)"
  unfolding insert_redirect_def
  by (intro runs_seq runs_pure store_response)
    (auto simp: request_key_new_def dest!: prepare_redirect_stored)

lemma certify_asset:
  "asset_ok good a \<Longrightarrow> (\<And>n. c = Some n \<Longrightarrow> config_ok good n) \<Longrightarrow> runs P (certify_asset_impl H lib a c enc)"
  by (auto simp: certify_asset_impl_def split: option.split asset_config_of.split
      intro!: runs_seq runs_for_each insert_static insert_fallback)

end

lemma config_ok_all: "config_ok (\<lambda>_. True) c"
  by (cases c) simp_all

text \<open>The loops over the assets, for an operation on an asset and one on a redirect.\<close>

lemma each_encoding_runs:
  assumes "\<And>a enc. asset_ok good a \<Longrightarrow> runs P (impl a c enc)" and "asset_ok good a"
  shows "runs P (each_encoding m impl a c)"
  unfolding each_encoding_def using assms
  by (intro runs_for_each) (auto simp: asset_ok_def split: option.split)

lemma each_asset_runs:
  assumes "order_documented lib" and "\<forall>a \<in> set assets. asset_ok good a" and "\<forall>c \<in> set cs. config_ok good c"
    and "\<And>a c enc. asset_ok good a \<Longrightarrow> (\<And>n. c = Some n \<Longrightarrow> config_ok good n) \<Longrightarrow> runs P (impl a c enc)"
  shows "runs P (each_asset lib (collect_assets assets) cs impl)"
  unfolding each_asset_def Let_def
proof (intro runs_for_each)
  fix a
  assume "a \<in> set (map snd (al_order lib (collect_assets assets)))"
  with assms(2) collect_assets_subset have a: "asset_ok good a"
    by (fastforce simp: order_set [OF assms(1)])
  let ?c = "List.find (\<lambda>c. matches_asset (al_is_match lib) c a) cs"
  have "config_ok good n" if "?c = Some n" for n
    using that assms(3) by (auto simp: find_Some_iff)
  with assms(4) a show "runs P (seq (each_encoding (collect_assets assets) impl a ?c) (\<lambda>_. impl a ?c None))"
    by (intro runs_seq each_encoding_runs) auto
qed

lemma each_redirect_runs:
  assumes "\<forall>c \<in> set cs. config_ok good c" and "\<And>from to kind hs. good (Exact_Path from) \<Longrightarrow> runs P (op from to kind hs)"
  shows "runs P (each_redirect op cs)"
  unfolding each_redirect_def using assms
  by (intro runs_for_each) (auto split: asset_config_of.split)

context router_invariant
begin

lemma certify_assets:
  assumes "order_documented lib" and "\<forall>a \<in> set assets. asset_ok good a" and "\<forall>c \<in> set cs. config_ok good c"
  shows "runs P (certify_assets H lib assets cs)"
  unfolding certify_assets_def using assms
  by (auto intro!: runs_seq each_asset_runs each_redirect_runs certify_asset insert_redirect
      dest!: normalize_configs_ok)

end

locale router_deletion = router_invariant H lib P good
  for H :: "bytes \<Rightarrow> hash" and lib :: "('g, 'm) asset_lib"
    and P :: "asset_router \<Rightarrow> bool" and good :: "certification_path \<Rightarrow> bool" +
  assumes tree_delete: "runs P (tree_delete H e :: ('m, unit) router_comp)"
    and tree_delete_by_path: "runs P (tree_delete_by_path H p :: ('m, unit) router_comp)"
    and responses_remove: "runs P (responses_remove k :: ('m, unit) router_comp)"
    and fallback_remove: "runs P (fallback_remove k :: ('m, unit) router_comp)"
begin

lemma delete_chunks: "runs P (delete_chunks url enc len b :: ('m, unit) router_comp)"
proof (induction "len - b" arbitrary: b rule: less_induct)
  case less
  show ?case
  proof (cases "b < len")
    case True
    then have "runs P (delete_chunks url enc len (b + ASSET_CHUNK_SIZE) :: ('m, unit) router_comp)"
      by (intro less) (simp add: ASSET_CHUNK_SIZE_def)
    with True show ?thesis by (subst delete_chunks.simps) (auto intro!: runs_seq responses_remove)
  qed (subst delete_chunks.simps, auto)
qed

lemma delete_static: "runs P (delete_static_asset H lib a ct hs enc)"
  by (auto simp: delete_static_asset_def
      intro!: runs_seq runs_prepared prepare_static_total tree_delete responses_remove delete_chunks)

lemma delete_fallback: "runs P (delete_fallback_asset H lib a ct hs fb enc)"
  unfolding delete_fallback_asset_def
  by (intro runs_seq runs_prepared prepare_fallback_total tree_delete fallback_remove)

lemma delete_redirect: "runs P (delete_redirect H lib from to kind hs)"
  unfolding delete_redirect_def by (intro runs_seq runs_pure tree_delete responses_remove)

lemma delete_asset: "runs P (delete_asset_impl H lib a c enc)"
  by (auto simp: delete_asset_impl_def split: option.split asset_config_of.split
      intro!: runs_seq runs_for_each delete_static delete_fallback)

lemma delete_assets: "order_documented lib \<Longrightarrow> runs P (delete_assets H lib assets cs)"
  unfolding delete_assets_def
  by (intro runs_seq runs_pure each_asset_runs [where good = "\<lambda>_. True"] each_redirect_runs [where good = "\<lambda>_. True"]
      delete_asset delete_redirect) (auto simp: asset_ok_def config_ok_all)

lemma delete_assets_by_path: "runs P (delete_assets_by_path H ps :: ('m, unit) router_comp)"
  unfolding delete_assets_by_path_def by (intro runs_for_each runs_seq responses_remove tree_delete_by_path)

lemma delete_fallback_assets_by_path:
  "runs P (delete_fallback_assets_by_path H ps :: ('m, unit) router_comp)"
  unfolding delete_fallback_assets_by_path_def
  by (intro runs_for_each runs_seq fallback_remove tree_delete_by_path)

end

subsection \<open>The stored responses are those of their keys\<close>

definition router_ok :: "(bytes \<Rightarrow> hash) \<Rightarrow> ('g, 'm) asset_lib \<Rightarrow> asset_router \<Rightarrow> bool" where
  "router_ok H lib s \<longleftrightarrow> ct_ok H (ar_tree s) \<and>
     distinct (map fst (ar_responses s)) \<and> distinct (map fst (ar_fallback_responses s)) \<and>
     (\<forall>(k, a) \<in> set (ar_responses s). stored_ok H lib Exact_Path k a) \<and>
     (\<forall>(k, a) \<in> set (ar_fallback_responses s). stored_ok H lib Wildcard_Path k a)"

lemma insert_total:
  assumes "ct_ok H t"
  shows "\<exists>t'. ct_insert H t e = Some t' \<and> ct_ok H t' \<and>
    certified_paths t' = ct_spec_step (CtInsert e) (certified_paths t)"
  using ct_step_refines [OF assms, of "CtInsert e"] by simp

lemma delete_total:
  assumes "ct_ok H t"
  shows "\<exists>t'. ct_delete H t e = Some t' \<and> ct_ok H t'"
    and "\<exists>t'. ct_delete_by_path H t p = Some t' \<and> ct_ok H t' \<and>
      certified_paths t' = ct_spec_step (CtDeleteByPath p) (certified_paths t)"
  using ct_step_refines [OF assms, of "CtDelete e"] ct_step_refines [OF assms, of "CtDeleteByPath p"] by auto

lemma alist_delete_distinct: "distinct (map fst m) \<Longrightarrow> distinct (map fst (AList.delete k m))"
  by (rule distinct_delete)

lemma alist_delete_subset: "set (AList.delete k m) \<subseteq> set m"
  by (simp add: AList.delete_eq)

lemma router_ok_tree: "router_ok H lib s \<Longrightarrow> ct_ok H t \<Longrightarrow> router_ok H lib (s\<lparr>ar_tree := t\<rparr>)"
  by (simp add: router_ok_def)

lemma router_ok_insert:
  assumes "router_ok H lib s"
  shows "stored_ok H lib Exact_Path k a \<Longrightarrow>
      router_ok H lib (s\<lparr>ar_responses := AList.update k a (ar_responses s)\<rparr>)"
    and "stored_ok H lib Wildcard_Path k a \<Longrightarrow>
      router_ok H lib (s\<lparr>ar_fallback_responses := AList.update k a (ar_fallback_responses s)\<rparr>)"
  using assms alist_update_subset [of k a "ar_responses s"] alist_update_subset [of k a "ar_fallback_responses s"]
  by (auto simp: router_ok_def distinct_update)

lemma runs_tree_insert: "runs (router_ok H lib) (tree_insert H e :: ('m, unit) router_comp)"
  unfolding tree_insert_def
proof (rule runs_update_partial)
  fix s
  assume ok: "router_ok H lib s"
  then have "ct_ok H (ar_tree s)" by (simp add: router_ok_def)
  from insert_total [OF this] router_ok_tree [OF ok]
  show "\<exists>s'. map_option (\<lambda>t. s\<lparr>ar_tree := t\<rparr>) (ct_insert H (ar_tree s) e) = Some s' \<and> router_ok H lib s'"
    by fastforce
qed

interpretation stored: router_deletion H lib "router_ok H lib" "\<lambda>_. True"
  for H :: "bytes \<Rightarrow> hash" and lib :: "('g, 'm) asset_lib"
proof
  fix k :: request_key and a
  show "runs (router_ok H lib) (store_response H k a :: ('m, unit) router_comp)"
    if "stored_ok H lib Exact_Path k a"
    unfolding store_response_def responses_insert_def using that
    by (intro runs_seq runs_tree_insert runs_update router_ok_insert)
  show "runs (router_ok H lib) (store_fallback H k a :: ('m, unit) router_comp)"
    if "stored_ok H lib Wildcard_Path k a"
    unfolding store_fallback_def fallback_insert_def using that
    by (intro runs_seq runs_tree_insert runs_update router_ok_insert)
  show "runs (router_ok H lib) (responses_remove k :: ('m, unit) router_comp)"
    "runs (router_ok H lib) (fallback_remove k :: ('m, unit) router_comp)"
    unfolding responses_remove_def fallback_remove_def
    by (intro runs_update, use alist_delete_subset [of k] in
      \<open>fastforce simp: router_ok_def alist_delete_distinct\<close>)+
next
  fix e p
  note step = delete_total [where H = H] and tree = router_ok_tree [of H lib]
  show "runs (router_ok H lib) (tree_delete H e :: ('m, unit) router_comp)"
    unfolding tree_delete_def
    by (rule runs_update_partial, frule router_ok_def [THEN iffD1, THEN conjunct1], drule step(1) [of _ e])
      (auto intro: tree)
  show "runs (router_ok H lib) (tree_delete_by_path H p :: ('m, unit) router_comp)"
    unfolding tree_delete_by_path_def
    by (rule runs_update_partial, frule router_ok_def [THEN iffD1, THEN conjunct1], drule step(2) [of _ p])
      (auto intro: tree)
qed

subsection \<open>The stored responses are certified\<close>

text \<open>The paths of full certifications: a terminator after segments that are none, then three hashes.
  None of them is a prefix of another, so an insertion removes nothing.\<close>

definition asset_leaf :: "path \<Rightarrow> bool" where
  "asset_leaf p \<longleftrightarrow> (\<exists>us T a b c. p = us @ [T, a, b, c] \<and> T \<in> {EXACT_PATH_TERMINATOR, WILDCARD_PATH_TERMINATOR} \<and>
     set us \<inter> {EXACT_PATH_TERMINATOR, WILDCARD_PATH_TERMINATOR} = {})"

lemma asset_leaf_prefix:
  assumes "asset_leaf p" and "asset_leaf q" and "starts_with q p"
  shows "p = q"
proof -
  let ?T = "{EXACT_PATH_TERMINATOR, WILDCARD_PATH_TERMINATOR}"
  from assms obtain us T a b c us' T' a' b' c' r where p: "p = us @ [T, a, b, c]" "T \<in> ?T" "set us \<inter> ?T = {}"
    and q: "q = us' @ [T', a', b', c']" "T' \<in> ?T" "set us' \<inter> ?T = {}" and r: "q = p @ r"
    unfolding asset_leaf_def starts_with_iff by blast
  have "takeWhile (\<lambda>x. x \<notin> ?T) q = us'" using q by (auto simp: takeWhile_append)
  moreover have "takeWhile (\<lambda>x. x \<notin> ?T) q = us" unfolding r using p by (auto simp: takeWhile_append)
  ultimately have "length q = length p" by (simp add: p q)
  with r show ?thesis by simp
qed

lemma full_certification_shape:
  "certification_full H leb lib lower c rq r b = Inr cert \<Longrightarrow> \<exists>x y z. cert = Full_Certification x y z"
  by (auto simp: certification_full_def Let_def and_then_eq_Inr)

lemma stored_leaf:
  assumes "stored_ok H lib cp k a" and "cp \<in> {Exact_Path, Wildcard_Path}" and "plain_path (cp (rk_path k))"
  shows "asset_leaf (entry_to_tree_path (car_tree_entry a))"
proof -
  from assms(1) have e: "entry_path (car_tree_entry a) = cp (rk_path k)" and "\<exists>x y z.
      entry_certification (car_tree_entry a) = Full_Certification x y z"
    by (auto simp: stored_ok_def asset_source_def dest: full_certification_shape)
  then obtain x y z where c: "entry_certification (car_tree_entry a) = Full_Certification x y z" by blast
  have "set (url_segments (rk_path k)) \<inter> {EXACT_PATH_TERMINATOR, WILDCARD_PATH_TERMINATOR} = {}"
    using assms(2,3) by (auto simp: plain_path_def butlast_append simp del: terminators)
  with assms(2) e c show ?thesis unfolding asset_leaf_def
    by (auto simp: entry_to_tree_path_def simp del: terminators)
qed

definition all_certified :: "asset_router \<Rightarrow> bool" where
  "all_certified s \<longleftrightarrow> (\<forall>(k, a) \<in> set (ar_responses s) \<union> set (ar_fallback_responses s).
     entry_to_tree_path (car_tree_entry a) \<in> certified_paths (ar_tree s))"

definition router_certified :: "(bytes \<Rightarrow> hash) \<Rightarrow> ('g, 'm) asset_lib \<Rightarrow> asset_router \<Rightarrow> bool" where
  "router_certified H lib s \<longleftrightarrow> router_ok H lib s \<and> all_certified s \<and>
     (\<forall>p \<in> certified_paths (ar_tree s). asset_leaf p)"

lemma certified_insert:
  assumes "router_certified H lib s" and "asset_leaf (entry_to_tree_path e)"
  shows "\<exists>t'. ct_insert H (ar_tree s) e = Some t' \<and> router_certified H lib (s\<lparr>ar_tree := t'\<rparr>) \<and>
    entry_to_tree_path e \<in> certified_paths t'"
proof -
  let ?p = "entry_to_tree_path e" and ?C = "certified_paths (ar_tree s)"
  from assms(1) have ok: "router_ok H lib s" and leaf: "\<forall>p \<in> ?C. asset_leaf p" and "ct_ok H (ar_tree s)"
    by (auto simp: router_certified_def router_ok_def)
  with insert_total obtain t' where t': "ct_insert H (ar_tree s) e = Some t'" "ct_ok H t'"
    "certified_paths t' = ct_spec_step (CtInsert e) ?C" by blast
  have "{p \<in> ?C. \<not> starts_with p ?p \<and> \<not> starts_with ?p p} \<union> {?p} = ?C \<union> {?p}"
    using asset_leaf_prefix leaf assms(2) by blast
  with t'(3) have paths: "certified_paths t' = insert ?p ?C" by simp
  with assms router_ok_tree [OF ok t'(2)] have "router_certified H lib (s\<lparr>ar_tree := t'\<rparr>)"
    by (fastforce simp: router_certified_def all_certified_def)
  with t'(1) paths show ?thesis by simp
qed

lemma certified_store:
  assumes "stored_ok H lib cp k a" and "cp \<in> {Exact_Path, Wildcard_Path}" and "plain_path (cp (rk_path k))"
    and "\<And>s :: asset_router. ar_tree (f s) = ar_tree s"
    and "\<And>s. router_ok H lib s \<Longrightarrow> router_ok H lib (f s)"
    and "\<And>s. set (ar_responses (f s)) \<union> set (ar_fallback_responses (f s)) \<subseteq>
      insert (k, a) (set (ar_responses s) \<union> set (ar_fallback_responses s))"
  shows "runs (router_certified H lib) (seq (tree_insert H (car_tree_entry a)) (\<lambda>_. update f))"
  unfolding runs_def
proof (intro allI impI)
  fix s
  let ?e = "car_tree_entry a"
  assume "router_certified H lib s"
  from certified_insert [OF this stored_leaf [OF assms(1-3)]] obtain t' where
    t': "ct_insert H (ar_tree s) ?e = Some t'" "router_certified H lib (s\<lparr>ar_tree := t'\<rparr>)"
    "entry_to_tree_path ?e \<in> certified_paths t'" by blast
  let ?s = "s\<lparr>ar_tree := t'\<rparr>"
  have "router_certified H lib (f ?s)"
    using t'(2,3) assms(4,5) assms(6) [of ?s] by (fastforce simp: router_certified_def all_certified_def)
  with t'(1) show "\<exists>r c'. seq (tree_insert H ?e) (\<lambda>_. update f) s = Some (r, c') \<and> router_certified H lib c'"
    by (simp add: seq_def tree_insert_def update_partial_def update_def)
qed

interpretation certified: router_invariant H lib "router_certified H lib" plain_path
  for H :: "bytes \<Rightarrow> hash" and lib :: "('g, 'm) asset_lib"
proof
  fix k :: request_key and a
  show "runs (router_certified H lib) (store_response H k a :: ('m, unit) router_comp)"
    if "stored_ok H lib Exact_Path k a" "plain_path (Exact_Path (rk_path k))"
    unfolding store_response_def responses_insert_def
    using that router_ok_insert(1) [of H lib _ k a] alist_update_subset [of k a]
    by (intro certified_store [where cp = Exact_Path]) auto
  show "runs (router_certified H lib) (store_fallback H k a :: ('m, unit) router_comp)"
    if "stored_ok H lib Wildcard_Path k a" "plain_path (Wildcard_Path (rk_path k))"
    unfolding store_fallback_def fallback_insert_def
    using that router_ok_insert(2) [of H lib _ k a] alist_update_subset [of k a]
    by (intro certified_store [where cp = Wildcard_Path]) auto
qed

subsection \<open>Histories\<close>

datatype asset_op =
    Certify_Assets "asset list" "asset_config list"
  | Delete_Assets "asset list" "asset_config list"
  | Delete_Assets_By_Path "bytes list"
  | Delete_Fallback_Assets_By_Path "bytes list"
  | Delete_All_Assets

text \<open>A call on the router; the caller drops its result.\<close>

fun asset_call :: "(bytes \<Rightarrow> hash) \<Rightarrow> ('g, 'm) asset_lib \<Rightarrow> asset_op \<Rightarrow> ('m, unit) router_comp" where
  "asset_call H lib (Certify_Assets assets configs) = certify_assets H lib assets configs"
| "asset_call H lib (Delete_Assets assets configs) = delete_assets H lib assets configs"
| "asset_call H lib (Delete_Assets_By_Path paths) = delete_assets_by_path H paths"
| "asset_call H lib (Delete_Fallback_Assets_By_Path paths) = delete_fallback_assets_by_path H paths"
| "asset_call H lib Delete_All_Assets = delete_all_assets"

fun router_run :: "(bytes \<Rightarrow> hash) \<Rightarrow> ('g, 'm) asset_lib \<Rightarrow> asset_op list \<Rightarrow> asset_router \<Rightarrow> asset_router option" where
  "router_run H lib [] s = Some s"
| "router_run H lib (op # ops) s =
     (case asset_call H lib op s of Some (_, s') \<Rightarrow> router_run H lib ops s' | None \<Rightarrow> None)"

text \<open>Operations that only add, on plain paths, or remove everything.\<close>

fun certifying :: "asset_op \<Rightarrow> bool" where
  "certifying (Certify_Assets assets configs) \<longleftrightarrow>
     (\<forall>a \<in> set assets. asset_ok plain_path a) \<and> (\<forall>c \<in> set configs. config_ok plain_path c)"
| "certifying Delete_All_Assets \<longleftrightarrow> True"
| "certifying _ \<longleftrightarrow> False"

lemma delete_all_runs:
  "runs (router_ok H lib) (delete_all_assets :: ('m, unit) router_comp)"
  "runs (router_certified H lib) (delete_all_assets :: ('m, unit) router_comp)"
proof -
  have "ct_clear t = ct_default" for t by (simp add: ct_clear_def nt_clear_def ct_default_def)
  then show "runs (router_ok H lib) (delete_all_assets :: ('m, unit) router_comp)"
    "runs (router_certified H lib) (delete_all_assets :: ('m, unit) router_comp)"
    unfolding delete_all_assets_def
    by (intro runs_update, simp add: router_certified_def router_ok_def all_certified_def)+
qed

lemma asset_call_runs:
  fixes lib :: "('g, 'm) asset_lib"
  assumes "order_documented lib"
  shows "runs (router_ok H lib) (asset_call H lib op)"
    and "certifying op \<Longrightarrow> runs (router_certified H lib) (asset_call H lib op)"
proof -
  show "runs (router_ok H lib) (asset_call H lib op)"
    using stored.certify_assets [OF assms] stored.delete_assets [OF assms]
    by (cases op) (simp_all add: stored.delete_assets_by_path stored.delete_fallback_assets_by_path
        delete_all_runs config_ok_all asset_ok_def)
  show "runs (router_certified H lib) (asset_call H lib op)" if "certifying op"
    using that certified.certify_assets [OF assms] by (cases op) (simp_all add: delete_all_runs)
qed

lemma router_run_keeps:
  assumes "\<And>op. op \<in> set ops \<Longrightarrow> runs P (asset_call H lib op)" and "P s"
  shows "\<exists>s'. router_run H lib ops s = Some s' \<and> P s'"
  using assms
proof (induction ops arbitrary: s)
  case (Cons op ops)
  then obtain r s1 where "asset_call H lib op s = Some (r, s1)" "P s1" by (meson list.set_intros(1) runsE)
  with Cons show ?case by simp
qed simp

lemma router_new: "router_ok H lib asset_router_new" "router_certified H lib asset_router_new"
  by (simp_all add: router_ok_def router_certified_def all_certified_def asset_router_new_def)

lemma router_history:
  fixes lib :: "('g, 'm) asset_lib"
  assumes "order_documented lib"
  shows "\<exists>s. router_run H lib ops asset_router_new = Some s \<and> router_ok H lib s \<and>
    ((\<forall>op \<in> set ops. certifying op) \<longrightarrow> all_certified s)"
proof -
  obtain s where s: "router_run H lib ops asset_router_new = Some s" "router_ok H lib s"
    using router_run_keeps [OF asset_call_runs(1) [OF assms] router_new(1)] by blast
  moreover have "all_certified s" if "\<forall>op \<in> set ops. certifying op"
    using router_run_keeps [OF asset_call_runs(2) [OF assms] router_new(2), of ops H] that s(1)
    by (auto simp: router_certified_def)
  ultimately show ?thesis by blast
qed

end
