(* ===== verification/Asset_Ranges.thy ===== *)
theory Asset_Ranges
  imports Asset_Invariant
begin

text \<open>
  Range requests and deletions of the asset router: a content above the chunk size is stored as chunks
  that the range requests of a client put together again; a deletion by path removes the entries of a
  path from the tree, and of the stored responses only the one without an encoding.
\<close>

subsection \<open>Preparing succeeds\<close>

lemma header_names:
  assumes "lower_ascii lower"
  shows "lower (str_bytes ''content-length'') \<noteq> lower CERTIFICATE_EXPRESSION_HEADER_NAME"
    and "lower (str_bytes ''content-type'') \<noteq> lower CERTIFICATE_EXPRESSION_HEADER_NAME"
    and "lower (str_bytes ''content-encoding'') \<noteq> lower CERTIFICATE_EXPRESSION_HEADER_NAME"
    and "lower (str_bytes ''content-range'') \<noteq> lower CERTIFICATE_EXPRESSION_HEADER_NAME"
    and "lower (str_bytes ''range'') = str_bytes ''range''"
  using assms
  by (simp_all add: lower_text CERTIFICATE_EXPRESSION_HEADER_NAME_def str_bytes_def is_ascii_def
      to_ascii_lowercase_def ascii_lower_def)

lemma prepare_response_total:
  assumes "lower_ascii (al_lower lib)" and "no_expression_header (al_lower lib) hs"
    and "get_query (al_http lib) (asset_request url rhs) = Inr q"
  shows "\<exists>r cert. prepare_response_and_certification H lib url st body hs rhs = Inr (r, cert) \<and>
    resp_body r = body \<and> resp_status r = st"
proof -
  let ?expr = "create_default_full_cel_expr (asset_expr rhs)"
  let ?hs = "(str_bytes ''content-length'', decimal (length body)) # hs"
  let ?r = "\<lparr>resp_status = st, resp_headers = [(str_bytes ''content-length'', decimal (length body))] @ hs @
    [(CERTIFICATE_EXPRESSION_HEADER_NAME, ?expr)], resp_body = body, resp_upgrade = None\<rparr>"
  have "no_expression_header (al_lower lib) ?hs"
    using assms(2) header_names [OF assms(1)] by (simp add: no_expression_header_def)
  from validate_headers_skip [OF this, of ?expr False "[(CERTIFICATE_EXPRESSION_HEADER_NAME, ?expr)]"]
  have "validate_response (al_lower lib) ?r ?expr = Inr ()" by (simp add: validate_response_def)
  moreover obtain rq where "request_hash H (al_leb lib) (al_http lib) (asset_request url rhs)
      (full_request (asset_expr rhs)) = Inr rq"
    using assms(3) by (simp add: request_hash_def Let_def)
  ultimately obtain cert where "certification_full H (al_leb lib) (al_http lib) (al_lower lib) (asset_expr rhs)
      (asset_request url rhs) ?r None = Inr cert"
    by (simp add: certification_full_def Let_def)
  then have "prepare_response_and_certification H lib url st body hs rhs = Inr (?r, cert)"
    unfolding prepare_response_iff by simp
  then show ?thesis by (intro exI [of _ ?r] exI [of _ cert]) simp
qed

text \<open>The body of a response: the content, or the chunk that starts at a byte.\<close>

fun asset_body :: "bytes \<Rightarrow> nat option \<Rightarrow> bytes" where
  "asset_body content None = content"
| "asset_body content (Some n) = take ASSET_CHUNK_SIZE (drop n content)"

lemma prepare_static_Ok:
  assumes "lower_ascii (al_lower lib)" and "no_expression_header (al_lower lib) hs"
    and "\<And>rhs. get_query (al_http lib) (asset_request (asset_url a) rhs) = Inr q"
    and "\<And>n. b = Some n \<Longrightarrow> n < length (asset_content a)"
  shows "\<exists>x. prepare_static_asset H lib a ct hs enc b = Some (Inr x) \<and>
    resp_body (car_response x) = asset_body (asset_content a) b \<and>
    (b \<noteq> None \<longrightarrow> resp_status (car_response x) = 206)"
proof -
  let ?hs = "hs @ (case ct of Some t \<Rightarrow> [(str_bytes ''content-type'', t)] | None \<Rightarrow> []) @
    (case enc of Some e \<Rightarrow> [(str_bytes ''content-encoding'', encoding_to_string e)] | None \<Rightarrow> [])"
  have hs: "no_expression_header (al_lower lib) (?hs @ rest)"
    if "no_expression_header (al_lower lib) rest" for rest
    using that assms(2) header_names [OF assms(1)] by (auto simp: no_expression_header_def split: option.splits)
  note total = prepare_response_total [OF assms(1) hs assms(3), where H = H]
  show ?thesis
  proof (cases b)
    case None
    from total [of "[]" 200 "asset_content a" "[]"] obtain r cert where
      "prepare_response_and_certification H lib (asset_url a) 200 (asset_content a) ?hs [] = Inr (r, cert)"
      "resp_body r = asset_content a" by (auto simp: no_expression_header_def)
    with None show ?thesis
      by (simp add: prepare_static_asset_def prepare_asset_response_and_certification_def Let_def)
  next
    case (Some n)
    let ?len = "length (asset_content a)"
    let ?stop = "min (n + ASSET_CHUNK_SIZE) ?len"
    have n: "n < ?stop" using assms(4) Some by (simp add: ASSET_CHUNK_SIZE_def)
    let ?range = "(str_bytes ''content-range'', str_bytes ''bytes '' @ decimal n @ str_bytes ''-'' @
      decimal (?stop - 1) @ str_bytes ''/'' @ decimal ?len)"
    let ?body = "take (?stop - 1 + 1 - n) (drop n (asset_content a))"
    have body: "?body = asset_body (asset_content a) b" using n Some by (auto simp: min_def)
    have "no_expression_header (al_lower lib) [?range]"
      using header_names [OF assms(1)] by (simp add: no_expression_header_def)
    from total [OF this, of 206 ?body "range_headers b"] obtain r cert where
      "prepare_response_and_certification H lib (asset_url a) 206 ?body (?hs @ [?range]) (range_headers b) =
        Inr (r, cert)" "resp_body r = ?body" "resp_status r = 206" by blast
    moreover have "asset_content a \<noteq> []" "\<not> ?stop < n" using n by auto
    ultimately show ?thesis using n Some unfolding body [symmetric]
      by (simp add: prepare_static_asset_def prepare_asset_response_and_certification_def Let_def range_headers_def not_less)
  qed
qed

subsection \<open>The chunks of an insertion\<close>

lemma store_response_run:
  assumes "ct_ok H (ar_tree s)"
  shows "\<exists>s'. store_response H k x s = Some (Inr (), s') \<and> ct_ok H (ar_tree s') \<and>
    map_of (ar_responses s') = (map_of (ar_responses s))(k \<mapsto> x)"
proof -
  from insert_total [OF assms] obtain t' where "ct_insert H (ar_tree s) (car_tree_entry x) = Some t'" "ct_ok H t'"
    by blast
  then show ?thesis
    by (simp add: store_response_def seq_def tree_insert_def responses_insert_def update_partial_def update_def
        update_conv')
qed

lemma insert_chunks_run:
  fixes lib :: "('g, 'm) asset_lib"
  assumes "\<And>n. n < length (asset_content a) \<Longrightarrow>
      prepare_static_asset H lib a ct hs enc (Some n) = Some (Inr (x n))"
    and "ct_ok H (ar_tree s)"
  shows "\<exists>s'. insert_chunks H lib a ct hs enc b s = Some (Inr (), s') \<and> ct_ok H (ar_tree s') \<and>
    (\<forall>i. b + i * ASSET_CHUNK_SIZE < length (asset_content a) \<longrightarrow>
       map_of (ar_responses s') (request_key_new (asset_url a) (encoding_str enc) (Some (b + i * ASSET_CHUNK_SIZE))) =
         Some (x (b + i * ASSET_CHUNK_SIZE))) \<and>
    (\<forall>k. (\<forall>n \<ge> b. rk_range_begin k \<noteq> Some n) \<longrightarrow>
       map_of (ar_responses s') k = map_of (ar_responses s) k)"
  using assms(2)
proof (induction "length (asset_content a) - b" arbitrary: b s rule: less_induct)
  case less
  let ?key = "\<lambda>n. request_key_new (asset_url a) (encoding_str enc) (Some n)"
  show ?case
  proof (cases "b < length (asset_content a)")
    case True
    from store_response_run [OF less.prems] obtain s1 where s1: "(store_response H (?key b) (x b) :: ('m, unit) router_comp) s = Some (Inr (), s1)"
      "ct_ok H (ar_tree s1)" "map_of (ar_responses s1) = (map_of (ar_responses s))(?key b \<mapsto> x b)" by blast
    have "length (asset_content a) - (b + ASSET_CHUNK_SIZE) < length (asset_content a) - b"
      using True by (simp add: ASSET_CHUNK_SIZE_def)
    from less.hyps [OF this s1(2)] obtain s' where
      s': "insert_chunks H lib a ct hs enc (b + ASSET_CHUNK_SIZE) s1 = Some (Inr (), s')" "ct_ok H (ar_tree s')"
      "\<And>i. b + ASSET_CHUNK_SIZE + i * ASSET_CHUNK_SIZE < length (asset_content a) \<Longrightarrow>
         map_of (ar_responses s') (?key (b + ASSET_CHUNK_SIZE + i * ASSET_CHUNK_SIZE)) =
           Some (x (b + ASSET_CHUNK_SIZE + i * ASSET_CHUNK_SIZE))"
      "\<And>k. \<forall>n \<ge> b + ASSET_CHUNK_SIZE. rk_range_begin k \<noteq> Some n \<Longrightarrow>
         map_of (ar_responses s') k = map_of (ar_responses s1) k" by blast
    have "insert_chunks H lib a ct hs enc b s = Some (Inr (), s')"
      using True s1(1) s'(1) by (subst insert_chunks.simps) (simp add: seq_def prepared_def assms(1))
    moreover have "map_of (ar_responses s') (?key (b + i * ASSET_CHUNK_SIZE)) = Some (x (b + i * ASSET_CHUNK_SIZE))"
      if "b + i * ASSET_CHUNK_SIZE < length (asset_content a)" for i
    proof (cases i)
      case 0
      then show ?thesis using s'(4) [of "?key b"] s1(3) by (simp add: request_key_new_def ASSET_CHUNK_SIZE_def)
    next
      case (Suc j)
      then show ?thesis using s'(3) [of j] that by (simp add: algebra_simps)
    qed
    moreover have "map_of (ar_responses s') k = map_of (ar_responses s) k"
      if "\<forall>n \<ge> b. rk_range_begin k \<noteq> Some n" for k
    proof -
      have "k \<noteq> ?key b" using that by (auto simp: request_key_new_def)
      with s'(4) [of k] s1(3) that show ?thesis by auto
    qed
    ultimately show ?thesis using s'(2) by blast
  next
    case False
    with less.prems show ?thesis by (subst insert_chunks.simps) (auto simp: pure_def)
  qed
qed

lemma insert_static_run:
  fixes lib :: "('g, 'm) asset_lib"
  assumes "\<And>b. (\<And>n. b = Some n \<Longrightarrow> n < length (asset_content a)) \<Longrightarrow>
      prepare_static_asset H lib a ct hs enc b = Some (Inr (x b))"
    and "ct_ok H (ar_tree s)" and "ASSET_CHUNK_SIZE < length (asset_content a)"
  shows "\<exists>s'. insert_static_asset H lib a ct hs enc s = Some (Inr (), s') \<and> ct_ok H (ar_tree s') \<and>
    map_of (ar_responses s') (request_key_new (asset_url a) (encoding_str enc) None) = Some (x None) \<and>
    (\<forall>i. i * ASSET_CHUNK_SIZE < length (asset_content a) \<longrightarrow>
       map_of (ar_responses s') (request_key_new (asset_url a) (encoding_str enc) (Some (i * ASSET_CHUNK_SIZE))) =
         Some (x (Some (i * ASSET_CHUNK_SIZE))))"
proof -
  let ?key = "request_key_new (asset_url a) (encoding_str enc)"
  have chunks: "prepare_static_asset H lib a ct hs enc (Some n) = Some (Inr (x (Some n)))"
    if "n < length (asset_content a)" for n by (rule assms(1)) (use that in simp)
  have whole: "prepare_static_asset H lib a ct hs enc None = Some (Inr (x None))" by (rule assms(1)) simp
  from insert_chunks_run [where x = "\<lambda>n. x (Some n)" and b = 0, OF chunks assms(2)] obtain s1 where
    s1: "insert_chunks H lib a ct hs enc 0 s = Some (Inr (), s1)" "ct_ok H (ar_tree s1)"
    "\<And>i. i * ASSET_CHUNK_SIZE < length (asset_content a) \<Longrightarrow>
       map_of (ar_responses s1) (?key (Some (i * ASSET_CHUNK_SIZE))) = Some (x (Some (i * ASSET_CHUNK_SIZE)))" by auto
  from store_response_run [OF s1(2)] obtain s' where s': "(store_response H (?key None) (x None) :: ('m, unit) router_comp) s1 = Some (Inr (), s')"
    "ct_ok H (ar_tree s')" "map_of (ar_responses s') = (map_of (ar_responses s1))(?key None \<mapsto> x None)" by blast
  have "insert_static_asset H lib a ct hs enc s = Some (Inr (), s')"
    using assms(3) s1(1) s'(1) whole by (simp add: insert_static_asset_def seq_def prepared_def)
  with s' s1(3) show ?thesis by (auto simp: request_key_new_def)
qed

subsection \<open>The requests for the chunks\<close>

lemma concat_chunks: "concat (map (\<lambda>i. take c (drop (i * c) xs)) [0..<k]) = take (k * c) xs"
proof (induction k)
  case (Suc k)
  have "take (k * c) xs @ take c (drop (k * c) xs) = take (k * c + c) xs" by (simp add: take_add)
  with Suc show ?case by (simp add: add.commute)
qed simp

lemma parse_range_decimal:
  assumes "n \<le> bound"
  shows "parse_range_header_str bound (str_bytes ''bytes='' @ decimal n @ str_bytes ''-'') =
    Inr \<lparr>rrv_begin = n, rrv_end = None\<rparr>"
proof -
  let ?d = "decimal n" and ?b = "str_bytes ''bytes=''"
  let ?s = "?b @ ?d @ str_bytes ''-''"
  obtain c cs where d: "?d = c # cs" by (cases ?d) auto
  then have c: "48 \<le> c" "c \<le> 57" using decimal_chars [of c n] by simp_all
  then have neq: "c \<noteq> 98" by auto
  have trim: "trim ?s = ?s"
    by (rule trim_plain) (simp_all add: str_bytes_def plain_char_def)
  have "45 \<notin> set ?d" using decimal_chars [of 45 n] by auto
  then have parts: "split_on 45 (?d @ str_bytes ''-'') = [?d, []]"
    by (simp add: str_bytes_def split_on_append)
  have "strip_all [?b] ?s = strip_all [?b] (?d @ str_bytes ''-'')"
    by (rule strip_all_Some) (simp add: str_bytes_def)
  also have "\<dots> = ?d @ str_bytes ''-''"
    unfolding d using neq by (intro strip_all_None) (simp add: str_bytes_def)
  finally have strip: "strip_all [?b] ?s = ?d @ str_bytes ''-''" .
  have "starts_with ?s ?b" by (simp add: starts_with_iff)
  with trim strip parts parse_usize_decimal [OF assms] show ?thesis
    using assms by (simp add: parse_range_header_str_def Let_def)
qed

text \<open>The response that the router chooses for a request of a range of an asset.\<close>

definition range_response ::
  "('g, 'm) asset_lib \<Rightarrow> asset_router \<Rightarrow> bytes \<Rightarrow> nat \<Rightarrow> 'm asset_error + certified_asset_response" where
  "range_response lib s url n =
     (let request = asset_request url (range_headers (Some n))
      in and_then (maybe_get_range_begin lib request)
           (get_asset_for_request s url (get_preferred_encodings lib request)))"

lemma range_response_chunk:
  assumes "lower_ascii (al_lower lib)" and "n \<le> al_usize_max lib"
    and "map_of (ar_responses s) (request_key_new url None None) = Some x0"
    and "ASSET_CHUNK_SIZE < length (resp_body (car_response x0))"
    and "map_of (ar_responses s) (request_key_new url None (Some n)) = Some x"
    and "length (resp_body (car_response x)) \<le> ASSET_CHUNK_SIZE"
  shows "range_response lib s url n = Inr x"
proof -
  have "is_ascii (str_bytes ''range'')" by (simp add: str_bytes_def is_ascii_def)
  then have lower: "al_lower lib (str_bytes ''range'') = str_bytes ''range''" using header_names [OF assms(1)] by simp
  have "str_bytes ''range'' \<noteq> str_bytes ''accept-encoding''" by simp
  then have enc: "get_preferred_encodings lib (asset_request url (range_headers (Some n))) = []"
    by (simp add: get_preferred_encodings_def asset_request_def range_headers_def lower)
  have rb: "maybe_get_range_begin lib (asset_request url (range_headers (Some n))) =
      Inr (if n = 0 then None else Some n)"
    by (simp add: maybe_get_range_begin_def get_range_header_def asset_request_def range_headers_def lower
        parse_range_decimal [OF assms(2)])
  have "range_response lib s url n = get_asset_for_request s url [] (if n = 0 then None else Some n)"
    by (simp add: range_response_def Let_def rb enc)
  also have "\<dots> = Inr x" using assms(3-6) by (cases "n = 0") (simp_all add: get_asset_for_request_def not_less)
  finally show ?thesis .
qed

subsection \<open>Fallbacks\<close>

text \<open>The scopes of the loop are no longer than the joined segments with a slash, so the fallback whose
  scope is the requested path, with no slash at its end, has no influence on the choice.\<close>

lemma join_butlast_length: "length (join [47] (butlast xs)) \<le> length (join [47] xs)"
proof (induction xs)
  case (Cons x xs)
  then show ?case by (cases xs; cases "butlast xs") auto
qed simp

lemma fallback_in_scope_cong:
  assumes "\<And>e. map_of (ar_fallback_responses s') (request_key_new scope e None) =
      map_of (ar_fallback_responses s) (request_key_new scope e None)"
  shows "fallback_in_scope s' encs scope = fallback_in_scope s encs scope"
proof -
  have "get_encoded_fallback_asset s' encs scope = get_encoded_fallback_asset s encs scope"
    by (induction encs) (auto simp: assms split: option.split)
  with assms show ?thesis by (simp add: fallback_in_scope_def split: option.split)
qed

lemma fallback_loop_cong:
  assumes "\<And>scope e. length scope \<le> length (join [47] xs) + 1 \<Longrightarrow>
      map_of (ar_fallback_responses s') (request_key_new scope e None) =
      map_of (ar_fallback_responses s) (request_key_new scope e None)"
  shows "fallback_loop s' encs xs = fallback_loop s encs xs"
  using assms
proof (induction xs rule: length_induct)
  case (1 xs)
  show ?case
  proof (cases "xs = []")
    case False
    have "fallback_loop s' encs (butlast xs) = fallback_loop s encs (butlast xs)"
      using 1 False join_butlast_length [of xs] by fastforce
    moreover have "fallback_in_scope s' encs scope = fallback_in_scope s encs scope"
      if "scope \<in> {join [47] xs, join [47] xs @ [47]}" for scope
      using that "1.prems" by (intro fallback_in_scope_cong) auto
    ultimately show ?thesis using False
      by (simp add: fallback_loop.simps [of _ _ xs] Let_def split: option.split)
  qed (simp add: fallback_loop.simps)
qed

lemma join_append_last: "xs \<noteq> [] \<Longrightarrow> length (join [47] (xs @ [x])) = length (join [47] xs) + 1 + length x"
proof (induction xs)
  case (Cons y xs)
  then show ?case by (cases xs) auto
qed simp

lemma own_scope_fallback_ignored:
  assumes "p \<noteq> []" and "last p \<noteq> 47"
    and "\<And>k. rk_path k \<noteq> p \<Longrightarrow>
      map_of (ar_fallback_responses s') k = map_of (ar_fallback_responses s) k"
  shows "fallback_loop s' encs (butlast (split_on 47 p)) = fallback_loop s encs (butlast (split_on 47 p))"
proof -
  obtain xs x where xs: "split_on 47 p = xs @ [x]" by (metis append_butlast_last_id split_on_ne)
  have p: "join [47] (xs @ [x]) = p" using join_split_on [of 47 p] xs by simp
  have x: "x \<noteq> []"
  proof
    assume "x = []"
    have "\<exists>ys. join [47] (xs @ [[]]) = ys @ [47]" if "xs \<noteq> []" for xs :: "bytes list"
      using that
    proof (induction xs)
      case (Cons y xs)
      then show ?case by (cases xs) auto
    qed simp
    with p \<open>x = []\<close> assms(1,2) show False by (cases "xs = []") force+
  qed
  show ?thesis
  proof (cases "xs = []")
    case False
    then have "length p = length (join [47] xs) + 1 + length x" using join_append_last p by metis
    with x have "length (join [47] xs) + 1 < length p" by (cases x) simp_all
    then have "map_of (ar_fallback_responses s') (request_key_new scope e None) =
        map_of (ar_fallback_responses s) (request_key_new scope e None)"
      if "length scope \<le> length (join [47] xs) + 1" for scope e
      using that by (intro assms(3)) (auto simp: request_key_new_def)
    then show ?thesis unfolding xs butlast_snoc by (rule fallback_loop_cong)
  qed (simp add: xs fallback_loop.simps)
qed

end
