(* ===== verification/Asset_Properties.thy ===== *)
theory Asset_Properties
  imports Asset_Ranges
begin

text \<open>
  The properties of the asset router that do not involve the verifier: its histories, the reassembly
  of a large asset from the answers to range requests, and what a deletion by path leaves behind.
\<close>

subsection \<open>Deletion by path\<close>

lemma delete_by_path_run:
  assumes "ct_ok H (ar_tree s)"
  shows "\<exists>s'. (delete_assets_by_path H ps :: ('m, unit) router_comp) s = Some (Inr (), s') \<and> ct_ok H (ar_tree s') \<and>
    certified_paths (ar_tree s') =
      {q \<in> certified_paths (ar_tree s). \<forall>p \<in> set ps. \<not> starts_with q (path_to_tree_path (Exact_Path p))} \<and>
    (\<forall>k. rk_encoding k \<noteq> None \<longrightarrow> map_of (ar_responses s') k = map_of (ar_responses s) k)"
  using assms
proof (induction ps arbitrary: s)
  case (Cons p ps)
  let ?key = "request_key_new p None None"
  from delete_total(2) [OF Cons.prems, of "Exact_Path p"] obtain t' where
    t': "ct_delete_by_path H (ar_tree s) (Exact_Path p) = Some t'" "ct_ok H t'"
    "certified_paths t' = ct_spec_step (CtDeleteByPath (Exact_Path p)) (certified_paths (ar_tree s))" by blast
  let ?s = "s\<lparr>ar_responses := AList.delete ?key (ar_responses s), ar_tree := t'\<rparr>"
  have "ct_ok H (ar_tree ?s)" using t'(2) by simp
  from Cons.IH [OF this] obtain s' where s': "(delete_assets_by_path H ps :: ('m, unit) router_comp) ?s = Some (Inr (), s')"
    "ct_ok H (ar_tree s')"
    "certified_paths (ar_tree s') =
      {q \<in> certified_paths t'. \<forall>p \<in> set ps. \<not> starts_with q (path_to_tree_path (Exact_Path p))}"
    "\<forall>k. rk_encoding k \<noteq> None \<longrightarrow> map_of (ar_responses s') k = map_of (AList.delete ?key (ar_responses s)) k"
    by auto
  have "(delete_assets_by_path H (p # ps) :: ('m, unit) router_comp) s = delete_assets_by_path H ps ?s"
    by (simp add: delete_assets_by_path_def seq_def responses_remove_def update_def tree_delete_by_path_def
        update_partial_def t'(1))
  moreover have "map_of (AList.delete ?key (ar_responses s)) k = map_of (ar_responses s) k"
    if "rk_encoding k \<noteq> None" for k
    using that by (auto simp: delete_conv' request_key_new_def)
  moreover have "certified_paths (ar_tree s') = {q \<in> certified_paths (ar_tree s).
      \<forall>p \<in> set (p # ps). \<not> starts_with q (path_to_tree_path (Exact_Path p))}"
    using s'(3) t'(3) by auto
  ultimately show ?case using s' by (intro exI [of _ s']) simp
qed (auto simp: delete_assets_by_path_def pure_def)

lemma exact_path_rejected:
  assumes "ct_ok H t" and "prunes H w (ct_as_hash_tree H t)" and "plain_last (url_segments rp)"
    and "\<forall>q \<in> certified_paths t. \<not> starts_with q (path_to_tree_path (Exact_Path p))"
  shows "validate_expr_path (to_expr_path (Exact_Path p)) rp w \<noteq> Some (Inr ())"
proof
  assume "validate_expr_path (to_expr_path (Exact_Path p)) rp w = Some (Inr ())"
  from expr_path_sound [OF assms(1,2) this assms(3)]
  have "answers t rp (url_segments p @ [EXACT_PATH_TERMINATOR])" by auto
  then have "certified_below t (url_segments p @ [EXACT_PATH_TERMINATOR])" by (auto simp: answers_def)
  with assms(4) show False by (auto simp: certified_below_def starts_with_iff)
qed

subsection \<open>Properties\<close>

text \<open>C9: Every sequence of calls on a new asset router, failed calls included, runs without a panic;
  afterwards the tree is well-formed, and every stored response stands under the path of its entry
  with the certification of that response for a request of its range. When the calls only certified
  assets on plain paths or deleted everything, every stored response is certified by the tree.\<close>

theorem asset_router_history:
  fixes lib :: "('g, 'm) asset_lib"
  assumes "order_documented lib"
  shows "\<exists>s. router_run H lib ops asset_router_new = Some s \<and> router_ok H lib s \<and>
    ((\<forall>op \<in> set ops. certifying op) \<longrightarrow> all_certified s)"
  by (rule router_history [OF assms])

definition plain_asset_lib :: "(bytes, string) asset_lib" where
  "plain_asset_lib = \<lparr>al_glob = (\<lambda>p. Inr p), al_is_match = (=), al_order = (\<lambda>m. m),
     al_sort = (\<lambda>xs. xs), al_lower = to_ascii_lowercase, al_leb = two_bytes, al_http = plain_http,
     al_usize_max = 2 ^ 32 - 1\<rparr>"

lemma plain_asset_lib_simps [simp]:
  "al_order plain_asset_lib = (\<lambda>m. m)" "al_lower plain_asset_lib = to_ascii_lowercase"
  "al_leb plain_asset_lib = two_bytes" "al_http plain_asset_lib = plain_http"
  "al_usize_max plain_asset_lib = 2 ^ 32 - 1"
  by (simp_all add: plain_asset_lib_def)

theorem asset_router_history_witness:
  "\<exists>s. router_run pad_hash plain_asset_lib
      [Certify_Assets [asset_new (str_bytes ''a'') [120]] [], Delete_All_Assets,
       Certify_Assets [asset_new (str_bytes ''b'') [121]] []] asset_router_new = Some s \<and> all_certified s"
proof -
  let ?ops = "[Certify_Assets [asset_new (str_bytes ''a'') [120]] [], Delete_All_Assets,
    Certify_Assets [asset_new (str_bytes ''b'') [121]] []]"
  have "\<forall>op \<in> set ?ops. certifying op"
    by (simp add: asset_ok_def plain_path_def asset_new_def path_to_url_def url_segments_def str_bytes_def
        ends_with_def EXACT_PATH_TERMINATOR_def WILDCARD_PATH_TERMINATOR_def del: terminators)
  with asset_router_history [of plain_asset_lib pad_hash ?ops] show ?thesis
    by (auto simp: order_documented_def)
qed

lemma large_asset_stored:
  fixes lib :: "('g, 'm) asset_lib"
  assumes "ct_ok H (ar_tree s)" and "lower_ascii (al_lower lib)"
    and "no_expression_header (al_lower lib) hs" and "uri_of (al_http lib) (asset_url a) = Some uri"
    and "ASSET_CHUNK_SIZE < length (asset_content a)"
  shows "\<exists>s' x. insert_static_asset H lib a ct hs None s = Some (Inr (), s') \<and>
    map_of (ar_responses s') (request_key_new (asset_url a) None None) = Some (x None) \<and>
    (\<forall>i. i * ASSET_CHUNK_SIZE < length (asset_content a) \<longrightarrow>
      map_of (ar_responses s') (request_key_new (asset_url a) None (Some (i * ASSET_CHUNK_SIZE))) =
        Some (x (Some (i * ASSET_CHUNK_SIZE)))) \<and>
    (\<forall>b. (\<forall>n. b = Some n \<longrightarrow> n < length (asset_content a)) \<longrightarrow>
      prepare_static_asset H lib a ct hs None b = Some (Inr (x b)) \<and>
      resp_body (car_response (x b)) = asset_body (asset_content a) b \<and>
      (b \<noteq> None \<longrightarrow> resp_status (car_response (x b)) = 206))"
proof -
  let ?content = "asset_content a"
  have q: "get_query (al_http lib) (asset_request (asset_url a) rhs) = Inr (snd uri)" for rhs
    using assms(4) by (simp add: get_query_def asset_request_def)
  let ?start = "\<lambda>b. \<forall>n. b = Some n \<longrightarrow> n < length ?content"
  let ?P = "\<lambda>b x. prepare_static_asset H lib a ct hs None b = Some (Inr x) \<and>
    resp_body (car_response x) = asset_body ?content b \<and> (b \<noteq> None \<longrightarrow> resp_status (car_response x) = 206)"
  have "\<exists>x. ?start b \<longrightarrow> ?P b x" for b
  proof (cases "?start b")
    case True
    then have "\<exists>x. ?P b x" by (intro prepare_static_Ok [OF assms(2,3) q]) simp
    then show ?thesis by blast
  qed blast
  then obtain x where all: "\<forall>b. ?start b \<longrightarrow> ?P b (x b)" by metis
  then have x: "(\<And>n. b = Some n \<Longrightarrow> n < length ?content) \<Longrightarrow> ?P b (x b)" for b by simp
  from insert_static_run [OF x [THEN conjunct1] assms(1,5), simplified encoding_str_def] obtain s' where
    "insert_static_asset H lib a ct hs None s = Some (Inr (), s')"
    "map_of (ar_responses s') (request_key_new (asset_url a) None None) = Some (x None)"
    "\<forall>i. i * ASSET_CHUNK_SIZE < length ?content \<longrightarrow>
       map_of (ar_responses s') (request_key_new (asset_url a) None (Some (i * ASSET_CHUNK_SIZE))) =
         Some (x (Some (i * ASSET_CHUNK_SIZE)))"
    by auto
  with all show ?thesis by (intro exI [of _ s'] exI [of _ x] conjI)
qed

lemma chunk_count:
  fixes c n :: nat
  assumes "0 < c"
  shows "i < (n + c - 1) div c \<Longrightarrow> i * c < n" and "n \<le> (n + c - 1) div c * c"
proof -
  assume "i < (n + c - 1) div c"
  then have "Suc i * c \<le> n + c - 1" by (meson Suc_leI div_le_mono less_eq_div_iff_mult_less_eq assms)
  then show "i * c < n" using assms by simp
next
  show "n \<le> (n + c - 1) div c * c"
    using mod_less_divisor [OF assms, of "n + c - 1"] div_mult_mod_eq [of "n + c - 1" c] by linarith
qed

text \<open>C8: A client gets a large asset back by range requests: once an asset above the chunk size is
  inserted, the router answers the requests \<open>bytes=n-\<close> for the multiples of the chunk size, the first
  of them without a range header, with partial responses whose bodies together are the content. The
  range header that was certified for a chunk is the one that the router parses back to its start.\<close>

theorem range_requests_reassemble:
  fixes lib :: "('g, 'm) asset_lib"
  assumes "ct_ok H (ar_tree s)" and "lower_ascii (al_lower lib)"
    and "no_expression_header (al_lower lib) hs" and "uri_of (al_http lib) (asset_url a) = Some uri"
    and "ASSET_CHUNK_SIZE < length (asset_content a)" and "length (asset_content a) \<le> al_usize_max lib"
  shows "\<exists>s' xs. insert_static_asset H lib a ct hs None s = Some (Inr (), s') \<and>
    map (\<lambda>i. range_response lib s' (asset_url a) (i * ASSET_CHUNK_SIZE))
      [0..<(length (asset_content a) + ASSET_CHUNK_SIZE - 1) div ASSET_CHUNK_SIZE] = map Inr xs \<and>
    concat (map (resp_body \<circ> car_response) xs) = asset_content a \<and>
    (\<forall>x \<in> set xs. resp_status (car_response x) = 206)"
proof -
  let ?c = ASSET_CHUNK_SIZE and ?content = "asset_content a"
  let ?k = "(length ?content + ?c - 1) div ?c"
  have c: "0 < ?c" by (simp add: ASSET_CHUNK_SIZE_def)
  from large_asset_stored [OF assms(1-5), where ct = ct] obtain s' x where
    s': "insert_static_asset H lib a ct hs None s = Some (Inr (), s')"
    "map_of (ar_responses s') (request_key_new (asset_url a) None None) = Some (x None)"
    "\<And>i. i * ?c < length ?content \<Longrightarrow>
       map_of (ar_responses s') (request_key_new (asset_url a) None (Some (i * ?c))) = Some (x (Some (i * ?c)))"
    and x: "\<And>b. (\<And>n. b = Some n \<Longrightarrow> n < length ?content) \<Longrightarrow>
      resp_body (car_response (x b)) = asset_body ?content b \<and>
      (b \<noteq> None \<longrightarrow> resp_status (car_response (x b)) = 206)"
    by blast
  note k = chunk_count(1) [OF c]
  have chunk: "resp_body (car_response (x (Some (i * ?c)))) = asset_body ?content (Some (i * ?c)) \<and>
      resp_status (car_response (x (Some (i * ?c)))) = 206" if "i < ?k" for i
    using x [of "Some (i * ?c)"] k [OF that] by simp
  have "range_response lib s' (asset_url a) (i * ?c) = Inr (x (Some (i * ?c)))" if "i < ?k" for i
    using k [OF that] s'(2,3) assms(5,6) x [of None] chunk [OF that]
    by (intro range_response_chunk [OF assms(2)]) auto
  then have "map (\<lambda>i. range_response lib s' (asset_url a) (i * ?c)) [0..<?k] =
      map Inr (map (\<lambda>i. x (Some (i * ?c))) [0..<?k])" by simp
  moreover have "map (\<lambda>i. resp_body (car_response (x (Some (i * ?c))))) [0..<?k] =
      map (\<lambda>i. take ?c (drop (i * ?c) ?content)) [0..<?k]"
    using chunk by simp
  then have "concat (map (\<lambda>i. resp_body (car_response (x (Some (i * ?c))))) [0..<?k]) = take (?k * ?c) ?content"
    by (simp only: concat_chunks)
  ultimately show ?thesis
    using s'(1) chunk chunk_count(2) [OF c, of "length ?content"]
    by (intro exI [of _ s'] exI [of _ "map (\<lambda>i. x (Some (i * ?c))) [0..<?k]"]) (auto simp: comp_def)
qed

theorem range_requests_reassemble_witness:
  "\<exists>content s' xs. length content = 5000000 \<and>
    insert_static_asset pad_hash plain_asset_lib (asset_new (str_bytes ''/a'') content) None [] None
      asset_router_new = Some (Inr (), s') \<and>
    map (\<lambda>i. range_response plain_asset_lib s' (str_bytes ''/a'') (i * ASSET_CHUNK_SIZE)) [0, 1, 2] =
      map Inr xs \<and> concat (map (resp_body \<circ> car_response) xs) = content"
proof -
  have "\<exists>content :: bytes. length content = 5000000" by (rule Ex_list_of_length)
  then obtain content :: bytes where len: "length content = 5000000" by blast
  let ?a = "asset_new (str_bytes ''/a'') content"
  have url: "asset_url ?a = str_bytes ''/a''" "asset_content ?a = content"
    by (simp_all add: asset_new_def path_to_url_def str_bytes_def)
  have "uri_of (al_http plain_asset_lib) (asset_url ?a) = Some (str_bytes ''/a'', None)"
    unfolding url by (simp add: plain_http_def str_bytes_def)
  from range_requests_reassemble [where s = asset_router_new and hs = "[]" and ct = None and H = pad_hash, OF _ _ _ this]
  obtain s' xs where "insert_static_asset pad_hash plain_asset_lib ?a None [] None asset_router_new = Some (Inr (), s')"
    "map (\<lambda>i. range_response plain_asset_lib s' (asset_url ?a) (i * ASSET_CHUNK_SIZE))
      [0..<(length (asset_content ?a) + ASSET_CHUNK_SIZE - 1) div ASSET_CHUNK_SIZE] = map Inr xs"
    "concat (map (resp_body \<circ> car_response) xs) = asset_content ?a"
    unfolding url by (auto simp: len asset_router_new_def no_expression_header_def ASSET_CHUNK_SIZE_def)
  moreover have "[0..<(length (asset_content ?a) + ASSET_CHUNK_SIZE - 1) div ASSET_CHUNK_SIZE] = [0, 1, 2]"
    unfolding url by (simp add: len ASSET_CHUNK_SIZE_def upt_conv_Cons)
  ultimately show ?thesis using len unfolding url by (intro exI [of _ content] exI [of _ s'] exI [of _ xs]) simp
qed

text \<open>C40: Deleting an asset by its path leaves the responses of its encodings behind: the router still
  answers a request that accepts the encoding with the stored response, but no entry is left in the
  tree at its path, so no witness of the tree makes the verifier accept its expression path.\<close>

theorem delete_by_path_keeps_encoded:
  assumes "ct_ok H (ar_tree s)" and "p \<in> set paths" and "plain_last (url_segments p)"
    and "map_of (ar_responses s) (request_key_new p (Some e) None) = Some a"
    and "length (resp_body (car_response a)) \<le> ASSET_CHUNK_SIZE"
  shows "\<exists>s'. (delete_assets_by_path H paths :: ('m, unit) router_comp) s = Some (Inr (), s') \<and>
    get_asset_for_request s' p (e # es) None = (Inr a :: 'm asset_error + certified_asset_response) \<and>
    (\<forall>w. prunes H w (ct_as_hash_tree H (ar_tree s')) \<longrightarrow>
       validate_expr_path (to_expr_path (Exact_Path p)) p w \<noteq> Some (Inr ()))"
proof -
  from delete_by_path_run [OF assms(1), of paths] obtain s' where
    s': "(delete_assets_by_path H paths :: ('m, unit) router_comp) s = Some (Inr (), s')" "ct_ok H (ar_tree s')"
    "\<forall>q \<in> certified_paths (ar_tree s'). \<forall>p \<in> set paths. \<not> starts_with q (path_to_tree_path (Exact_Path p))"
    "\<forall>k. rk_encoding k \<noteq> None \<longrightarrow> map_of (ar_responses s') k = map_of (ar_responses s) k" by auto
  have "map_of (ar_responses s') (request_key_new p (Some e) None) = Some a"
    using s'(4) assms(4) by (simp add: request_key_new_def)
  with assms(5) have "get_asset_for_request s' p (e # es) None = (Inr a :: 'm asset_error + certified_asset_response)"
    by (simp add: get_asset_for_request_def not_less)
  with s' exact_path_rejected [OF s'(2) _ assms(3)] assms(2) show ?thesis by blast
qed

theorem delete_by_path_keeps_encoded_witness:
  "\<exists>s s' a. insert_static_asset pad_hash plain_asset_lib (asset_new (str_bytes ''/a'') [120]) None []
      (Some Brotli_Encoding) asset_router_new = Some (Inr (), s) \<and>
    (delete_assets_by_path pad_hash [str_bytes ''/a''] :: (string, unit) router_comp) s = Some (Inr (), s') \<and>
    get_asset_for_request s' (str_bytes ''/a'') [str_bytes ''br''] None =
      (Inr a :: string asset_error + certified_asset_response) \<and> resp_body (car_response a) = [120] \<and>
    (\<forall>w. prunes pad_hash w (ct_as_hash_tree pad_hash (ar_tree s')) \<longrightarrow>
       validate_expr_path (to_expr_path (Exact_Path (str_bytes ''/a''))) (str_bytes ''/a'') w \<noteq>
         Some (Inr () :: (string, string, bytes, unit) response_error + unit))"
proof -
  let ?a = "asset_new (str_bytes ''/a'') [120]" and ?u = "str_bytes ''/a''"
  let ?key = "request_key_new ?u (Some (str_bytes ''br'')) None"
  have a: "asset_url ?a = ?u" "asset_content ?a = [120]" by (simp_all add: asset_new_def path_to_url_def str_bytes_def)
  have q: "get_query (al_http plain_asset_lib) (asset_request (asset_url ?a) rhs) = Inr None" for rhs
    unfolding a by (simp add: get_query_def asset_request_def plain_http_def str_bytes_def)
  have "\<exists>x. prepare_static_asset pad_hash plain_asset_lib ?a None [] (Some Brotli_Encoding) None = Some (Inr x) \<and>
      resp_body (car_response x) = asset_body (asset_content ?a) None \<and>
      (None \<noteq> (None :: nat option) \<longrightarrow> resp_status (car_response x) = 206)"
    by (rule prepare_static_Ok [OF _ _ q]) (simp_all add: no_expression_header_def)
  then obtain x where x: "prepare_static_asset pad_hash plain_asset_lib ?a None [] (Some Brotli_Encoding) None =
      Some (Inr x)" "resp_body (car_response x) = [120]" by (auto simp: a)
  have "ct_ok pad_hash (ar_tree asset_router_new)" by (simp add: asset_router_new_def)
  from store_response_run [OF this, of ?key x] obtain s where
    s: "(store_response pad_hash ?key x :: (string, unit) router_comp) asset_router_new = Some (Inr (), s)"
    "ct_ok pad_hash (ar_tree s)" "map_of (ar_responses s) = (map_of (ar_responses asset_router_new))(?key \<mapsto> x)" by blast
  have ins: "insert_static_asset pad_hash plain_asset_lib ?a None [] (Some Brotli_Encoding) asset_router_new =
      Some (Inr (), s)"
    using x(1) s(1) by (simp add: insert_static_asset_def a ASSET_CHUNK_SIZE_def seq_def pure_def prepared_def
        encoding_str_def)
  have "plain_last (url_segments ?u)"
    by (simp add: plain_last_def url_segments_def str_bytes_def ends_with_def EXACT_PATH_TERMINATOR_def
        WILDCARD_PATH_TERMINATOR_def del: terminators)
  from delete_by_path_keeps_encoded [OF s(2) _ this, of "[?u]" "str_bytes ''br''" x "[]"] obtain s' where
    "(delete_assets_by_path pad_hash [?u] :: (string, unit) router_comp) s = Some (Inr (), s')"
    "get_asset_for_request s' ?u [str_bytes ''br''] None = (Inr x :: string asset_error + certified_asset_response)"
    "\<forall>w. prunes pad_hash w (ct_as_hash_tree pad_hash (ar_tree s')) \<longrightarrow>
       validate_expr_path (to_expr_path (Exact_Path ?u)) ?u w \<noteq>
         Some (Inr () :: (string, string, bytes, unit) response_error + unit)"
    using s(3) x(2) by (auto simp: ASSET_CHUNK_SIZE_def)
  with ins x(2) show ?thesis by blast
qed

end
