(* ===== verification/Asset_Served.thy ===== *)
theory Asset_Served
  imports Asset_Properties Response_Theorems
begin

text \<open>
  The asset router against the verifier: the responses that the router serves after certifying assets
  are accepted, with the header and the witness it adds to them.
\<close>

declare path_to_tree_path.simps [simp del] to_expr_path.simps [simp del]

subsection \<open>The chosen response\<close>

text \<open>Where a response comes from: an exact key of the requested path and range, or a fallback.\<close>

definition chosen_from :: "asset_router \<Rightarrow> bytes \<Rightarrow> nat option \<Rightarrow> certified_asset_response \<Rightarrow> bool" where
  "chosen_from s url rb a \<longleftrightarrow>
     (\<exists>k. (k, a) \<in> set (ar_responses s) \<and> rk_path k = url \<and> rk_range_begin k \<in> {None, Some 0, rb}) \<or>
     (\<exists>k. (k, a) \<in> set (ar_fallback_responses s) \<and> rk_range_begin k = None)"

lemma encoded_asset_from:
  "get_encoded_asset s encs url rb = Some a \<Longrightarrow>
     \<exists>k. (k, a) \<in> set (ar_responses s) \<and> rk_path k = url \<and> rk_range_begin k \<in> {None, Some 0, rb}"
  by (induction s encs url rb rule: get_encoded_asset.induct)
    (force simp: request_key_new_def split: option.splits if_splits dest: map_of_SomeD)+

lemma encoded_fallback_from:
  "get_encoded_fallback_asset s encs scope = Some a \<Longrightarrow>
     \<exists>k. (k, a) \<in> set (ar_fallback_responses s) \<and> rk_range_begin k = None"
  by (induction s encs scope rule: get_encoded_fallback_asset.induct)
    (force simp: request_key_new_def split: option.splits dest: map_of_SomeD)+

lemma fallback_loop_from:
  "fallback_loop s encs scopes = Some a \<Longrightarrow>
     \<exists>k. (k, a) \<in> set (ar_fallback_responses s) \<and> rk_range_begin k = None"
proof (induction s encs scopes rule: fallback_loop.induct)
  case (1 s encs scopes)
  have scope: "\<exists>k. (k, a) \<in> set (ar_fallback_responses s) \<and> rk_range_begin k = None"
    if "fallback_in_scope s encs scope = Some a" for scope
    using that encoded_fallback_from
    by (fastforce simp: fallback_in_scope_def request_key_new_def split: option.splits dest: map_of_SomeD)
  from "1.prems" show ?case
    by (subst (asm) fallback_loop.simps)
      (use scope "1.IH" in \<open>auto simp: Let_def split: if_splits option.splits\<close>)
qed

lemma get_asset_chosen:
  assumes "get_asset_for_request s url encs rb = Inr a"
  shows "chosen_from s url rb a"
  using assms encoded_asset_from [of s encs url rb a] fallback_loop_from [of s encs "butlast (split_on 47 url)" a]
  unfolding chosen_from_def
  by (fastforce simp: get_asset_for_request_def request_key_new_def Let_def ok_or_eq_Inr
      split: option.splits if_splits dest: map_of_SomeD)

subsection \<open>Requests that match a stored response\<close>

text \<open>A GET request without a body, whose range headers are those that the certification of a chunk
  covers.\<close>

definition asset_get :: "http_request \<Rightarrow> nat option \<Rightarrow> bool" where
  "asset_get request rb \<longleftrightarrow> req_method request = str_bytes ''GET'' \<and> req_body request = [] \<and>
     (case rb of
        Some n \<Rightarrow> n \<noteq> 0 \<longrightarrow>
          filter (\<lambda>(name, _). eq_ignore_ascii_case (str_bytes ''range'') name) (req_headers request) =
            [(str_bytes ''range'', str_bytes ''bytes='' @ decimal n @ str_bytes ''-'')]
      | None \<Rightarrow> True)"

lemma asset_get_same:
  assumes "asset_get request rb" and "b \<in> {None, Some 0, rb}"
    and "get_query lib request = Inr q" and "get_query lib (asset_request url (range_headers b)) = Inr q'"
  shows "same_request lib (full_request (asset_expr (range_headers b))) (asset_request url (range_headers b)) request"
proof -
  have "header_entries (req_headers request) (full_request (asset_expr (range_headers b))) =
      header_entries (range_headers b) (full_request (asset_expr (range_headers b)))"
  proof (cases "range_headers b")
    case Nil
    then show ?thesis by (simp add: header_entries_def asset_expr_def)
  next
    case (Cons h hs)
    with assms(2) obtain n where n: "rb = Some n" "b = Some n" "n \<noteq> 0"
      by (auto simp: range_headers_def split: option.splits if_splits)
    with assms(1) have "filter (\<lambda>(name, _). eq_ignore_ascii_case (str_bytes ''range'') name) (req_headers request) =
        range_headers b" by (simp add: asset_get_def range_headers_def)
    with n show ?thesis
      by (simp add: header_entries_def asset_expr_def range_headers_def case_prod_unfold)
  qed
  with assms show ?thesis by (simp add: same_request_def asset_get_def asset_request_def asset_expr_def
        no_query_certified)
qed

lemma range_expr_ok: "expr_ok (source_expr (asset_source url b r))"
  by (auto simp: asset_source_def asset_expr_def range_headers_def request_names_ok_def response_names_ok_def
      response_list_def split: option.split) (simp_all add: str_bytes_def str_ok_def ascii_alphanumeric_def)

subsection \<open>Acceptance\<close>

lemma chosen_certified:
  assumes "router_ok H lib s" and "all_certified s" and "chosen_from s url rb a"
  obtains u b where "b \<in> {None, Some 0, rb}"
    and "source_certification H (al_leb lib) (al_http lib) (al_lower lib) (asset_source u b (car_response a)) =
      Inr (entry_certification (car_tree_entry a))"
    and "entry_to_tree_path (car_tree_entry a) \<in> certified_paths (ar_tree s)"
    and "entry_path (car_tree_entry a) = Exact_Path url \<or> (\<exists>scope. entry_path (car_tree_entry a) = Wildcard_Path scope)"
proof -
  from assms(3) obtain k cp where k: "(k, a) \<in> set (ar_responses s) \<union> set (ar_fallback_responses s)"
    "stored_ok H lib cp k a" "rk_range_begin k \<in> {None, Some 0, rb}"
    "cp = Wildcard_Path \<or> cp = Exact_Path \<and> rk_path k = url"
    using assms(1) by (fastforce simp: chosen_from_def router_ok_def)
  from k(1) assms(2) have "entry_to_tree_path (car_tree_entry a) \<in> certified_paths (ar_tree s)"
    unfolding all_certified_def by fast
  with k that [of "rk_range_begin k"] show thesis by (auto simp: stored_ok_def)
qed

lemma served_accepted:
  fixes vl :: "('e, 'f, 'p::linorder, 'b, 'c, 'd) verify_lib" and lib :: "('g, 'm) asset_lib"
  assumes libs: "nom_documented (cl_nom (vl_cert vl))" "header_lib_documented (vl_header vl)"
      "cbor_documented enc" "b64_documented b64 (vl_b64 vl)" "lower_ascii (vl_lower vl)" "hash32 H"
    and same: "al_leb lib = vl_leb vl" "al_http lib = vl_http vl" "al_lower lib = vl_lower vl"
    and s: "router_ok H lib s" "all_certified s"
    and request: "get_path (vl_http vl) request = Inr url" "maybe_get_range_begin lib request = Inr rb"
      "asset_get request rb"
    and a: "get_asset_for_request s url (get_preferred_encodings lib request) rb =
        (Inr a :: 'm asset_error + certified_asset_response)"
      "\<And>scope. entry_path (car_tree_entry a) = Wildcard_Path scope \<Longrightarrow> routed (ar_tree s) url (Wildcard_Path scope)"
      "\<And>w. ct_witness H (ar_tree s) (car_tree_entry a) url = Some (Inr w) \<Longrightarrow> tree_small w"
    and ep: "\<forall>x \<in> set (to_expr_path (entry_path (car_tree_entry a))). utf8_valid x \<and> length x < 2 ^ 64"
      "length (to_expr_path (entry_path (car_tree_entry a))) < 2 ^ 64"
    and cert: "certificate_from_cbor (cl_nom (vl_cert vl)) dc = Inr cert"
      "certificate_verify H (vl_cert vl) cert canister_id key now offset c = Some (Inr (), c')"
      "lookup_path (cert_tree cert) [str_bytes ''canister'', canister_id, str_bytes ''certified_data''] =
         LR_Found (router_root_hash H s)"
    and min: "min_version \<le> 2"
  shows "\<exists>response info. serve_asset H lib b64 self_describe_tag enc s dc request = Some (Inr response) \<and>
    verify_request_response_pair H vl request response canister_id now offset key min_version c =
      Some (Inr info, c') \<and> vi_verification_version info = 2"
proof -
  let ?e = "car_tree_entry a" and ?r = "car_response a" and ?t = "ar_tree s"
  obtain u b where b: "b \<in> {None, Some 0, rb}"
    and src: "source_certification H (vl_leb vl) (vl_http vl) (vl_lower vl) (asset_source u b ?r) =
      Inr (entry_certification ?e)"
    and e: "entry_to_tree_path ?e \<in> certified_paths ?t"
    and path: "entry_path ?e = Exact_Path url \<or> (\<exists>scope. entry_path ?e = Wildcard_Path scope)"
    by (rule chosen_certified [OF s get_asset_chosen [OF a(1)]]) (simp add: same)
  have t: "ct_ok H ?t" using s(1) by (simp add: router_ok_def)
  have routed: "routed ?t url (entry_path ?e)" using path exact_routed [OF e] a(2) by auto
  from routed_witness [OF t routed e] obtain w where w: "ct_witness H ?t ?e url = Some (Inr w)" by blast
  from request(1) obtain q where q: "get_query (vl_http vl) request = Inr q"
    by (auto simp: get_path_def get_query_def and_then_eq_Inr)
  from src obtain q' where "get_query (vl_http vl) (asset_request u (range_headers b)) = Inr q'"
    by (auto simp: asset_source_def certification_full_def Let_def and_then_eq_Inr request_hash_def)
  from asset_get_same [OF request(3) b q this]
  have ans: "canister_answer (vl_http vl) (vl_lower vl) request ?r (asset_source u b ?r)"
    by (simp add: asset_source_def)
  have served: "serve_asset H lib b64 self_describe_tag enc s dc request =
      Some (Inr (add_v2_certificate_header b64 self_describe_tag enc dc ?r w (to_expr_path (entry_path ?e))))"
    using request(1,2) a(1) w by (simp add: serve_asset_def Let_def same)
  from cert(3) have root: "lookup_path (cert_tree cert) [str_bytes ''canister'', canister_id,
      str_bytes ''certified_data''] = LR_Found (ct_root_hash H ?t)"
    by (simp add: router_root_hash_def del: lookup_path.simps)
  from tree_response_accepted [OF libs t e src range_expr_ok ans request(1) routed w a(3) [OF w] ep cert(1,2) root min]
  show ?thesis using served by blast
qed


subsection \<open>An exchange\<close>

abbreviation example_asset :: asset where
  "example_asset \<equiv> asset_new (str_bytes ''/a'') [120]"

abbreviation example_ops :: "asset_op list" where
  "example_ops \<equiv> [Certify_Assets [example_asset] []]"

lemma example_asset: "asset_url example_asset = str_bytes ''/a''" "asset_path example_asset = str_bytes ''/a''"
  "asset_content example_asset = [120]"
  by (simp_all add: asset_new_def path_to_url_def str_bytes_def)

lemma example_router:
  obtains s x where "router_run tag_hash plain_asset_lib example_ops asset_router_new = Some s"
    and "ar_responses s = [(request_key_new (str_bytes ''/a'') None None, x)]"
    and "ct_run tag_hash [CtInsert (car_tree_entry x)] ct_default = Some (ar_tree s)"
    and "resp_body (car_response x) = [120]" and "entry_path (car_tree_entry x) = Exact_Path (str_bytes ''/a'')"
    and "\<exists>u v w. entry_certification (car_tree_entry x) = Full_Certification u v w \<and>
      length u = 32 \<and> length v = 32 \<and> length w = 32"
proof -
  let ?key = "request_key_new (str_bytes ''/a'') None None"
  have q: "get_query (al_http plain_asset_lib) (asset_request (asset_url example_asset) rhs) = Inr None" for rhs
    unfolding example_asset by (simp add: get_query_def asset_request_def plain_http_def str_bytes_def)
  have "\<exists>x. prepare_static_asset tag_hash plain_asset_lib example_asset None [] None None = Some (Inr x) \<and>
      resp_body (car_response x) = asset_body (asset_content example_asset) None \<and>
      (None \<noteq> (None :: nat option) \<longrightarrow> resp_status (car_response x) = 206)"
    by (rule prepare_static_Ok [OF _ _ q]) (simp_all add: no_expression_header_def)
  then obtain x where x: "prepare_static_asset tag_hash plain_asset_lib example_asset None [] None None = Some (Inr x)"
    "resp_body (car_response x) = [120]" by (auto simp: example_asset)
  from prepare_static_stored [OF x(1), of None]
  have stored: "stored_ok tag_hash plain_asset_lib Exact_Path ?key x" by (simp add: example_asset)
  from insert_total [OF ct_ok_default, of tag_hash "car_tree_entry x"] obtain t where
    t: "ct_insert tag_hash ct_default (car_tree_entry x) = Some t" by blast
  let ?s = "\<lparr>ar_tree = t, ar_responses = [(?key, x)], ar_fallback_responses = []\<rparr>"
  have "certify_asset_impl tag_hash plain_asset_lib example_asset None None asset_router_new = Some (Inr (), ?s)"
    using x(1) t by (simp add: certify_asset_impl_def insert_static_asset_def example_asset ASSET_CHUNK_SIZE_def
        seq_def pure_def prepared_def encoding_str_def store_response_def tree_insert_def update_partial_def
        responses_insert_def update_def asset_router_new_def)
  then have "router_run tag_hash plain_asset_lib example_ops asset_router_new = Some ?s"
    by (simp add: certify_assets_def each_asset_def each_encoding_def each_redirect_def collect_assets_def
        seq_def pure_def Let_def)
  moreover have "\<exists>u v w. entry_certification (car_tree_entry x) = Full_Certification u v w \<and>
      length u = 32 \<and> length v = 32 \<and> length w = 32"
    using stored by (auto simp: stored_ok_def asset_source_def certification_full_def Let_def and_then_eq_Inr
        sha_hash_def response_hash_def dest!: request_hash_length [OF hash32_tag_hash] sym [of "Full_Certification _ _ _"])
  ultimately show thesis using that [of ?s x] t x(2) stored
    by (auto simp: stored_ok_def request_key_new_def)
qed

lemma example_chain_small:
  assumes "length u = 32" and "length v = 32" and "length w = 32"
  shows "tree_small (Labeled PATH_PREFIX (label_chain ([97] # [EXACT_PATH_TERMINATOR, u, v, w]) (Leaf [])))"
  using assms by (simp add: PATH_PREFIX_def str_bytes_def del: terminators(3))


end
