(* ===== verification/Certificate_Serde.thy ===== *)
theory Certificate_Serde
  imports Cbor_Roundtrip "HOL-Library.Multiset"
begin

text \<open>
  Deserialisation of certificates and delegations (\<^verbatim>\<open>mod serde_impl\<close> of
  \<^verbatim>\<open>packages/ic-certification/src/certificate.rs\<close>): the visitors that read them from a sequence, with
  their fields in the order of the structure, or from a map, in any order. A map is the list of its
  entries as the format delivers them; the key is read before the value.
\<close>

subsection \<open>Fields\<close>

datatype certificate_field = CF_Tree | CF_Signature | CF_Delegation

datatype delegation_field = DF_SubnetId | DF_Certificate

definition certificate_field :: "bytes \<Rightarrow> de_error + certificate_field" where
  "certificate_field key =
     (if key = str_bytes ''tree'' then Inr CF_Tree
      else if key = str_bytes ''signature'' then Inr CF_Signature
      else if key = str_bytes ''delegation'' then Inr CF_Delegation
      else Inl (Unknown_Field key))"

definition delegation_field :: "bytes \<Rightarrow> de_error + delegation_field" where
  "delegation_field key =
     (if key = str_bytes ''subnet_id'' then Inr DF_SubnetId
      else if key = str_bytes ''certificate'' then Inr DF_Certificate
      else Inl (Unknown_Field key))"

text \<open>The value of a field goes into its slot, which must be free.\<close>

definition fill_slot ::
  "bytes \<Rightarrow> (serde \<Rightarrow> de_error + 'a) \<Rightarrow> 'a option \<Rightarrow> serde \<Rightarrow> de_error + 'a option" where
  "fill_slot name de slot v =
     (if slot \<noteq> None then Inl (Duplicate_Field name) else and_then (de v) (\<lambda>x. Inr (Some x)))"

subsection \<open>Delegations\<close>

fun delegation_visit_seq :: "serde list \<Rightarrow> de_error + delegation" where
  "delegation_visit_seq s =
     and_then (next_element de_bytes 0 s) (\<lambda>(sid, s).
     and_then (next_element de_bytes 1 s) (\<lambda>(cert, s).
     Inr \<lparr>subnet_id = sid, delegation_certificate = cert\<rparr>))"

record delegation_slots =
  ds_subnet_id :: "bytes option"
  ds_certificate :: "bytes option"

fun delegation_fields :: "(bytes \<times> serde) list \<Rightarrow> delegation_slots \<Rightarrow> de_error + delegation_slots" where
  "delegation_fields [] ds = Inr ds"
| "delegation_fields ((key, v) # fs) ds =
     and_then (delegation_field key) (\<lambda>field. case field of
       DF_SubnetId \<Rightarrow>
         and_then (fill_slot (str_bytes ''subnet_id'') de_bytes (ds_subnet_id ds) v) (\<lambda>slot.
         delegation_fields fs (ds\<lparr>ds_subnet_id := slot\<rparr>))
     | DF_Certificate \<Rightarrow>
         and_then (fill_slot (str_bytes ''certificate'') de_bytes (ds_certificate ds) v) (\<lambda>slot.
         delegation_fields fs (ds\<lparr>ds_certificate := slot\<rparr>)))"

definition delegation_visit_map :: "(bytes \<times> serde) list \<Rightarrow> de_error + delegation" where
  "delegation_visit_map fs =
     and_then (delegation_fields fs \<lparr>ds_subnet_id = None, ds_certificate = None\<rparr>) (\<lambda>ds.
     and_then (ok_or (ds_subnet_id ds) (Missing_Field (str_bytes ''subnet_id''))) (\<lambda>sid.
     and_then (ok_or (ds_certificate ds) (Missing_Field (str_bytes ''certificate''))) (\<lambda>cert.
     Inr \<lparr>subnet_id = sid, delegation_certificate = cert\<rparr>)))"

fun delegation_deserialize :: "serde \<Rightarrow> de_error + delegation" where
  "delegation_deserialize (SStruct fs) = delegation_visit_map fs"
| "delegation_deserialize (SSeq s) = delegation_visit_seq s"
| "delegation_deserialize _ = Inl Invalid_Type"

subsection \<open>Certificates\<close>

text \<open>\<^verbatim>\<open>seq.next_element()?\<close> without a check of its result: at the end of the sequence there is no
  delegation.\<close>

fun certificate_visit_seq :: "serde list \<Rightarrow> de_error + certificate" where
  "certificate_visit_seq s =
     and_then (next_element hash_tree_deserialize 0 s) (\<lambda>(tree, s).
     and_then (next_element de_bytes 1 s) (\<lambda>(sig, s).
     and_then (case s of [] \<Rightarrow> Inr None | x # _ \<Rightarrow> and_then (delegation_deserialize x) (\<lambda>d. Inr (Some d)))
       (\<lambda>d. Inr \<lparr>cert_tree = tree, cert_signature = sig, cert_delegation = d\<rparr>)))"

record certificate_slots =
  cs_tree :: "hash_tree option"
  cs_signature :: "bytes option"
  cs_delegation :: "delegation option"

text \<open>The error for a second delegation names the signature.\<close>

fun certificate_fields ::
  "(bytes \<times> serde) list \<Rightarrow> certificate_slots \<Rightarrow> de_error + certificate_slots" where
  "certificate_fields [] cs = Inr cs"
| "certificate_fields ((key, v) # fs) cs =
     and_then (certificate_field key) (\<lambda>field. case field of
       CF_Tree \<Rightarrow>
         and_then (fill_slot (str_bytes ''tree'') hash_tree_deserialize (cs_tree cs) v) (\<lambda>slot.
         certificate_fields fs (cs\<lparr>cs_tree := slot\<rparr>))
     | CF_Signature \<Rightarrow>
         and_then (fill_slot (str_bytes ''signature'') de_bytes (cs_signature cs) v) (\<lambda>slot.
         certificate_fields fs (cs\<lparr>cs_signature := slot\<rparr>))
     | CF_Delegation \<Rightarrow>
         and_then (fill_slot (str_bytes ''signature'') delegation_deserialize (cs_delegation cs) v) (\<lambda>slot.
         certificate_fields fs (cs\<lparr>cs_delegation := slot\<rparr>)))"

definition certificate_visit_map :: "(bytes \<times> serde) list \<Rightarrow> de_error + certificate" where
  "certificate_visit_map fs =
     and_then (certificate_fields fs \<lparr>cs_tree = None, cs_signature = None, cs_delegation = None\<rparr>) (\<lambda>cs.
     and_then (ok_or (cs_tree cs) (Missing_Field (str_bytes ''tree''))) (\<lambda>tree.
     and_then (ok_or (cs_signature cs) (Missing_Field (str_bytes ''signature''))) (\<lambda>sig.
     Inr \<lparr>cert_tree = tree, cert_signature = sig, cert_delegation = cs_delegation cs\<rparr>)))"

fun certificate_deserialize :: "serde \<Rightarrow> de_error + certificate" where
  "certificate_deserialize (SStruct fs) = certificate_visit_map fs"
| "certificate_deserialize (SSeq s) = certificate_visit_seq s"
| "certificate_deserialize _ = Inl Invalid_Type"

subsection \<open>What is accepted\<close>

text \<open>A field read into a slot: absent and left as it was, or present once and read.\<close>

definition slot_read ::
  "(serde \<Rightarrow> de_error + 'a) \<Rightarrow> bytes \<Rightarrow> (bytes \<times> serde) list \<Rightarrow> 'a option \<Rightarrow> 'a option \<Rightarrow> bool" where
  "slot_read de name fs slot slot' \<longleftrightarrow>
     (case map_of fs name of
        None \<Rightarrow> slot' = slot
      | Some v \<Rightarrow> slot = None \<and> (\<exists>x. de v = Inr x \<and> slot' = Some x))"

lemma fill_slot_Ok:
  "fill_slot name de slot v = Inr slot' \<longleftrightarrow> slot = None \<and> (\<exists>x. de v = Inr x \<and> slot' = Some x)"
  by (auto simp: fill_slot_def and_then_eq_Inr)

lemma slot_read_simps [simp]:
  "slot_read de name [] slot slot' \<longleftrightarrow> slot' = slot"
  "key \<noteq> name \<Longrightarrow> slot_read de name ((key, v) # fs) slot slot' = slot_read de name fs slot slot'"
  "slot_read de name ((name, v) # fs) slot slot' \<longleftrightarrow> slot = None \<and> (\<exists>x. de v = Inr x \<and> slot' = Some x)"
  by (auto simp: slot_read_def)

text \<open>A slot that is filled stays so, and its field does not come again.\<close>

lemma slot_read_filled:
  "slot_read de name fs (Some x) slot' \<longleftrightarrow> name \<notin> set (map fst fs) \<and> slot' = Some x"
  by (auto simp: slot_read_def map_of_eq_None_iff split: option.splits dest: map_of_SomeD)
     (auto dest!: map_of_SomeD simp: rev_image_eqI)

lemma absent_keyE: "(name, v) \<in> set fs \<Longrightarrow> name \<notin> fst ` set fs \<Longrightarrow> P"
  by force

lemma delegation_fields_Ok:
  "delegation_fields fs ds = Inr ds' \<longleftrightarrow>
     distinct (map fst fs) \<and> set (map fst fs) \<subseteq> {str_bytes ''subnet_id'', str_bytes ''certificate''} \<and>
     slot_read de_bytes (str_bytes ''subnet_id'') fs (ds_subnet_id ds) (ds_subnet_id ds') \<and>
     slot_read de_bytes (str_bytes ''certificate'') fs (ds_certificate ds) (ds_certificate ds')"
proof (induction fs arbitrary: ds)
  case (Cons f fs)
  obtain key v where f: "f = (key, v)" by (cases f)
  consider "key = str_bytes ''subnet_id''" | "key = str_bytes ''certificate''"
    | "key \<notin> {str_bytes ''subnet_id'', str_bytes ''certificate''}" by blast
  then show ?case
  proof cases
    case 1
    then have "delegation_field key = Inr DF_SubnetId" by (simp add: delegation_field_def)
    with 1 show ?thesis by (auto simp: f Cons.IH and_then_eq_Inr fill_slot_Ok slot_read_filled elim: absent_keyE)
  next
    case 2
    then have "delegation_field key = Inr DF_Certificate" by (simp add: delegation_field_def)
    with 2 show ?thesis by (auto simp: f Cons.IH and_then_eq_Inr fill_slot_Ok slot_read_filled elim: absent_keyE)
  qed (auto simp: f delegation_field_def)
qed auto

lemma certificate_fields_Ok:
  "certificate_fields fs cs = Inr cs' \<longleftrightarrow>
     distinct (map fst fs) \<and>
     set (map fst fs) \<subseteq> {str_bytes ''tree'', str_bytes ''signature'', str_bytes ''delegation''} \<and>
     slot_read hash_tree_deserialize (str_bytes ''tree'') fs (cs_tree cs) (cs_tree cs') \<and>
     slot_read de_bytes (str_bytes ''signature'') fs (cs_signature cs) (cs_signature cs') \<and>
     slot_read delegation_deserialize (str_bytes ''delegation'') fs (cs_delegation cs) (cs_delegation cs')"
proof (induction fs arbitrary: cs)
  case (Cons f fs)
  obtain key v where f: "f = (key, v)" by (cases f)
  consider "key = str_bytes ''tree''" | "key = str_bytes ''signature''" | "key = str_bytes ''delegation''"
    | "key \<notin> {str_bytes ''tree'', str_bytes ''signature'', str_bytes ''delegation''}" by blast
  then show ?case
  proof cases
    case 1
    then have "certificate_field key = Inr CF_Tree" by (simp add: certificate_field_def)
    with 1 show ?thesis by (auto simp: f Cons.IH and_then_eq_Inr fill_slot_Ok slot_read_filled elim: absent_keyE)
  next
    case 2
    then have "certificate_field key = Inr CF_Signature" by (simp add: certificate_field_def)
    with 2 show ?thesis by (auto simp: f Cons.IH and_then_eq_Inr fill_slot_Ok slot_read_filled elim: absent_keyE)
  next
    case 3
    then have "certificate_field key = Inr CF_Delegation" by (simp add: certificate_field_def)
    with 3 show ?thesis by (auto simp: f Cons.IH and_then_eq_Inr fill_slot_Ok slot_read_filled elim: absent_keyE)
  qed (auto simp: f certificate_field_def)
qed auto

text \<open>What a map must hold for a structure to be read: its keys are names of fields, each once, and the
  values of the mandatory fields are read.\<close>

definition map_reads ::
  "bytes list \<Rightarrow> (bytes \<times> serde) list \<Rightarrow> bool" where
  "map_reads names fs \<longleftrightarrow> distinct (map fst fs) \<and> set (map fst fs) \<subseteq> set names"

definition mandatory :: "(serde \<Rightarrow> de_error + 'a) \<Rightarrow> bytes \<Rightarrow> (bytes \<times> serde) list \<Rightarrow> 'a \<Rightarrow> bool" where
  "mandatory de name fs x \<longleftrightarrow> (\<exists>v. map_of fs name = Some v \<and> de v = Inr x)"

lemma slot_read_Some: "slot_read de name fs None (Some x) \<longleftrightarrow> mandatory de name fs x"
  by (auto simp: slot_read_def mandatory_def split: option.splits)

lemma delegation_visit_map_Ok:
  "delegation_visit_map fs = Inr d \<longleftrightarrow>
     map_reads [str_bytes ''subnet_id'', str_bytes ''certificate''] fs \<and>
     mandatory de_bytes (str_bytes ''subnet_id'') fs (subnet_id d) \<and>
     mandatory de_bytes (str_bytes ''certificate'') fs (delegation_certificate d)"
proof -
  have "delegation_visit_map fs = Inr d \<longleftrightarrow>
      delegation_fields fs \<lparr>ds_subnet_id = None, ds_certificate = None\<rparr> =
        Inr \<lparr>ds_subnet_id = Some (subnet_id d), ds_certificate = Some (delegation_certificate d)\<rparr>"
    by (auto simp: delegation_visit_map_def and_then_eq_Inr ok_or_eq_Inr)
  then show ?thesis by (simp add: delegation_fields_Ok slot_read_Some map_reads_def)
qed

lemma certificate_visit_map_Ok:
  "certificate_visit_map fs = Inr c \<longleftrightarrow>
     map_reads [str_bytes ''tree'', str_bytes ''signature'', str_bytes ''delegation''] fs \<and>
     mandatory hash_tree_deserialize (str_bytes ''tree'') fs (cert_tree c) \<and>
     mandatory de_bytes (str_bytes ''signature'') fs (cert_signature c) \<and>
     map_option delegation_deserialize (map_of fs (str_bytes ''delegation'')) =
       map_option Inr (cert_delegation c)"
proof -
  have "certificate_visit_map fs = Inr c \<longleftrightarrow>
      certificate_fields fs \<lparr>cs_tree = None, cs_signature = None, cs_delegation = None\<rparr> =
        Inr \<lparr>cs_tree = Some (cert_tree c), cs_signature = Some (cert_signature c),
          cs_delegation = cert_delegation c\<rparr>"
    by (auto simp: certificate_visit_map_def and_then_eq_Inr ok_or_eq_Inr)
  moreover have "slot_read delegation_deserialize (str_bytes ''delegation'') fs None (cert_delegation c) \<longleftrightarrow>
      map_option delegation_deserialize (map_of fs (str_bytes ''delegation'')) =
        map_option Inr (cert_delegation c)"
    by (cases "cert_delegation c") (auto simp: slot_read_def split: option.splits)
  ultimately show ?thesis by (simp add: certificate_fields_Ok slot_read_Some map_reads_def)
qed

text \<open>Reading back, from the entries in any order.\<close>

lemma map_of_mset:
  assumes "distinct (map fst fs)" and "mset gs = mset fs"
  shows "map_of gs = map_of fs" and "distinct (map fst gs)"
proof -
  have "mset (map fst gs) = mset (map fst fs)" using assms(2) by simp
  then show "distinct (map fst gs)" using assms(1) by (metis mset_eq_imp_distinct_iff)
  then show "map_of gs = map_of fs"
    using assms by (auto simp: map_of_inject_set dest: mset_eq_setD)
qed

lemma delegation_read_back: "delegation_deserialize (delegation_serialize d) = Inr d"
  by (simp add: delegation_serialize_def delegation_visit_map_Ok map_reads_def mandatory_def)

lemma certificate_read_back:
  assumes "well_sized (cert_tree c)" and "certificate_serialize c = SStruct fs" and "mset gs = mset fs"
  shows "certificate_deserialize (SStruct gs) = Inr c"
proof -
  have fs: "distinct (map fst fs)" "certificate_visit_map fs = Inr c"
    using assms(1,2) by (auto simp: certificate_serialize_def certificate_visit_map_Ok map_reads_def
        mandatory_def deserialize_serialize delegation_read_back split: option.splits)
  note gs = map_of_mset [OF fs(1) assms(3)]
  moreover have "set gs = set fs" using assms(3) by (metis set_mset_mset)
  ultimately show ?thesis
    using fs(2) by (auto simp: certificate_visit_map_Ok map_reads_def mandatory_def dest: map_of_SomeD)
qed

text \<open>A second delegation is rejected with the name of another field.\<close>

lemma second_delegation_error:
  assumes "delegation_deserialize v = Inr d"
  shows "certificate_deserialize (SStruct
    [(str_bytes ''delegation'', v), (str_bytes ''delegation'', w)]) =
    Inl (Duplicate_Field (str_bytes ''signature''))"
  using assms by (simp add: certificate_visit_map_def certificate_field_def fill_slot_def)

subsection \<open>Properties\<close>



end
