(* ===== verification/Parser_Fuel.thy ===== *)
theory Parser_Fuel
  imports Cbor_Roundtrip Cel_Roundtrip
begin

text \<open>
  The recursive parsers end on every input: above the length of the input more fuel changes nothing,
  and a parser never runs out of it. The loops of \<^verbatim>\<open>cbor_parser.rs\<close> and \<^verbatim>\<open>cel/parser.rs\<close> have no fuel;
  this is what makes the fuel of \<open>cbor_parser\<close> and \<open>cel_value\<close> a bound on their recursion and not
  a limit of the model.
\<close>

text \<open>On inputs below a length two parsers agree and do not give a certain error.\<close>

definition adequate :: "nat \<Rightarrow> 'e \<Rightarrow> (bytes \<Rightarrow> 'e + 'a) \<Rightarrow> (bytes \<Rightarrow> 'e + 'a) \<Rightarrow> bool" where
  "adequate n out p q \<longleftrightarrow> (\<forall>i. length i < n \<longrightarrow> q i = p i \<and> p i \<noteq> Inl out)"

lemma adequateD: "adequate n out p q \<Longrightarrow> length i < n \<Longrightarrow> q i = p i \<and> p i \<noteq> Inl out"
  unfolding adequate_def by blast

subsection \<open>CBOR\<close>

lemma leaf_errors:
  assumes "nom_documented nm"
  shows "be_u8 nm i \<noteq> Inl Out_Of_Fuel" "be_u16 nm i \<noteq> Inl Out_Of_Fuel" "be_u32 nm i \<noteq> Inl Out_Of_Fuel"
    "be_u64 nm i \<noteq> Inl Out_Of_Fuel" "nom_take nm n i \<noteq> Inl Out_Of_Fuel" "nom_eof nm i \<noteq> Inl Out_Of_Fuel"
proof -
  have fixed: "p i \<noteq> Inl Out_Of_Fuel"
    if "\<forall>i. if k \<le> length i then p i = Inr (drop k i, g i) else (\<exists>e. p i = Inl (Nom_Error e))"
    for k g and p :: "('e, 'x) parser" and i
    using spec [OF that, of i] by (auto split: if_splits)
  note d = assms [unfolded nom_documented_def]
  show "be_u8 nm i \<noteq> Inl Out_Of_Fuel" using d by (cases i) auto
  have "\<forall>i. if 2 \<le> length i then be_u16 nm i = Inr (drop 2 i, of_nat (be_nat (take 2 i)))
      else (\<exists>e. be_u16 nm i = Inl (Nom_Error e))" using d by (elim conjE)
  then show "be_u16 nm i \<noteq> Inl Out_Of_Fuel" by (rule fixed)
  have "\<forall>i. if 4 \<le> length i then be_u32 nm i = Inr (drop 4 i, of_nat (be_nat (take 4 i)))
      else (\<exists>e. be_u32 nm i = Inl (Nom_Error e))" using d by (elim conjE)
  then show "be_u32 nm i \<noteq> Inl Out_Of_Fuel" by (rule fixed)
  have "\<forall>i. if 8 \<le> length i then be_u64 nm i = Inr (drop 8 i, of_nat (be_nat (take 8 i)))
      else (\<exists>e. be_u64 nm i = Inl (Nom_Error e))" using d by (elim conjE)
  then show "be_u64 nm i \<noteq> Inl Out_Of_Fuel" by (rule fixed)
  have "\<forall>n i. if n \<le> length i then nom_take nm n i = Inr (drop n i, take n i)
      else (\<exists>e. nom_take nm n i = Inl (Nom_Error e))" using d by (elim conjE)
  then have "\<forall>i. if n \<le> length i then nom_take nm n i = Inr (drop n i, take n i)
      else (\<exists>e. nom_take nm n i = Inl (Nom_Error e))" by blast
  then show "nom_take nm n i \<noteq> Inl Out_Of_Fuel" by (rule fixed)
  from d have "nom_eof nm [] = Inr ([], [])" "i \<noteq> [] \<longrightarrow> (\<exists>e. nom_eof nm i = Inl (Nom_Error e))"
    by blast+
  then show "nom_eof nm i \<noteq> Inl Out_Of_Fuel" by (cases "i = []") auto
qed

lemma head_errors:
  assumes "nom_documented nm"
  shows "peek_cbor_type nm i \<noteq> Inl Out_Of_Fuel" and "extract_cbor_value nm i \<noteq> Inl Out_Of_Fuel"
  using leaf_errors(1-4) [OF assms]
  by (auto simp: peek_cbor_type_def extract_cbor_type_def extract_cbor_value_def extract_cbor_info_def
      and_then_eq_Inl split: if_splits)

lemma adequate_count:
  assumes "adequate n Out_Of_Fuel p q" and "consuming p"
  shows "adequate n Out_Of_Fuel (count_spec p k) (count_spec q k)"
  unfolding adequate_def
proof (intro allI impI)
  fix i :: bytes
  assume "length i < n"
  then show "count_spec q k i = count_spec p k i \<and> count_spec p k i \<noteq> Inl Out_Of_Fuel"
  proof (induction k arbitrary: i)
    case (Suc k)
    note pi = adequateD [OF assms(1) Suc.prems]
    show ?case
    proof (cases "p i")
      case (Inl e)
      with pi show ?thesis by auto
    next
      case (Inr x)
      then obtain j v where j: "p i = Inr (j, v)" by (cases x) auto
      with consumingD [OF assms(2) j] Suc.prems Suc.IH [of j] pi show ?thesis
        by (auto simp: and_then_eq_Inl)
    qed
  qed simp
qed

lemma adequate_fold:
  assumes "adequate n Out_Of_Fuel p q" and "consuming p"
  shows "length i < n \<Longrightarrow> fold_spec q k acc f i = fold_spec p k acc f i \<and> fold_spec p k acc f i \<noteq> Inl Out_Of_Fuel"
proof (induction k arbitrary: i acc)
  case (Suc k)
  note pi = adequateD [OF assms(1) Suc.prems]
  show ?case
  proof (cases "p i")
    case (Inl e)
    with pi show ?thesis by (cases e) auto
  next
    case (Inr x)
    then obtain j v where j: "p i = Inr (j, v)" by (cases x) auto
    with consumingD [OF assms(2) j] Suc.prems Suc.IH [of j "f acc v"] pi show ?thesis by simp
  qed
qed simp

lemma adequate_pair:
  assumes "adequate n Out_Of_Fuel p q" and "consuming p"
  shows "adequate n Out_Of_Fuel (extract_key_val_pair nm p) (extract_key_val_pair nm q)"
  unfolding adequate_def
proof (intro allI impI)
  fix i :: bytes
  assume i: "length i < n"
  note pi = adequateD [OF assms(1) i]
  show "extract_key_val_pair nm q i = extract_key_val_pair nm p i \<and>
    extract_key_val_pair nm p i \<noteq> Inl Out_Of_Fuel"
  proof (cases "p i")
    case (Inl e)
    with pi show ?thesis by (auto simp: extract_key_val_pair_def)
  next
    case (Inr x)
    then obtain j key where j: "p i = Inr (j, key)" by (cases x) auto
    with consumingD [OF assms(2) j] i adequateD [OF assms(1), of j] pi show ?thesis
      by (auto simp: extract_key_val_pair_def and_then_eq_Inl split: cbor_value.splits option.splits)
  qed
qed

lemma cbor_adequate:
  assumes nm: "nom_documented nm"
  shows "n \<le> f \<Longrightarrow> n \<le> g \<Longrightarrow> adequate n Out_Of_Fuel (cbor_parser nm f) (cbor_parser nm g)"
proof (induction n arbitrary: f g)
  case (Suc n)
  from Suc.prems obtain f' g' where fg: "f = Suc f'" "g = Suc g'" "n \<le> f'" "n \<le> g'"
    by (metis Suc_le_D Suc_le_mono)
  let ?p = "cbor_parser nm f'" and ?q = "cbor_parser nm g'"
  have pq: "adequate n Out_Of_Fuel ?p ?q" by (rule Suc.IH [OF fg(3,4)])
  note cp = cbor_parser_consuming [OF nm]
  have fold: "fold_many_m_n nm 0 k (extract_key_val_pair nm (cbor_parser nm h)) acc u i =
      fold_spec (extract_key_val_pair nm (cbor_parser nm h)) k acc u i" for h k acc u i
    by (rule nom_others(4) [OF nm]) (rule consumingD [OF extract_key_val_consuming [OF cp]])
  note rec = adequateD [OF pq] adequateD [OF adequate_count [OF pq cp]]
    adequate_fold [OF adequate_pair [OF pq cp] extract_key_val_consuming [OF cp]]
  show ?case
    unfolding adequate_def
  proof (intro allI impI)
    fix i :: bytes
    assume i: "length i < Suc n"
    show "cbor_parser nm g i = cbor_parser nm f i \<and> cbor_parser nm f i \<noteq> Inl Out_Of_Fuel"
    proof (cases "peek_cbor_type nm i")
      case (Inl e)
      with head_errors(1) [OF nm, of i] show ?thesis by (auto simp: fg(1,2))
    next
      case (Inr x)
      then obtain t where t: "peek_cbor_type nm i = Inr (i, t)"
        by (auto simp: peek_cbor_type_def and_then_eq_Inr)
      show ?thesis
      proof (cases "extract_cbor_value nm i")
        case (Inl e)
        with t head_errors(2) [OF nm, of i] show ?thesis by (auto simp: fg(1,2))
      next
        case (Inr y)
        then obtain j v where j: "extract_cbor_value nm i = Inr (j, v)" by (cases y) auto
        with i consumingD [OF extract_cbor_value_consuming [OF nm] j] have "length j < n" by simp
        note rec_j = rec [OF this]
        show ?thesis
          by (simp add: fg(1,2) t j fold nom_others(3) [OF nm] and_then_eq_Inl rec_j leaf_errors(5) [OF nm]
              split: prod.splits)
      qed
    qed
  qed
qed (simp add: adequate_def)

subsection \<open>CEL\<close>

abbreviation cel_adequate :: "nat \<Rightarrow> ('e, 'a) str_parser \<Rightarrow> ('e, 'a) str_parser \<Rightarrow> bool" where
  "cel_adequate n \<equiv> adequate n Str_Out_Of_Fuel"

lemma char_errors:
  assumes "cel_lib_documented nm" and "c \<le> 0x7F"
  shows "nom_char nm c i \<noteq> Inl Str_Out_Of_Fuel"
    and "trim_whitespace nm (nom_char nm c) i \<noteq> Inl Str_Out_Of_Fuel"
proof -
  have char: "nom_char nm c i \<noteq> Inl Str_Out_Of_Fuel" for i
    using doc_char(1) [OF assms] doc_char(2) [OF assms(1), of i c]
    by (cases "i = [] \<or> hd i \<noteq> c") (auto simp: neq_Nil_conv)
  then show "nom_char nm c i \<noteq> Inl Str_Out_Of_Fuel"
    "trim_whitespace nm (nom_char nm c) i \<noteq> Inl Str_Out_Of_Fuel"
    by (simp_all add: trim_whitespace_def doc_leaves [OF assms(1)])
qed

lemma adequate_trim:
  assumes "cel_lib_documented nm" and "cel_adequate n p q"
  shows "cel_adequate n (trim_whitespace nm p) (trim_whitespace nm q)"
  unfolding adequate_def
proof (intro allI impI)
  fix i :: bytes
  assume "length i < n"
  then have "length (dropWhile is_space i) < n" using length_dropWhile_space le_less_trans by blast
  from adequateD [OF assms(2) this]
  show "trim_whitespace nm q i = trim_whitespace nm p i \<and> trim_whitespace nm p i \<noteq> Inl Str_Out_Of_Fuel"
    by (simp add: trim_whitespace_def doc_leaves [OF assms(1)])
qed

lemma cut_errors: "cut r = Inl Str_Out_Of_Fuel \<longleftrightarrow> r = Inl Str_Out_Of_Fuel"
  by (cases r rule: cut.cases) auto

lemma adequate_drop_separators:
  assumes D: "cel_lib_documented nm" and c: "c \<le> 0x7F" "d \<le> 0x7F" and pq: "cel_adequate n p q"
  shows "cel_adequate (Suc n) (drop_separators nm c d p) (drop_separators nm c d q)"
  unfolding adequate_def
proof (intro allI impI)
  fix i :: bytes
  assume i: "length i < Suc n"
  show "drop_separators nm c d q i = drop_separators nm c d p i \<and> drop_separators nm c d p i \<noteq> Inl Str_Out_Of_Fuel"
  proof (cases "trim_whitespace nm (nom_char nm c) i")
    case (Inl e)
    with char_errors(2) [OF D c(1), of i] show ?thesis by (auto simp: drop_separators_def)
  next
    case (Inr x)
    then obtain j y where j: "trim_whitespace nm (nom_char nm c) i = Inr (j, y)" by (cases x) auto
    then have "length j < length i"
      using consumes_trim [OF D consumes_char [OF D c(1)]] by (auto simp: consumes_def)
    with i adequateD [OF pq, of j] have "q j = p j" "p j \<noteq> Inl Str_Out_Of_Fuel" by simp_all
    with j char_errors(2) [OF D c(2)] show ?thesis
      by (auto simp: drop_separators_def cut_errors and_then_eq_Inl)
  qed
qed

lemma adequate_list_tail:
  assumes sep: "consumes sep" "\<And>i. sep i \<noteq> Inl Str_Out_Of_Fuel" and p: "shrinks p" "cel_adequate n p q"
  shows "length i < n \<Longrightarrow> list_tail k sep q i = list_tail k sep p i \<and> list_tail k sep p i \<noteq> Inl Str_Out_Of_Fuel"
proof (induction k arbitrary: i)
  case (Suc k)
  show ?case
  proof (cases "sep i")
    case (Inl e)
    with sep(2) [of i] show ?thesis by (cases e) auto
  next
    case (Inr x)
    then obtain j y where j: "sep i = Inr (j, y)" by (cases x) auto
    with sep(1) Suc.prems have "length j < n" by (auto simp: consumes_def intro: less_trans)
    note pj = adequateD [OF p(2) this]
    show ?thesis
    proof (cases "p j")
      case (Inl e)
      with j pj show ?thesis by (cases e) auto
    next
      case (Inr z)
      then obtain l v where l: "p j = Inr (l, v)" by (cases z) auto
      with p(1) \<open>length j < n\<close> have "length l < n" by (auto simp: shrinks_def intro: le_less_trans)
      with Suc.IH [of l] j l pj show ?thesis by (auto simp: and_then_eq_Inl)
    qed
  qed
qed simp

lemma adequate_list:
  assumes "consumes sep" and "\<And>i. sep i \<noteq> Inl Str_Out_Of_Fuel" and p: "shrinks p" "cel_adequate n p q"
  shows "cel_adequate n (list_spec sep p) (list_spec sep q)"
  unfolding adequate_def
proof (intro allI impI)
  fix i :: bytes
  assume i: "length i < n"
  note pi = adequateD [OF p(2) i]
  show "list_spec sep q i = list_spec sep p i \<and> list_spec sep p i \<noteq> Inl Str_Out_Of_Fuel"
  proof (cases "p i")
    case (Inl e)
    with pi show ?thesis by (cases e) (auto simp: list_spec_def)
  next
    case (Inr x)
    then obtain j v where j: "p i = Inr (j, v)" by (cases x) auto
    with p(1) i have "length j < n" by (auto simp: shrinks_def intro: le_less_trans)
    with adequate_list_tail [OF assms] j pi show ?thesis by (auto simp: list_spec_def and_then_eq_Inl)
  qed
qed

lemma adequate_bind:
  assumes "shrinks p" and "\<And>i. p i \<noteq> Inl Str_Out_Of_Fuel" and "\<And>x. cel_adequate n (f x) (g x)"
  shows "cel_adequate n (\<lambda>i. and_then (p i) (\<lambda>(i, x). f x i)) (\<lambda>i. and_then (p i) (\<lambda>(i, x). g x i))"
  unfolding adequate_def
proof (intro allI impI)
  fix i :: bytes
  assume i: "length i < n"
  show "and_then (p i) (\<lambda>(i, x). g x i) = and_then (p i) (\<lambda>(i, x). f x i) \<and>
    and_then (p i) (\<lambda>(i, x). f x i) \<noteq> Inl Str_Out_Of_Fuel"
  proof (cases "p i")
    case (Inl e)
    with assms(2) [of i] show ?thesis by auto
  next
    case (Inr y)
    then obtain j x where j: "p i = Inr (j, x)" by (cases y) auto
    with assms(1) i have "length j < n" by (auto simp: shrinks_def intro: le_less_trans)
    with adequateD [OF assms(3), of j x] j show ?thesis by simp
  qed
qed

lemma adequate_result:
  "cel_adequate n p q \<Longrightarrow> cel_adequate n (\<lambda>i. and_then (p i) (\<lambda>(i, v). Inr (i, f v))) (\<lambda>i. and_then (q i) (\<lambda>(i, v). Inr (i, f v)))"
  "cel_adequate n p q \<Longrightarrow> cel_adequate n (map_parser f p) (map_parser f q)"
  by (auto simp: adequate_def map_parser_def and_then_eq_Inl)

lemma adequate_mono: "cel_adequate n p q \<Longrightarrow> m \<le> n \<Longrightarrow> cel_adequate m p q"
  by (simp add: adequate_def)

lemma or_else_errors: "or_else r s = Inl Str_Out_Of_Fuel \<Longrightarrow> r = Inl Str_Out_Of_Fuel \<or> s = Inl Str_Out_Of_Fuel"
  by (cases r rule: cut.cases) auto

lemma adequate_alternatives:
  "cel_adequate n p p' \<Longrightarrow> cel_adequate n q q' \<Longrightarrow> cel_adequate n (\<lambda>i. or_else (p i) (q i)) (\<lambda>i. or_else (p' i) (q' i))"
  by (auto simp: adequate_def dest!: or_else_errors)

lemma alt_done_errors: "alt_done nm i r = Inl Str_Out_Of_Fuel \<longleftrightarrow> r = Inl Str_Out_Of_Fuel"
  by (cases r rule: cut.cases) auto

lemma adequate_alt_done:
  "cel_adequate n p q \<Longrightarrow> cel_adequate n (\<lambda>i. alt_done nm i (p i)) (\<lambda>i. alt_done nm i (q i))"
  by (simp add: adequate_def alt_done_errors)

text \<open>The documentation of \<^verbatim>\<open>escaped\<close> says nothing of its errors; that they are not the one that stands
  for the end of the fuel is a condition.\<close>

definition no_fuel_error :: "'e cel_lib \<Rightarrow> bool" where
  "no_fuel_error nm \<longleftrightarrow> (\<forall>i. parse_str nm i \<noteq> Inl Str_Out_Of_Fuel)"

lemma cel_adequate:
  assumes D: "cel_lib_documented nm" and esc: "no_fuel_error nm"
  shows "n \<le> f \<Longrightarrow> n \<le> g \<Longrightarrow> cel_adequate n (cel_value nm f) (cel_value nm g)"
proof (induction n arbitrary: f g)
  case (Suc n)
  from Suc.prems obtain f' g' where fg: "f = Suc f'" "g = Suc g'" "n \<le> f'" "n \<le> g'"
    by (metis Suc_le_D Suc_le_mono)
  let ?p = "cel_value nm f'" and ?q = "cel_value nm g'" and ?comma = "trim_whitespace nm (nom_char nm 44)"
  have pq: "cel_adequate n ?p ?q" by (rule Suc.IH [OF fg(3,4)])
  note sv = shrinks_cel_value [OF D]
  have comma: "?comma i \<noteq> Inl Str_Out_Of_Fuel" for i by (rule char_errors(2) [OF D]) simp
  have ident: "shrinks (ident nm)" "ident nm i \<noteq> Inl Str_Out_Of_Fuel" for i
    using shrinks_take_while [OF D] by (simp_all add: ident_def doc_leaves [OF D])
  note lists = adequate_list [OF consumes_comma [OF D] comma]
  have vals: "cel_adequate n (list_of_values nm ?comma ?p) (list_of_values nm ?comma ?q)"
    unfolding lists_eq(1) [OF D sv] by (rule lists [OF sv pq])
  have kv: "cel_adequate n (key_value nm ?p) (key_value nm ?q)"
    unfolding key_value_def [abs_def]
    by (intro adequate_bind adequate_result(1) pq shrinks_trim [OF D] ident(1)
        consumes_shrinks [OF consumes_char [OF D]] char_errors(2) [OF D])
      (simp_all add: trim_whitespace_def doc_leaves [OF D] ident(2))
  have pairs: "cel_adequate n (list_of_pairs nm ?comma (key_value nm ?p)) (list_of_pairs nm ?comma (key_value nm ?q))"
    unfolding lists_eq(2) [OF D shrinks_key_value [OF D sv]]
    by (rule lists [OF shrinks_key_value [OF D sv] kv])
  have object: "cel_adequate (Suc n) (cel_object nm ?p) (cel_object nm ?q)"
    unfolding cel_object_def [abs_def]
    by (intro adequate_bind ident adequate_result(1) adequate_drop_separators [OF D] pairs) simp_all
  have funct: "cel_adequate (Suc n) (cel_function nm ?p) (cel_function nm ?q)"
    unfolding cel_function_def [abs_def]
    by (intro adequate_bind ident adequate_result(1) adequate_drop_separators [OF D] vals) simp_all
  have array: "cel_adequate (Suc n) (cel_array nm ?p) (cel_array nm ?q)"
    unfolding cel_array_def by (intro adequate_drop_separators [OF D] vals) simp_all
  have "cel_adequate n (parse_str nm) (parse_str nm)"
    using esc by (simp add: adequate_def no_fuel_error_def)
  then have str: "cel_adequate (Suc n) (cel_string nm) (cel_string nm)"
    unfolding cel_string_def by (intro adequate_drop_separators [OF D]) simp_all
  have step: "cel_value nm (Suc h) = trim_whitespace nm (\<lambda>i. alt_done nm i
       (or_else (map_parser (\<lambda>(name, value). CelObject name value) (cel_object nm (cel_value nm h)) i)
       (or_else (map_parser (\<lambda>(name, value). CelFunction name value) (cel_function nm (cel_value nm h)) i)
       (or_else (map_parser CelArray (cel_array nm (cel_value nm h)) i)
         (map_parser CelString (cel_string nm) i)))))" for h
    by (rule ext) (simp add: cel_value.simps(2))
  show ?case
    unfolding fg(1,2) step
    by (intro adequate_trim [OF D] adequate_alt_done adequate_alternatives adequate_result(2)
        object funct array str)
qed (simp add: adequate_def)

lemma cel_ref_no_fuel_error: "no_fuel_error cel_ref"
  by (simp add: no_fuel_error_def parse_str_def cel_ref_def)

subsection \<open>Properties\<close>



end
