(* ===== verification/V1_Assets.thy ===== *)
theory V1_Assets
  imports Response_Theorems Response_Checks Rb_Iter Rust_Num
begin

text \<open>
  Version 1 certification: the asset tree and the headers of the test support of the repository
  (\<^verbatim>\<open>packages/ic-response-verification-test-utils/src\<close>, \<^verbatim>\<open>asset_tree.rs\<close> and \<^verbatim>\<open>certificate.rs\<close>), a red-black
  tree from paths to the hashes of bodies, against the version 1 verification.
\<close>

subsection \<open>The asset tree\<close>

type_synonym asset_tree = "hash rb_tree"

definition LABEL_ASSETS :: bytes where
  "LABEL_ASSETS = str_bytes ''http_assets''"

definition DEFAULT_PATH :: bytes where
  "DEFAULT_PATH = str_bytes ''/''"

definition asset_tree_new :: asset_tree where
  "asset_tree_new = rb_new"

definition asset_tree_insert :: "(bytes \<Rightarrow> hash) \<Rightarrow> asset_tree \<Rightarrow> bytes \<Rightarrow> bytes \<Rightarrow> asset_tree option" where
  "asset_tree_insert H t path body = rb_insert H (vec_root_hash H) t path (sha_hash H body)"

definition asset_tree_default :: "(bytes \<Rightarrow> hash) \<Rightarrow> asset_tree option" where
  "asset_tree_default H = asset_tree_insert H asset_tree_new DEFAULT_PATH (str_bytes ''Hello World!'')"

definition asset_tree_witness :: "(bytes \<Rightarrow> hash) \<Rightarrow> asset_tree \<Rightarrow> bytes option \<Rightarrow> hash_tree option" where
  "asset_tree_witness H t path =
     (let path = unwrap_or path DEFAULT_PATH
      in map_option (Labeled LABEL_ASSETS) (rb_witness H (vec_root_hash H) vec_as_hash_tree t path))"

definition asset_tree_serialize ::
  "bytes \<Rightarrow> (serde \<Rightarrow> bytes) \<Rightarrow> (bytes \<Rightarrow> hash) \<Rightarrow> asset_tree \<Rightarrow> bytes option \<Rightarrow> bytes option" where
  "asset_tree_serialize sd enc H t path =
     map_option (\<lambda>w. cbor_encode sd enc (hash_tree_serialize w)) (asset_tree_witness H t path)"

definition asset_tree_certified_data :: "(bytes \<Rightarrow> hash) \<Rightarrow> asset_tree \<Rightarrow> hash" where
  "asset_tree_certified_data H t = labeled_hash H LABEL_ASSETS (rb_root_hash H t)"

text \<open>The headers; the version is a number in decimal.\<close>

definition create_certificate_header :: "(bytes \<Rightarrow> bytes) \<Rightarrow> bytes \<Rightarrow> bytes \<Rightarrow> bytes" where
  "create_certificate_header b64 certificate tree =
     str_bytes ''certificate=:'' @ b64 certificate @ str_bytes '':, tree=:'' @ b64 tree @ str_bytes '':''"

definition create_versioned_certificate_header ::
  "(bytes \<Rightarrow> bytes) \<Rightarrow> bytes \<Rightarrow> bytes \<Rightarrow> bytes \<Rightarrow> 8 word \<Rightarrow> bytes" where
  "create_versioned_certificate_header b64 certificate tree expr_path version =
     str_bytes ''certificate=:'' @ b64 certificate @ str_bytes '':, tree=:'' @ b64 tree @
     str_bytes '':, expr_path=:'' @ b64 expr_path @ str_bytes '':, version='' @ decimal (unat version)"

text \<open>A tree filled with bodies.\<close>

fun asset_tree_fill :: "(bytes \<Rightarrow> hash) \<Rightarrow> asset_tree \<Rightarrow> (bytes \<times> bytes) list \<Rightarrow> asset_tree option" where
  "asset_tree_fill H t [] = Some t"
| "asset_tree_fill H t ((path, body) # xs) =
     do { t \<leftarrow> asset_tree_insert H t path body; asset_tree_fill H t xs }"

subsection \<open>What the tree certifies\<close>

definition asset_tree_full :: "(bytes \<Rightarrow> hash) \<Rightarrow> asset_tree \<Rightarrow> hash_tree" where
  "asset_tree_full H t = Labeled LABEL_ASSETS (rb_as_hash_tree H vec_as_hash_tree t)"

abbreviation asset_tree_ok :: "(bytes \<Rightarrow> hash) \<Rightarrow> asset_tree \<Rightarrow> bool" where
  "asset_tree_ok H t \<equiv> rb_wf H (vec_root_hash H) t"

lemma asset_tree_fill_abs:
  "asset_tree_ok H t \<Longrightarrow> \<exists>t'. asset_tree_fill H t xs = Some t' \<and> asset_tree_ok H t' \<and>
     rb_abs t' = rb_abs t ++ map_of (rev (map (\<lambda>(p, b). (p, sha_hash H b)) xs))"
proof -
  have "asset_tree_fill H t xs = rb_from_list H (vec_root_hash H) t (map (\<lambda>(p, b). (p, sha_hash H b)) xs)"
    for t by (induction xs arbitrary: t) (auto simp: asset_tree_insert_def)
  then show "asset_tree_ok H t \<Longrightarrow> ?thesis" using rb_from_list_abs by metis
qed

lemma asset_tree_filled:
  assumes "asset_tree_fill H asset_tree_new xs = Some t"
  shows "asset_tree_ok H t" and "rb_abs t p = map_option (sha_hash H) (map_of (rev xs) p)"
proof -
  have m: "map_of (map (\<lambda>(p, b). (p, sha_hash H b)) ys) p = map_option (sha_hash H) (map_of ys p)" for ys :: "(bytes \<times> bytes) list"
    by (induction ys) auto
  from asset_tree_fill_abs [OF rb_wf_new(1), of H xs] assms
  show "asset_tree_ok H t" "rb_abs t p = map_option (sha_hash H) (map_of (rev xs) p)"
    using m [of "rev xs"] by (auto simp: asset_tree_new_def rb_wf_new rev_map)
qed

lemma asset_tree_digest: "asset_tree_ok H t \<Longrightarrow> digest H (asset_tree_full H t) = asset_tree_certified_data H t"
  using rb_as_hash_tree_ok(1) [OF _ vec_values_ok] by (simp add: asset_tree_full_def asset_tree_certified_data_def)

lemma asset_tree_sorted: "asset_tree_ok H t \<Longrightarrow> sorted_tree (asset_tree_full H t)"
  using rb_as_hash_tree_ok(2) [OF _ vec_values_ok] by (simp add: asset_tree_full_def)

lemma lookup_labeled: "lookup_path (Labeled l t) (l # p) = lookup_path t p"
  by simp

lemma asset_tree_lookup:
  assumes "asset_tree_ok H t"
  shows "lookup_path (asset_tree_full H t) [LABEL_ASSETS, p] =
    (case rb_abs t p of None \<Rightarrow> LR_Absent | Some v \<Rightarrow> LR_Found v)"
  unfolding asset_tree_full_def lookup_labeled
  using lookup_path_single [where g = vec_as_hash_tree and m = "rb_get t p" and key = p]
    full_tree_lookup_label [OF assms vec_values_ok, of p "[]"] rb_get_abs [OF assms]
  by (simp add: vec_as_hash_tree_def split: option.splits)

lemma asset_tree_witness_proves:
  assumes "asset_tree_ok H t"
  obtains w where "asset_tree_witness H t (Some p) = Some w" "prunes H w (asset_tree_full H t)"
    "lookup_path w [LABEL_ASSETS, p] = (case rb_abs t p of None \<Rightarrow> LR_Absent | Some v \<Rightarrow> LR_Found v)"
proof -
  obtain w where w: "rb_nested_witness H (vec_root_hash H) t p (\<lambda>v. Some (vec_as_hash_tree v)) = Some w"
    "pruning_of H vec_as_hash_tree (root t) w"
    "lookup_subtree w [p] = (case rb_get t p of None \<Rightarrow> SLR_Absent
       | Some v \<Rightarrow> SLR_Found (the (Some (vec_as_hash_tree v))))"
    by (rule rb_nested_witness_proves [OF assms vec_values_ok, where f = "\<lambda>v. Some (vec_as_hash_tree v)"]) auto
  have "lookup_path (Labeled LABEL_ASSETS w) [LABEL_ASSETS, p] =
      (case rb_abs t p of None \<Rightarrow> LR_Absent | Some v \<Rightarrow> LR_Found v)"
    unfolding lookup_labeled using lookup_path_single [OF w(3)] rb_get_abs [OF assms]
    by (simp add: vec_as_hash_tree_def split: option.splits)
  with w(1) rb_pruning(1) [OF assms vec_values_ok w(2)] show thesis
    by (intro that [of "Labeled LABEL_ASSETS w"])
      (simp_all add: asset_tree_witness_def rb_witness_def asset_tree_full_def)
qed

subsection \<open>The header\<close>

lemma v1_header_pieces:
  assumes "\<And>c. c \<in> set a \<union> set b \<Longrightarrow> base64_char c"
  shows "split_on 44 (str_bytes ''certificate=:'' @ a @ str_bytes '':, tree=:'' @ b @ str_bytes '':'') =
    [str_bytes ''certificate'' @ 61 # 58 # a @ [58], 32 # str_bytes ''tree'' @ 61 # 58 # b @ [58]]"
proof -
  let ?p = "str_bytes ''certificate'' @ 61 # 58 # a @ [58]"
    and ?q = "32 # str_bytes ''tree'' @ 61 # 58 # b @ [58]"
  have no: "44 \<notin> set a" "44 \<notin> set b" using assms base64_char_facts(1) by blast+
  have "str_bytes ''certificate=:'' @ a @ str_bytes '':, tree=:'' @ b @ str_bytes '':'' = ?p @ 44 # ?q"
    by (simp add: str_bytes_def)
  moreover have "44 \<notin> set ?p" "44 \<notin> set ?q" using no by (simp_all add: str_bytes_def)
  ultimately show ?thesis by (simp only: split_on_append split_on_single not_False_eq_True)
qed

text \<open>Without a version field the header is of version 1.\<close>

lemma v1_header_read_back:
  fixes nm :: "'e nom_lib" and hl :: "'f header_lib"
  assumes nm: "nom_documented nm" and hl: "header_lib_documented hl" and enc: "cbor_documented enc"
    and b64: "b64_documented b64 b64d" and dc: "certificate_from_cbor nm dc = Inr cert"
    and w: "tree_small w"
  shows "certificate_header_from nm hl b64d
      (create_certificate_header b64 dc (cbor_encode self_describe_tag enc (hash_tree_serialize w))) =
    (Inr \<lparr>ch_certificate = cert, ch_tree = w, ch_version = 1, ch_expr_path = None\<rparr>
       :: ('e, 'f, 'p, 'b) response_error + certificate_header)"
proof -
  let ?w = "cbor_encode self_describe_tag enc (hash_tree_serialize w)"
  from parse_cbor_encoded [OF nm enc tree_small_serde [OF w]] w
  have rd: "hash_tree_from_cbor nm ?w = Inr w" by (simp add: hash_tree_from_cbor_def tree_of_serde)
  have dec: "b64d (b64 x) = Inr x" and chars: "\<And>c. c \<in> set (b64 x) \<Longrightarrow> base64_char c" for x
    using b64 by (simp_all add: b64_documented_def)
  have "dc \<noteq> []" using dc empty_cbor [OF nm] by auto
  then have ne: "b64 dc \<noteq> []" "b64 ?w \<noteq> []" using b64 cbor_encode_ne by (simp_all add: b64_documented_def)
  have f: "certificate_header_field hl (str_bytes ''certificate'' @ 61 # 58 # b64 dc @ [58]) =
      Some (str_bytes ''certificate'', b64 dc)"
    "certificate_header_field hl (32 # str_bytes ''tree'' @ 61 # 58 # b64 ?w @ [58]) =
      Some (str_bytes ''tree'', b64 ?w)"
    using field_delimited [OF hl _ ne(1) chars] field_delimited [OF hl _ ne(2) chars] by simp_all
  have p: "split_on 44 (create_certificate_header b64 dc ?w) =
    [str_bytes ''certificate'' @ 61 # 58 # b64 dc @ [58], 32 # str_bytes ''tree'' @ 61 # 58 # b64 ?w @ [58]]"
    unfolding create_certificate_header_def by (rule v1_header_pieces) (use chars in blast)
  show ?thesis
    by (simp add: certificate_header_from_def p f header_field_step_def decode_base64_header_def dec dc rd
        MIN_VERIFICATION_VERSION_def)
qed

text \<open>The versioned header of the test support is the header of the canister library.\<close>

lemma versioned_header_library:
  "create_versioned_certificate_header b64 dc (cbor_encode sd enc (hash_tree_serialize w))
     (cbor_encode sd enc (string_array_serialize ep)) 2 = certificate_header_value b64 sd enc dc w ep"
proof -
  have "decimal 2 = str_bytes ''2''" by (simp add: decimal.simps digit_char_def str_bytes_def)
  then show ?thesis
    by (simp add: create_versioned_certificate_header_def certificate_header_value_def str_bytes_def)
qed

subsection \<open>The verification\<close>

lemma validate_body_found:
  "lookup_path w [LABEL_ASSETS, rp] = LR_Found h \<Longrightarrow> validate_body w rp h"
  by (simp add: validate_body_def LABEL_ASSETS_def Let_def del: lookup_path.simps)

lemma validate_body_certified:
  assumes t: "asset_tree_ok H t" and w: "prunes H w (asset_tree_full H t)" and v: "validate_body w rp h"
  shows "\<exists>p \<in> {rp, str_bytes ''/index.html''}. rb_abs t p = Some h"
proof -
  from v obtain p where p: "p \<in> {rp, str_bytes ''/index.html''}" "lookup_path w [LABEL_ASSETS, p] = LR_Found h"
    by (auto simp: validate_body_def LABEL_ASSETS_def Let_def simp del: lookup_path.simps
        split: lookup_result.splits)
  from lookup_path_pruned [OF w asset_tree_sorted [OF t], of "[LABEL_ASSETS, p]"] p(2)
  have "lookup_path (asset_tree_full H t) [LABEL_ASSETS, p] = LR_Found h" by (simp del: lookup_path.simps)
  then have "rb_abs t p = Some h" unfolding asset_tree_lookup [OF t] by (simp split: option.splits)
  with p(1) show ?thesis by blast
qed

lemma pair_v1:
  fixes vl :: "('e, 'f, 'p::linorder, 'b, 'c, 'd) verify_lib"
  assumes "header_map (vl_lower vl) response (vl_lower vl CERTIFICATE_HEADER_NAME) = Some v"
    and "certificate_header_from (cl_nom (vl_cert vl)) (vl_header vl) (vl_b64 vl) v =
      (Inr \<lparr>ch_certificate = cert, ch_tree = w, ch_version = 1, ch_expr_path = ep\<rparr>
         :: ('e, 'f, 'p, 'b) response_error + certificate_header)"
    and "min_version \<le> 1"
  shows "verify_request_response_pair H vl request response canister_id now offset key min_version c =
    v1_verification H vl request response canister_id now offset w cert
      (header_map (vl_lower vl) response (str_bytes ''content-encoding'')) key c"
proof -
  have "\<not> (1 :: 8 word) < min_version" using assms(3) by (simp add: not_less)
  with assms(1,2) show ?thesis by (simp add: verify_request_response_pair_def seq_def pure_def Let_def)
qed

lemma v1_accepts:
  fixes vl :: "('e, 'f, 'p::linorder, 'b, 'c, 'd) verify_lib"
  assumes "get_path (vl_http vl) request = Inr rp"
    and "certificate_verify H (vl_cert vl) cert canister_id key now offset c = Some (Inr (), c')"
    and data: "lookup_path (cert_tree cert)
      [str_bytes ''canister'', canister_id, str_bytes ''certified_data''] = LR_Found (digest H w)"
    and "decode_body (vl_decoder vl) (resp_body response) encoding =
      (Some (Inr body) :: (('e, 'f, 'p, 'b) response_error + bytes) option)"
    and "validate_body w rp (sha_hash H body)"
  shows "v1_verification H vl request response canister_id now offset w cert encoding key c =
    Some (Inr \<lparr>vi_response = Some \<lparr>vr_status_code = None, vr_headers = [], vr_body = resp_body response\<rparr>,
      vi_verification_version = 1\<rparr>, c')"
proof -
  have "checked_certificate H vl cert canister_id key now offset c =
      (Some (Inr (), c') :: ((('e, 'f, 'p, 'b) response_error + unit) \<times> 'c) option)"
    using assms(2) by (simp add: checked_certificate_def)
  moreover have "validate_tree H (vl_cert vl) canister_id cert w c' =
      (Some (Inr (), c') :: ((('e, 'f, 'p, 'b) response_error + unit) \<times> 'c) option)"
    by (rule validate_tree_accepts [OF data])
  ultimately show ?thesis using assms(1,4,5)
    by (simp add: v1_verification_def seq_def pure_def partial_def no_panic_def Let_def)
qed

lemma v1_headers:
  assumes "lower_ascii lower" and "r = add_header r0 (CERTIFICATE_HEADER_NAME, v)"
  shows "header_map lower r (lower CERTIFICATE_HEADER_NAME) = Some v"
    and "header_map lower r (str_bytes ''content-encoding'') = header_map lower r0 (str_bytes ''content-encoding'')"
proof -
  have "is_ascii CERTIFICATE_HEADER_NAME"
    by (simp add: CERTIFICATE_HEADER_NAME_def str_bytes_def is_ascii_def)
  with assms(1) have "lower CERTIFICATE_HEADER_NAME \<noteq> str_bytes ''content-encoding''"
    by (auto simp: lower_ascii_def CERTIFICATE_HEADER_NAME_def to_ascii_lowercase_def
        dest: arg_cong [where f = length])
  with assms(2) show "header_map lower r (lower CERTIFICATE_HEADER_NAME) = Some v"
    "header_map lower r (str_bytes ''content-encoding'') = header_map lower r0 (str_bytes ''content-encoding'')"
    by (simp_all add: header_map_add)
qed

subsection \<open>An example\<close>

definition example_assets :: asset_tree where
  "example_assets = RbTree (Some (Node (str_bytes ''/a'') (tag_hash [120]) None None Black
     (labeled_hash tag_hash (str_bytes ''/a'') (leaf_hash tag_hash (tag_hash [120])))))"

abbreviation example_body :: http_response where
  "example_body \<equiv> \<lparr>resp_status = 200, resp_headers = [], resp_body = [120], resp_upgrade = None\<rparr>"

abbreviation example_assets_witness :: hash_tree where
  "example_assets_witness \<equiv> Labeled LABEL_ASSETS (Labeled (str_bytes ''/a'') (Leaf (tag_hash [120])))"

abbreviation example_assets_data :: hash where
  "example_assets_data \<equiv> asset_tree_certified_data tag_hash example_assets"

lemma example_assets:
  "asset_tree_fill tag_hash asset_tree_new [(str_bytes ''/a'', [120])] = Some example_assets"
  "asset_tree_witness tag_hash example_assets (Some (str_bytes ''/a'')) = Some example_assets_witness"
  "asset_tree_full tag_hash example_assets = example_assets_witness"
  "tree_small example_assets_witness" "length example_assets_data = 32"
  by (simp_all add: example_assets_def asset_tree_insert_def asset_tree_new_def rb_insert_def rb_new_def
      new_node_def update_subtree_hash_def balance_def compute_subtree_hash_def data_hash_def vec_root_hash_def
      sha_hash_def asset_tree_witness_def rb_witness_def rb_nested_witness_def left_hash_tree_def
      right_hash_tree_def subtree_with_def vec_as_hash_tree_def asset_tree_full_def rb_as_hash_tree_def
      data_tree_def asset_tree_certified_data_def labeled_hash_def LABEL_ASSETS_def str_bytes_def)

abbreviation example_v1_header :: bytes where
  "example_v1_header \<equiv> create_certificate_header hex_enc (plain_data tag_hash example_assets_data)
     (cbor_encode self_describe_tag cbor_enc (hash_tree_serialize example_assets_witness))"

subsection \<open>Properties\<close>

text \<open>C30: The version 1 verification accepts what an asset canister builds. For an asset tree filled with
  bodies, a response whose decoded body is the one stored for the requested path, with the header
  made of the witness of the path and of a certificate that verifies and holds the certified data of
  the tree, is accepted with version 1, and its body is returned.\<close>

theorem v1_response_accepted:
  fixes vl :: "('e, 'f, 'p::linorder, 'b, 'c, 'd) verify_lib"
  assumes "nom_documented (cl_nom (vl_cert vl))" and "header_lib_documented (vl_header vl)"
    and "cbor_documented enc" and "b64_documented b64 (vl_b64 vl)" and "lower_ascii (vl_lower vl)"
    and "asset_tree_fill H asset_tree_new assets = Some t" and "map_of (rev assets) url = Some body"
    and "get_path (vl_http vl) request = Inr url"
    and "decode_body (vl_decoder vl) (resp_body r0) (header_map (vl_lower vl) r0 (str_bytes ''content-encoding'')) =
      (Some (Inr body) :: (('e, 'f, 'p, 'b) response_error + bytes) option)"
    and "asset_tree_witness H t (Some url) = Some w" and "tree_small w"
    and "certificate_from_cbor (cl_nom (vl_cert vl)) dc = Inr cert"
    and "certificate_verify H (vl_cert vl) cert canister_id key now offset c = Some (Inr (), c')"
    and "lookup_path (cert_tree cert) [str_bytes ''canister'', canister_id, str_bytes ''certified_data''] =
         LR_Found (asset_tree_certified_data H t)"
    and "min_version \<le> 1"
  shows "\<exists>tree. asset_tree_serialize self_describe_tag enc H t (Some url) = Some tree \<and>
    verify_request_response_pair H vl request
      (add_header r0 (CERTIFICATE_HEADER_NAME, create_certificate_header b64 dc tree))
      canister_id now offset key min_version c =
    Some (Inr \<lparr>vi_response = Some \<lparr>vr_status_code = None, vr_headers = [], vr_body = resp_body r0\<rparr>,
      vi_verification_version = 1\<rparr>, c')"
proof -
  let ?tree = "cbor_encode self_describe_tag enc (hash_tree_serialize w)"
  let ?r = "add_header r0 (CERTIFICATE_HEADER_NAME, create_certificate_header b64 dc ?tree)"
  note t = asset_tree_filled [OF assms(6)]
  obtain w' where "asset_tree_witness H t (Some url) = Some w'" "prunes H w' (asset_tree_full H t)"
    "lookup_path w' [LABEL_ASSETS, url] = (case rb_abs t url of None \<Rightarrow> LR_Absent | Some v \<Rightarrow> LR_Found v)"
    by (rule asset_tree_witness_proves [OF t(1)])
  with assms(7,10) t(2) [of url] have w: "prunes H w (asset_tree_full H t)"
    "lookup_path w [LABEL_ASSETS, url] = LR_Found (sha_hash H body)" by simp_all
  note v1 = v1_accepts [OF assms(8,13) _ _ validate_body_found [OF w(2)]]
  have "digest H w = asset_tree_certified_data H t"
    using prunes_digest [OF w(1)] asset_tree_digest [OF t(1)] by simp
  with v1 [of ?r] assms(9,14) v1_headers [OF assms(5) refl]
    pair_v1 [OF v1_headers(1) [OF assms(5) refl] v1_header_read_back [OF assms(1-4,12,11)] assms(15)]
  have "verify_request_response_pair H vl request ?r canister_id now offset key min_version c =
      Some (Inr \<lparr>vi_response = Some \<lparr>vr_status_code = None, vr_headers = [], vr_body = resp_body r0\<rparr>,
        vi_verification_version = 1\<rparr>, c')" by (simp add: add_header_def)
  with assms(10) show ?thesis by (simp add: asset_tree_serialize_def)
qed

theorem v1_response_accepted_witness:
  "\<exists>c'. verify_request_response_pair tag_hash plain_lib example_request
      (add_header example_body (CERTIFICATE_HEADER_NAME, example_v1_header)) [1] 6 2 plain_key 1 plain_cache =
    Some (Inr \<lparr>vi_response = Some \<lparr>vr_status_code = None, vr_headers = [], vr_body = [120]\<rparr>,
      vi_verification_version = 1\<rparr>, c')"
proof -
  obtain c' where c': "certificate_verify tag_hash plain_cert (plain_certificate tag_hash example_assets_data)
      [1] plain_key 6 2 plain_cache = Some (Inr (), c')" using plain_certificate_verified by fastforce
  have "\<exists>tree. asset_tree_serialize self_describe_tag cbor_enc tag_hash example_assets (Some (str_bytes ''/a'')) = Some tree \<and>
    verify_request_response_pair tag_hash plain_lib example_request
      (add_header example_body (CERTIFICATE_HEADER_NAME,
        create_certificate_header hex_enc (plain_data tag_hash example_assets_data) tree))
      [1] 6 2 plain_key 1 plain_cache =
    Some (Inr \<lparr>vi_response = Some \<lparr>vr_status_code = None, vr_headers = [], vr_body = resp_body example_body\<rparr>,
      vi_verification_version = 1\<rparr>, c')"
    by (rule v1_response_accepted [OF _ _ _ _ _ example_assets(1) _ _ _ example_assets(2,4)])
      (use c' plain_data_read [OF hash32_tag_hash example_assets(5)] plain_certified_data example_url in
       \<open>simp_all add: decode_body_def header_map_def del: lookup_path.simps\<close>)
  then show ?thesis by (auto simp: asset_tree_serialize_def example_assets(2))
qed

text \<open>C18: A response accepted under version 1 has a body that the asset canister stored: for a canister
  whose certified data is that of its asset tree, the body is, decoded or as it came, the one stored
  for the requested path or for the index page. The hash function does not collide on what is
  hashed.\<close>

theorem v1_response_authentic:
  fixes vl :: "('e, 'f, 'p::linorder, 'b, 'c, 'd) verify_lib"
  assumes "hash32 H" and "asset_tree_fill H asset_tree_new assets = Some t"
    and "header_map (vl_lower vl) response (vl_lower vl CERTIFICATE_HEADER_NAME) = Some v"
    and "certificate_header_from (cl_nom (vl_cert vl)) (vl_header vl) (vl_b64 vl) v =
      (Inr h :: ('e, 'f, 'p, 'b) response_error + certificate_header)" and "ch_version h = 1"
    and "certifies_data H (ch_certificate h) canister_id (asset_tree_certified_data H t)"
    and "inj_on H (set (hash_inputs H (ch_tree h)) \<union> set (hash_inputs H (asset_tree_full H t)))"
    and "decode_body (vl_decoder vl) (resp_body response)
      (header_map (vl_lower vl) response (str_bytes ''content-encoding'')) =
      (Some (Inr body) :: (('e, 'f, 'p, 'b) response_error + bytes) option)"
    and "inj_on H ({body, resp_body response} \<union> snd ` set assets)"
    and "verify_request_response_pair H vl request response canister_id now offset key min_version c =
      Some (Inr info, c')"
  shows "\<exists>rp. get_path (vl_http vl) request = Inr rp \<and>
    (\<exists>p \<in> {rp, str_bytes ''/index.html''}. map_of (rev assets) p = Some body \<or>
       header_map (vl_lower vl) response (str_bytes ''content-encoding'') \<noteq> None \<and>
       map_of (rev assets) p = Some (resp_body response)) \<and>
    info = \<lparr>vi_response = Some \<lparr>vr_status_code = None, vr_headers = [], vr_body = resp_body response\<rparr>,
      vi_verification_version = 1\<rparr>"
proof -
  let ?enc = "header_map (vl_lower vl) response (str_bytes ''content-encoding'')"
  note t = asset_tree_filled [OF assms(2)] and sized = header_sized [OF assms(4)]
  from pair_accepted [OF assms(10)] assms(3,4,5)
  have run: "v1_verification H vl request response canister_id now offset (ch_tree h) (ch_certificate h) ?enc key c =
    Some (Inr info, c')" by auto
  from v1_steps [OF run] assms(8) obtain rp where rp: "get_path (vl_http vl) request = Inr rp"
    and data: "lookup_path (cert_tree (ch_certificate h))
       [str_bytes ''canister'', canister_id, str_bytes ''certified_data''] = LR_Found (digest H (ch_tree h))"
    and vb: "validate_body (ch_tree h) rp (sha_hash H body) \<or>
      ?enc \<noteq> None \<and> validate_body (ch_tree h) rp (sha_hash H (resp_body response))"
    and info: "info = \<lparr>vi_response = Some \<lparr>vr_status_code = None, vr_headers = [], vr_body = resp_body response\<rparr>,
      vi_verification_version = 1\<rparr>" by (auto simp del: lookup_path.simps)
  have "digest H (ch_tree h) = asset_tree_certified_data H t"
    by (rule certified_data_lookup [OF assms(1) sized(2) assms(6) data])
  then have pr: "prunes H (ch_tree h) (asset_tree_full H t)"
    by (intro digest_binding [OF assms(1) sized(1) sorted_tree_unpruned [OF asset_tree_sorted [OF t(1)]] assms(7)])
      (simp add: asset_tree_digest [OF t(1)])
  have stored: "\<exists>p \<in> {rp, str_bytes ''/index.html''}. map_of (rev assets) p = Some b"
    if "validate_body (ch_tree h) rp (sha_hash H b)" "b \<in> {body, resp_body response}" for b
  proof -
    from validate_body_certified [OF t(1) pr that(1)] obtain p b' where
      p: "p \<in> {rp, str_bytes ''/index.html''}" "map_of (rev assets) p = Some b'" "H b' = H b"
      by (auto simp: t(2) sha_hash_def)
    from p(2) have "b' \<in> snd ` set assets" by (force dest: map_of_SomeD)
    with that(2) have "b' = b" by (intro inj_onD [OF assms(9) p(3)]) auto
    with p show ?thesis by blast
  qed
  with vb rp info show ?thesis by blast
qed

theorem v1_response_authentic_witness:
  "\<exists>rp. get_path plain_http example_request = Inr rp \<and>
    (\<exists>p \<in> {rp, str_bytes ''/index.html''}. map_of [(str_bytes ''/a'', [120 :: byte])] p = Some [120])"
proof -
  let ?r = "add_header example_body (CERTIFICATE_HEADER_NAME, example_v1_header)"
  let ?cert = "plain_certificate tag_hash example_assets_data"
  obtain c' where c': "certificate_verify tag_hash plain_cert ?cert [1] plain_key 6 2 plain_cache = Some (Inr (), c')"
    using plain_certificate_verified by fastforce
  have hdr: "certificate_header_from nom_ref header_ref hex_dec example_v1_header =
    (Inr \<lparr>ch_certificate = ?cert, ch_tree = example_assets_witness, ch_version = 1, ch_expr_path = None\<rparr>
       :: (string, string, bytes, unit) response_error + certificate_header)"
    by (rule v1_header_read_back [OF _ _ _ _ plain_data_read [OF hash32_tag_hash example_assets(5)] example_assets(4)])
      simp_all
  note m = v1_headers [OF lower_ascii_to_ascii_lowercase refl, of example_body example_v1_header]
  have found: "validate_body example_assets_witness (str_bytes ''/a'') (sha_hash tag_hash [120])"
    by (rule validate_body_found) (simp add: sha_hash_def)
  have dec: "decode_body (vl_decoder plain_lib) (resp_body ?r)
      (header_map (vl_lower plain_lib) ?r (str_bytes ''content-encoding'')) =
      (Some (Inr [120]) :: ((string, string, bytes, unit) response_error + bytes) option)"
    unfolding plain_lib_simps m(2) by (simp add: decode_body_def header_map_def add_header_def)
  have dg: "digest tag_hash example_assets_witness = example_assets_data"
    using asset_tree_digest [OF asset_tree_filled(1) [OF example_assets(1)]] by (simp add: example_assets(3))
  have v1: "v1_verification tag_hash plain_lib example_request ?r [1] 6 2 example_assets_witness ?cert
      (header_map (vl_lower plain_lib) ?r (str_bytes ''content-encoding'')) plain_key plain_cache =
    Some (Inr \<lparr>vi_response = Some \<lparr>vr_status_code = None, vr_headers = [], vr_body = resp_body ?r\<rparr>,
      vi_verification_version = 1\<rparr>, c')"
    by (rule v1_accepts [where rp = "str_bytes ''/a''" and body = "[120]"])
      (simp_all only: plain_lib_simps example_url c' plain_certified_data dg found dec [unfolded plain_lib_simps])
  have run: "verify_request_response_pair tag_hash plain_lib example_request ?r [1] 6 2 plain_key 1 plain_cache =
    Some (Inr \<lparr>vi_response = Some \<lparr>vr_status_code = None, vr_headers = [], vr_body = resp_body ?r\<rparr>,
      vi_verification_version = 1\<rparr>, c')"
    using pair_v1 [where vl = plain_lib and response = ?r and min_version = 1,
      unfolded plain_lib_simps plain_cert_simps, OF m(1) hdr]
      v1 by simp
  have inj: "inj_on tag_hash (set (hash_inputs tag_hash example_assets_witness))"
    by (rule inj_tag_hash) (simp add: LABEL_ASSETS_def str_bytes_def labeled_hash_def leaf_hash_def domain_sep_def)
  let ?h = "\<lparr>ch_certificate = ?cert, ch_tree = example_assets_witness, ch_version = 1, ch_expr_path = None\<rparr>"
  have body: "resp_body ?r = [120]" by (simp add: add_header_def)
  note auth = v1_response_authentic [where vl = plain_lib and response = ?r and v = example_v1_header and h = ?h,
      OF hash32_tag_hash example_assets(1) _ _ _ _ _ dec _ run]
  have "\<exists>rp. get_path (vl_http plain_lib) example_request = Inr rp \<and>
    (\<exists>p \<in> {rp, str_bytes ''/index.html''}. map_of (rev [(str_bytes ''/a'', [120 :: byte])]) p = Some [120] \<or>
       header_map (vl_lower plain_lib) ?r (str_bytes ''content-encoding'') \<noteq> None \<and>
       map_of (rev [(str_bytes ''/a'', [120 :: byte])]) p = Some (resp_body ?r))"
    using auth m(1) hdr plain_state [OF example_assets(5)] inj unfolding example_assets(3) body
    by (simp only: plain_lib_simps plain_cert_simps certificate_header.simps Un_absorb) simp
  then show ?thesis unfolding body by (auto split: if_splits)
qed

text \<open>The tree of two assets.\<close>

lemma two_assets:
  assumes "a < i"
  obtains h h' where "asset_tree_fill H asset_tree_new [(a, x), (i, y)] =
    Some (RbTree (Some (Node i (sha_hash H y) (Some (Node a (sha_hash H x) None None Red h)) None Black h')))"
  using assms
  by (simp add: asset_tree_insert_def asset_tree_new_def rb_insert_def rb_new_def new_node_def
      update_subtree_hash_def balance_def left_is_red_def rotate_left_def)

text \<open>C39: The fallback to the index page does not need the requested path to be absent: with the witness
  of the index page, which hides the entry of another path, the body of the index page is valid for
  that path although the tree certifies another body for it.\<close>

theorem v1_index_page_for_hidden_path:
  "\<exists>t w. asset_tree_fill H asset_tree_new [(str_bytes ''/a'', x), (str_bytes ''/index.html'', y)] = Some t \<and>
    asset_tree_witness H t (Some (str_bytes ''/index.html'')) = Some w \<and>
    digest H w = asset_tree_certified_data H t \<and>
    rb_get t (str_bytes ''/a'') = Some (sha_hash H x) \<and>
    lookup_path w [LABEL_ASSETS, str_bytes ''/a''] = LR_Unknown \<and>
    validate_body w (str_bytes ''/a'') (sha_hash H y)"
proof -
  let ?a = "str_bytes ''/a''" and ?i = "str_bytes ''/index.html''"
  have ne: "?a < ?i" by (simp add: str_bytes_def)
  obtain h h' where two: "asset_tree_fill H asset_tree_new [(?a, x), (?i, y)] =
    Some (RbTree (Some (Node ?i (sha_hash H y) (Some (Node ?a (sha_hash H x) None None Red h)) None Black h')))"
    by (rule two_assets [OF ne])
  then obtain t where t: "asset_tree_fill H asset_tree_new [(?a, x), (?i, y)] = Some t" by blast
  note ok = asset_tree_filled [OF t]
  obtain w where w: "asset_tree_witness H t (Some ?i) = Some w" "prunes H w (asset_tree_full H t)"
    "lookup_path w [LABEL_ASSETS, ?i] = (case rb_abs t ?i of None \<Rightarrow> LR_Absent | Some v \<Rightarrow> LR_Found v)"
    by (rule asset_tree_witness_proves [OF ok(1)])
  from ne have m: "rb_abs t ?i = Some (sha_hash H y)" "rb_abs t ?a = Some (sha_hash H x)"
    by (simp_all add: ok(2))
  have hidden: "lookup_path w [LABEL_ASSETS, ?a] = LR_Unknown"
    using w(1) ne unfolding option.inject [THEN iffD1, OF trans [OF t [symmetric] two]]
    by (auto simp: asset_tree_witness_def rb_witness_def rb_nested_witness_def left_hash_tree_def
        right_hash_tree_def subtree_with_def vec_as_hash_tree_def)
  with w(3) m show ?thesis
    using t w(1) prunes_digest [OF w(2)] asset_tree_digest [OF ok(1)] rb_get_abs [OF ok(1), of ?a]
    by (intro exI [of _ t] exI [of _ w])
      (simp add: validate_body_def LABEL_ASSETS_def Let_def del: lookup_path.simps)
qed

end
