(* ===== verification/Certificate_Builder.thy ===== *)
theory Certificate_Builder
  imports Certificate_Chain Header_Roundtrip
begin

text \<open>
  The builder of test certificates (\<^verbatim>\<open>packages/ic-certification-testing/src\<close>) against the verification
  of certificates: trees of the state, keys and signatures, delegations and nested delegations. The
  Internet Computer crates it calls (hash tree builder, threshold signatures, identifiers), the source
  of randomness and the encoders are parameters; their documentation is a named hypothesis. A
  computation threads the random generator, and \<^term>\<open>None\<close> is a panic.
\<close>

subsection \<open>Libraries\<close>

text \<open>\<^verbatim>\<open>LabeledTree\<close> of the crate \<^verbatim>\<open>ic_crypto_tree_hash\<close>; a \<^verbatim>\<open>FlatMap\<close> is the list of its entries in
  the order of the keys. The calls on \<^verbatim>\<open>HashTreeBuilder\<close> are recorded.\<close>

datatype labeled_tree = LT_Leaf bytes | LT_SubTree "(bytes \<times> labeled_tree) list"

datatype builder_op =
    Start_Leaf | Write_Leaf bytes | Finish_Leaf | Start_Subtree | New_Edge bytes | Finish_Subtree

text \<open>\<^verbatim>\<open>Certificate\<close> of the crate \<^verbatim>\<open>ic_types\<close>, over the mixed hash trees \<^typ>\<open>'m\<close>.\<close>

record 'm test_certificate =
  tc_tree :: 'm
  tc_signature :: bytes
  tc_delegation :: "delegation option"

record ('r, 'p, 's, 'w, 'm, 'i) builder_lib =
  rng_fill :: "'r \<Rightarrow> bytes \<times> 'r"
  generate_threshold_key :: "bytes \<Rightarrow> nat \<Rightarrow> nat \<Rightarrow> ('p \<times> 's list) option"
  combined_public_key :: "'p \<Rightarrow> bytes option"
  public_key_to_der :: "bytes \<Rightarrow> bytes option"
  sign_message :: "bytes \<Rightarrow> 's \<Rightarrow> bytes option"
  as_signed_bytes :: "hash \<Rightarrow> bytes"
  witness_generator :: "builder_op list \<Rightarrow> 'w option"
  mixed_hash_tree :: "'w \<Rightarrow> labeled_tree \<Rightarrow> 'm option"
  mixed_digest :: "'m \<Rightarrow> hash"
  leb_write :: "64 word \<Rightarrow> bytes option"
  cbor_ranges :: "('i \<times> 'i) list \<Rightarrow> bytes"
  cbor_certificate :: "'m test_certificate \<Rightarrow> bytes"
  canister_from_str :: "string \<Rightarrow> 'i option"
  canister_from_u64 :: "64 word \<Rightarrow> 'i"
  canister_bytes :: "'i \<Rightarrow> bytes"
  subnet_test_id :: "64 word \<Rightarrow> bytes"

datatype certification_test_error =
    UnableToHashTree
  | WitnessGenerationFailed
  | ThresholdSigningFailed
  | CertificateSerializationFailed
  | TimestampLebEncodingFailed
  | CanisterIdParsingFailed
  | PublicKeyEncodingFailed
  | CanisterParamsOrCustomTreeRequired
  | BothCanisterParamsAndCustomTreeProvided
  | WitnessMergingFailed

subsection \<open>Trees\<close>

definition create_certificate_tree :: "bytes \<Rightarrow> bytes \<Rightarrow> bytes \<Rightarrow> labeled_tree" where
  "create_certificate_tree canister_id certified_data encoded_time =
     LT_SubTree [
       (str_bytes ''canister'', LT_SubTree [
          (canister_id, LT_SubTree [(str_bytes ''certified_data'', LT_Leaf certified_data)])]),
       (str_bytes ''time'', LT_Leaf encoded_time)]"

definition create_delegation_tree ::
  "('r, 'p, 's, 'w, 'm, 'i) builder_lib \<Rightarrow> bytes \<Rightarrow> bytes \<Rightarrow> bytes \<Rightarrow> ('i \<times> 'i) list \<Rightarrow>
     certification_test_error + labeled_tree" where
  "create_delegation_tree bl delegatee_public_key encoded_time sid canister_ranges =
     (let canister_ranges = cbor_ranges bl canister_ranges
      in Inr (LT_SubTree [
           (str_bytes ''subnet'', LT_SubTree [
              (sid, LT_SubTree [
                 (str_bytes ''canister_ranges'', LT_Leaf canister_ranges),
                 (str_bytes ''public_key'', LT_Leaf delegatee_public_key)])]),
           (str_bytes ''time'', LT_Leaf encoded_time)]))"

fun hash_full_tree :: "builder_op list \<Rightarrow> labeled_tree \<Rightarrow> builder_op list"
  and hash_edges :: "builder_op list \<Rightarrow> (bytes \<times> labeled_tree) list \<Rightarrow> builder_op list" where
  "hash_full_tree b (LT_Leaf bytes) = b @ [Start_Leaf] @ [Write_Leaf bytes] @ [Finish_Leaf]"
| "hash_full_tree b (LT_SubTree edges) = hash_edges (b @ [Start_Subtree]) edges @ [Finish_Subtree]"
| "hash_edges b [] = b"
| "hash_edges b ((l, child) # edges) = hash_edges (hash_full_tree (b @ [New_Edge l]) child) edges"

definition get_mixed_hash_tree ::
  "('r, 'p, 's, 'w, 'm, 'i) builder_lib \<Rightarrow> labeled_tree \<Rightarrow> certification_test_error + 'm" where
  "get_mixed_hash_tree bl tree =
     (let hash_tree_builder = hash_full_tree [] tree
      in and_then (ok_or (witness_generator bl hash_tree_builder) WitnessGenerationFailed)
         (\<lambda>witness_gen. ok_or (mixed_hash_tree bl witness_gen tree) WitnessMergingFailed))"

definition leb_encode_timestamp ::
  "('r, 'p, 's, 'w, 'm, 'i) builder_lib \<Rightarrow> 128 word \<Rightarrow> certification_test_error + bytes" where
  "leb_encode_timestamp bl timestamp =
     ok_or (leb_write bl (ucast timestamp)) TimestampLebEncodingFailed"

subsection \<open>Keys and signatures\<close>

record 's key_pair =
  public_key :: bytes
  private_key :: 's

definition generate_keypair ::
  "('r, 'p, 's, 'w, 'm, 'i) builder_lib \<Rightarrow> ('r, certification_test_error, 's key_pair) comp" where
  "generate_keypair bl r =
     (let (seed, r) = rng_fill bl r
      in seq (no_panic (generate_threshold_key bl seed 1 1)) (\<lambda>(public_coefficients, secret_key_bytes).
         seq (no_panic (case secret_key_bytes of [] \<Rightarrow> None | k # _ \<Rightarrow> Some k)) (\<lambda>key.
         seq (no_panic (combined_public_key bl public_coefficients)) (\<lambda>pk.
         pure (and_then (ok_or (public_key_to_der bl pk) PublicKeyEncodingFailed) (\<lambda>pk.
           Inr \<lparr>public_key = pk, private_key = key\<rparr>))))) r)"

definition get_tree_signature ::
  "('r, 'p, 's, 'w, 'm, 'i) builder_lib \<Rightarrow> 'm \<Rightarrow> 's \<Rightarrow> certification_test_error + bytes" where
  "get_tree_signature bl mixed_tree key =
     (let root_hash = mixed_digest bl mixed_tree
      in ok_or (sign_message bl (as_signed_bytes bl root_hash) key) ThresholdSigningFailed)"

definition build_certificate ::
  "('r, 'p, 's, 'w, 'm, 'i) builder_lib \<Rightarrow> labeled_tree \<Rightarrow>
     ('r, certification_test_error, 's key_pair \<times> 'm \<times> bytes) comp" where
  "build_certificate bl tree =
     seq (generate_keypair bl) (\<lambda>keypair.
     seq (pure (get_mixed_hash_tree bl tree)) (\<lambda>tree.
     seq (pure (get_tree_signature bl tree (private_key keypair))) (\<lambda>signature.
     pure (Inr (keypair, tree, signature)))))"

subsection \<open>Delegations\<close>

record 'i subnet_data =
  sd_subnet_id :: bytes
  sd_ranges :: "('i \<times> 'i) list"

definition create_subnet_data ::
  "('r, 'p, 's, 'w, 'm, 'i) builder_lib \<Rightarrow> 64 word \<Rightarrow> (64 word \<times> 64 word) list \<Rightarrow> 'i subnet_data" where
  "create_subnet_data bl sid canister_id_ranges =
     \<lparr>sd_subnet_id = subnet_test_id bl sid,
      sd_ranges = map (\<lambda>(low, high). (canister_from_u64 bl low, canister_from_u64 bl high))
        canister_id_ranges\<rparr>"

definition create_delegation_data ::
  "('r, 'p, 's, 'w, 'm, 'i) builder_lib \<Rightarrow> 's key_pair \<Rightarrow> bytes \<Rightarrow> 'i subnet_data \<Rightarrow>
     delegation option \<Rightarrow> ('r, certification_test_error, delegation \<times> 's key_pair) comp" where
  "create_delegation_data bl delegatee_keypair encoded_time sd nested_delegation =
     seq (pure (create_delegation_tree bl (public_key delegatee_keypair) encoded_time
            (sd_subnet_id sd) (sd_ranges sd))) (\<lambda>tree.
     seq (build_certificate bl tree) (\<lambda>(keypair, tree, signature).
     let certificate = \<lparr>tc_tree = tree, tc_signature = signature, tc_delegation = nested_delegation\<rparr>
     in pure (Inr (\<lparr>subnet_id = sd_subnet_id sd,
                   delegation_certificate = cbor_certificate bl certificate\<rparr>, keypair))))"

subsection \<open>The builder\<close>

record 'i canister_data =
  cd_canister_id :: 'i
  cd_certified_data :: bytes

record 'i certificate_builder =
  cb_time :: "128 word option"
  cb_canister :: "'i canister_data option"
  cb_subnet :: "'i subnet_data option"
  cb_nested_subnet :: "'i subnet_data option"
  cb_signature :: "bytes option"
  cb_custom_tree :: "labeled_tree option"

record 'm certificate_data =
  cd_certificate :: "'m test_certificate"
  cd_root_key :: bytes
  cd_cbor :: bytes

definition DEFAULT_CERTIFICATE_TIME :: "128 word" where
  "DEFAULT_CERTIFICATE_TIME = 1651142233000005031"

definition builder_new ::
  "('r, 'p, 's, 'w, 'm, 'i) builder_lib \<Rightarrow> string \<Rightarrow> bytes \<Rightarrow>
     certification_test_error + 'i certificate_builder" where
  "builder_new bl canister_id certified_data =
     and_then (ok_or (canister_from_str bl canister_id) CanisterIdParsingFailed) (\<lambda>canister_id.
     Inr \<lparr>cb_time = None,
          cb_canister = Some \<lparr>cd_canister_id = canister_id, cd_certified_data = certified_data\<rparr>,
          cb_subnet = None, cb_nested_subnet = None, cb_signature = None, cb_custom_tree = None\<rparr>)"

definition from_custom_tree :: "labeled_tree \<Rightarrow> 'i certificate_builder" where
  "from_custom_tree custom_tree =
     \<lparr>cb_time = None, cb_canister = None, cb_subnet = None, cb_nested_subnet = None,
      cb_signature = None, cb_custom_tree = Some custom_tree\<rparr>"

definition with_delegation ::
  "('r, 'p, 's, 'w, 'm, 'i) builder_lib \<Rightarrow> 64 word \<Rightarrow> (64 word \<times> 64 word) list \<Rightarrow>
     'i certificate_builder \<Rightarrow> 'i certificate_builder" where
  "with_delegation bl sid ranges b = b\<lparr>cb_subnet := Some (create_subnet_data bl sid ranges)\<rparr>"

definition with_nested_delegation ::
  "('r, 'p, 's, 'w, 'm, 'i) builder_lib \<Rightarrow> 64 word \<Rightarrow> (64 word \<times> 64 word) list \<Rightarrow>
     'i certificate_builder \<Rightarrow> 'i certificate_builder" where
  "with_nested_delegation bl sid ranges b =
     b\<lparr>cb_nested_subnet := Some (create_subnet_data bl sid ranges)\<rparr>"

definition with_time :: "128 word \<Rightarrow> 'i certificate_builder \<Rightarrow> 'i certificate_builder" where
  "with_time time b = b\<lparr>cb_time := Some time\<rparr>"

definition with_invalid_signature :: "'i certificate_builder \<Rightarrow> 'i certificate_builder" where
  "with_invalid_signature b =
     b\<lparr>cb_signature := Some (str_bytes ''invalid sig -----padding to get to 48 bytes-----'')\<rparr>"

definition build_delegation ::
  "('r, 'p, 's, 'w, 'm, 'i) builder_lib \<Rightarrow> 'i certificate_builder \<Rightarrow> 's key_pair \<Rightarrow> bytes \<Rightarrow>
     ('r, certification_test_error, (delegation \<times> 's key_pair) option) comp" where
  "build_delegation bl b delegatee_keypair encoded_time =
     (case cb_subnet b of
        Some sd \<Rightarrow> seq (create_delegation_data bl delegatee_keypair encoded_time sd None)
          (\<lambda>delegation_data. pure (Inr (Some delegation_data)))
      | None \<Rightarrow> pure (Inr None))"

definition build_nested_delegation ::
  "('r, 'p, 's, 'w, 'm, 'i) builder_lib \<Rightarrow> 'i certificate_builder \<Rightarrow> 's key_pair \<Rightarrow> bytes \<Rightarrow>
     ('r, certification_test_error, (delegation \<times> 's key_pair) option) comp" where
  "build_nested_delegation bl b delegatee_keypair encoded_time =
     (case (cb_subnet b, cb_nested_subnet b) of
        (Some sd, Some nested) \<Rightarrow>
          seq (create_delegation_data bl delegatee_keypair encoded_time nested None)
            (\<lambda>(nested_delegation, nested_keypair).
          seq (create_delegation_data bl nested_keypair encoded_time sd (Some nested_delegation))
            (\<lambda>(dl, _). pure (Inr (Some (dl, nested_keypair)))))
      | _ \<Rightarrow> pure (Inr None))"

definition builder_tree ::
  "('r, 'p, 's, 'w, 'm, 'i) builder_lib \<Rightarrow> 'i certificate_builder \<Rightarrow> bytes \<Rightarrow>
     certification_test_error + labeled_tree" where
  "builder_tree bl b encoded_time =
     (case (cb_custom_tree b, cb_canister b) of
        (Some custom_tree, None) \<Rightarrow> Inr custom_tree
      | (None, Some canister) \<Rightarrow>
          Inr (create_certificate_tree (canister_bytes bl (cd_canister_id canister))
            (cd_certified_data canister) encoded_time)
      | (Some _, Some _) \<Rightarrow> Inl BothCanisterParamsAndCustomTreeProvided
      | (None, None) \<Rightarrow> Inl CanisterParamsOrCustomTreeRequired)"

definition make_certificate_data ::
  "('r, 'p, 's, 'w, 'm, 'i) builder_lib \<Rightarrow> 'm \<Rightarrow> bytes \<Rightarrow> delegation option \<Rightarrow> 's key_pair \<Rightarrow>
     'm certificate_data" where
  "make_certificate_data bl tree signature dl keypair =
     (let certificate = \<lparr>tc_tree = tree, tc_signature = signature, tc_delegation = dl\<rparr>
      in \<lparr>cd_certificate = certificate, cd_root_key = public_key keypair,
          cd_cbor = cbor_certificate bl certificate\<rparr>)"

definition builder_build ::
  "('r, 'p, 's, 'w, 'm, 'i) builder_lib \<Rightarrow> 'i certificate_builder \<Rightarrow>
     ('r, certification_test_error, 'm certificate_data) comp" where
  "builder_build bl b =
     seq (pure (leb_encode_timestamp bl (unwrap_or (cb_time b) DEFAULT_CERTIFICATE_TIME)))
       (\<lambda>encoded_time.
     seq (pure (builder_tree bl b encoded_time)) (\<lambda>tree.
     seq (build_certificate bl tree) (\<lambda>(keypair, tree, signature).
     let signature = unwrap_or (cb_signature b) signature
     in seq (build_nested_delegation bl b keypair encoded_time) (\<lambda>nested. case nested of
          Some (dl, keypair) \<Rightarrow> pure (Inr (make_certificate_data bl tree signature (Some dl) keypair))
        | None \<Rightarrow>
            seq (build_delegation bl b keypair encoded_time) (\<lambda>delegation_data. case delegation_data of
              Some (dl, keypair) \<Rightarrow> pure (Inr (make_certificate_data bl tree signature (Some dl) keypair))
            | None \<Rightarrow> pure (Inr (make_certificate_data bl tree signature None keypair)))))))"

end
