(* ===== verification/Builder_Correct.thy ===== *)
theory Builder_Correct
  imports Certificate_Builder
begin

text \<open>
  What the builder of test certificates promises to the tests of the verification: the documentation
  of its libraries, and that the certificates it builds are accepted, those with two delegations not.
\<close>

subsection \<open>Documentation of the libraries\<close>

text \<open>The tree that a sequence of calls on the tree builder describes.\<close>

inductive built :: "builder_op list \<Rightarrow> labeled_tree \<Rightarrow> bool"
  and built_edges :: "builder_op list \<Rightarrow> (bytes \<times> labeled_tree) list \<Rightarrow> bool" where
  "built [Start_Leaf, Write_Leaf v, Finish_Leaf] (LT_Leaf v)"
| "built_edges ops edges \<Longrightarrow> built (Start_Subtree # ops @ [Finish_Subtree]) (LT_SubTree edges)"
| "built_edges [] []"
| "built ops t \<Longrightarrow> built_edges rest edges \<Longrightarrow> built_edges (New_Edge l # ops @ rest) ((l, t) # edges)"

text \<open>The invariant of a flat map at every level, the leaf under a path, and a hash tree that reveals
  every leaf of a labelled tree.\<close>

fun flat_ok :: "labeled_tree \<Rightarrow> bool" where
  "flat_ok (LT_Leaf v) \<longleftrightarrow> True"
| "flat_ok (LT_SubTree edges) \<longleftrightarrow> sorted_keys edges \<and> (\<forall>e \<in> set edges. flat_ok (snd e))"

fun leaf_at :: "labeled_tree \<Rightarrow> bytes list \<Rightarrow> bytes option" where
  "leaf_at (LT_Leaf v) [] = Some v"
| "leaf_at (LT_SubTree edges) (l # path) =
     (case map_of edges l of Some t \<Rightarrow> leaf_at t path | None \<Rightarrow> None)"
| "leaf_at _ _ = None"

definition reveals :: "hash_tree \<Rightarrow> labeled_tree \<Rightarrow> bool" where
  "reveals h t \<longleftrightarrow> (\<forall>path v. leaf_at t path = Some v \<longrightarrow> lookup_path h path = LR_Found v)"

fun labels_small :: "labeled_tree \<Rightarrow> bool" where
  "labels_small (LT_Leaf v) \<longleftrightarrow> length v < 2 ^ 64"
| "labels_small (LT_SubTree edges) \<longleftrightarrow>
     (\<forall>e \<in> set edges. length (fst e) < 2 ^ 64 \<and> labels_small (snd e))"

text \<open>The tree builder gives a mixed tree that reveals the labelled tree; \<open>view\<close> is the tree that a
  mixed tree is on the wire.\<close>

definition trees_documented ::
  "(bytes \<Rightarrow> hash) \<Rightarrow> ('r, 'q, 's, 'w, 'm, 'i) builder_lib \<Rightarrow> ('m \<Rightarrow> hash_tree) \<Rightarrow> bool" where
  "trees_documented H bl view \<longleftrightarrow>
     (\<forall>m. mixed_digest bl m = digest H (view m)) \<and>
     (\<forall>ops t. built ops t \<longrightarrow> flat_ok t \<longrightarrow>
        (\<exists>w m. witness_generator bl ops = Some w \<and> mixed_hash_tree bl w t = Some m \<and>
           reveals (view m) t \<and> (labels_small t \<longrightarrow> tree_small (view m))))"

text \<open>Every seed gives a key whose signatures the signature scheme verifies.\<close>

definition good_keys :: "('e, 'p, 'c) cert_lib \<Rightarrow> ('r, 'q, 's, 'w, 'm, 'i) builder_lib \<Rightarrow> bytes \<Rightarrow> 's \<Rightarrow> bool" where
  "good_keys cl bl pk k \<longleftrightarrow> length pk = KEY_LENGTH \<and>
     (\<forall>msg. \<exists>sig. sign_message bl msg k = Some sig \<and> length sig = 48 \<and> core_verify cl sig msg pk)"

definition keys_documented :: "('e, 'p, 'c) cert_lib \<Rightarrow> ('r, 'q, 's, 'w, 'm, 'i) builder_lib \<Rightarrow> bool" where
  "keys_documented cl bl \<longleftrightarrow>
     (\<forall>h. as_signed_bytes bl h = IC_STATE_ROOT_DOMAIN_SEPARATOR @ h) \<and>
     (\<forall>seed. \<exists>pc k ks pk. generate_threshold_key bl seed 1 1 = Some (pc, k # ks) \<and>
        combined_public_key bl pc = Some pk \<and> public_key_to_der bl pk = Some (DER_PREFIX @ pk) \<and>
        good_keys cl bl pk k)"

text \<open>The encoders write what the readers of the verification read, up to the sizes of a 64-bit
  machine; \<open>as_principal\<close> gives the principal of a canister identifier.\<close>

definition wire_certificate :: "('m \<Rightarrow> hash_tree) \<Rightarrow> 'm test_certificate \<Rightarrow> certificate" where
  "wire_certificate view c =
     \<lparr>cert_tree = view (tc_tree c), cert_signature = tc_signature c, cert_delegation = tc_delegation c\<rparr>"

definition encoders_documented ::
  "('e, 'p, 'c) cert_lib \<Rightarrow> ('r, 'q, 's, 'w, 'm, 'i) builder_lib \<Rightarrow> ('m \<Rightarrow> hash_tree) \<Rightarrow> ('i \<Rightarrow> 'p) \<Rightarrow> bool" where
  "encoders_documented cl bl view as_principal \<longleftrightarrow>
     (\<forall>t. \<exists>bs. leb_write bl t = Some bs \<and> length bs \<le> 10 \<and> leb_read cl bs = Inr t) \<and>
     (\<forall>i. length (canister_bytes bl i) \<le> 29 \<and> from_slice cl (canister_bytes bl i) = Some (as_principal i)) \<and>
     (\<forall>n. length (subnet_test_id bl n) \<le> 29) \<and>
     (\<forall>rs. length rs < 2 ^ 64 \<longrightarrow> parse_cbor_principals_array (cl_nom cl) (from_slice cl) (cbor_ranges bl rs) =
        Some (Inr (map (map_prod as_principal as_principal) rs))) \<and>
     (\<forall>c. certificate_small (wire_certificate view c) \<longrightarrow>
        certificate_from_cbor (cl_nom cl) (cbor_certificate bl c) = Inr (wire_certificate view c)) \<and>
     (\<forall>c cert. certificate_from_cbor (cl_nom cl) (cbor_certificate bl c) = Inr cert \<longrightarrow>
        cert = wire_certificate view c)"

lemma encoders_documentedD:
  assumes "encoders_documented cl bl view as_principal"
  shows "\<exists>bs. leb_write bl t = Some bs \<and> length bs \<le> 10 \<and> leb_read cl bs = Inr t"
    and "length (canister_bytes bl i) \<le> 29" and "from_slice cl (canister_bytes bl i) = Some (as_principal i)"
    and "length (subnet_test_id bl n) \<le> 29"
    and "length rs < 2 ^ 64 \<Longrightarrow> parse_cbor_principals_array (cl_nom cl) (from_slice cl) (cbor_ranges bl rs) =
      Some (Inr (map (map_prod as_principal as_principal) rs))"
    and "certificate_small (wire_certificate view c) \<Longrightarrow>
      certificate_from_cbor (cl_nom cl) (cbor_certificate bl c) = Inr (wire_certificate view c)"
    and "certificate_from_cbor (cl_nom cl) (cbor_certificate bl c) = Inr cert \<Longrightarrow> cert = wire_certificate view c"
  using assms unfolding encoders_documented_def by blast+

subsection \<open>Trees\<close>

lemma hash_full_tree_built:
  "\<exists>ops. hash_full_tree b t = b @ ops \<and> built ops t"
  "\<exists>ops. hash_edges b edges = b @ ops \<and> built_edges ops edges"
proof (induction b t and b edges rule: hash_full_tree_hash_edges.induct)
  case (1 b v)
  then show ?case by (auto intro: built_built_edges.intros)
next
  case (2 b edges)
  then obtain ops where "hash_edges (b @ [Start_Subtree]) edges = (b @ [Start_Subtree]) @ ops"
    "built_edges ops edges" by blast
  then show ?case
    by (intro exI [of _ "Start_Subtree # ops @ [Finish_Subtree]"]) (simp add: built_built_edges.intros)
next
  case (3 b)
  then show ?case by (auto intro: built_built_edges.intros)
next
  case (4 b l child edges)
  then obtain ops rest where "hash_full_tree (b @ [New_Edge l]) child = (b @ [New_Edge l]) @ ops" "built ops child"
    "hash_edges ((b @ [New_Edge l]) @ ops) edges = ((b @ [New_Edge l]) @ ops) @ rest" "built_edges rest edges"
    by (metis append_assoc)
  then show ?case
    by (intro exI [of _ "New_Edge l # ops @ rest"]) (simp add: built_built_edges.intros)
qed

lemma hash_full_tree_ops: "built (hash_full_tree [] t) t"
  using hash_full_tree_built(1) [of "[]" t] by auto

lemma get_mixed_hash_tree_reveals:
  assumes "trees_documented H bl view" and "flat_ok t"
  shows "\<exists>m. get_mixed_hash_tree bl t = Inr m \<and> reveals (view m) t \<and> (labels_small t \<longrightarrow> tree_small (view m))"
  using assms hash_full_tree_ops [of t]
  by (fastforce simp: trees_documented_def get_mixed_hash_tree_def)

text \<open>The trees that the builder makes are flat maps.\<close>

lemma label_order [simp]:
  "str_bytes ''canister'' < str_bytes ''time''" "str_bytes ''subnet'' < str_bytes ''time''"
  "str_bytes ''canister_ranges'' < str_bytes ''public_key''"
  by (simp_all add: str_bytes_def)

lemma certificate_tree_flat [simp]: "flat_ok (create_certificate_tree i d t)"
  by (simp add: create_certificate_tree_def)

lemma certificate_tree_leaves:
  "leaf_at (create_certificate_tree i d t) [str_bytes ''canister'', i, str_bytes ''certified_data''] = Some d"
  "leaf_at (create_certificate_tree i d t) [str_bytes ''time''] = Some t"
  by (simp_all add: create_certificate_tree_def str_bytes_def)

lemma create_delegation_tree_leaves:
  assumes "create_delegation_tree bl key time sid ranges = Inr t"
  shows "flat_ok t" "labels_small t \<longleftrightarrow>
      length key < 2 ^ 64 \<and> length time < 2 ^ 64 \<and> length sid < 2 ^ 64 \<and> length (cbor_ranges bl ranges) < 2 ^ 64"
    "leaf_at t [str_bytes ''subnet'', sid, str_bytes ''canister_ranges''] = Some (cbor_ranges bl ranges)"
    "leaf_at t [str_bytes ''subnet'', sid, str_bytes ''public_key''] = Some key"
  using assms by (auto simp: create_delegation_tree_def str_bytes_def)

subsection \<open>Certificates and delegations\<close>

lemma seq_pure_Ok: "seq (pure (Inr x)) f = f x"
  by (simp add: fun_eq_iff seq_def pure_def)

lemma seq_run: "m c = Some (Inr x, c') \<Longrightarrow> seq m f c = f x c'"
  by (simp add: seq_def)

lemma generate_keypair_good:
  assumes "keys_documented cl bl"
  shows "\<exists>kp pk r'. generate_keypair bl r = Some (Inr kp, r') \<and> public_key kp = DER_PREFIX @ pk \<and>
    good_keys cl bl pk (private_key kp)"
proof -
  obtain seed r' where fill: "rng_fill bl r = (seed, r')" by fastforce
  from assms obtain pc k ks pk where "generate_threshold_key bl seed 1 1 = Some (pc, k # ks)"
    "combined_public_key bl pc = Some pk" "public_key_to_der bl pk = Some (DER_PREFIX @ pk)" "good_keys cl bl pk k"
    unfolding keys_documented_def by metis
  with fill show ?thesis
    by (simp add: generate_keypair_def seq_def no_panic_def pure_def)
qed

text \<open>A certificate of a key: its signature is that key's on the tree.\<close>

definition certifies ::
  "(bytes \<Rightarrow> hash) \<Rightarrow> ('e, 'p, 'c) cert_lib \<Rightarrow> ('m \<Rightarrow> hash_tree) \<Rightarrow> bytes \<Rightarrow> 'm \<Rightarrow> bytes \<Rightarrow> bool" where
  "certifies H cl view key m sig \<longleftrightarrow>
     (\<forall>d. signed_by H cl (wire_certificate view \<lparr>tc_tree = m, tc_signature = sig, tc_delegation = d\<rparr>) key)"

lemma build_certificate_good:
  assumes "trees_documented H bl view" and "keys_documented cl bl" and "flat_ok t"
  shows "\<exists>kp m sig r'. build_certificate bl t r = Some (Inr (kp, m, sig), r') \<and> reveals (view m) t \<and>
    (labels_small t \<longrightarrow> tree_small (view m)) \<and> length sig = 48 \<and> length (public_key kp) = 133 \<and>
    certifies H cl view (public_key kp) m sig"
proof -
  from generate_keypair_good [OF assms(2), of r] obtain kp pk r' where
    kp: "generate_keypair bl r = Some (Inr kp, r')" "public_key kp = DER_PREFIX @ pk"
    "good_keys cl bl pk (private_key kp)" by blast
  from get_mixed_hash_tree_reveals [OF assms(1,3)] obtain m where
    m: "get_mixed_hash_tree bl t = Inr m" "reveals (view m) t" "labels_small t \<longrightarrow> tree_small (view m)" by blast
  from kp(3) obtain sig where
    sig: "sign_message bl (IC_STATE_ROOT_DOMAIN_SEPARATOR @ digest H (view m)) (private_key kp) = Some sig"
    "length sig = 48" "core_verify cl sig (IC_STATE_ROOT_DOMAIN_SEPARATOR @ digest H (view m)) pk"
    "length pk = KEY_LENGTH"
    unfolding good_keys_def by blast
  have "get_tree_signature bl m (private_key kp) = Inr sig"
    using assms(1,2) sig(1) by (simp add: get_tree_signature_def trees_documented_def keys_documented_def)
  then have "build_certificate bl t r = Some (Inr (kp, m, sig), r')"
    using kp(1) m(1) by (simp add: build_certificate_def seq_def pure_def)
  moreover have "certifies H cl view (public_key kp) m sig"
    using sig(3,4) kp(2) by (simp add: certifies_def signed_by_def signed_message_def wire_certificate_def)
  ultimately show ?thesis
    using m(2,3) sig(2,4) kp(2) by (intro exI [of _ kp] exI [of _ m] exI [of _ sig] exI [of _ r'])
      (simp add: KEY_LENGTH_def)
qed

text \<open>A delegation of the builder is signed by the key it returns and hands over to the given key.\<close>

definition delegates ::
  "(bytes \<Rightarrow> hash) \<Rightarrow> ('e, 'p, 'c) cert_lib \<Rightarrow> ('r, 'q, 's, 'w, 'm, 'i) builder_lib \<Rightarrow> ('m \<Rightarrow> hash_tree) \<Rightarrow>
     'i subnet_data \<Rightarrow> bytes \<Rightarrow> bytes \<Rightarrow> delegation option \<Rightarrow> delegation \<Rightarrow> 'm test_certificate \<Rightarrow> bool" where
  "delegates H cl bl view sd from_key to_key nested d c \<longleftrightarrow>
     subnet_id d = sd_subnet_id sd \<and> delegation_certificate d = cbor_certificate bl c \<and>
     tc_delegation c = nested \<and> length (tc_signature c) = 48 \<and>
     signed_by H cl (wire_certificate view c) from_key \<and>
     lookup_path (view (tc_tree c)) [str_bytes ''subnet'', sd_subnet_id sd, str_bytes ''canister_ranges''] =
       LR_Found (cbor_ranges bl (sd_ranges sd)) \<and>
     lookup_path (view (tc_tree c)) [str_bytes ''subnet'', sd_subnet_id sd, str_bytes ''public_key''] =
       LR_Found to_key"

lemma create_delegation_data_good:
  assumes "trees_documented H bl view" and "keys_documented cl bl"
  shows "\<exists>d kp' c r'. create_delegation_data bl kp time sd nested r = Some (Inr (d, kp'), r') \<and>
    delegates H cl bl view sd (public_key kp') (public_key kp) nested d c \<and>
    (length (public_key kp) < 2 ^ 64 \<longrightarrow> length time < 2 ^ 64 \<longrightarrow> length (sd_subnet_id sd) < 2 ^ 64 \<longrightarrow>
       length (cbor_ranges bl (sd_ranges sd)) < 2 ^ 64 \<longrightarrow> tree_small (view (tc_tree c))) \<and>
    length (public_key kp') = 133"
proof -
  obtain t where t: "create_delegation_tree bl (public_key kp) time (sd_subnet_id sd) (sd_ranges sd) = Inr t"
    by (simp add: create_delegation_tree_def)
  note leaves = create_delegation_tree_leaves [OF t]
  from build_certificate_good [OF assms leaves(1), of r] obtain kp' m sig r' where
    b: "build_certificate bl t r = Some (Inr (kp', m, sig), r')" "reveals (view m) t"
    "labels_small t \<longrightarrow> tree_small (view m)" "length sig = 48" "length (public_key kp') = 133"
    "certifies H cl view (public_key kp') m sig" by blast
  let ?c = "\<lparr>tc_tree = m, tc_signature = sig, tc_delegation = nested\<rparr>"
  have "create_delegation_data bl kp time sd nested r = Some (Inr
      (\<lparr>subnet_id = sd_subnet_id sd, delegation_certificate = cbor_certificate bl ?c\<rparr>, kp'), r')"
    using t b(1) by (simp add: create_delegation_data_def seq_def pure_def Let_def)
  moreover have "signed_by H cl (wire_certificate view ?c) (public_key kp')" using b(6) by (simp add: certifies_def)
  ultimately show ?thesis
    using b(2-5) leaves(2-4)
    by (intro exI [of _ kp'] exI [of _ ?c] exI [of _ r'] exI conjI) (auto simp: delegates_def reveals_def simp del: lookup_path.simps)
qed

subsection \<open>Verification\<close>

text \<open>A valid signature is accepted whatever the cache holds, and so is a valid certificate.\<close>

lemma extract_der_prefixed: "length pk = KEY_LENGTH \<Longrightarrow> extract_der (DER_PREFIX @ pk) = Inr pk"
  by (simp add: extract_der_Ok)

lemma signed_accepted:
  assumes "signed_by H cl cert key"
  shows "\<exists>c'. verify_certificate_signature H cl cert key c = Some (Inr (), c')"
proof -
  from assms obtain pk where "key = DER_PREFIX @ pk" "length pk = KEY_LENGTH"
    "core_verify cl (cert_signature cert) (signed_message H cert) pk"
    by (auto simp: signed_by_def)
  then show ?thesis
    by (auto simp: extract_der_prefixed verify_certificate_signature_def Let_def seq_def pure_def verify_signature_def
        signed_message_def split: prod.splits)
qed

lemma delegated_accepted:
  assumes "delegated_key H cl d i root_key key"
  shows "\<exists>c'. verify_delegation H cl d i root_key c = Some (Inr key, c')"
proof -
  from assms obtain cert range p ranges where d:
    "certificate_from_cbor (cl_nom cl) (delegation_certificate d) = Inr cert" "cert_delegation cert = None"
    "signed_by H cl cert root_key"
    "lookup_path (cert_tree cert) [str_bytes ''subnet'', subnet_id d, str_bytes ''canister_ranges''] = LR_Found range"
    "from_slice cl i = Some p"
    "parse_cbor_principals_array (cl_nom cl) (from_slice cl) range = Some (Inr ranges)"
    "principal_is_within_ranges p ranges"
    "lookup_path (cert_tree cert) [str_bytes ''subnet'', subnet_id d, str_bytes ''public_key''] = LR_Found key"
    unfolding delegated_key_def within_ranges_iff [symmetric] by blast
  from signed_accepted [OF d(3)] obtain c' where "verify_certificate_signature H cl cert root_key c = Some (Inr (), c')"
    by blast
  with d show ?thesis
    by (simp add: verify_delegation_def seq_def pure_def no_panic_def Let_def del: lookup_path.simps)
qed

lemma valid_certificate_accepted:
  assumes "certificate_valid H cl cert i root_key now offset"
  shows "\<exists>c'. certificate_verify H cl cert i root_key now offset c = Some (Inr (), c')"
proof -
  from assms have time: "verify_certificate_time cl cert now offset = Inr ()"
    by (auto simp: certificate_valid_def verify_time_iff)
  from assms obtain key where key: "certificate_key H cl cert i root_key key" "signed_by H cl cert key"
    by (auto simp: certificate_valid_def)
  have "\<exists>c'. (case cert_delegation cert of Some d \<Rightarrow> verify_delegation H cl d i root_key
      | None \<Rightarrow> pure (Inr root_key)) c = Some (Inr key, c')"
    using key(1) delegated_accepted [of H cl _ i root_key key c]
    by (auto simp: certificate_key_def pure_def split: option.splits)
  then obtain c1 where "(case cert_delegation cert of Some d \<Rightarrow> verify_delegation H cl d i root_key
      | None \<Rightarrow> pure (Inr root_key)) c = Some (Inr key, c1)" ..
  moreover from signed_accepted [OF key(2)] obtain c' where
    "verify_certificate_signature H cl cert key c1 = Some (Inr (), c')" by blast
  ultimately show ?thesis using time by (simp add: certificate_verify_def seq_def pure_def)
qed

text \<open>A delegation without a nested one gives its key to the canisters of its ranges.\<close>

lemma delegates_delegated:
  assumes "encoders_documented cl bl view as_principal"
    and "delegates H cl bl view sd from_key to_key None d c" and "tree_small (view (tc_tree c))"
    and "length (sd_ranges sd) < 2 ^ 64"
    and "(lo, hi) \<in> set (sd_ranges sd)" and "as_principal lo \<le> as_principal i" and "as_principal i \<le> as_principal hi"
  shows "delegated_key H cl d (canister_bytes bl i) from_key to_key"
proof -
  have small: "certificate_small (wire_certificate view c)"
    using assms(2,3) by (simp add: certificate_small_def wire_certificate_def delegates_def)
  let ?rs = "map (map_prod as_principal as_principal) (sd_ranges sd)"
  note enc = encoders_documentedD [OF assms(1)]
  have "certificate_from_cbor (cl_nom cl) (delegation_certificate d) = Inr (wire_certificate view c)"
    using enc(6) [OF small] assms(2) by (simp only: delegates_def)
  moreover note enc(3) enc(5) [OF assms(4)]
  moreover have "\<exists>r \<in> set ?rs. fst r \<le> as_principal i \<and> as_principal i \<le> snd r"
    using assms(5-7) by (intro bexI [of _ "map_prod as_principal as_principal (lo, hi)"]) auto
  moreover have "cert_delegation (wire_certificate view c) = None"
    "cert_tree (wire_certificate view c) = view (tc_tree c)"
    using assms(2) by (auto simp: delegates_def wire_certificate_def simp del: lookup_path.simps)
  moreover note d = assms(2) [unfolded delegates_def]
  moreover have "subnet_id d = sd_subnet_id sd" "signed_by H cl (wire_certificate view c) from_key" using d by blast+
  ultimately show ?thesis unfolding delegated_key_def by metis
qed

text \<open>The own tree of a certificate for a canister: its time, its certified data and the key that signs it.\<close>

definition canister_certificate ::
  "(bytes \<Rightarrow> hash) \<Rightarrow> ('e, 'p, 'c) cert_lib \<Rightarrow> ('r, 'q, 's, 'w, 'm, 'i) builder_lib \<Rightarrow> ('m \<Rightarrow> hash_tree) \<Rightarrow>
     'i \<Rightarrow> bytes \<Rightarrow> 64 word \<Rightarrow> 's key_pair \<Rightarrow> 'm \<Rightarrow> bytes \<Rightarrow> bool" where
  "canister_certificate H cl bl view i d t kp m sig \<longleftrightarrow>
     lookup_path (view m) [str_bytes ''canister'', canister_bytes bl i, str_bytes ''certified_data''] = LR_Found d \<and>
     (\<exists>bs. lookup_path (view m) [str_bytes ''time''] = LR_Found bs \<and> leb_read cl bs = Inr t) \<and>
     certifies H cl view (public_key kp) m sig \<and> length (public_key kp) = 133"

lemma builder_build_start:
  assumes "trees_documented H bl view" and "keys_documented cl bl" and "encoders_documented cl bl view as_principal"
    and "cb_canister b = Some \<lparr>cd_canister_id = i, cd_certified_data = d\<rparr>" and "cb_custom_tree b = None"
    and "cb_signature b = None"
  shows "\<exists>time kp m sig r'. length time \<le> 10 \<and>
    canister_certificate H cl bl view i d (ucast (unwrap_or (cb_time b) DEFAULT_CERTIFICATE_TIME)) kp m sig \<and>
    builder_build bl b r =
      seq (build_nested_delegation bl b kp time) (\<lambda>nested. case nested of
          Some (dl, kp) \<Rightarrow> pure (Inr (make_certificate_data bl m sig (Some dl) kp))
        | None \<Rightarrow> seq (build_delegation bl b kp time) (\<lambda>delegation_data. case delegation_data of
              Some (dl, kp) \<Rightarrow> pure (Inr (make_certificate_data bl m sig (Some dl) kp))
            | None \<Rightarrow> pure (Inr (make_certificate_data bl m sig None kp)))) r'"
proof -
  let ?t = "ucast (unwrap_or (cb_time b) DEFAULT_CERTIFICATE_TIME) :: 64 word"
  from encoders_documentedD(1) [OF assms(3), of ?t] obtain time where
    time: "leb_write bl ?t = Some time" "length time \<le> 10" "leb_read cl time = Inr ?t" by blast
  let ?tree = "create_certificate_tree (canister_bytes bl i) d time"
  from build_certificate_good [OF assms(1,2) certificate_tree_flat [of "canister_bytes bl i" d time], of r]
  obtain kp m sig r' where c: "build_certificate bl ?tree r = Some (Inr (kp, m, sig), r')"
    "reveals (view m) ?tree" "length (public_key kp) = 133" "certifies H cl view (public_key kp) m sig" by blast
  have "canister_certificate H cl bl view i d ?t kp m sig"
    using c(2-4) time(3) certificate_tree_leaves [of "canister_bytes bl i" d time]
    unfolding canister_certificate_def reveals_def by blast
  moreover have "builder_build bl b r =
      seq (build_nested_delegation bl b kp time) (\<lambda>nested. case nested of
          Some (dl, kp) \<Rightarrow> pure (Inr (make_certificate_data bl m sig (Some dl) kp))
        | None \<Rightarrow> seq (build_delegation bl b kp time) (\<lambda>delegation_data. case delegation_data of
              Some (dl, kp) \<Rightarrow> pure (Inr (make_certificate_data bl m sig (Some dl) kp))
            | None \<Rightarrow> pure (Inr (make_certificate_data bl m sig None kp)))) r'"
    using assms(4-6) time(1) c(1)
    by (simp add: builder_build_def leb_encode_timestamp_def builder_tree_def Let_def seq_pure_Ok seq_run)
  ultimately show ?thesis using time(2) by blast
qed

text \<open>The verification of what the builder returns.\<close>

lemma canister_certificate_valid:
  assumes "canister_certificate H cl bl view i d t kp m sig" and "time_in_window now offset t"
    and "certificate_key H cl (wire_certificate view \<lparr>tc_tree = m, tc_signature = sig, tc_delegation = dl\<rparr>)
      (canister_bytes bl i) root_key (public_key kp)"
  shows "certificate_valid H cl (wire_certificate view \<lparr>tc_tree = m, tc_signature = sig, tc_delegation = dl\<rparr>)
    (canister_bytes bl i) root_key now offset"
proof -
  have "cert_tree (wire_certificate view \<lparr>tc_tree = m, tc_signature = sig, tc_delegation = dl\<rparr>) = view m"
    by (simp add: wire_certificate_def)
  with assms show ?thesis unfolding certificate_valid_def canister_certificate_def certifies_def by metis
qed

subsection \<open>A concrete library\<close>

text \<open>Keys without a secret, a signature that is the padded message, numbers as canister identifiers,
  and the hash tree itself as mixed tree.\<close>

fun digits :: "nat \<Rightarrow> nat \<Rightarrow> bytes" where
  "digits 0 n = []"
| "digits (Suc k) n = of_nat (n mod 256) # digits k (n div 256)"

fun undigits :: "bytes \<Rightarrow> nat" where
  "undigits [] = 0"
| "undigits (b # bs) = unat b + 256 * undigits bs"

lemma undigits_digits: "n < 256 ^ k \<Longrightarrow> undigits (digits k n) = n"
proof (induction k arbitrary: n)
  case (Suc k)
  then have "n div 256 < 256 ^ k" by (simp add: less_mult_imp_div_less mult.commute)
  with Suc.IH show ?case by (simp add: unat_of_nat)
qed simp

lemma length_digits [simp]: "length (digits k n) = k"
  by (induction k arbitrary: n) simp_all

fun tree_of_edges :: "hash_tree list \<Rightarrow> hash_tree" where
  "tree_of_edges [] = Empty"
| "tree_of_edges [t] = t"
| "tree_of_edges (t # ts) = Fork t (tree_of_edges ts)"

fun tree_of_labeled :: "labeled_tree \<Rightarrow> hash_tree" where
  "tree_of_labeled (LT_Leaf v) = Leaf v"
| "tree_of_labeled (LT_SubTree edges) =
     tree_of_edges (map (\<lambda>e. Labeled (fst e) (tree_of_labeled (snd e))) edges)"

lemma lookup_label_edges:
  "sorted_keys edges \<Longrightarrow> map_of edges l = Some t \<Longrightarrow>
     lookup_label (tree_of_edges (map (\<lambda>e. Labeled (fst e) (f (snd e))) edges)) l = LLR_Found (f t)"
proof (induction edges)
  case (Cons e edges)
  obtain k u where e: "e = (k, u)" by fastforce
  show ?case
  proof (cases "l = k")
    case True
    with Cons.prems e show ?thesis by (cases edges) (simp_all add: bytes_cmp_eqs)
  next
    case False
    with Cons.prems e have m: "map_of edges l = Some t" by simp
    then have "k < l" using Cons.prems e by (auto dest!: map_of_SomeD)
    moreover from m obtain e' es where "edges = e' # es" by (cases edges) auto
    ultimately show ?thesis using Cons.IH Cons.prems e m by (simp add: bytes_cmp_eqs)
  qed
qed simp

lemma tree_of_labeled_reveals: "flat_ok t \<Longrightarrow> reveals (tree_of_labeled t) t"
  unfolding reveals_def
proof (intro allI impI)
  show "flat_ok t \<Longrightarrow> leaf_at t path = Some v \<Longrightarrow> lookup_path (tree_of_labeled t) path = LR_Found v" for path v
  proof (induction t path rule: leaf_at.induct)
    case (2 edges l path)
    then obtain t where t: "map_of edges l = Some t" "leaf_at t path = Some v" by (auto split: option.splits)
    then have "flat_ok t" using 2(2) by (auto dest!: map_of_SomeD)
    with 2(1) [OF t(1)] t(2) lookup_label_edges [of edges l t tree_of_labeled] 2(2) t(1)
    show ?case by simp
  qed simp_all
qed

lemma tree_of_edges_small: "(\<forall>t \<in> set ts. tree_small t) \<Longrightarrow> tree_small (tree_of_edges ts)"
  by (induction ts rule: tree_of_edges.induct) simp_all

lemma tree_of_labeled_small: "labels_small t \<Longrightarrow> tree_small (tree_of_labeled t)"
  by (induction t rule: tree_of_labeled.induct) (fastforce intro!: tree_of_edges_small)+

definition padded :: "bytes \<Rightarrow> bytes" where
  "padded msg = take 48 (msg @ replicate 48 0)"

definition signing_cert :: "(string, bytes, nat \<times> hash list) cert_lib" where
  "signing_cert = plain_cert\<lparr>core_verify := (\<lambda>sig msg pk. sig = padded msg),
     leb_read := (\<lambda>bs. Inr (of_nat (undigits bs)))\<rparr>"

definition plain_builder ::
  "(bytes \<Rightarrow> hash) \<Rightarrow> (nat, unit, unit, unit, hash_tree, 64 word) builder_lib" where
  "plain_builder H = \<lparr>
     rng_fill = (\<lambda>n. (digits 32 n, Suc n)),
     generate_threshold_key = (\<lambda>seed n m. Some ((), [()])),
     combined_public_key = (\<lambda>_. Some (replicate 96 7)),
     public_key_to_der = (\<lambda>pk. Some (DER_PREFIX @ pk)),
     sign_message = (\<lambda>msg _. Some (padded msg)),
     as_signed_bytes = (\<lambda>h. IC_STATE_ROOT_DOMAIN_SEPARATOR @ h),
     witness_generator = (\<lambda>_. Some ()),
     mixed_hash_tree = (\<lambda>_ t. Some (tree_of_labeled t)),
     mixed_digest = digest H,
     leb_write = (\<lambda>t. Some (digits 8 (unat t))),
     cbor_ranges = (\<lambda>rs. cbor_encode self_describe_tag cbor_enc (SSeq (map (\<lambda>(low, high).
        SSeq [SBytes (digits 8 (unat low)), SBytes (digits 8 (unat high))]) rs))),
     cbor_certificate = (\<lambda>c. if certificate_small (wire_certificate (\<lambda>m. m) c)
        then cbor_encode self_describe_tag cbor_enc (certificate_serialize (wire_certificate (\<lambda>m. m) c)) else []),
     canister_from_str = (\<lambda>s. Some (of_nat (length s))),
     canister_from_u64 = (\<lambda>n. n),
     canister_bytes = (\<lambda>n. digits 8 (unat n)),
     subnet_test_id = (\<lambda>n. digits 8 (unat n))\<rparr>"

lemma plain_trees: "trees_documented H (plain_builder H) (\<lambda>m. m)"
  by (simp add: trees_documented_def plain_builder_def tree_of_labeled_reveals tree_of_labeled_small)

lemma plain_keys: "keys_documented signing_cert (plain_builder H)"
  by (auto simp: keys_documented_def good_keys_def plain_builder_def signing_cert_def padded_def KEY_LENGTH_def
      min_def)

lemma plain_ranges:
  fixes rs :: "(64 word \<times> 64 word) list"
  assumes "length rs < 2 ^ 64"
  shows "parse_cbor_principals_array nom_ref (from_slice plain_cert)
     (cbor_encode self_describe_tag cbor_enc (SSeq (map (\<lambda>(low, high).
        SSeq [SBytes (digits 8 (unat low)), SBytes (digits 8 (unat high))]) rs))) =
   Some (Inr (map (map_prod (\<lambda>n. digits 8 (unat n)) (\<lambda>n. digits 8 (unat n))) rs))"
proof -
  let ?v = "SSeq (map (\<lambda>(low, high). SSeq [SBytes (digits 8 (unat (low :: 64 word))),
    SBytes (digits 8 (unat (high :: 64 word)))]) rs)"
  have "serde_small ?v" using assms by auto
  from parse_cbor_encoded [OF nom_ref_documented cbor_enc_documented this]
  have "parse_cbor nom_ref (cbor_encode self_describe_tag cbor_enc ?v) = Inr (cbor_of_serde ?v)" .
  moreover have "range_entries (from_slice plain_cert) (map (cbor_of_serde \<circ> (\<lambda>(low, high).
      SSeq [SBytes (digits 8 (unat (low :: 64 word))), SBytes (digits 8 (unat (high :: 64 word)))])) rs) =
    Some (Inr (map (map_prod (\<lambda>n. digits 8 (unat n)) (\<lambda>n. digits 8 (unat n))) rs) :: string cbor_error + _)"
    by (induction rs) auto
  ultimately show ?thesis by (simp add: parse_cbor_principals_array_def)
qed

lemma plain_encoders: "encoders_documented signing_cert (plain_builder H) (\<lambda>m. m) (\<lambda>n. digits 8 (unat n))"
proof -
  have n: "undigits (digits 8 (unat t)) = unat t" for t :: "64 word"
    by (rule undigits_digits) (use unsigned_less [of t] in simp)
  have read: "certificate_from_cbor nom_ref (cbor_encode self_describe_tag cbor_enc (certificate_serialize c)) = Inr c"
    if "certificate_small c" for c
    using parse_cbor_encoded [OF nom_ref_documented cbor_enc_documented certificate_serde_small [OF that]]
      certificate_of_serde [OF that] by (simp add: certificate_from_cbor_def)
  show ?thesis
    unfolding encoders_documented_def
    using empty_cbor [OF nom_ref_documented]
    by (auto simp: plain_builder_def signing_cert_def n read plain_ranges split: if_splits)
qed

subsection \<open>Properties\<close>

text \<open>The builders of the tests: for a canister and a time, without a delegation or with one whose
  ranges hold the canister.\<close>

definition accepted_builder ::
  "('r, 'q, 's, 'w, 'm, 'i) builder_lib \<Rightarrow> ('i \<Rightarrow> 'p::linorder) \<Rightarrow> 'i certificate_builder \<Rightarrow> 'i \<Rightarrow>
     'i certificate_builder \<Rightarrow> bool" where
  "accepted_builder bl as_principal b i b' \<longleftrightarrow> b' = b \<or>
     (\<exists>n ranges. b' = with_delegation bl n ranges b \<and> length ranges < 2 ^ 64 \<and>
        length (cbor_ranges bl (sd_ranges (create_subnet_data bl n ranges))) < 2 ^ 64 \<and>
        (\<exists>(low, high) \<in> set ranges. as_principal (canister_from_u64 bl low) \<le> as_principal i \<and>
           as_principal i \<le> as_principal (canister_from_u64 bl high)))"

lemma build_delegation_good:
  assumes "trees_documented H bl view" and "keys_documented cl bl" and "encoders_documented cl bl view as_principal"
    and "length time \<le> 10" and "length (public_key kp) = 133" and "length ranges < 2 ^ 64"
    and "length (cbor_ranges bl (sd_ranges (create_subnet_data bl n ranges))) < 2 ^ 64" and "(low, high) \<in> set ranges"
    and "as_principal (canister_from_u64 bl low) \<le> as_principal i"
    and "as_principal i \<le> as_principal (canister_from_u64 bl high)"
  shows "\<exists>dl kp' r'. build_delegation bl (with_delegation bl n ranges b) kp time r = Some (Inr (Some (dl, kp')), r') \<and>
    delegated_key H cl dl (canister_bytes bl i) (public_key kp') (public_key kp)"
proof -
  let ?sd = "create_subnet_data bl n ranges"
  from create_delegation_data_good [OF assms(1,2), of kp time ?sd None r] obtain dl kp' dc r' where
    del: "create_delegation_data bl kp time ?sd None r = Some (Inr (dl, kp'), r')"
    "delegates H cl bl view ?sd (public_key kp') (public_key kp) None dl dc"
    "length (public_key kp) < 2 ^ 64 \<longrightarrow> length time < 2 ^ 64 \<longrightarrow> length (sd_subnet_id ?sd) < 2 ^ 64 \<longrightarrow>
     length (cbor_ranges bl (sd_ranges ?sd)) < 2 ^ 64 \<longrightarrow> tree_small (view (tc_tree dc))" by blast
  have "length (sd_subnet_id ?sd) \<le> 29"
    using encoders_documentedD(4) [OF assms(3), of n] by (simp add: create_subnet_data_def)
  then have small: "tree_small (view (tc_tree dc))" using del(3) assms(4,5,7) by simp
  have "(canister_from_u64 bl low, canister_from_u64 bl high) \<in> set (sd_ranges ?sd)" "length (sd_ranges ?sd) < 2 ^ 64"
    using assms(6,8) by (force simp: create_subnet_data_def)+
  then have "delegated_key H cl dl (canister_bytes bl i) (public_key kp') (public_key kp)"
    using delegates_delegated [OF assms(3) del(2) small _ _ assms(9,10)] by blast
  then show ?thesis using del(1) by (simp add: build_delegation_def with_delegation_def seq_def pure_def)
qed

lemma builder_new_eq:
  "builder_new bl name d = Inr b0 \<Longrightarrow> canister_from_str bl name = Some i \<Longrightarrow>
     b0 = \<lparr>cb_time = None, cb_canister = Some \<lparr>cd_canister_id = i, cd_certified_data = d\<rparr>, cb_subnet = None,
        cb_nested_subnet = None, cb_signature = None, cb_custom_tree = None\<rparr>"
  by (simp add: builder_new_def)

lemma built_certificate_valid:
  assumes "trees_documented H bl view" and "keys_documented cl bl" and "encoders_documented cl bl view as_principal"
    and "canister_from_str bl name = Some i" and "builder_new bl name d = Inr b0"
    and "accepted_builder bl as_principal (with_time t b0) i b" and "time_in_window now offset (ucast t)"
  shows "\<exists>cd r'. builder_build bl b r = Some (Inr cd, r') \<and>
    certificate_valid H cl (wire_certificate view (cd_certificate cd)) (canister_bytes bl i) (cd_root_key cd) now offset \<and>
    lookup_path (view (tc_tree (cd_certificate cd)))
      [str_bytes ''canister'', canister_bytes bl i, str_bytes ''certified_data''] = LR_Found d \<and>
    cd_cbor cd = cbor_certificate bl (cd_certificate cd)"
proof -
  note b0 = builder_new_eq [OF assms(5,4)]
  let ?wire = "\<lambda>m sig dl. \<lparr>tc_tree = m, tc_signature = sig, tc_delegation = dl\<rparr>"
  have b: "cb_canister b = Some \<lparr>cd_canister_id = i, cd_certified_data = d\<rparr>" "cb_custom_tree b = None"
    "cb_signature b = None" "cb_nested_subnet b = None" "cb_time b = Some t"
    using assms(6) b0 by (auto simp: accepted_builder_def with_delegation_def with_time_def)
  from builder_build_start [OF assms(1-3) b(1-3), of r] obtain time kp m sig r' where
    time: "length time \<le> 10" and c: "canister_certificate H cl bl view i d (ucast t) kp m sig" and
    run: "builder_build bl b r = seq (build_delegation bl b kp time) (\<lambda>delegation_data. case delegation_data of
              Some (dl, kp) \<Rightarrow> pure (Inr (make_certificate_data bl m sig (Some dl) kp))
            | None \<Rightarrow> pure (Inr (make_certificate_data bl m sig None kp))) r'"
    using b(4,5) by (auto simp: build_nested_delegation_def seq_pure_Ok split: option.splits)
  have data: "lookup_path (view m) [str_bytes ''canister'', canister_bytes bl i, str_bytes ''certified_data''] = LR_Found d"
    using c by (simp only: canister_certificate_def)
  note valid = canister_certificate_valid [OF c assms(7)]
  show ?thesis
  proof (cases "b = with_time t b0")
    case True
    then have "builder_build bl b r = Some (Inr (make_certificate_data bl m sig None kp), r')"
      using run b0 by (simp add: build_delegation_def with_time_def seq_pure_Ok pure_def)
    moreover have "certificate_key H cl (wire_certificate view (?wire m sig None)) (canister_bytes bl i) (public_key kp)
        (public_key kp)"
      by (simp add: certificate_key_def wire_certificate_def)
    ultimately show ?thesis using valid data by (auto simp: make_certificate_data_def Let_def simp del: lookup_path.simps)
  next
    case False
    then obtain n ranges low high where sd: "b = with_delegation bl n ranges (with_time t b0)" "length ranges < 2 ^ 64"
      "length (cbor_ranges bl (sd_ranges (create_subnet_data bl n ranges))) < 2 ^ 64" "(low, high) \<in> set ranges"
      "as_principal (canister_from_u64 bl low) \<le> as_principal i" "as_principal i \<le> as_principal (canister_from_u64 bl high)"
      using assms(6) by (auto simp: accepted_builder_def)
    have "length (public_key kp) = 133" using c by (simp only: canister_certificate_def)
    from build_delegation_good [OF assms(1-3) time this sd(2-6), of "with_time t b0" r'] obtain dl kp' r'' where
      dl: "build_delegation bl b kp time r' = Some (Inr (Some (dl, kp')), r'')"
      "delegated_key H cl dl (canister_bytes bl i) (public_key kp') (public_key kp)"
      using sd(1) by blast
    have "certificate_key H cl (wire_certificate view (?wire m sig (Some dl))) (canister_bytes bl i) (public_key kp')
        (public_key kp)"
      using dl(2) by (simp add: certificate_key_def wire_certificate_def)
    moreover have "builder_build bl b r = Some (Inr (make_certificate_data bl m sig (Some dl) kp'), r'')"
      using run dl(1) by (simp add: seq_run pure_def)
    ultimately show ?thesis using valid data by (auto simp: make_certificate_data_def Let_def simp del: lookup_path.simps)
  qed
qed

text \<open>C34: A certificate that the builder makes for a canister and a time is accepted for that canister
  under the returned root key, whatever the signature cache holds, when the time lies in the window and
  the ranges of its delegation, if it has one, hold the canister; it certifies the given data.\<close>

theorem built_certificate_accepted:
  assumes "trees_documented H bl view" and "keys_documented cl bl" and "encoders_documented cl bl view as_principal"
    and "canister_from_str bl name = Some i" and "builder_new bl name d = Inr b0"
    and "accepted_builder bl as_principal (with_time t b0) i b" and "time_in_window now offset (ucast t)"
  shows "\<exists>cd r'. builder_build bl b r = Some (Inr cd, r') \<and>
    (\<forall>c. \<exists>c'. certificate_verify H cl (wire_certificate view (cd_certificate cd)) (canister_bytes bl i)
       (cd_root_key cd) now offset c = Some (Inr (), c')) \<and>
    lookup_path (view (tc_tree (cd_certificate cd)))
      [str_bytes ''canister'', canister_bytes bl i, str_bytes ''certified_data''] = LR_Found d \<and>
    cd_cbor cd = cbor_certificate bl (cd_certificate cd)"
proof -
  from built_certificate_valid [OF assms, of r] obtain cd r' where cd: "builder_build bl b r = Some (Inr cd, r')"
    "certificate_valid H cl (wire_certificate view (cd_certificate cd)) (canister_bytes bl i) (cd_root_key cd) now offset"
    "lookup_path (view (tc_tree (cd_certificate cd)))
      [str_bytes ''canister'', canister_bytes bl i, str_bytes ''certified_data''] = LR_Found d"
    "cd_cbor cd = cbor_certificate bl (cd_certificate cd)" by blast
  from valid_certificate_accepted [OF cd(2)] cd(1,3,4) show ?thesis by blast
qed

theorem built_certificate_accepted_witness:
  "\<exists>b0 cd r'. builder_new (plain_builder pad_hash) ''c'' [9] = Inr b0 \<and>
    builder_build (plain_builder pad_hash) (with_delegation (plain_builder pad_hash) 123 [(1, 1)] (with_time 5 b0)) 0 =
      Some (Inr cd, r') \<and>
    (\<forall>c. \<exists>c'. certificate_verify pad_hash signing_cert (wire_certificate (\<lambda>m. m) (cd_certificate cd))
       (canister_bytes (plain_builder pad_hash) 1) (cd_root_key cd) 6 2 c = Some (Inr (), c'))"
proof -
  let ?bl = "plain_builder pad_hash"
  obtain b0 where b0: "builder_new ?bl ''c'' [9] = Inr b0" by (simp add: builder_new_def plain_builder_def)
  have name: "canister_from_str ?bl ''c'' = Some 1" by (simp add: plain_builder_def)
  have ranges: "length (cbor_ranges ?bl (sd_ranges (create_subnet_data ?bl 123 [(1, 1)]))) < 2 ^ 64"
    by (simp add: plain_builder_def create_subnet_data_def cbor_encode_def self_describe_tag_def cbor_head_def)
  have "accepted_builder ?bl (\<lambda>n. digits 8 (unat n)) (with_time 5 b0) 1
      (with_delegation ?bl 123 [(1, 1)] (with_time 5 b0))"
    unfolding accepted_builder_def using ranges
    by (intro disjI2 exI [of _ 123] exI [of _ "[(1, 1)]"])
      (simp add: plain_builder_def)
  moreover have "time_in_window 6 2 (ucast (5 :: 128 word))" by (simp add: time_in_window_def)
  ultimately have "\<exists>cd r'. builder_build ?bl (with_delegation ?bl 123 [(1, 1)] (with_time 5 b0)) 0 = Some (Inr cd, r') \<and>
    (\<forall>c. \<exists>c'. certificate_verify pad_hash signing_cert (wire_certificate (\<lambda>m. m) (cd_certificate cd))
       (canister_bytes ?bl 1) (cd_root_key cd) 6 2 c = Some (Inr (), c'))"
    using built_certificate_accepted [OF plain_trees plain_keys plain_encoders name b0] by blast
  with b0 show ?thesis by blast
qed

lemma nested_built:
  assumes "trees_documented H bl view" and "keys_documented cl bl" and "encoders_documented cl bl view as_principal"
    and "canister_from_str bl name = Some i" and "builder_new bl name d = Inr b0"
    and "b = with_nested_delegation bl n' ranges' (with_delegation bl n ranges (with_time t b0))"
  shows "\<exists>kp signer nkp m sig ndl dl dc r'.
    builder_build bl b r = Some (Inr (make_certificate_data bl m sig (Some dl) nkp), r') \<and>
    canister_certificate H cl bl view i d (ucast t) kp m sig \<and>
    delegates H cl bl view (create_subnet_data bl n ranges) signer (public_key nkp) (Some ndl) dl dc"
proof -
  have b: "cb_canister b = Some \<lparr>cd_canister_id = i, cd_certified_data = d\<rparr>" "cb_custom_tree b = None"
    "cb_signature b = None" "cb_time b = Some t" "cb_subnet b = Some (create_subnet_data bl n ranges)"
    "cb_nested_subnet b = Some (create_subnet_data bl n' ranges')"
    using builder_new_eq [OF assms(5,4)] assms(6)
    by (simp_all add: with_delegation_def with_nested_delegation_def with_time_def)
  let ?sd = "create_subnet_data bl n ranges" and ?nested = "create_subnet_data bl n' ranges'"
  from builder_build_start [OF assms(1-3) b(1-3), of r] obtain time kp m sig r1 where
    c: "canister_certificate H cl bl view i d (ucast t) kp m sig" and
    run: "builder_build bl b r = seq (build_nested_delegation bl b kp time) (\<lambda>nested. case nested of
          Some (dl, kp) \<Rightarrow> pure (Inr (make_certificate_data bl m sig (Some dl) kp))
        | None \<Rightarrow> seq (build_delegation bl b kp time) (\<lambda>delegation_data. case delegation_data of
              Some (dl, kp) \<Rightarrow> pure (Inr (make_certificate_data bl m sig (Some dl) kp))
            | None \<Rightarrow> pure (Inr (make_certificate_data bl m sig None kp)))) r1"
    using b(4) by auto
  from create_delegation_data_good [OF assms(1,2), of kp time ?nested None r1] obtain ndl nkp r2 where
    n: "create_delegation_data bl kp time ?nested None r1 = Some (Inr (ndl, nkp), r2)" by blast
  from create_delegation_data_good [OF assms(1,2), of nkp time ?sd "Some ndl" r2] obtain dl kp' dc r3 where
    o: "create_delegation_data bl nkp time ?sd (Some ndl) r2 = Some (Inr (dl, kp'), r3)"
    "delegates H cl bl view ?sd (public_key kp') (public_key nkp) (Some ndl) dl dc" by blast
  have built: "builder_build bl b r = Some (Inr (make_certificate_data bl m sig (Some dl) nkp), r3)"
    using run n o(1) b(5,6) by (simp add: build_nested_delegation_def seq_run seq_def pure_def)
  with c o(2) show ?thesis by blast
qed

text \<open>C35: A certificate that the builder makes with a nested delegation is never accepted: when its
  delegation can be read the error is that it has too many delegations. The chain is crossed besides:
  the certificate of the outer delegation hands over to the returned root key itself, not to a key that
  signs the next certificate.\<close>

theorem nested_delegation_rejected:
  assumes "trees_documented H bl view" and "keys_documented cl bl" and "encoders_documented cl bl view as_principal"
    and "canister_from_str bl name = Some i" and "builder_new bl name d = Inr b0"
    and "b = with_nested_delegation bl n' ranges' (with_delegation bl n ranges (with_time t b0))"
    and "time_in_window now offset (ucast t)"
  shows "\<exists>cd dl r'. builder_build bl b r = Some (Inr cd, r') \<and> tc_delegation (cd_certificate cd) = Some dl \<and>
    (\<forall>c. \<exists>e. certificate_verify H cl (wire_certificate view (cd_certificate cd)) canister_id (cd_root_key cd)
       now offset c = Some (Inl e, c) \<and>
       (\<forall>outer. certificate_from_cbor (cl_nom cl) (delegation_certificate dl) = Inr outer \<longrightarrow>
          e = CertificateHasTooManyDelegations \<and>
          lookup_path (cert_tree outer) [str_bytes ''subnet'', subnet_id dl, str_bytes ''public_key''] =
            LR_Found (cd_root_key cd)))"
proof -
  let ?sd = "create_subnet_data bl n ranges"
  from nested_built [OF assms(1-6), of r] obtain kp signer nkp m sig ndl dl dc r' where
    built: "builder_build bl b r = Some (Inr (make_certificate_data bl m sig (Some dl) nkp), r')"
    and c: "canister_certificate H cl bl view i d (ucast t) kp m sig"
    and o: "delegates H cl bl view ?sd signer (public_key nkp) (Some ndl) dl dc" by blast
  let ?cd = "make_certificate_data bl m sig (Some dl) nkp"
  let ?cert = "wire_certificate view (cd_certificate ?cd)"
  have cert: "cert_tree ?cert = view m" "cert_delegation ?cert = Some dl" "cd_root_key ?cd = public_key nkp"
    "tc_delegation (cd_certificate ?cd) = Some dl"
    by (simp_all add: make_certificate_data_def wire_certificate_def Let_def)
  have "verify_certificate_time cl ?cert now offset = Inr ()"
    using c assms(7) unfolding verify_time_iff cert canister_certificate_def by metis
  then have verify: "certificate_verify H cl ?cert canister_id (public_key nkp) now offset s =
      seq (verify_delegation H cl dl canister_id (public_key nkp)) (verify_certificate_signature H cl ?cert) s" for s
    by (simp add: certificate_verify_def seq_pure_Ok cert)
  have outer: "cert_delegation outer \<noteq> None \<and>
      lookup_path (cert_tree outer) [str_bytes ''subnet'', subnet_id dl, str_bytes ''public_key''] = LR_Found (public_key nkp)"
    if "certificate_from_cbor (cl_nom cl) (delegation_certificate dl) = Inr outer" for outer
  proof -
    note del = o [unfolded delegates_def]
    have "outer = wire_certificate view dc"
      using that del by (intro encoders_documentedD(7) [OF assms(3)]) simp
    then show ?thesis using del by (simp add: wire_certificate_def del: lookup_path.simps)
  qed
  have "\<exists>e. certificate_verify H cl ?cert canister_id (cd_root_key ?cd) now offset s = Some (Inl e, s) \<and>
       (\<forall>outer. certificate_from_cbor (cl_nom cl) (delegation_certificate dl) = Inr outer \<longrightarrow>
          e = CertificateHasTooManyDelegations \<and>
          lookup_path (cert_tree outer) [str_bytes ''subnet'', subnet_id dl, str_bytes ''public_key''] =
            LR_Found (cd_root_key ?cd))" for s
    using outer unfolding cert(3) verify
    by (cases "certificate_from_cbor (cl_nom cl) (delegation_certificate dl)")
      (auto simp: verify_delegation_def seq_def pure_def simp del: lookup_path.simps)
  with built cert(4) show ?thesis by blast
qed

theorem nested_delegation_rejected_witness:
  "\<exists>b0 cd dl r'. builder_new (plain_builder pad_hash) ''c'' [9] = Inr b0 \<and>
    builder_build (plain_builder pad_hash) (with_nested_delegation (plain_builder pad_hash) 456 [(20, 19)]
      (with_delegation (plain_builder pad_hash) 123 [(0, 9)] (with_time 5 b0))) 0 = Some (Inr cd, r') \<and>
    tc_delegation (cd_certificate cd) = Some dl \<and>
    (\<forall>c. \<exists>e. certificate_verify pad_hash signing_cert (wire_certificate (\<lambda>m. m) (cd_certificate cd)) [1]
      (cd_root_key cd) 6 2 c = Some (Inl e, c))"
proof -
  let ?bl = "plain_builder pad_hash"
  obtain b0 where b0: "builder_new ?bl ''c'' [9] = Inr b0" by (simp add: builder_new_def plain_builder_def)
  have name: "canister_from_str ?bl ''c'' = Some 1" by (simp add: plain_builder_def)
  have "time_in_window 6 2 (ucast (5 :: 128 word))" by (simp add: time_in_window_def)
  from nested_delegation_rejected [OF plain_trees plain_keys plain_encoders name b0 refl this, of 456 "[(20, 19)]"
      123 "[(0, 9)]" 0 "[1]"] b0 show ?thesis by blast
qed

text \<open>The time of a builder is written modulo $2^{64}$, although it is a 128-bit number.\<close>

lemma builder_time_truncated:
  "leb_encode_timestamp bl (t + 2 ^ 64) = leb_encode_timestamp bl t"
proof -
  have "(ucast (t + 2 ^ 64) :: 64 word) = ucast t"
    by transfer (simp add: take_bit_eq_mod mod_mod_cancel)
  then show ?thesis by (simp add: leb_encode_timestamp_def)
qed

end
