(* ===== verification/Json_Api.thy ===== *)
theory Json_Api
  imports Response_Complete Rust_Num "HOL-Library.AList"
begin

text \<open>
  The JSON API of \<^verbatim>\<open>examples/http-certification/json-api/src/backend/src\<close>: a canister that keeps todo
  items, certifies the response that lists them whenever they change, and answers queries from the
  certified responses. The crates \<^verbatim>\<open>serde_json\<close> and \<^verbatim>\<open>matchit\<close>, the order of hash maps and Unicode upper
  case are parameters. The thread-local cells are one state; \<^term>\<open>None\<close> is a trap, after which the
  canister keeps the state from before the call.
\<close>

subsection \<open>Types\<close>

text \<open>The values that the derived \<^verbatim>\<open>Serialize\<close> instances produce.\<close>

datatype json =
    J_Unit
  | J_Bool bool
  | J_Number nat
  | J_String bytes
  | J_Array "json list"
  | J_Object "(bytes \<times> json) list"

record todo_item =
  todo_id :: "32 word"
  todo_title :: bytes
  todo_completed :: bool

datatype 'a api_response = Api_Ok 'a | Api_Err "16 word" bytes

record create_todo_request =
  create_title :: bytes

record update_todo_request =
  update_title :: "bytes option"
  update_completed :: "bool option"

text \<open>The handlers are function pointers; \<^typ>\<open>'rt\<close> is \<^verbatim>\<open>matchit::Router<RouteHandler>\<close>, and the
  parameters of a match are its names and values.\<close>

datatype route_handler =
    Upgrade_To_Update_Call
  | Query_Handler
  | Create_Todo_Item
  | Update_Todo_Item
  | Delete_Todo_Item
  | No_Update_Call

record 'rt api_lib =
  api_http :: http_lib
  api_leb :: "64 word \<Rightarrow> bytes"
  api_lower :: "bytes \<Rightarrow> bytes"
  api_upper :: "bytes \<Rightarrow> bytes"
  json_to_vec :: "json \<Rightarrow> bytes option"
  json_create :: "bytes \<Rightarrow> create_todo_request option"
  json_update :: "bytes \<Rightarrow> update_todo_request option"
  item_order :: "(32 word \<times> todo_item) list \<Rightarrow> (32 word \<times> todo_item) list"
  router_default :: 'rt
  router_insert :: "'rt \<Rightarrow> bytes \<Rightarrow> route_handler \<Rightarrow> 'rt option"
  router_at :: "'rt \<Rightarrow> bytes \<Rightarrow> (route_handler \<times> (bytes \<times> bytes) list) option"

definition todo_item_json :: "todo_item \<Rightarrow> json" where
  "todo_item_json item =
     J_Object [(str_bytes ''id'', J_Number (unat (todo_id item))),
               (str_bytes ''title'', J_String (todo_title item)),
               (str_bytes ''completed'', J_Bool (todo_completed item))]"

fun api_response_json :: "('a \<Rightarrow> json) \<Rightarrow> 'a api_response \<Rightarrow> json" where
  "api_response_json f (Api_Ok data) = J_Object [(str_bytes ''ok'', J_Object [(str_bytes ''data'', f data)])]"
| "api_response_json f (Api_Err code message) =
     J_Object [(str_bytes ''err'', J_Object [(str_bytes ''code'', J_Number (unat code)),
                                            (str_bytes ''message'', J_String message)])]"

definition api_not_found :: "unit api_response" where
  "api_not_found = Api_Err 404 (str_bytes ''Not found'')"

definition api_not_allowed :: "unit api_response" where
  "api_not_allowed = Api_Err 405 (str_bytes ''Method not allowed'')"

definition api_encode :: "'rt api_lib \<Rightarrow> ('a \<Rightarrow> json) \<Rightarrow> 'a api_response \<Rightarrow> bytes option" where
  "api_encode lib f r = json_to_vec lib (api_response_json f r)"

definition unit_json :: "unit \<Rightarrow> json" where
  "unit_json u = J_Unit"

definition todo_list_json :: "todo_item list \<Rightarrow> json" where
  "todo_list_json items = J_Array (map todo_item_json items)"

subsection \<open>State\<close>

record certified_http_response =
  chr_response :: http_response
  chr_certification :: http_certification

text \<open>Hash maps are association lists; \<open>certified_data\<close> is what \<^verbatim>\<open>set_certified_data\<close> stored.\<close>

record 'rt api_state =
  next_todo_id :: "32 word"
  todo_items :: "(32 word \<times> todo_item) list"
  http_tree :: certification_tree
  fallback_responses :: "(bytes \<times> certified_http_response) list"
  api_responses :: "((bytes \<times> bytes) \<times> certified_http_response) list"
  query_router :: "(bytes \<times> 'rt) list"
  update_router :: "(bytes \<times> 'rt) list"
  certified_data :: "hash option"

definition api_state_new :: "'rt api_state" where
  "api_state_new =
     \<lparr>next_todo_id = 0, todo_items = [], http_tree = ct_default, fallback_responses = [],
      api_responses = [], query_router = [], update_router = [], certified_data = None\<rparr>"

definition TODOS_PATH :: bytes where
  "TODOS_PATH = str_bytes ''/todos''"

definition NOT_FOUND_PATH :: bytes where
  "NOT_FOUND_PATH = []"

definition TODOS_TREE_PATH :: certification_path where
  "TODOS_TREE_PATH = Exact_Path TODOS_PATH"

definition NOT_FOUND_TREE_PATH :: certification_path where
  "NOT_FOUND_TREE_PATH = Wildcard_Path NOT_FOUND_PATH"

definition TODO_CEL_EXPR_DEF :: full_cel_expr where
  "TODO_CEL_EXPR_DEF =
     full_build (full_with_response_certification
       (with_request_query_parameters (with_request_headers full_certification []) [])
       (ResponseHeaderExclusions []))"

definition TODO_CEL_EXPR :: bytes where
  "TODO_CEL_EXPR = create_default_full_cel_expr TODO_CEL_EXPR_DEF"

definition NOT_FOUND_CEL_EXPR_DEF :: response_only_cel_expr where
  "NOT_FOUND_CEL_EXPR_DEF =
     only_build (only_with_response_certification response_only_certification (ResponseHeaderExclusions []))"

definition NOT_FOUND_CEL_EXPR :: bytes where
  "NOT_FOUND_CEL_EXPR = create_default_response_only_cel_expr NOT_FOUND_CEL_EXPR_DEF"

subsection \<open>Certification\<close>

definition create_response :: "16 word \<Rightarrow> bytes \<Rightarrow> http_response" where
  "create_response status_code body =
     build_response (with_body (with_headers (with_status_code response_builder_new status_code)
       [(str_bytes ''content-type'', str_bytes ''application/json''),
        (str_bytes ''strict-transport-security'', str_bytes ''max-age=31536000; includeSubDomains''),
        (str_bytes ''x-content-type-options'', str_bytes ''nosniff''),
        (str_bytes ''referrer-policy'', str_bytes ''no-referrer''),
        (str_bytes ''cache-control'', str_bytes ''no-store, max-age=0''),
        (str_bytes ''pragma'', str_bytes ''no-cache'')]) body)"

definition unwrap_result :: "'e + 'a \<Rightarrow> 'a option" where
  "unwrap_result r = (case r of Inl _ \<Rightarrow> None | Inr x \<Rightarrow> Some x)"

definition remove_certification ::
  "(bytes \<Rightarrow> hash) \<Rightarrow> certification_path \<Rightarrow> certified_http_response option \<Rightarrow> 'rt api_state \<Rightarrow>
     'rt api_state option" where
  "remove_certification H tree_path existing_response s =
     (case existing_response of
        Some r \<Rightarrow> do {
          t \<leftarrow> ct_delete H (http_tree s)
            \<lparr>entry_path = tree_path, entry_certification = chr_certification r\<rparr>;
          Some (s\<lparr>http_tree := t\<rparr>)
        }
      | None \<Rightarrow> Some s)"

definition certify_response ::
  "(bytes \<Rightarrow> hash) \<Rightarrow> 'rt api_lib \<Rightarrow> http_request \<Rightarrow> http_response \<Rightarrow> certification_path \<Rightarrow>
     'rt api_state \<Rightarrow> 'rt api_state option" where
  "certify_response H lib request response tree_path s = do {
     request_path \<leftarrow> unwrap_result (get_path (api_http lib) request);
     let key = (req_method request, request_path);
     let existing_response = map_of (api_responses s) key;
     let s = s\<lparr>api_responses := AList.delete key (api_responses s)\<rparr>;
     s \<leftarrow> remove_certification H tree_path existing_response s;
     let response = add_header response (CERTIFICATE_EXPRESSION_HEADER_NAME, TODO_CEL_EXPR);
     certification \<leftarrow> unwrap_result (certification_full H (api_leb lib) (api_http lib) (api_lower lib)
       TODO_CEL_EXPR_DEF request response None);
     let s = s\<lparr>api_responses := AList.update key
       \<lparr>chr_response = response, chr_certification = certification\<rparr> (api_responses s)\<rparr>;
     t \<leftarrow> ct_insert H (http_tree s) \<lparr>entry_path = tree_path, entry_certification = certification\<rparr>;
     Some (s\<lparr>http_tree := t, certified_data := Some (ct_root_hash H t)\<rparr>)
   }"

definition certify_list_todos_response ::
  "(bytes \<Rightarrow> hash) \<Rightarrow> 'rt api_lib \<Rightarrow> 'rt api_state \<Rightarrow> 'rt api_state option" where
  "certify_list_todos_response H lib s = do {
     let request = build_request (request_get TODOS_PATH);
     body \<leftarrow> api_encode lib todo_list_json (Api_Ok (map snd (item_order lib (todo_items s))));
     certify_response H lib request (create_response 200 body) TODOS_TREE_PATH s
   }"

fun certify_not_allowed_for ::
  "(bytes \<Rightarrow> hash) \<Rightarrow> 'rt api_lib \<Rightarrow> bytes list \<Rightarrow> 'rt api_state \<Rightarrow> 'rt api_state option" where
  "certify_not_allowed_for H lib [] s = Some s"
| "certify_not_allowed_for H lib (method # methods) s = do {
     let request = build_request (with_url (with_method request_builder_new method) TODOS_PATH);
     body \<leftarrow> api_encode lib unit_json api_not_allowed;
     s \<leftarrow> certify_response H lib request (create_response 405 body) TODOS_TREE_PATH s;
     certify_not_allowed_for H lib methods s
   }"

definition not_allowed_methods :: "bytes list" where
  "not_allowed_methods = [str_bytes ''HEAD'', str_bytes ''PUT'', str_bytes ''PATCH'', str_bytes ''OPTIONS'',
     str_bytes ''TRACE'', str_bytes ''CONNECT'']"

definition certify_not_allowed_todo_responses ::
  "(bytes \<Rightarrow> hash) \<Rightarrow> 'rt api_lib \<Rightarrow> 'rt api_state \<Rightarrow> 'rt api_state option" where
  "certify_not_allowed_todo_responses H lib = certify_not_allowed_for H lib not_allowed_methods"

definition certify_not_found_response ::
  "(bytes \<Rightarrow> hash) \<Rightarrow> 'rt api_lib \<Rightarrow> 'rt api_state \<Rightarrow> 'rt api_state option" where
  "certify_not_found_response H lib s = do {
     body \<leftarrow> api_encode lib unit_json api_not_found;
     let response = create_response 404 body;
     let tree_path = Wildcard_Path NOT_FOUND_PATH;
     let response = add_header response (CERTIFICATE_EXPRESSION_HEADER_NAME, NOT_FOUND_CEL_EXPR);
     certification \<leftarrow> unwrap_result (certification_response_only H (api_leb lib) (api_lower lib)
       NOT_FOUND_CEL_EXPR_DEF response None);
     let s = s\<lparr>fallback_responses := AList.update NOT_FOUND_PATH
       \<lparr>chr_response = response, chr_certification = certification\<rparr> (fallback_responses s)\<rparr>;
     t \<leftarrow> ct_insert H (http_tree s) \<lparr>entry_path = tree_path, entry_certification = certification\<rparr>;
     Some (s\<lparr>http_tree := t, certified_data := Some (ct_root_hash H t)\<rparr>)
   }"

subsection \<open>Routes\<close>

definition insert_route ::
  "'rt api_lib \<Rightarrow> bytes \<Rightarrow> bytes \<Rightarrow> route_handler \<Rightarrow> (bytes \<times> 'rt) list \<Rightarrow> (bytes \<times> 'rt) list option" where
  "insert_route lib method p handler routers = do {
     let router = unwrap_or (map_of routers method) (router_default lib);
     router \<leftarrow> router_insert lib router p handler;
     Some (AList.update method router routers)
   }"

fun insert_routes ::
  "'rt api_lib \<Rightarrow> (bytes \<times> bytes \<times> route_handler) list \<Rightarrow> (bytes \<times> 'rt) list \<Rightarrow> (bytes \<times> 'rt) list option" where
  "insert_routes lib [] routers = Some routers"
| "insert_routes lib ((method, p, handler) # routes) routers = do {
     routers \<leftarrow> insert_route lib method p handler routers;
     insert_routes lib routes routers
   }"

definition query_routes :: "(bytes \<times> bytes \<times> route_handler) list" where
  "query_routes =
     [(str_bytes ''POST'', str_bytes ''/todos'', Upgrade_To_Update_Call),
      (str_bytes ''PATCH'', str_bytes ''/todos/{id}'', Upgrade_To_Update_Call),
      (str_bytes ''DELETE'', str_bytes ''/todos/{id}'', Upgrade_To_Update_Call),
      (str_bytes ''GET'', str_bytes ''/{*p}'', Query_Handler)] @
     map (\<lambda>method. (method, str_bytes ''/{*p}'', Query_Handler))
       [str_bytes ''HEAD'', str_bytes ''PUT'', str_bytes ''OPTIONS'', str_bytes ''TRACE'', str_bytes ''CONNECT'']"

definition update_routes :: "(bytes \<times> bytes \<times> route_handler) list" where
  "update_routes =
     [(str_bytes ''POST'', TODOS_PATH, Create_Todo_Item),
      (str_bytes ''PATCH'', str_bytes ''/todos/{id}'', Update_Todo_Item),
      (str_bytes ''DELETE'', str_bytes ''/todos/{id}'', Delete_Todo_Item),
      (str_bytes ''GET'', str_bytes ''/{*p}'', No_Update_Call)] @
     map (\<lambda>method. (method, str_bytes ''/{*p}'', No_Update_Call))
       [str_bytes ''HEAD'', str_bytes ''PUT'', str_bytes ''OPTIONS'', str_bytes ''TRACE'', str_bytes ''CONNECT'']"

definition prepare_query_handlers :: "'rt api_lib \<Rightarrow> 'rt api_state \<Rightarrow> 'rt api_state option" where
  "prepare_query_handlers lib s = do {
     routers \<leftarrow> insert_routes lib query_routes (query_router s);
     Some (s\<lparr>query_router := routers\<rparr>)
   }"

definition prepare_update_handlers :: "'rt api_lib \<Rightarrow> 'rt api_state \<Rightarrow> 'rt api_state option" where
  "prepare_update_handlers lib s = do {
     routers \<leftarrow> insert_routes lib update_routes (update_router s);
     Some (s\<lparr>update_router := routers\<rparr>)
   }"

definition api_init :: "(bytes \<Rightarrow> hash) \<Rightarrow> 'rt api_lib \<Rightarrow> 'rt api_state \<Rightarrow> 'rt api_state option" where
  "api_init H lib s = do {
     s \<leftarrow> certify_list_todos_response H lib s;
     s \<leftarrow> certify_not_allowed_todo_responses H lib s;
     s \<leftarrow> certify_not_found_response H lib s;
     s \<leftarrow> prepare_query_handlers lib s;
     prepare_update_handlers lib s
   }"

definition post_upgrade :: "(bytes \<Rightarrow> hash) \<Rightarrow> 'rt api_lib \<Rightarrow> 'rt api_state \<Rightarrow> 'rt api_state option" where
  "post_upgrade = api_init"

subsection \<open>Handlers\<close>

text \<open>What the system hands to a call: the header encoders and the data certificate, which is there in
  queries only.\<close>

record api_call =
  call_b64 :: "bytes \<Rightarrow> bytes"
  call_self_describe :: bytes
  call_enc :: "serde \<Rightarrow> bytes"
  call_data_certificate :: "bytes option"

definition select_response ::
  "'rt api_state \<Rightarrow> bytes \<Rightarrow> bytes \<Rightarrow> (certification_path \<times> certified_http_response) option" where
  "select_response s method request_path =
     (case map_of (api_responses s) (method, request_path) of
        Some response \<Rightarrow> Some (Exact_Path request_path, response)
      | None \<Rightarrow> map_option (\<lambda>response. (NOT_FOUND_TREE_PATH, response))
          (map_of (fallback_responses s) NOT_FOUND_PATH))"

definition query_handler ::
  "(bytes \<Rightarrow> hash) \<Rightarrow> 'rt api_lib \<Rightarrow> api_call \<Rightarrow> http_request \<Rightarrow> 'rt api_state \<Rightarrow> http_response option" where
  "query_handler H lib call request s = do {
     request_path \<leftarrow> unwrap_result (get_path (api_http lib) request);
     (tree_path, certified_response) \<leftarrow> select_response s (req_method request) request_path;
     data_certificate \<leftarrow> call_data_certificate call;
     witness \<leftarrow> ct_witness H (http_tree s)
       \<lparr>entry_path = tree_path, entry_certification = chr_certification certified_response\<rparr> request_path;
     witness \<leftarrow> unwrap_result witness;
     Some (add_v2_certificate_header (call_b64 call) (call_self_describe call) (call_enc call)
       data_certificate (chr_response certified_response) witness (to_expr_path tree_path))
   }"

definition create_todo_item_handler ::
  "(bytes \<Rightarrow> hash) \<Rightarrow> 'rt api_lib \<Rightarrow> http_request \<Rightarrow> 'rt api_state \<Rightarrow> (http_response \<times> 'rt api_state) option" where
  "create_todo_item_handler H lib request s = do {
     parsed \<leftarrow> json_create lib (req_body request);
     let new_id = next_todo_id s;
     let s = s\<lparr>next_todo_id := next_todo_id s + 1\<rparr>;
     let item = \<lparr>todo_id = new_id, todo_title = create_title parsed, todo_completed = False\<rparr>;
     let s = s\<lparr>todo_items := AList.update new_id item (todo_items s)\<rparr>;
     s \<leftarrow> certify_list_todos_response H lib s;
     body \<leftarrow> api_encode lib todo_item_json (Api_Ok item);
     Some (create_response 201 body, s)
   }"

text \<open>\<^verbatim>\<open>params.get("id").unwrap().parse::<u32>().unwrap()\<close>.\<close>

definition param_id :: "(bytes \<times> bytes) list \<Rightarrow> 32 word option" where
  "param_id params = do {
     v \<leftarrow> map_of params (str_bytes ''id'');
     n \<leftarrow> unwrap_result (parse_usize (2 ^ 32 - 1) v);
     Some (of_nat n)
   }"

definition update_todo :: "update_todo_request \<Rightarrow> todo_item \<Rightarrow> todo_item" where
  "update_todo parsed item =
     (let item = (case update_title parsed of Some t \<Rightarrow> item\<lparr>todo_title := t\<rparr> | None \<Rightarrow> item)
      in (case update_completed parsed of Some c \<Rightarrow> item\<lparr>todo_completed := c\<rparr> | None \<Rightarrow> item))"

definition update_todo_item_handler ::
  "(bytes \<Rightarrow> hash) \<Rightarrow> 'rt api_lib \<Rightarrow> http_request \<Rightarrow> (bytes \<times> bytes) list \<Rightarrow> 'rt api_state \<Rightarrow>
     (http_response \<times> 'rt api_state) option" where
  "update_todo_item_handler H lib request params s = do {
     parsed \<leftarrow> json_update lib (req_body request);
     i \<leftarrow> param_id params;
     item \<leftarrow> map_of (todo_items s) i;
     let s = s\<lparr>todo_items := AList.update i (update_todo parsed item) (todo_items s)\<rparr>;
     s \<leftarrow> certify_list_todos_response H lib s;
     body \<leftarrow> api_encode lib unit_json (Api_Ok ());
     Some (create_response 200 body, s)
   }"

definition delete_todo_item_handler ::
  "(bytes \<Rightarrow> hash) \<Rightarrow> 'rt api_lib \<Rightarrow> (bytes \<times> bytes) list \<Rightarrow> 'rt api_state \<Rightarrow>
     (http_response \<times> 'rt api_state) option" where
  "delete_todo_item_handler H lib params s = do {
     i \<leftarrow> param_id params;
     let s = s\<lparr>todo_items := AList.delete i (todo_items s)\<rparr>;
     s \<leftarrow> certify_list_todos_response H lib s;
     body \<leftarrow> api_encode lib unit_json (Api_Ok ());
     Some (create_response 204 body, s)
   }"

definition upgrade_to_update_call_handler :: http_response where
  "upgrade_to_update_call_handler = build_response (with_upgrade response_builder_new True)"

definition no_update_call_handler :: http_response where
  "no_update_call_handler = create_response 400 []"

fun run_handler ::
  "(bytes \<Rightarrow> hash) \<Rightarrow> 'rt api_lib \<Rightarrow> api_call \<Rightarrow> route_handler \<Rightarrow> http_request \<Rightarrow> (bytes \<times> bytes) list \<Rightarrow>
     'rt api_state \<Rightarrow> (http_response \<times> 'rt api_state) option" where
  "run_handler H lib call Upgrade_To_Update_Call request params s = Some (upgrade_to_update_call_handler, s)"
| "run_handler H lib call Query_Handler request params s =
     map_option (\<lambda>response. (response, s)) (query_handler H lib call request s)"
| "run_handler H lib call Create_Todo_Item request params s = create_todo_item_handler H lib request s"
| "run_handler H lib call Update_Todo_Item request params s = update_todo_item_handler H lib request params s"
| "run_handler H lib call Delete_Todo_Item request params s = delete_todo_item_handler H lib params s"
| "run_handler H lib call No_Update_Call request params s = Some (no_update_call_handler, s)"

definition http_request_query ::
  "(bytes \<Rightarrow> hash) \<Rightarrow> 'rt api_lib \<Rightarrow> api_call \<Rightarrow> http_request \<Rightarrow> 'rt api_state \<Rightarrow>
     (http_response \<times> 'rt api_state) option" where
  "http_request_query H lib call request s = do {
     req_path \<leftarrow> unwrap_result (get_path (api_http lib) request);
     method_router \<leftarrow> map_of (query_router s) (api_upper lib (req_method request));
     (handler, params) \<leftarrow> router_at lib method_router req_path;
     run_handler H lib call handler request params s
   }"

definition http_request_update ::
  "(bytes \<Rightarrow> hash) \<Rightarrow> 'rt api_lib \<Rightarrow> api_call \<Rightarrow> http_request \<Rightarrow> 'rt api_state \<Rightarrow>
     (http_response \<times> 'rt api_state) option" where
  "http_request_update H lib call request s = do {
     req_path \<leftarrow> unwrap_result (get_path (api_http lib) request);
     method_router \<leftarrow> map_of (update_router s) (api_upper lib (req_method request));
     (handler, params) \<leftarrow> router_at lib method_router req_path;
     run_handler H lib call handler request params s
   }"

text \<open>The calls that change the state. A call that traps has no effect; an upgrade starts from fresh
  cells.\<close>

datatype api_op = Update_Call http_request | Upgrade

fun api_step :: "(bytes \<Rightarrow> hash) \<Rightarrow> 'rt api_lib \<Rightarrow> api_call \<Rightarrow> api_op \<Rightarrow> 'rt api_state \<Rightarrow> 'rt api_state" where
  "api_step H lib call (Update_Call request) s =
     (case http_request_update H lib call request s of Some (_, s') \<Rightarrow> s' | None \<Rightarrow> s)"
| "api_step H lib call Upgrade s =
     (case post_upgrade H lib api_state_new of Some s' \<Rightarrow> s' | None \<Rightarrow> s)"

definition api_run ::
  "(bytes \<Rightarrow> hash) \<Rightarrow> 'rt api_lib \<Rightarrow> api_call \<Rightarrow> api_op list \<Rightarrow> 'rt api_state \<Rightarrow> 'rt api_state" where
  "api_run H lib call ops s = fold (api_step H lib call) ops s"

end
