(* ===== verification/Json_Api_Tree.thy ===== *)
theory Json_Api_Tree
  imports Json_Api Tree_Sizes
begin

text \<open>
  The tree that the JSON API certifies, and the documentation of the libraries it calls: the tree holds
  certifications for the path of the items and for the fallback only, what an insertion or a deletion
  of an entry does to it, and that it fits the wire format.
\<close>

declare path_to_tree_path.simps [simp del] to_expr_path.simps [simp del]

subsection \<open>Documentation of the libraries\<close>

text \<open>A route of \<^verbatim>\<open>matchit\<close>: a segment in braces matches one segment that is not empty, one with a star
  the rest of the path when it is not empty, and any other segment itself.\<close>

datatype route_segment = Static_Segment bytes | Param_Segment bytes | Catch_All_Segment bytes

fun parse_segment :: "bytes \<Rightarrow> route_segment" where
  "parse_segment (b # c # cs) =
     (if b = 123 then if c = 42 then Catch_All_Segment (butlast cs) else Param_Segment (butlast (c # cs))
      else Static_Segment (b # c # cs))"
| "parse_segment s = Static_Segment s"

fun match_segments :: "route_segment list \<Rightarrow> bytes list \<Rightarrow> (bytes \<times> bytes) list option" where
  "match_segments [] [] = Some []"
| "match_segments (Static_Segment p # ps) (s # ss) = (if p = s then match_segments ps ss else None)"
| "match_segments (Param_Segment x # ps) (s # ss) =
     (if s = [] then None else map_option (Cons (x, s)) (match_segments ps ss))"
| "match_segments (Catch_All_Segment x # ps) ss =
     (if join [47] ss = [] then None else Some [(x, join [47] ss)])"
| "match_segments _ _ = None"

definition match_route :: "bytes \<Rightarrow> bytes \<Rightarrow> (bytes \<times> bytes) list option" where
  "match_route route p = match_segments (map parse_segment (split_on 47 route)) (split_on 47 p)"

definition api_routes :: "bytes set" where
  "api_routes = {str_bytes ''/todos'', str_bytes ''/todos/{id}'', str_bytes ''/{*p}''}"

text \<open>Every router of the API holds one route. The URI parser and the decoder keep the path of the API,
  upper case keeps upper case letters, and a hash map is iterated in some order.\<close>

definition api_documented :: "'rt api_lib \<Rightarrow> bool" where
  "api_documented lib \<longleftrightarrow>
     uri_of (api_http lib) TODOS_PATH = Some (TODOS_PATH, None) \<and>
     url_decode (api_http lib) TODOS_PATH = Inr TODOS_PATH \<and>
     lower_ascii (api_lower lib) \<and>
     (\<forall>s. list_all (\<lambda>c. 65 \<le> c \<and> c \<le> 90) s \<longrightarrow> api_upper lib s = s) \<and>
     (\<forall>v. json_to_vec lib v \<noteq> None) \<and>
     (\<forall>m. mset (item_order lib m) = mset m) \<and>
     (\<forall>p \<in> api_routes. \<forall>h. \<exists>rt. router_insert lib (router_default lib) p h = Some rt \<and>
        (\<forall>url. router_at lib rt url = map_option (Pair h) (match_route p url)))"

lemma api_documentedD:
  assumes "api_documented lib"
  shows "req_url request = TODOS_PATH \<Longrightarrow> get_path (api_http lib) request = Inr TODOS_PATH"
    and "req_url request = TODOS_PATH \<Longrightarrow> get_query (api_http lib) request = Inr None"
    and "lower_ascii (api_lower lib)" and "\<exists>bs. json_to_vec lib v = Some bs"
    and "mset (item_order lib m) = mset m"
    and "list_all (\<lambda>c. 65 \<le> c \<and> c \<le> 90) u \<Longrightarrow> api_upper lib u = u"
    and "p \<in> api_routes \<Longrightarrow> \<exists>rt. router_insert lib (router_default lib) p h = Some rt \<and>
        (\<forall>url. router_at lib rt url = map_option (Pair h) (match_route p url))"
  using assms by (auto simp: api_documented_def get_path_def get_query_def)

subsection \<open>Certifying a response\<close>

abbreviation todos_below :: path where
  "todos_below \<equiv> path_to_tree_path TODOS_TREE_PATH"

abbreviation not_found_below :: path where
  "not_found_below \<equiv> path_to_tree_path NOT_FOUND_TREE_PATH"

lemma api_tree_paths:
  "todos_below = [str_bytes ''todos'', EXACT_PATH_TERMINATOR]" "not_found_below = [WILDCARD_PATH_TERMINATOR]"
  by (simp_all add: TODOS_TREE_PATH_def TODOS_PATH_def NOT_FOUND_TREE_PATH_def NOT_FOUND_PATH_def
      path_to_tree_path.simps path_to_segments_def url_segments_def str_bytes_def
      ends_with_def del: terminators)

text \<open>The tree holds nothing but certifications for the two paths.\<close>

definition api_path :: "path \<Rightarrow> bool" where
  "api_path p \<longleftrightarrow> (\<exists>a b c. length a \<le> 32 \<and> length b \<le> 32 \<and> length c \<le> 32 \<and>
     (p = todos_below @ [a, b, c] \<or> p = not_found_below @ [a, b, c]))"

definition api_tree_ok :: "(bytes \<Rightarrow> hash) \<Rightarrow> certification_tree \<Rightarrow> bool" where
  "api_tree_ok H t \<longleftrightarrow> ct_ok H t \<and> (\<forall>p \<in> certified_paths t. api_path p)"

lemma todos_not_below [simp]:
  "\<not> starts_with (todos_below @ q) (not_found_below @ q')" "\<not> starts_with (not_found_below @ q) (todos_below @ q')"
  by (auto simp: api_tree_paths starts_with_iff str_bytes_def WILDCARD_PATH_TERMINATOR_def EXACT_PATH_TERMINATOR_def
      simp del: terminators)

lemma validated:
  assumes "lower_ascii lower"
  shows "validate_response lower (add_header (create_response st body)
    (CERTIFICATE_EXPRESSION_HEADER_NAME, cel)) cel = Inr ()"
proof -
  let ?names = "map str_bytes [''content-type'', ''strict-transport-security'', ''x-content-type-options'',
    ''referrer-policy'', ''cache-control'', ''pragma'']"
  have "list_all (\<lambda>n. lower n \<noteq> lower CERTIFICATE_EXPRESSION_HEADER_NAME) ?names"
    using assms by (simp add: lower_text CERTIFICATE_EXPRESSION_HEADER_NAME_def str_bytes_def is_ascii_def
      to_ascii_lowercase_def ascii_lower_def)
  then have "no_expression_header lower (resp_headers (create_response st body))"
    by (simp add: no_expression_header_def create_response_def build_response_def with_body_def with_headers_def
        with_status_code_def response_builder_new_def)
  from validate_headers_skip [OF this] show ?thesis by (simp add: validate_response_def add_header_def)
qed

text \<open>What inserting or deleting an entry does to the tree.\<close>

lemma entry_api_path:
  assumes "cert_sized cert" and "tp \<in> {TODOS_TREE_PATH, NOT_FOUND_TREE_PATH}"
  shows "api_path (entry_to_tree_path (entry_of tp cert))"
proof -
  from assms(1) obtain a b c where c: "certification_to_tree_path cert = [a, b, c]"
    "length a \<le> 32" "length b \<le> 32" "length c \<le> 32" unfolding cert_sized_def by blast
  then have "entry_to_tree_path (entry_of tp cert) = path_to_tree_path tp @ [a, b, c]"
    by (simp add: entry_to_tree_path_def)
  with assms(2) c(2-4) show ?thesis unfolding api_path_def by blast
qed

lemma api_entries_apart:
  assumes "api_tree_ok H t" and "cert_sized cert" and "tp \<in> {TODOS_TREE_PATH, NOT_FOUND_TREE_PATH}"
    and "p \<in> certified_paths t" and "starts_with p (entry_to_tree_path (entry_of tp cert)) \<or>
      starts_with (entry_to_tree_path (entry_of tp cert)) p"
  shows "p = entry_to_tree_path (entry_of tp cert)"
proof -
  from assms(1,4) obtain a b c where p: "p = todos_below @ [a, b, c] \<or> p = not_found_below @ [a, b, c]"
    unfolding api_tree_ok_def api_path_def by blast
  from assms(2) obtain a' b' c' where "certification_to_tree_path cert = [a', b', c']"
    by (auto simp: cert_sized_def)
  then have e: "entry_to_tree_path (entry_of tp cert) = path_to_tree_path tp @ [a', b', c']"
    by (simp add: entry_to_tree_path_def)
  have same: "starts_with (q @ [x, y, z]) (q @ [x', y', z']) \<Longrightarrow> x = x' \<and> y = y' \<and> z = z'"
    for q :: path and x y z x' y' z'
    by (auto simp: starts_with_iff)
  show ?thesis using assms(3,5) p unfolding e by (auto dest: same)
qed

lemma api_tree_insert:
  assumes "api_tree_ok H t" and "cert_sized cert" and "tp \<in> {TODOS_TREE_PATH, NOT_FOUND_TREE_PATH}"
  shows "\<exists>t'. ct_insert H t (entry_of tp cert) = Some t' \<and> api_tree_ok H t' \<and>
    certified_paths t' = insert (entry_to_tree_path (entry_of tp cert)) (certified_paths t)"
proof -
  let ?e = "entry_to_tree_path (entry_of tp cert)"
  from assms(1) have "ct_ok H t" by (simp add: api_tree_ok_def)
  from ct_step_refines [OF this, of "CtInsert (entry_of tp cert)"] obtain t' where
    t': "ct_insert H t (entry_of tp cert) = Some t'" "ct_ok H t'"
    "certified_paths t' = ct_spec_step (CtInsert (entry_of tp cert)) (certified_paths t)" by auto
  have "certified_paths t' = insert ?e
      {p \<in> certified_paths t. \<not> starts_with p ?e \<and> \<not> starts_with ?e p}" using t'(3) by simp
  then have paths: "certified_paths t' = insert ?e (certified_paths t)"
    using api_entries_apart [OF assms] by blast
  moreover have "api_path ?e" using assms(2,3) by (rule entry_api_path)
  ultimately have "api_tree_ok H t'" using assms(1) t'(2) by (simp add: api_tree_ok_def)
  with t'(1) paths show ?thesis by blast
qed

lemma api_tree_delete:
  assumes "api_tree_ok H t" and "cert_sized cert" and "tp \<in> {TODOS_TREE_PATH, NOT_FOUND_TREE_PATH}"
  shows "\<exists>t'. ct_delete H t (entry_of tp cert) = Some t' \<and> api_tree_ok H t' \<and>
    certified_paths t' = certified_paths t - {entry_to_tree_path (entry_of tp cert)}"
proof -
  let ?e = "entry_to_tree_path (entry_of tp cert)"
  from assms(1) have "ct_ok H t" by (simp add: api_tree_ok_def)
  from ct_step_refines [OF this, of "CtDelete (entry_of tp cert)"] obtain t' where
    t': "ct_delete H t (entry_of tp cert) = Some t'" "ct_ok H t'"
    "certified_paths t' = ct_spec_step (CtDelete (entry_of tp cert)) (certified_paths t)" by auto
  moreover have "starts_with ?e ?e" by (auto simp: starts_with_iff)
  ultimately have paths: "certified_paths t' = certified_paths t - {?e}"
    using api_entries_apart [OF assms] by auto
  then have "api_tree_ok H t'" using assms(1) t'(2) by (simp add: api_tree_ok_def)
  with t'(1) paths show ?thesis by blast
qed

lemma api_tree_small:
  assumes "api_tree_ok H t"
  shows "tree_small (ct_as_hash_tree H t)"
proof (rule certification_tree_small)
  show "ct_ok H t" using assms by (simp add: api_tree_ok_def)
  have "length (str_bytes ''todos'') = 5" "length EXACT_PATH_TERMINATOR = 3" "length WILDCARD_PATH_TERMINATOR = 3"
    by (simp_all add: EXACT_PATH_TERMINATOR_def WILDCARD_PATH_TERMINATOR_def del: terminators)
  then show "\<forall>p \<in> certified_paths t. path_small p"
    using assms by (fastforce simp: api_tree_ok_def api_path_def path_small_def api_tree_paths)
qed

end
