(* ===== verification/Json_Api_Correct.thy ===== *)
theory Json_Api_Correct
  imports Json_Api_Tree
begin

text \<open>
  The JSON API against its specification: whatever the sequence of update calls and upgrades, the state
  refines a map of todo items, and the stored response that lists them is the certified one.
\<close>

subsection \<open>Invariant\<close>

text \<open>A stored response with the certification for a request of its method, and its entry in the tree.\<close>

definition todos_request :: "bytes \<Rightarrow> http_request" where
  "todos_request method =
     \<lparr>req_method = method, req_url = TODOS_PATH, req_headers = [], req_body = [], req_certificate_version = None\<rparr>"

definition certified_todos ::
  "(bytes \<Rightarrow> hash) \<Rightarrow> 'rt api_lib \<Rightarrow> certification_tree \<Rightarrow> bytes \<Rightarrow> 16 word \<Rightarrow> bytes \<Rightarrow>
     certified_http_response \<Rightarrow> bool" where
  "certified_todos H lib t method status body r \<longleftrightarrow>
     chr_response r = add_header (create_response status body) (CERTIFICATE_EXPRESSION_HEADER_NAME, TODO_CEL_EXPR) \<and>
     certification_full H (api_leb lib) (api_http lib) (api_lower lib) TODO_CEL_EXPR_DEF (todos_request method)
       (chr_response r) None = Inr (chr_certification r) \<and>
     entry_to_tree_path (entry_of TODOS_TREE_PATH (chr_certification r)) \<in> certified_paths t"

definition certified_fallback ::
  "(bytes \<Rightarrow> hash) \<Rightarrow> 'rt api_lib \<Rightarrow> certification_tree \<Rightarrow> certified_http_response \<Rightarrow> bool" where
  "certified_fallback H lib t r \<longleftrightarrow>
     (\<exists>body. api_encode lib unit_json api_not_found = Some body \<and>
        chr_response r = add_header (create_response 404 body) (CERTIFICATE_EXPRESSION_HEADER_NAME, NOT_FOUND_CEL_EXPR)) \<and>
     certification_response_only H (api_leb lib) (api_lower lib) NOT_FOUND_CEL_EXPR_DEF (chr_response r) None =
       Inr (chr_certification r) \<and>
     entry_to_tree_path (entry_of NOT_FOUND_TREE_PATH (chr_certification r)) \<in> certified_paths t"

text \<open>The list is certified for the items as they are, in some order.\<close>

definition list_certified :: "(bytes \<Rightarrow> hash) \<Rightarrow> 'rt api_lib \<Rightarrow> 'rt api_state \<Rightarrow> bool" where
  "list_certified H lib s \<longleftrightarrow>
     (\<exists>r items body. map_of (api_responses s) (str_bytes ''GET'', TODOS_PATH) = Some r \<and>
        mset items = mset (todo_items s) \<and> api_encode lib todo_list_json (Api_Ok (map snd items)) = Some body \<and>
        certified_todos H lib (http_tree s) (str_bytes ''GET'') 200 body r)"

text \<open>What a call on the items keeps besides.\<close>

definition responses_ok :: "((bytes \<times> bytes) \<times> certified_http_response) list \<Rightarrow> bool" where
  "responses_ok rs \<longleftrightarrow> (\<forall>(k, r) \<in> set rs. snd k = TODOS_PATH \<and> cert_sized (chr_certification r))"

definition api_ok :: "(bytes \<Rightarrow> hash) \<Rightarrow> 'rt api_lib \<Rightarrow> 'rt api_state \<Rightarrow> bool" where
  "api_ok H lib s \<longleftrightarrow> api_tree_ok H (http_tree s) \<and>
     certified_data s = Some (ct_root_hash H (http_tree s)) \<and>
     responses_ok (api_responses s) \<and> distinct (map fst (todo_items s)) \<and>
     (\<exists>r. map_of (fallback_responses s) NOT_FOUND_PATH = Some r \<and> certified_fallback H lib (http_tree s) r) \<and>
     insert_routes lib query_routes [] = Some (query_router s) \<and>
     insert_routes lib update_routes [] = Some (update_router s)"

lemma remove_certification_ok:
  assumes "api_tree_ok H (http_tree s)"
    and "responses_ok (api_responses s)"
  shows "\<exists>t0. remove_certification H TODOS_TREE_PATH (map_of (api_responses s) key)
        (s\<lparr>api_responses := AList.delete key (api_responses s)\<rparr>) =
      Some (s\<lparr>api_responses := AList.delete key (api_responses s), http_tree := t0\<rparr>) \<and> api_tree_ok H t0 \<and>
    (\<forall>q. not_found_below @ q \<in> certified_paths (http_tree s) \<longrightarrow> not_found_below @ q \<in> certified_paths t0) \<and>
    (map_of (api_responses s) key = None \<longrightarrow> certified_paths (http_tree s) \<subseteq> certified_paths t0)"
proof (cases "map_of (api_responses s) key")
  case None
  then show ?thesis using assms(1) by (intro exI [of _ "http_tree s"]) (simp add: remove_certification_def)
next
  case (Some r)
  with assms(2) have sized: "cert_sized (chr_certification r)" by (auto simp: responses_ok_def dest: map_of_SomeD)
  from api_tree_delete [OF assms(1) this, of TODOS_TREE_PATH] obtain t0 where t0:
    "ct_delete H (http_tree s) (entry_of TODOS_TREE_PATH (chr_certification r)) = Some t0" "api_tree_ok H t0"
    "certified_paths t0 = certified_paths (http_tree s) - {entry_to_tree_path (entry_of TODOS_TREE_PATH (chr_certification r))}"
    by auto
  have "not_found_below @ q \<noteq> entry_to_tree_path (entry_of TODOS_TREE_PATH (chr_certification r))" for q
    by (auto simp: entry_to_tree_path_def api_tree_paths str_bytes_def WILDCARD_PATH_TERMINATOR_def
        simp del: terminators)
  with Some t0 show ?thesis by (auto simp: remove_certification_def)
qed

lemma certify_response_ok:
  assumes "api_documented lib" and "hash32 H" and "api_tree_ok H (http_tree s)"
    and "responses_ok (api_responses s)"
  shows "\<exists>t r. certify_response H lib (todos_request method) (create_response status body) TODOS_TREE_PATH s =
      Some (s\<lparr>api_responses := AList.update (method, TODOS_PATH) r (AList.delete (method, TODOS_PATH) (api_responses s)),
        http_tree := t, certified_data := Some (ct_root_hash H t)\<rparr>) \<and>
    api_tree_ok H t \<and> certified_todos H lib t method status body r \<and> cert_sized (chr_certification r) \<and>
    (\<forall>q. not_found_below @ q \<in> certified_paths (http_tree s) \<longrightarrow> not_found_below @ q \<in> certified_paths t) \<and>
    (map_of (api_responses s) (method, TODOS_PATH) = None \<longrightarrow> certified_paths (http_tree s) \<subseteq> certified_paths t)"
proof -
  let ?key = "(method, TODOS_PATH)" and ?q = "todos_request method"
  let ?r = "add_header (create_response status body) (CERTIFICATE_EXPRESSION_HEADER_NAME, TODO_CEL_EXPR)"
  have url: "req_url ?q = TODOS_PATH" "req_method ?q = method" by (simp_all add: todos_request_def)
  note path = api_documentedD(1,2) [OF assms(1) url(1)]
  obtain t0 where t0: "remove_certification H TODOS_TREE_PATH (map_of (api_responses s) ?key)
        (s\<lparr>api_responses := AList.delete ?key (api_responses s)\<rparr>) =
      Some (s\<lparr>api_responses := AList.delete ?key (api_responses s), http_tree := t0\<rparr>)" "api_tree_ok H t0"
    "\<And>q. not_found_below @ q \<in> certified_paths (http_tree s) \<Longrightarrow> not_found_below @ q \<in> certified_paths t0"
    "map_of (api_responses s) ?key = None \<Longrightarrow> certified_paths (http_tree s) \<subseteq> certified_paths t0"
    using remove_certification_ok [OF assms(3,4), of ?key] by metis
  from path(2) obtain rq where rq: "request_hash H (api_leb lib) (api_http lib) ?q (full_request TODO_CEL_EXPR_DEF) = Inr rq"
    by (simp add: request_hash_def)
  have "validate_response (api_lower lib) ?r (create_default_full_cel_expr TODO_CEL_EXPR_DEF) = Inr ()"
    using validated [OF api_documentedD(3) [OF assms(1)]] by (simp add: TODO_CEL_EXPR_def)
  with rq obtain cert where cert: "certification_full H (api_leb lib) (api_http lib) (api_lower lib) TODO_CEL_EXPR_DEF
      ?q ?r None = Inr cert" by (simp add: certification_full_def Let_def)
  from api_tree_insert [OF t0(2) certification_full_sized [OF assms(2) cert], of TODOS_TREE_PATH] obtain t where
    t: "ct_insert H t0 (entry_of TODOS_TREE_PATH cert) = Some t" "api_tree_ok H t"
    "certified_paths t = insert (entry_to_tree_path (entry_of TODOS_TREE_PATH cert)) (certified_paths t0)" by auto
  let ?c = "\<lparr>chr_response = ?r, chr_certification = cert\<rparr>"
  have "certify_response H lib ?q (create_response status body) TODOS_TREE_PATH s =
      Some (s\<lparr>api_responses := AList.update ?key ?c (AList.delete ?key (api_responses s)),
        http_tree := t, certified_data := Some (ct_root_hash H t)\<rparr>)"
    using path(1) t0(1) cert t(1) url(2) by (simp add: certify_response_def Let_def unwrap_result_def)
  moreover have "certified_todos H lib t method status body ?c" using cert t(3) by (simp add: certified_todos_def)
  ultimately show ?thesis
    using t t0(3,4) certification_full_sized [OF assms(2) cert]
    by (intro exI [of _ t] exI [of _ ?c]) auto
qed

lemma alist_update_member: "p \<in> set (AList.update k v xs) \<Longrightarrow> p = (k, v) \<or> p \<in> set xs"
  by (induction xs) (auto split: if_splits)

lemma responses_ok_update:
  "responses_ok rs \<Longrightarrow> cert_sized (chr_certification r) \<Longrightarrow>
     responses_ok (AList.update (method, TODOS_PATH) r (AList.delete (method, TODOS_PATH) rs))"
  by (fastforce simp: responses_ok_def AList.delete_eq dest!: alist_update_member)

text \<open>A state that differs in the certified responses for the items only.\<close>

definition certified_from :: "'rt api_state \<Rightarrow> 'rt api_state \<Rightarrow> bool" where
  "certified_from s s' \<longleftrightarrow> todo_items s' = todo_items s \<and> next_todo_id s' = next_todo_id s \<and>
     fallback_responses s' = fallback_responses s \<and> query_router s' = query_router s \<and>
     update_router s' = update_router s"

text \<open>Certifying the list, from a state whose tree and responses are in order.\<close>

lemma certify_list_ok:
  fixes s :: "'rt api_state"
  assumes "api_documented lib" and "hash32 H" and "api_tree_ok H (http_tree s)" and "responses_ok (api_responses s)"
  shows "\<exists>s'. certify_list_todos_response H lib s = Some s' \<and>
    certified_from s s' \<and> certified_data s' = Some (ct_root_hash H (http_tree s')) \<and> api_tree_ok H (http_tree s') \<and> responses_ok (api_responses s') \<and> list_certified H lib s' \<and>
    (\<forall>m. m \<noteq> str_bytes ''GET'' \<longrightarrow> map_of (api_responses s') (m, TODOS_PATH) = map_of (api_responses s) (m, TODOS_PATH)) \<and>
    (\<forall>q. not_found_below @ q \<in> certified_paths (http_tree s) \<longrightarrow> not_found_below @ q \<in> certified_paths (http_tree s'))"
proof -
  let ?items = "item_order lib (todo_items s)" and ?get = "str_bytes ''GET''"
  from api_documentedD(4) [OF assms(1)] obtain body where
    body: "api_encode lib todo_list_json (Api_Ok (map snd ?items)) = Some body"
    unfolding api_encode_def by blast
  have request: "build_request (request_get TODOS_PATH) = todos_request ?get"
    by (simp add: build_request_def request_get_def with_url_def with_method_def request_builder_new_def todos_request_def)
  from certify_response_ok [OF assms, of ?get 200 body] obtain t r where c:
    "certify_response H lib (todos_request ?get) (create_response 200 body) TODOS_TREE_PATH s =
      Some (s\<lparr>api_responses := AList.update (?get, TODOS_PATH) r (AList.delete (?get, TODOS_PATH) (api_responses s)),
        http_tree := t, certified_data := Some (ct_root_hash H t)\<rparr>)"
    "api_tree_ok H t" "certified_todos H lib t ?get 200 body r" "cert_sized (chr_certification r)"
    "\<forall>q. not_found_below @ q \<in> certified_paths (http_tree s) \<longrightarrow> not_found_below @ q \<in> certified_paths t" by metis
  let ?s = "s\<lparr>api_responses := AList.update (?get, TODOS_PATH) r (AList.delete (?get, TODOS_PATH) (api_responses s)),
        http_tree := t, certified_data := Some (ct_root_hash H t)\<rparr>"
  have "list_certified H lib ?s"
    unfolding list_certified_def using body c(3) api_documentedD(5) [OF assms(1), of "todo_items s"]
    by (intro exI [of _ r] exI [of _ ?items] exI [of _ body]) (simp add: update_conv')
  then show ?thesis
    using body request c responses_ok_update [OF assms(4) c(4)]
    by (intro exI [of _ ?s]) (simp add: certify_list_todos_response_def certified_from_def Let_def update_conv' delete_conv')
qed

lemma certify_not_allowed_ok:
  fixes s :: "'rt api_state"
  assumes "api_documented lib" and "hash32 H"
  shows "api_tree_ok H (http_tree s) \<Longrightarrow> responses_ok (api_responses s) \<Longrightarrow> list_certified H lib s \<Longrightarrow>
    distinct methods \<Longrightarrow> str_bytes ''GET'' \<notin> set methods \<Longrightarrow>
    \<forall>m \<in> set methods. map_of (api_responses s) (m, TODOS_PATH) = None \<Longrightarrow>
    \<exists>s'. certify_not_allowed_for H lib methods s = Some s' \<and>
      certified_from s s' \<and> api_tree_ok H (http_tree s') \<and> responses_ok (api_responses s') \<and> list_certified H lib s'"
proof (induction methods arbitrary: s)
  case (Cons m methods)
  from api_documentedD(4) [OF assms(1)] obtain body where body: "api_encode lib unit_json api_not_allowed = Some body"
    unfolding api_encode_def by blast
  have request: "build_request (with_url (with_method request_builder_new m) TODOS_PATH) = todos_request m"
    by (simp add: build_request_def with_url_def with_method_def request_builder_new_def todos_request_def)
  from certify_response_ok [OF assms Cons.prems(1,2), of m 405 body] Cons.prems(6) obtain t r where c:
    "certify_response H lib (todos_request m) (create_response 405 body) TODOS_TREE_PATH s =
      Some (s\<lparr>api_responses := AList.update (m, TODOS_PATH) r (AList.delete (m, TODOS_PATH) (api_responses s)),
        http_tree := t, certified_data := Some (ct_root_hash H t)\<rparr>)"
    "api_tree_ok H t" "cert_sized (chr_certification r)" "certified_paths (http_tree s) \<subseteq> certified_paths t"
    by (metis list.set_intros(1))
  let ?s = "s\<lparr>api_responses := AList.update (m, TODOS_PATH) r (AList.delete (m, TODOS_PATH) (api_responses s)),
        http_tree := t, certified_data := Some (ct_root_hash H t)\<rparr>"
  have "list_certified H lib ?s"
    using Cons.prems(3,5) c(4) by (auto simp: list_certified_def certified_todos_def update_conv' delete_conv')
  moreover have "\<forall>m' \<in> set methods. map_of (api_responses ?s) (m', TODOS_PATH) = None"
    using Cons.prems(4,6) by (auto simp: update_conv' delete_conv')
  ultimately have "\<exists>s'. certify_not_allowed_for H lib methods ?s = Some s' \<and>
      certified_from ?s s' \<and> api_tree_ok H (http_tree s') \<and> responses_ok (api_responses s') \<and> list_certified H lib s'"
    using Cons.prems c(2) responses_ok_update [OF Cons.prems(2) c(3)] by (intro Cons.IH) auto
  then show ?case using body request c(1) by (auto simp: Let_def certified_from_def)
qed (simp add: certified_from_def)

text \<open>A call that changed the items certifies the list again.\<close>

lemma certify_list_keeps:
  assumes "api_documented lib" and "hash32 H" and "api_ok H lib s"
  shows "\<exists>s'. certify_list_todos_response H lib s = Some s' \<and> api_ok H lib s' \<and> list_certified H lib s' \<and>
    todo_items s' = todo_items s \<and> next_todo_id s' = next_todo_id s"
proof -
  from assms(3) have tree: "api_tree_ok H (http_tree s)" "responses_ok (api_responses s)" by (simp_all add: api_ok_def)
  from certify_list_ok [OF assms(1,2) tree] obtain s' where s': "certify_list_todos_response H lib s = Some s'"
    "certified_from s s'" "certified_data s' = Some (ct_root_hash H (http_tree s'))" "api_tree_ok H (http_tree s')" "responses_ok (api_responses s')" "list_certified H lib s'"
    "\<forall>q. not_found_below @ q \<in> certified_paths (http_tree s) \<longrightarrow> not_found_below @ q \<in> certified_paths (http_tree s')"
    by blast
  note same = s'(2) [unfolded certified_from_def]
  have "certified_fallback H lib (http_tree s') r" if "certified_fallback H lib (http_tree s) r" for r
    using that s'(7) by (simp add: certified_fallback_def entry_to_tree_path_def)
  with assms(3) s'(3-5) same have "api_ok H lib s'" by (auto simp: api_ok_def)
  with s'(1,6) same show ?thesis by blast
qed

lemma certify_not_found_ok:
  fixes s :: "'rt api_state"
  assumes "api_documented lib" and "hash32 H" and "api_tree_ok H (http_tree s)" and "list_certified H lib s"
  shows "\<exists>s' r. certify_not_found_response H lib s = Some s' \<and>
    certified_from (s\<lparr>fallback_responses := AList.update NOT_FOUND_PATH r (fallback_responses s)\<rparr>) s' \<and>
    api_responses s' = api_responses s \<and> certified_data s' = Some (ct_root_hash H (http_tree s')) \<and>
    api_tree_ok H (http_tree s') \<and> list_certified H lib s' \<and> certified_fallback H lib (http_tree s') r"
proof -
  from api_documentedD(4) [OF assms(1)] obtain body where body: "api_encode lib unit_json api_not_found = Some body"
    unfolding api_encode_def by blast
  let ?r = "add_header (create_response 404 body) (CERTIFICATE_EXPRESSION_HEADER_NAME, NOT_FOUND_CEL_EXPR)"
  have "validate_response (api_lower lib) ?r (create_default_response_only_cel_expr NOT_FOUND_CEL_EXPR_DEF) = Inr ()"
    using validated [OF api_documentedD(3) [OF assms(1)]] by (simp add: NOT_FOUND_CEL_EXPR_def)
  then obtain cert where cert: "certification_response_only H (api_leb lib) (api_lower lib) NOT_FOUND_CEL_EXPR_DEF ?r None =
      Inr cert" by (simp add: certification_response_only_def Let_def)
  from api_tree_insert [OF assms(3) certification_only_sized [OF assms(2) cert], of NOT_FOUND_TREE_PATH] obtain t where
    t: "ct_insert H (http_tree s) (entry_of NOT_FOUND_TREE_PATH cert) = Some t" "api_tree_ok H t"
    "certified_paths t = insert (entry_to_tree_path (entry_of NOT_FOUND_TREE_PATH cert)) (certified_paths (http_tree s))"
    by auto
  let ?c = "\<lparr>chr_response = ?r, chr_certification = cert\<rparr>"
  let ?s = "s\<lparr>fallback_responses := AList.update NOT_FOUND_PATH ?c (fallback_responses s), http_tree := t,
    certified_data := Some (ct_root_hash H t)\<rparr>"
  have "certify_not_found_response H lib s = Some ?s"
    using body cert t(1) by (simp add: certify_not_found_response_def Let_def unwrap_result_def NOT_FOUND_TREE_PATH_def)
  moreover have "list_certified H lib ?s" using assms(4) t(3) by (auto simp: list_certified_def certified_todos_def)
  moreover have "certified_fallback H lib t ?c" using body cert t(3) by (simp add: certified_fallback_def)
  ultimately show ?thesis using t(2) by (intro exI [of _ ?s] exI [of _ ?c]) (simp add: certified_from_def)
qed

subsection \<open>Routes\<close>

definition routes_at ::
  "'rt api_lib \<Rightarrow> (bytes \<times> bytes \<times> route_handler) list \<Rightarrow> (bytes \<times> 'rt) list \<Rightarrow> bool" where
  "routes_at lib routes routers \<longleftrightarrow>
     (\<forall>(m, p, h) \<in> set routes. \<exists>rt. map_of routers m = Some rt \<and>
        (\<forall>url. router_at lib rt url = map_option (Pair h) (match_route p url)))"

lemma insert_routes_ok:
  assumes "api_documented lib"
  shows "distinct (map fst routes) \<Longrightarrow> fst ` set routes \<inter> dom (map_of routers) = {} \<Longrightarrow>
    \<forall>(m, p, h) \<in> set routes. p \<in> api_routes \<Longrightarrow>
    \<exists>rs. insert_routes lib routes routers = Some rs \<and> routes_at lib routes rs \<and>
      (\<forall>m. m \<notin> fst ` set routes \<longrightarrow> map_of rs m = map_of routers m)"
proof (induction routes arbitrary: routers)
  case Nil
  then show ?case by (simp add: routes_at_def)
next
  case (Cons route routes)
  obtain m p h where r: "route = (m, p, h)" by (cases route)
  with Cons.prems(3) have "p \<in> api_routes" by simp
  from api_documentedD(7) [OF assms this, of h] obtain rt where
    rt: "router_insert lib (router_default lib) p h = Some rt"
    "\<forall>url. router_at lib rt url = map_option (Pair h) (match_route p url)" by blast
  from Cons.prems(2) r have "map_of routers m = None" by auto
  then have ins: "insert_route lib m p h routers = Some (AList.update m rt routers)"
    using rt(1) by (simp add: insert_route_def Let_def)
  have "\<exists>rs. insert_routes lib routes (AList.update m rt routers) = Some rs \<and> routes_at lib routes rs \<and>
      (\<forall>m'. m' \<notin> fst ` set routes \<longrightarrow> map_of rs m' = map_of (AList.update m rt routers) m')"
    using Cons.prems r by (intro Cons.IH) (auto simp: update_conv' dom_def)
  then obtain rs where rs: "insert_routes lib routes (AList.update m rt routers) = Some rs" "routes_at lib routes rs"
    "\<forall>m'. m' \<notin> fst ` set routes \<longrightarrow> map_of rs m' = map_of (AList.update m rt routers) m'" by blast
  from Cons.prems(1) r rs(3) have "map_of rs m = Some rt" by (simp add: update_conv')
  then have "routes_at lib (route # routes) rs" using rs(2) rt(2) r by (simp add: routes_at_def)
  with ins rs(1,3) r show ?case by (intro exI [of _ rs]) (auto simp: update_conv')
qed

lemma api_routes_ok:
  assumes "api_documented lib"
  shows "\<exists>rs. insert_routes lib query_routes [] = Some rs \<and> routes_at lib query_routes rs"
    and "\<exists>rs. insert_routes lib update_routes [] = Some rs \<and> routes_at lib update_routes rs"
proof -
  have "distinct (map fst query_routes)" "distinct (map fst update_routes)"
    by (simp_all add: query_routes_def update_routes_def str_bytes_def)
  moreover have "\<forall>(m, p, h) \<in> set query_routes. p \<in> api_routes" "\<forall>(m, p, h) \<in> set update_routes. p \<in> api_routes"
    by (simp_all add: query_routes_def update_routes_def api_routes_def TODOS_PATH_def)
  ultimately show "\<exists>rs. insert_routes lib query_routes [] = Some rs \<and> routes_at lib query_routes rs"
    and "\<exists>rs. insert_routes lib update_routes [] = Some rs \<and> routes_at lib update_routes rs"
    using insert_routes_ok [OF assms, of query_routes "[]"] insert_routes_ok [OF assms, of update_routes "[]"] by auto
qed

lemma api_init_ok:
  fixes lib :: "'rt api_lib"
  assumes "api_documented lib" and "hash32 H"
  shows "\<exists>s. api_init H lib api_state_new = Some s \<and> api_ok H lib s \<and> list_certified H lib s \<and>
    todo_items s = [] \<and> next_todo_id s = 0"
proof -
  let ?s0 = "api_state_new :: 'rt api_state"
  have tree: "api_tree_ok H (http_tree ?s0)" "responses_ok (api_responses ?s0)"
    by (simp_all add: api_tree_ok_def api_state_new_def responses_ok_def)
  from certify_list_ok [OF assms tree] obtain s1 where s1:
    "certify_list_todos_response H lib api_state_new = Some s1"
    "certified_from api_state_new s1" "api_tree_ok H (http_tree s1)" "responses_ok (api_responses s1)" "list_certified H lib s1"
    "\<forall>m. m \<noteq> str_bytes ''GET'' \<longrightarrow> map_of (api_responses s1) (m, TODOS_PATH) = map_of (api_responses ?s0) (m, TODOS_PATH)"
    by blast
  have names: "distinct not_allowed_methods" "str_bytes ''GET'' \<notin> set not_allowed_methods"
    by (simp_all add: not_allowed_methods_def str_bytes_def)
  have "api_responses ?s0 = []" by (simp add: api_state_new_def)
  then have "map_of (api_responses s1) (m, TODOS_PATH) = None" if "m \<noteq> str_bytes ''GET''" for m
    using s1(6) that by simp
  then have "\<forall>m \<in> set not_allowed_methods. map_of (api_responses s1) (m, TODOS_PATH) = None"
    using names(2) by metis
  from certify_not_allowed_ok [OF assms s1(3-5) names this] obtain s2 where s2:
    "certify_not_allowed_todo_responses H lib s1 = Some s2"
    "certified_from s1 s2" "api_tree_ok H (http_tree s2)" "responses_ok (api_responses s2)" "list_certified H lib s2"
    unfolding certify_not_allowed_todo_responses_def by blast
  from certify_not_found_ok [OF assms s2(3,5)] obtain s3 r where s3: "certify_not_found_response H lib s2 = Some s3"
    "certified_from (s2\<lparr>fallback_responses := AList.update NOT_FOUND_PATH r (fallback_responses s2)\<rparr>) s3"
    "api_responses s3 = api_responses s2" "certified_data s3 = Some (ct_root_hash H (http_tree s3))"
    "api_tree_ok H (http_tree s3)" "list_certified H lib s3" "certified_fallback H lib (http_tree s3) r" by blast
  from api_routes_ok [OF assms(1)] obtain qr ur where routes: "insert_routes lib query_routes [] = Some qr"
    "insert_routes lib update_routes [] = Some ur" by blast
  have same: "query_router s3 = []" "update_router s3 = []" "todo_items s3 = []" "next_todo_id s3 = 0"
    "fallback_responses s3 = [(NOT_FOUND_PATH, r)]" "api_responses s3 = api_responses s2"
    "certified_data s3 = Some (ct_root_hash H (http_tree s3))"
    using s1(2) s2(2) s3(2-4) by (simp_all add: certified_from_def api_state_new_def)
  let ?s = "s3\<lparr>query_router := qr, update_router := ur\<rparr>"
  have "api_init H lib api_state_new = Some ?s"
    using s1(1) s2(1) s3(1) routes same(1,2)
    by (simp add: api_init_def prepare_query_handlers_def prepare_update_handlers_def)
  moreover have "api_ok H lib ?s" using s3(5,7) s2(4) routes same by (auto simp: api_ok_def)
  moreover have "list_certified H lib ?s" using s3(6) by (simp add: list_certified_def)
  ultimately show ?thesis using same(3,4) by (intro exI [of _ ?s]) simp
qed

end
