(* ===== verification/Json_Api_History.thy ===== *)
theory Json_Api_History
  imports Json_Api_Correct
begin

text \<open>
  The specification of the JSON API: the todo items are a map from identifiers, and a call creates,
  changes or removes one of them or leaves the map alone. The handlers refine it.
\<close>

subsection \<open>Specification\<close>

datatype todo_action =
    Todo_Create bytes
  | Todo_Change "32 word" "bytes option" "bool option"
  | Todo_Remove "32 word"

type_synonym todo_map = "32 word \<times> (32 word \<rightharpoonup> todo_item)"

text \<open>The identifier in \<^verbatim>\<open>/todos/{id}\<close>.\<close>

definition todo_url :: "bytes \<Rightarrow> 32 word option" where
  "todo_url url =
     (case split_on 47 url of
        [a, b, i] \<Rightarrow> if a = [] \<and> b = str_bytes ''todos'' \<and> i \<noteq> []
          then map_option of_nat (unwrap_result (parse_usize (2 ^ 32 - 1) i)) else None
      | _ \<Rightarrow> None)"

definition todo_action :: "'rt api_lib \<Rightarrow> http_request \<Rightarrow> todo_action option" where
  "todo_action lib request =
     (case get_path (api_http lib) request of
        Inl _ \<Rightarrow> None
      | Inr url \<Rightarrow>
          let m = api_upper lib (req_method request); body = req_body request in
          if m = str_bytes ''POST'' \<and> url = TODOS_PATH then
            map_option (\<lambda>p. Todo_Create (create_title p)) (json_create lib body)
          else if m = str_bytes ''PATCH'' then do {
            i \<leftarrow> todo_url url;
            p \<leftarrow> json_update lib body;
            Some (Todo_Change i (update_title p) (update_completed p))
          }
          else if m = str_bytes ''DELETE'' then map_option Todo_Remove (todo_url url)
          else None)"

fun todo_step :: "todo_action \<Rightarrow> todo_map \<Rightarrow> todo_map" where
  "todo_step (Todo_Create title) (n, m) =
     (n + 1, m(n \<mapsto> \<lparr>todo_id = n, todo_title = title, todo_completed = False\<rparr>))"
| "todo_step (Todo_Change i title completed) (n, m) =
     (n, m(i := map_option (\<lambda>item. item\<lparr>todo_title := unwrap_or title (todo_title item),
       todo_completed := unwrap_or completed (todo_completed item)\<rparr>) (m i)))"
| "todo_step (Todo_Remove i) (n, m) = (n, m(i := None))"

definition todo_empty :: todo_map where
  "todo_empty = (0, Map.empty)"

fun api_spec :: "'rt api_lib \<Rightarrow> api_op \<Rightarrow> todo_map \<Rightarrow> todo_map" where
  "api_spec lib (Update_Call request) tm =
     (case todo_action lib request of Some a \<Rightarrow> todo_step a tm | None \<Rightarrow> tm)"
| "api_spec lib Upgrade tm = todo_empty"

definition api_abs :: "'rt api_state \<Rightarrow> todo_map" where
  "api_abs s = (next_todo_id s, map_of (todo_items s))"

subsection \<open>Matches\<close>

lemma match_static_last: "match_segments [Static_Segment p] ss = (if ss = [p] then Some [] else None)"
  by (cases ss; cases "tl ss") auto

lemma match_todos: "match_route (str_bytes ''/todos'') url = (if url = TODOS_PATH then Some [] else None)"
proof -
  let ?ps = "[Static_Segment [], Static_Segment (str_bytes ''todos'')]"
  have segs: "map parse_segment (split_on 47 (str_bytes ''/todos'')) = ?ps" by (simp add: str_bytes_def)
  have "match_segments ?ps ss = (if ss = [[], str_bytes ''todos''] then Some [] else None)" for ss
    by (cases ss) (auto simp: match_static_last)
  moreover have "split_on 47 url = [[], str_bytes ''todos''] \<longleftrightarrow> url = TODOS_PATH"
    using join_split_on [of 47 url] by (auto simp: TODOS_PATH_def str_bytes_def)
  ultimately show ?thesis unfolding match_route_def segs by simp
qed

lemma match_todo:
  "match_route (str_bytes ''/todos/{id}'') url =
     (case split_on 47 url of
        [a, b, i] \<Rightarrow> if a = [] \<and> b = str_bytes ''todos'' \<and> i \<noteq> [] then Some [(str_bytes ''id'', i)] else None
      | _ \<Rightarrow> None)"
proof -
  let ?ps = "[Static_Segment [], Static_Segment (str_bytes ''todos''), Param_Segment (str_bytes ''id'')]"
  have "map parse_segment (split_on 47 (str_bytes ''/todos/{id}'')) = ?ps" by (simp add: str_bytes_def)
  then show ?thesis unfolding match_route_def
    by (auto split: list.splits)
qed

lemma param_todo_url:
  "(case match_route (str_bytes ''/todos/{id}'') url of None \<Rightarrow> None | Some params \<Rightarrow> param_id params) = todo_url url"
  unfolding match_todo todo_url_def param_id_def
  by (auto split: list.splits option.splits bind_splits simp: map_conv_bind_option comp_def)

subsection \<open>Dispatch\<close>

lemma update_router_ok:
  assumes "api_documented lib" and "api_ok H lib s"
  shows "routes_at lib update_routes (update_router s)"
    and "m \<notin> fst ` set update_routes \<Longrightarrow> map_of (update_router s) m = None"
proof -
  have d: "distinct (map fst update_routes)" "\<forall>(m, p, h) \<in> set update_routes. p \<in> api_routes"
    by (simp_all add: update_routes_def api_routes_def TODOS_PATH_def str_bytes_def)
  from insert_routes_ok [OF assms(1) d(1) _ d(2), of "[]"] obtain rs where
    "insert_routes lib update_routes [] = Some rs" "routes_at lib update_routes rs"
    "\<forall>m. m \<notin> fst ` set update_routes \<longrightarrow> map_of rs m = None" by auto
  with assms(2) show "routes_at lib update_routes (update_router s)"
    and "m \<notin> fst ` set update_routes \<Longrightarrow> map_of (update_router s) m = None" by (simp_all add: api_ok_def)
qed

lemma update_dispatch:
  assumes "api_documented lib" and "api_ok H lib s" and "get_path (api_http lib) request = Inr url"
    and "(api_upper lib (req_method request), p, h) \<in> set update_routes"
  shows "http_request_update H lib call request s =
    (case match_route p url of None \<Rightarrow> None | Some params \<Rightarrow> run_handler H lib call h request params s)"
proof -
  from update_router_ok(1) [OF assms(1,2)] assms(4) obtain rt where
    "map_of (update_router s) (api_upper lib (req_method request)) = Some rt"
    "router_at lib rt url = map_option (Pair h) (match_route p url)" unfolding routes_at_def by blast
  with assms(3) show ?thesis
    by (simp add: http_request_update_def unwrap_result_def split: option.splits)
qed

lemma update_no_route:
  assumes "api_documented lib" and "api_ok H lib s"
    and "api_upper lib (req_method request) \<notin> fst ` set update_routes"
  shows "http_request_update H lib call request s = None"
  using update_router_ok(2) [OF assms] by (simp add: http_request_update_def split: bind_splits)

subsection \<open>The handlers refine the specification\<close>

definition api_refines :: "(bytes \<Rightarrow> hash) \<Rightarrow> 'rt api_lib \<Rightarrow> todo_map \<Rightarrow> 'rt api_state \<Rightarrow> bool" where
  "api_refines H lib tm s \<longleftrightarrow> api_ok H lib s \<and> list_certified H lib s \<and> api_abs s = tm"

lemma api_ok_items:
  "api_ok H lib s \<Longrightarrow> distinct (map fst items) \<Longrightarrow> api_ok H lib (s\<lparr>next_todo_id := n, todo_items := items\<rparr>)"
  by (simp add: api_ok_def)

lemma items_certified:
  assumes "api_documented lib" and "hash32 H" and "api_ok H lib s" and "distinct (map fst items)"
  shows "\<exists>s'. certify_list_todos_response H lib (s\<lparr>next_todo_id := n, todo_items := items\<rparr>) = Some s' \<and>
    api_refines H lib (n, map_of items) s'"
  using certify_list_keeps [OF assms(1,2) api_ok_items [OF assms(3,4), of n]]
  by (auto simp: api_refines_def api_abs_def)

lemma create_refines:
  assumes "api_documented lib" and "hash32 H" and "api_ok H lib s" and "json_create lib (req_body request) = Some p"
  shows "\<exists>r s'. create_todo_item_handler H lib request s = Some (r, s') \<and>
    api_refines H lib (todo_step (Todo_Create (create_title p)) (api_abs s)) s'"
proof -
  let ?item = "\<lparr>todo_id = next_todo_id s, todo_title = create_title p, todo_completed = False\<rparr>"
  let ?items = "AList.update (next_todo_id s) ?item (todo_items s)"
  from assms(3) have "distinct (map fst ?items)" by (simp add: api_ok_def distinct_update)
  from items_certified [OF assms(1-3) this, of "next_todo_id s + 1"] obtain s' where s':
    "certify_list_todos_response H lib (s\<lparr>next_todo_id := next_todo_id s + 1, todo_items := ?items\<rparr>) = Some s'"
    "api_refines H lib (next_todo_id s + 1, map_of ?items) s'" by blast
  from api_documentedD(4) [OF assms(1)] obtain body where "api_encode lib todo_item_json (Api_Ok ?item) = Some body"
    unfolding api_encode_def by blast
  with assms(4) s' show ?thesis by (simp add: create_todo_item_handler_def Let_def api_abs_def update_conv')
qed

lemma change_refines:
  assumes "api_documented lib" and "hash32 H" and "api_ok H lib s" and "json_update lib (req_body request) = Some p"
    and "param_id params = Some i" and "map_of (todo_items s) i = Some item"
  shows "\<exists>r s'. update_todo_item_handler H lib request params s = Some (r, s') \<and>
    api_refines H lib (todo_step (Todo_Change i (update_title p) (update_completed p)) (api_abs s)) s'"
proof -
  let ?items = "AList.update i (update_todo p item) (todo_items s)"
  from assms(3) have "distinct (map fst ?items)" by (simp add: api_ok_def distinct_update)
  from items_certified [OF assms(1-3) this, of "next_todo_id s"] obtain s' where s':
    "certify_list_todos_response H lib (s\<lparr>todo_items := ?items\<rparr>) = Some s'"
    "api_refines H lib (next_todo_id s, map_of ?items) s'" by auto
  from api_documentedD(4) [OF assms(1)] obtain body where "api_encode lib unit_json (Api_Ok ()) = Some body"
    unfolding api_encode_def by blast
  with assms(4-6) s' show ?thesis
    by (simp add: update_todo_item_handler_def Let_def api_abs_def update_conv' update_todo_def split: option.splits)
qed

lemma remove_refines:
  assumes "api_documented lib" and "hash32 H" and "api_ok H lib s" and "param_id params = Some i"
  shows "\<exists>r s'. delete_todo_item_handler H lib params s = Some (r, s') \<and>
    api_refines H lib (todo_step (Todo_Remove i) (api_abs s)) s'"
proof -
  let ?items = "AList.delete i (todo_items s)"
  from assms(3) have "distinct (map fst ?items)" by (simp add: api_ok_def distinct_delete)
  from items_certified [OF assms(1-3) this, of "next_todo_id s"] obtain s' where s':
    "certify_list_todos_response H lib (s\<lparr>todo_items := ?items\<rparr>) = Some s'"
    "api_refines H lib (next_todo_id s, map_of ?items) s'" by auto
  from api_documentedD(4) [OF assms(1)] obtain body where "api_encode lib unit_json (Api_Ok ()) = Some body"
    unfolding api_encode_def by blast
  with assms(4) s' show ?thesis
    by (simp add: delete_todo_item_handler_def Let_def api_abs_def delete_conv')
qed

lemma update_routes_member:
  "(str_bytes ''POST'', str_bytes ''/todos'', Create_Todo_Item) \<in> set update_routes"
  "(str_bytes ''PATCH'', str_bytes ''/todos/{id}'', Update_Todo_Item) \<in> set update_routes"
  "(str_bytes ''DELETE'', str_bytes ''/todos/{id}'', Delete_Todo_Item) \<in> set update_routes"
  "(m, p, h) \<in> set update_routes \<Longrightarrow> m \<noteq> str_bytes ''POST'' \<Longrightarrow> m \<noteq> str_bytes ''PATCH'' \<Longrightarrow>
     m \<noteq> str_bytes ''DELETE'' \<Longrightarrow> h = No_Update_Call"
  by (auto simp: update_routes_def TODOS_PATH_def)

lemma method_names:
  "str_bytes ''POST'' \<noteq> str_bytes ''PATCH''" "str_bytes ''DELETE'' \<noteq> str_bytes ''POST''"
  "str_bytes ''DELETE'' \<noteq> str_bytes ''PATCH''"
  by (simp_all add: str_bytes_def)

text \<open>A call with a path, by its method.\<close>

lemma post_refines:
  assumes "api_documented lib" and "hash32 H" and "api_ok H lib s" and "get_path (api_http lib) request = Inr url"
    and "api_upper lib (req_method request) = str_bytes ''POST''" and "list_certified H lib s"
  shows "api_refines H lib (api_spec lib (Update_Call request) (api_abs s)) (api_step H lib call (Update_Call request) s)"
proof -
  have d: "http_request_update H lib call request s =
      (if url = TODOS_PATH then create_todo_item_handler H lib request s else None)"
    using update_dispatch [OF assms(1,3,4), of "str_bytes ''/todos''"] update_routes_member(1) assms(5)
    by (simp add: match_todos)
  have a: "todo_action lib request = (if url = TODOS_PATH
      then map_option (\<lambda>p. Todo_Create (create_title p)) (json_create lib (req_body request)) else None)"
    using assms(4,5) method_names by (simp add: todo_action_def)
  show ?thesis
  proof (cases "json_create lib (req_body request)")
    case None
    with d a assms(3,6) show ?thesis by (simp add: create_todo_item_handler_def api_refines_def)
  next
    case (Some p)
    from create_refines [OF assms(1-3) this] d a Some assms(3,6) show ?thesis by (auto simp: api_refines_def)
  qed
qed

lemma patch_refines:
  assumes "api_documented lib" and "hash32 H" and "api_ok H lib s" and "get_path (api_http lib) request = Inr url"
    and "api_upper lib (req_method request) = str_bytes ''PATCH''" and "list_certified H lib s"
  shows "api_refines H lib (api_spec lib (Update_Call request) (api_abs s)) (api_step H lib call (Update_Call request) s)"
proof -
  let ?match = "match_route (str_bytes ''/todos/{id}'') url"
  have d: "http_request_update H lib call request s =
      (case ?match of None \<Rightarrow> None | Some params \<Rightarrow> update_todo_item_handler H lib request params s)"
    using update_dispatch [OF assms(1,3,4), of "str_bytes ''/todos/{id}''"] update_routes_member(2) assms(5)
    by (simp split: option.splits)
  have a: "todo_action lib request = do {
      i \<leftarrow> todo_url url;
      p \<leftarrow> json_update lib (req_body request);
      Some (Todo_Change i (update_title p) (update_completed p)) }"
    using assms(4,5) method_names by (simp add: todo_action_def)
  show ?thesis
  proof (cases "todo_url url = None \<or> json_update lib (req_body request) = None")
    case True
    then have "todo_action lib request = None" using a by auto
    moreover have "http_request_update H lib call request s = None"
      using True param_todo_url [of url] unfolding d
      by (auto simp: update_todo_item_handler_def split: option.splits bind_splits)
    ultimately show ?thesis using assms(3,6) by (simp add: api_refines_def)
  next
    case False
    then obtain i p where ip: "todo_url url = Some i" "json_update lib (req_body request) = Some p" by auto
    with param_todo_url [of url] obtain params where ps: "?match = Some params" "param_id params = Some i"
      by (auto split: option.splits)
    show ?thesis
    proof (cases "map_of (todo_items s) i")
      case None
      then have "http_request_update H lib call request s = None"
        using d ps ip by (simp add: update_todo_item_handler_def)
      with None a ip assms(3,6) show ?thesis by (auto simp: api_abs_def api_refines_def)
    next
      case (Some item)
      from change_refines [OF assms(1-3) ip(2) ps(2) this] d a ip ps show ?thesis by auto
    qed
  qed
qed

lemma delete_refines:
  assumes "api_documented lib" and "hash32 H" and "api_ok H lib s" and "get_path (api_http lib) request = Inr url"
    and "api_upper lib (req_method request) = str_bytes ''DELETE''" and "list_certified H lib s"
  shows "api_refines H lib (api_spec lib (Update_Call request) (api_abs s)) (api_step H lib call (Update_Call request) s)"
proof -
  let ?match = "match_route (str_bytes ''/todos/{id}'') url"
  have d: "http_request_update H lib call request s =
      (case ?match of None \<Rightarrow> None | Some params \<Rightarrow> delete_todo_item_handler H lib params s)"
    using update_dispatch [OF assms(1,3,4), of "str_bytes ''/todos/{id}''"] update_routes_member(3) assms(5)
    by (simp split: option.splits)
  have a: "todo_action lib request = map_option Todo_Remove (todo_url url)"
    using assms(4,5) method_names by (simp add: todo_action_def)
  show ?thesis
  proof (cases "todo_url url")
    case None
    then have "http_request_update H lib call request s = None"
      using param_todo_url [of url] unfolding d by (auto simp: delete_todo_item_handler_def split: option.splits)
    with None a assms(3,6) show ?thesis by (simp add: api_refines_def)
  next
    case (Some i)
    with param_todo_url [of url] obtain params where ps: "?match = Some params" "param_id params = Some i"
      by (auto split: option.splits)
    from remove_refines [OF assms(1-3) ps(2)] d a ps(1) Some show ?thesis by auto
  qed
qed

lemma other_refines:
  assumes "api_documented lib" and "api_ok H lib s" and "get_path (api_http lib) request = Inr url"
    and "api_upper lib (req_method request) \<notin> {str_bytes ''POST'', str_bytes ''PATCH'', str_bytes ''DELETE''}"
    and "list_certified H lib s"
  shows "api_refines H lib (api_spec lib (Update_Call request) (api_abs s)) (api_step H lib call (Update_Call request) s)"
proof -
  let ?m = "api_upper lib (req_method request)"
  from assms(3,4) have a: "todo_action lib request = None" by (simp add: todo_action_def)
  show ?thesis
  proof (cases "?m \<in> fst ` set update_routes")
    case False
    with update_no_route [OF assms(1,2)] a assms(2,5) show ?thesis by (simp add: api_refines_def)
  next
    case True
    then obtain p h where r: "(?m, p, h) \<in> set update_routes" by auto
    with update_routes_member(4) assms(4) have "h = No_Update_Call" by blast
    with update_dispatch [OF assms(1-3) r] a assms(2,5) show ?thesis
      by (simp add: api_refines_def split: option.splits)
  qed
qed

lemma api_step_refines:
  assumes "api_documented lib" and "hash32 H" and "api_refines H lib tm s"
  shows "api_refines H lib (api_spec lib op tm) (api_step H lib call op s)"
proof (cases op)
  case Upgrade
  from api_init_ok [OF assms(1,2)] Upgrade show ?thesis
    by (auto simp: post_upgrade_def api_refines_def api_abs_def todo_empty_def)
next
  case (Update_Call request)
  from assms(3) have ok: "api_ok H lib s" "list_certified H lib s" and tm: "tm = api_abs s"
    by (simp_all add: api_refines_def)
  show ?thesis
  proof (cases "get_path (api_http lib) request")
    case (Inl e)
    with assms(3) Update_Call show ?thesis by (simp add: http_request_update_def unwrap_result_def todo_action_def)
  next
    case (Inr url)
    with post_refines [OF assms(1,2) ok(1) Inr _ ok(2)] patch_refines [OF assms(1,2) ok(1) Inr _ ok(2)]
      delete_refines [OF assms(1,2) ok(1) Inr _ ok(2)] other_refines [OF assms(1) ok(1) Inr _ ok(2)] Update_Call tm
    show ?thesis by blast
  qed
qed

lemma api_run_refines:
  "api_documented lib \<Longrightarrow> hash32 H \<Longrightarrow> api_refines H lib tm s \<Longrightarrow>
     api_refines H lib (fold (api_spec lib) ops tm) (api_run H lib call ops s)"
  by (induction ops arbitrary: tm s) (simp_all add: api_run_def api_step_refines del: api_spec.simps api_step.simps)

lemma api_init_refines:
  assumes "api_documented lib" and "hash32 H"
  obtains s0 where "api_init H lib api_state_new = Some s0" and "api_refines H lib todo_empty s0"
  using api_init_ok [OF assms] that by (auto simp: api_refines_def api_abs_def todo_empty_def)

subsection \<open>Concrete libraries\<close>

text \<open>Libraries with the documented behaviour: a router is the list of its routes, a body that parses is
  the title, and strings are printed without escapes.\<close>

definition to_ascii_uppercase :: "bytes \<Rightarrow> bytes" where
  "to_ascii_uppercase s = map (\<lambda>c. if 97 \<le> c \<and> c \<le> 122 then c - 32 else c) s"

fun json_text :: "json \<Rightarrow> bytes" where
  "json_text J_Unit = str_bytes ''null''"
| "json_text (J_Bool b) = (if b then str_bytes ''true'' else str_bytes ''false'')"
| "json_text (J_Number n) = decimal n"
| "json_text (J_String s) = 34 # s @ [34]"
| "json_text (J_Array vs) = 91 # join [44] (map json_text vs) @ [93]"
| "json_text (J_Object kvs) = 123 # join [44] (map (\<lambda>(k, v). (34 # k @ [34, 58]) @ json_text v) kvs) @ [125]"

definition plain_api :: "(bytes \<times> route_handler) list api_lib" where
  "plain_api = \<lparr>api_http = plain_http, api_leb = two_bytes, api_lower = to_ascii_lowercase,
     api_upper = to_ascii_uppercase, json_to_vec = (\<lambda>v. Some (json_text v)),
     json_create = (\<lambda>b. Some \<lparr>create_title = b\<rparr>),
     json_update = (\<lambda>b. Some \<lparr>update_title = Some b, update_completed = Some True\<rparr>), item_order = (\<lambda>m. m),
     router_default = [], router_insert = (\<lambda>rt p h. Some (rt @ [(p, h)])),
     router_at = (\<lambda>rt url. case List.map_filter (\<lambda>(p, h). map_option (Pair h) (match_route p url)) rt of
       [] \<Rightarrow> None | match # _ \<Rightarrow> Some match)\<rparr>"

lemma plain_api_documented: "api_documented plain_api"
proof -
  have "to_ascii_uppercase s = s" if "list_all (\<lambda>c. 65 \<le> c \<and> c \<le> 90) s" for s
    using that by (induction s) (auto simp: to_ascii_uppercase_def word_le_nat_alt)
  moreover have "uri_of plain_http TODOS_PATH = Some (TODOS_PATH, None)" "url_decode plain_http TODOS_PATH = Inr TODOS_PATH"
    by (simp_all add: plain_http_def TODOS_PATH_def str_bytes_def)
  ultimately show ?thesis
    by (auto simp: api_documented_def plain_api_def map_filter_simps split: option.splits)
qed

definition plain_call :: "string \<Rightarrow> string \<Rightarrow> bytes \<Rightarrow> api_op" where
  "plain_call m url body = Update_Call
     \<lparr>req_method = str_bytes m, req_url = str_bytes url, req_headers = [], req_body = body,
      req_certificate_version = None\<rparr>"

definition plain_update :: api_call where
  "plain_update = \<lparr>call_b64 = hex_enc, call_self_describe = self_describe_tag, call_enc = cbor_enc,
     call_data_certificate = None\<rparr>"

subsection \<open>History\<close>

text \<open>C11: The JSON API refines a map of todo items. After its initialisation and any sequence of update
  calls and upgrades, the items and the next identifier are those of the specification, where a call
  that traps changes nothing; the certified data is the root hash of the tree, and the response stored
  for the list encodes the current items and is the one that the tree certifies.\<close>

theorem api_history:
  assumes "api_documented lib" and "hash32 H"
  shows "\<exists>s0 s. api_init H lib api_state_new = Some s0 \<and> api_run H lib call ops s0 = s \<and>
    api_abs s = fold (api_spec lib) ops todo_empty \<and>
    certified_data s = Some (ct_root_hash H (http_tree s)) \<and> list_certified H lib s"
proof -
  obtain s0 where s0: "api_init H lib api_state_new = Some s0" "api_refines H lib todo_empty s0"
    by (rule api_init_refines [OF assms])
  from api_run_refines [OF assms s0(2), of ops call] show ?thesis
    using s0(1) by (auto simp: api_refines_def api_ok_def)
qed

theorem api_history_witness:
  "\<exists>s0. api_init len_hash plain_api api_state_new = Some s0 \<and>
     api_abs (api_run len_hash plain_api plain_update
       [plain_call ''POST'' ''/todos'' [97], plain_call ''post'' ''/todos'' [98],
        plain_call ''PATCH'' ''/todos/2'' [99], plain_call ''PATCH'' ''/todos/1'' [99],
        plain_call ''DELETE'' ''/todos/0'' [], plain_call ''PUT'' ''/todos'' []] s0) =
     (2, [1 \<mapsto> \<lparr>todo_id = 1, todo_title = [99], todo_completed = True\<rparr>])"
proof -
  let ?ops = "[plain_call ''POST'' ''/todos'' [97], plain_call ''post'' ''/todos'' [98],
        plain_call ''PATCH'' ''/todos/2'' [99], plain_call ''PATCH'' ''/todos/1'' [99],
        plain_call ''DELETE'' ''/todos/0'' [], plain_call ''PUT'' ''/todos'' []]"
  have a: "map (\<lambda>op. case op of Update_Call r \<Rightarrow> todo_action plain_api r | Upgrade \<Rightarrow> None) ?ops =
      [Some (Todo_Create [97]), Some (Todo_Create [98]), Some (Todo_Change 2 (Some [99]) (Some True)),
       Some (Todo_Change 1 (Some [99]) (Some True)), Some (Todo_Remove 0), None]"
    by (simp add: plain_call_def todo_action_def plain_api_def get_path_def plain_http_def TODOS_PATH_def str_bytes_def
        to_ascii_uppercase_def todo_url_def parse_usize_def unwrap_result_def to_digit_def)
  then have "fold (api_spec plain_api) ?ops todo_empty =
      (2, [1 \<mapsto> \<lparr>todo_id = 1, todo_title = [99], todo_completed = True\<rparr>])"
    by (simp add: plain_call_def todo_empty_def)
  then show ?thesis using api_history [OF plain_api_documented, of len_hash plain_update ?ops] by auto
qed

end
