(* ===== verification/Json_Api_Served.thy ===== *)
theory Json_Api_Served
  imports Json_Api_History Response_Theorems
begin

text \<open>
  The JSON API against the verifier: the list of the todo items that a query returns is the one of the
  specification, and the verifier accepts it.
\<close>

subsection \<open>The query for the list\<close>

lemma query_dispatch:
  assumes "api_documented lib" and "api_ok H lib s" and "get_path (api_http lib) request = Inr url"
    and "(api_upper lib (req_method request), p, h) \<in> set query_routes"
  shows "http_request_query H lib call request s =
    (case match_route p url of None \<Rightarrow> None | Some params \<Rightarrow> run_handler H lib call h request params s)"
proof -
  from api_routes_ok(1) [OF assms(1)] assms(2) have "routes_at lib query_routes (query_router s)"
    by (auto simp: api_ok_def)
  with assms(4) obtain rt where "map_of (query_router s) (api_upper lib (req_method request)) = Some rt"
    "router_at lib rt url = map_option (Pair h) (match_route p url)" unfolding routes_at_def by blast
  with assms(3) show ?thesis
    by (simp add: http_request_query_def unwrap_result_def split: option.splits)
qed

lemma todos_query:
  assumes "api_documented lib" and "api_ok H lib s" and "get_path (api_http lib) request = Inr TODOS_PATH"
    and "req_method request = str_bytes ''GET''"
  shows "http_request_query H lib call request s =
    map_option (\<lambda>response. (response, s)) (query_handler H lib call request s)"
proof -
  have "api_upper lib (str_bytes ''GET'') = str_bytes ''GET''"
    by (rule api_documentedD(6) [OF assms(1)]) (simp add: str_bytes_def)
  moreover have "(str_bytes ''GET'', str_bytes ''/{*p}'', Query_Handler) \<in> set query_routes"
    by (simp add: query_routes_def)
  moreover have "match_route (str_bytes ''/{*p}'') TODOS_PATH \<noteq> None"
    by (simp add: match_route_def TODOS_PATH_def str_bytes_def)
  ultimately show ?thesis
    using query_dispatch [OF assms(1-3), of "str_bytes ''/{*p}''" Query_Handler call] assms(4)
    by (auto split: option.splits)
qed

text \<open>Where no route matches, a query traps: a PATCH for the path of the items never gets the response that
  \<^const>\<open>not_allowed_methods\<close> certified for it, and the path \<^verbatim>\<open>/\<close> never gets the fallback.\<close>

lemma patch_todos_traps:
  assumes "api_documented lib" and "api_ok H lib s" and "get_path (api_http lib) request = Inr TODOS_PATH"
    and "req_method request = str_bytes ''PATCH''"
  shows "str_bytes ''PATCH'' \<in> set not_allowed_methods" and "http_request_query H lib call request s = None"
proof -
  show "str_bytes ''PATCH'' \<in> set not_allowed_methods" by (simp add: not_allowed_methods_def)
  have "api_upper lib (str_bytes ''PATCH'') = str_bytes ''PATCH''"
    by (rule api_documentedD(6) [OF assms(1)]) (simp add: str_bytes_def)
  moreover have "(str_bytes ''PATCH'', str_bytes ''/todos/{id}'', Upgrade_To_Update_Call) \<in> set query_routes"
    by (simp add: query_routes_def)
  moreover have "match_route (str_bytes ''/todos/{id}'') TODOS_PATH = None"
    by (simp add: match_route_def TODOS_PATH_def str_bytes_def)
  ultimately show "http_request_query H lib call request s = None"
    using query_dispatch [OF assms(1-3), of "str_bytes ''/todos/{id}''" Upgrade_To_Update_Call call] assms(4) by simp
qed

lemma query_routes_first: "(m, p, h) \<in> set query_routes \<Longrightarrow> match_route p [47] = None"
  by (auto simp: query_routes_def match_route_def str_bytes_def)

lemma root_query_traps:
  assumes "api_documented lib" and "api_ok H lib s" and "get_path (api_http lib) request = Inr [47]"
  shows "http_request_query H lib call request s = None"
proof (cases "api_upper lib (req_method request) \<in> fst ` set query_routes")
  case True
  then obtain p h where r: "(api_upper lib (req_method request), p, h) \<in> set query_routes" by auto
  from query_dispatch [OF assms this] query_routes_first [OF r] show ?thesis by simp
next
  case False
  have d: "distinct (map fst query_routes)" "\<forall>(m, p, h) \<in> set query_routes. p \<in> api_routes"
    by (simp_all add: query_routes_def api_routes_def str_bytes_def)
  from insert_routes_ok [OF assms(1) d(1) _ d(2), of "[]"] False assms(2)
  have "map_of (query_router s) (api_upper lib (req_method request)) = None" by (auto simp: api_ok_def)
  then show ?thesis using assms(3) by (simp add: http_request_query_def unwrap_result_def)
qed

lemma todo_expr:
  "TODO_CEL_EXPR_DEF =
     \<lparr>full_request = \<lparr>certified_request_headers = [], certified_query_parameters = []\<rparr>,
      full_response = ResponseHeaderExclusions []\<rparr>"
  by (simp add: TODO_CEL_EXPR_DEF_def full_build_def full_with_response_certification_def
      with_request_query_parameters_def with_request_headers_def full_certification_def
      request_certification_new_def)

lemma todo_expr_ok: "expr_ok (CelDefault (CelFull TODO_CEL_EXPR_DEF))"
  by (simp add: todo_expr request_names_ok_def response_names_ok_def response_list_def)

lemma todo_expr_path: "to_expr_path TODOS_TREE_PATH = [str_bytes ''http_expr'', str_bytes ''todos'', str_bytes ''<$>'']"
  by (simp add: TODOS_TREE_PATH_def TODOS_PATH_def to_expr_path.simps path_to_segments_def url_segments_def
      str_bytes_def ends_with_def PATH_PREFIX_def EXACT_PATH_TERMINATOR_def del: terminators)

lemma todo_expr_path_ok:
  "\<forall>x \<in> set (to_expr_path TODOS_TREE_PATH). utf8_valid x \<and> length x < 2 ^ 64"
  "length (to_expr_path TODOS_TREE_PATH) < 2 ^ 64"
  by (simp_all add: todo_expr_path str_bytes_def)

lemma todos_same_request:
  assumes "get_path lib request = Inr url" and "get_query lib (todos_request m) = Inr q"
    and "req_method request = m" and "req_body request = []"
  shows "same_request lib (full_request TODO_CEL_EXPR_DEF) (todos_request m) request"
proof -
  from assms(1) obtain q' where "get_query lib request = Inr q'"
    by (auto simp: get_path_def get_query_def and_then_eq_Inr)
  with assms(2-4) show ?thesis
    by (simp add: same_request_def todos_request_def todo_expr no_query_certified header_entries_def)
qed

subsection \<open>Acceptance\<close>

lemma list_served:
  fixes vl :: "('e, 'f, 'p::linorder, 'b, 'c, 'd) verify_lib"
  assumes libs: "nom_documented (cl_nom (vl_cert vl))" "header_lib_documented (vl_header vl)"
      "cbor_documented (call_enc call)" "b64_documented (call_b64 call) (vl_b64 vl)" "lower_ascii (vl_lower vl)" "hash32 H"
    and same: "api_leb lib = vl_leb vl" "api_http lib = vl_http vl" "api_lower lib = vl_lower vl"
      "call_self_describe call = self_describe_tag" "call_data_certificate call = Some dc"
    and api: "api_documented lib" "api_ok H lib s"
    and r: "certified_todos H lib (http_tree s) (str_bytes ''GET'') 200 body r"
      "map_of (api_responses s) (str_bytes ''GET'', TODOS_PATH) = Some r"
    and request: "get_path (vl_http vl) request = Inr TODOS_PATH" "req_method request = str_bytes ''GET''"
      "req_body request = []"
    and cert: "certificate_from_cbor (cl_nom (vl_cert vl)) dc = Inr cert"
      "certificate_verify H (vl_cert vl) cert canister_id key now offset c = Some (Inr (), c')"
      "lookup_path (cert_tree cert) [str_bytes ''canister'', canister_id, str_bytes ''certified_data''] =
         LR_Found (ct_root_hash H (http_tree s))"
    and min: "min_version \<le> 2"
  shows "\<exists>response info. http_request_query H lib call request s = Some (response, s) \<and> resp_body response = body \<and>
    verify_request_response_pair H vl request response canister_id now offset key min_version c =
      Some (Inr info, c') \<and> vi_verification_version info = 2"
proof -
  let ?cert = "chr_certification r" and ?get = "str_bytes ''GET''" and ?r = "chr_response r" and ?t = "http_tree s"
  let ?e = "entry_of TODOS_TREE_PATH ?cert"
  from r(1) [unfolded certified_todos_def same] have r': "?r = add_header (create_response 200 body) (CERTIFICATE_EXPRESSION_HEADER_NAME, TODO_CEL_EXPR)"
    "certification_full H (vl_leb vl) (vl_http vl) (vl_lower vl) TODO_CEL_EXPR_DEF (todos_request ?get) ?r None = Inr ?cert"
    and e: "entry_to_tree_path ?e \<in> certified_paths ?t" by blast+
  let ?s = "Source_Full TODO_CEL_EXPR_DEF (todos_request ?get) ?r"
  from api(2) have tree: "api_tree_ok H ?t" by (simp add: api_ok_def)
  then have t: "ct_ok H ?t" by (simp add: api_tree_ok_def)
  have src: "source_certification H (vl_leb vl) (vl_http vl) (vl_lower vl) ?s = Inr (entry_certification ?e)"
    using r'(2) by simp
  have "req_url (todos_request ?get) = TODOS_PATH" by (simp add: todos_request_def)
  from todos_same_request [OF request(1) _ request(2,3)] api_documentedD(2) [OF api(1) this]
  have ans: "canister_answer (vl_http vl) (vl_lower vl) request ?r ?s" by (simp add: same)
  have routed: "routed ?t TODOS_PATH (entry_path ?e)" by (rule exact_routed [OF e]) (simp add: TODOS_TREE_PATH_def)
  from routed_witness [OF t routed e] obtain w where w: "ct_witness H ?t ?e TODOS_PATH = Some (Inr w)" by blast
  let ?response = "add_v2_certificate_header (call_b64 call) self_describe_tag (call_enc call) dc ?r w
    (to_expr_path (entry_path ?e))"
  have "query_handler H lib call request s = Some ?response"
    using request w r(2) by (simp add: query_handler_def unwrap_result_def select_response_def same TODOS_TREE_PATH_def)
  then have "http_request_query H lib call request s = Some (?response, s)"
    using todos_query [OF api, of request call] request by (simp add: same)
  moreover have "resp_body ?response = body"
    by (simp add: add_v2_certificate_header_def add_header_def r'(1) create_response_def build_response_def with_body_def)
  moreover have "\<exists>info. verify_request_response_pair H vl request ?response canister_id now offset key min_version c =
      Some (Inr info, c') \<and> vi_verification_version info = 2"
    by (rule tree_response_accepted [OF libs t e src _ ans request(1) routed w witness_small [OF libs(6) t api_tree_small [OF tree] routed e w]
          _ _ cert min]) (use todo_expr_ok todo_expr_path_ok in simp_all)
  ultimately show ?thesis by blast
qed

text \<open>C10: The list that the JSON API serves is current and the verifier accepts it. After the
  initialisation and any update calls and upgrades, a GET query for the path of the items without a
  body is answered with the JSON of exactly the items of the specification; with a certificate that
  verifies and holds the certified data of the canister, the answer is accepted as verified under
  version 2.\<close>

theorem list_todos_accepted:
  fixes vl :: "('e, 'f, 'p::linorder, 'b, 'c, 'd) verify_lib"
  assumes "nom_documented (cl_nom (vl_cert vl))" and "header_lib_documented (vl_header vl)"
    and "cbor_documented (call_enc call)" and "b64_documented (call_b64 call) (vl_b64 vl)"
    and "lower_ascii (vl_lower vl)" and "hash32 H"
    and "api_leb lib = vl_leb vl" and "api_http lib = vl_http vl" and "api_lower lib = vl_lower vl"
    and "call_self_describe call = self_describe_tag" and "call_data_certificate call = Some dc"
    and "api_documented lib" and "api_init H lib api_state_new = Some s0" and "api_run H lib call' ops s0 = s"
    and "get_path (vl_http vl) request = Inr TODOS_PATH" and "req_method request = str_bytes ''GET''"
    and "req_body request = []"
    and "certificate_from_cbor (cl_nom (vl_cert vl)) dc = Inr cert"
    and "certificate_verify H (vl_cert vl) cert canister_id key now offset c = Some (Inr (), c')"
    and "certified_data s = Some d"
    and "lookup_path (cert_tree cert) [str_bytes ''canister'', canister_id, str_bytes ''certified_data''] = LR_Found d"
    and "min_version \<le> 2"
  shows "\<exists>items response info. http_request_query H lib call request s = Some (response, s) \<and>
    distinct (map fst items) \<and> map_of items = snd (fold (api_spec lib) ops todo_empty) \<and>
    api_encode lib todo_list_json (Api_Ok (map snd items)) = Some (resp_body response) \<and>
    verify_request_response_pair H vl request response canister_id now offset key min_version c =
      Some (Inr info, c') \<and> vi_verification_version info = 2"
proof -
  from api_init_refines [OF assms(12,6)] assms(13) have "api_refines H lib todo_empty s0" by (metis option.inject)
  from api_run_refines [OF assms(12,6) this, of ops call'] assms(14)
  have "api_refines H lib (fold (api_spec lib) ops todo_empty) s" by simp
  then have s: "api_ok H lib s" "list_certified H lib s" "api_abs s = fold (api_spec lib) ops todo_empty"
    by (simp_all add: api_refines_def)
  from s(2) obtain r items body where r: "map_of (api_responses s) (str_bytes ''GET'', TODOS_PATH) = Some r"
    "mset items = mset (todo_items s)" "api_encode lib todo_list_json (Api_Ok (map snd items)) = Some body"
    "certified_todos H lib (http_tree s) (str_bytes ''GET'') 200 body r" by (auto simp: list_certified_def)
  have "distinct (map fst (todo_items s))" using s(1) by (simp add: api_ok_def)
  moreover have "mset (map fst items) = mset (map fst (todo_items s))" using r(2) by simp
  ultimately have d: "distinct (map fst items)" by (metis mset_eq_imp_distinct_iff)
  with \<open>distinct (map fst (todo_items s))\<close> have "map_of items = map_of (todo_items s)"
    using mset_eq_setD [OF r(2)] map_of_inject_set by blast
  also have "\<dots> = snd (fold (api_spec lib) ops todo_empty)" using s(3) by (metis api_abs_def snd_conv)
  finally have m: "map_of items = snd (fold (api_spec lib) ops todo_empty)" .
  have "d = ct_root_hash H (http_tree s)" using s(1) assms(20) by (simp add: api_ok_def)
  with list_served [OF assms(1-12) s(1) r(4,1) assms(15-19) _ assms(22)] assms(21) d m r(3) show ?thesis
    by blast
qed

definition plain_query :: "hash \<Rightarrow> api_call" where
  "plain_query d = \<lparr>call_b64 = hex_enc, call_self_describe = self_describe_tag, call_enc = cbor_enc,
     call_data_certificate = Some (plain_data tag_hash d)\<rparr>"

lemma map_of_single:
  assumes "distinct (map fst xs)" and "map_of xs = [k \<mapsto> v]"
  shows "xs = [(k, v)]"
proof -
  have "set xs = {(k, v)}" using map_of_inject_set [OF assms(1), of "[(k, v)]"] assms(2) by simp
  moreover have "distinct xs" using assms(1) by (simp add: distinct_map)
  ultimately have "length xs = 1" using distinct_card by fastforce
  with \<open>set xs = {(k, v)}\<close> show ?thesis by (cases xs) auto
qed

theorem list_todos_accepted_witness:
  "\<exists>s0 s d response info c'. api_init tag_hash plain_api api_state_new = Some s0 \<and>
     api_run tag_hash plain_api plain_update [plain_call ''POST'' ''/todos'' [97]] s0 = s \<and>
     certified_data s = Some d \<and>
     http_request_query tag_hash plain_api (plain_query d) (todos_request (str_bytes ''GET'')) s = Some (response, s) \<and>
     resp_body response = str_bytes ''{\"ok\":{\"data\":[{\"id\":0,\"title\":\"a\",\"completed\":false}]}}'' \<and>
     verify_request_response_pair tag_hash plain_lib (todos_request (str_bytes ''GET'')) response [1] 6 2
       plain_key 2 plain_cache = Some (Inr info, c') \<and> vi_verification_version info = 2"
proof -
  let ?ops = "[plain_call ''POST'' ''/todos'' [97]]" and ?get = "todos_request (str_bytes ''GET'')"
  let ?item = "\<lparr>todo_id = 0, todo_title = [97], todo_completed = False\<rparr>"
  obtain s0 where s0: "api_init tag_hash plain_api api_state_new = Some s0" "api_refines tag_hash plain_api todo_empty s0"
    by (rule api_init_refines [OF plain_api_documented hash32_tag_hash])
  define s where "s = api_run tag_hash plain_api plain_update ?ops s0"
  let ?d = "ct_root_hash tag_hash (http_tree s)"
  from api_run_refines [OF plain_api_documented hash32_tag_hash s0(2), of ?ops plain_update]
  have d: "certified_data s = Some ?d" by (simp add: s_def api_refines_def api_ok_def)
  have len: "length ?d = 32" by (simp add: ct_root_hash_def labeled_hash_def sha_hash_def)
  obtain c' where c': "certificate_verify tag_hash plain_cert (plain_certificate tag_hash ?d) [1] plain_key 6 2
      plain_cache = Some (Inr (), c')" using plain_certificate_verified by fastforce
  have same: "api_leb plain_api = two_bytes" "api_http plain_api = plain_http" "api_lower plain_api = to_ascii_lowercase"
    by (simp_all add: plain_api_def)
  have path: "get_path plain_http ?get = Inr TODOS_PATH"
    using api_documentedD(1) [OF plain_api_documented, of ?get] by (simp add: same todos_request_def)
  have "todo_action plain_api \<lparr>req_method = str_bytes ''POST'', req_url = str_bytes ''/todos'', req_headers = [],
      req_body = [97], req_certificate_version = None\<rparr> = Some (Todo_Create [97])"
    by (simp add: todo_action_def plain_api_def get_path_def plain_http_def TODOS_PATH_def str_bytes_def
        to_ascii_uppercase_def)
  then have spec: "snd (fold (api_spec plain_api) ?ops todo_empty) = [0 \<mapsto> ?item]"
    by (simp add: plain_call_def todo_empty_def)
  have "\<exists>items response info. http_request_query tag_hash plain_api (plain_query ?d) ?get s = Some (response, s) \<and>
      distinct (map fst items) \<and> map_of items = snd (fold (api_spec plain_api) ?ops todo_empty) \<and>
      api_encode plain_api todo_list_json (Api_Ok (map snd items)) = Some (resp_body response) \<and>
      verify_request_response_pair tag_hash plain_lib ?get response [1] 6 2 plain_key 2 plain_cache =
        Some (Inr info, c') \<and> vi_verification_version info = 2"
    by (rule list_todos_accepted [where dc = "plain_data tag_hash ?d" and cert = "plain_certificate tag_hash ?d"
          and d = ?d and call' = plain_update])
      (use s0(1) c' d path plain_data_read [OF hash32_tag_hash len] plain_certified_data plain_api_documented in
       \<open>simp_all add: plain_query_def same s_def todos_request_def del: lookup_path.simps\<close>)
  then obtain items response info where
    r: "http_request_query tag_hash plain_api (plain_query ?d) ?get s = Some (response, s)"
    "verify_request_response_pair tag_hash plain_lib ?get response [1] 6 2 plain_key 2 plain_cache =
        Some (Inr info, c')" "vi_verification_version info = 2"
    and items: "distinct (map fst items)" "map_of items = [(0 :: 32 word) \<mapsto> ?item]"
      "api_encode plain_api todo_list_json (Api_Ok (map snd items)) = Some (resp_body response)"
    unfolding spec by blast
  from items(3) have "resp_body response = str_bytes ''{\"ok\":{\"data\":[{\"id\":0,\"title\":\"a\",\"completed\":false}]}}''"
    unfolding map_of_single [OF items(1,2)]
    by (simp add: api_encode_def plain_api_def todo_list_json_def todo_item_json_def str_bytes_def decimal.simps
        digit_char_def)
  with s0(1) d r show ?thesis unfolding s_def by blast
qed

end
