(* ===== verification/Custom_Assets.thy ===== *)
theory Custom_Assets
  imports Json_Api
begin

text \<open>
  The canister of \<^verbatim>\<open>examples/http-certification/custom-assets/src/backend/src/lib.rs\<close>: it certifies the files
  of a directory and their encodings without the asset router, and serves them, with an uncertified
  metrics page. The embedded directory (\<^verbatim>\<open>include_dir\<close>), \<^verbatim>\<open>serde_json\<close> and Unicode lower case are
  parameters. The struct \<^verbatim>\<open>CertifiedHttpResponse\<close> is the one of \<^theory_text>\<open>Json_Api\<close>; \<^term>\<open>None\<close> is a trap.
\<close>

subsection \<open>Types and state\<close>

text \<open>An entry of the directory: a file with its path and contents, or a directory.\<close>

datatype dir_entry = File_Entry bytes bytes | Directory_Entry bytes

record custom_lib =
  cu_http :: http_lib
  cu_leb :: "64 word \<Rightarrow> bytes"
  cu_lower :: "bytes \<Rightarrow> bytes"
  cu_json :: "json \<Rightarrow> bytes option"
  dir_get_file :: "bytes \<Rightarrow> bytes option"
  dir_find :: "bytes \<Rightarrow> dir_entry list option"

text \<open>Hash maps are association lists; \<open>cu_certified_data\<close> is what \<^verbatim>\<open>set_certified_data\<close> stored.\<close>

record custom_state =
  cu_tree :: certification_tree
  encoded_responses :: "((bytes \<times> bytes) \<times> certified_http_response) list"
  responses :: "(bytes \<times> certified_http_response) list"
  cu_certified_data :: "hash option"

definition custom_state_new :: custom_state where
  "custom_state_new = \<lparr>cu_tree = ct_default, encoded_responses = [], responses = [], cu_certified_data = None\<rparr>"

definition metrics_json :: "64 word \<Rightarrow> json" where
  "metrics_json cycle_balance = J_Object [(str_bytes ''cycle_balance'', J_Number (unat cycle_balance))]"

definition INDEX_REQ_PATH :: bytes where
  "INDEX_REQ_PATH = []"

definition INDEX_TREE_PATH :: certification_path where
  "INDEX_TREE_PATH = Wildcard_Path INDEX_REQ_PATH"

definition INDEX_FILE_PATH :: bytes where
  "INDEX_FILE_PATH = str_bytes ''index.html''"

definition ASSET_CEL_EXPR_DEF :: response_only_cel_expr where
  "ASSET_CEL_EXPR_DEF =
     only_build (only_with_response_certification response_only_certification (ResponseHeaderExclusions []))"

definition ASSET_CEL_EXPR :: bytes where
  "ASSET_CEL_EXPR = create_default_response_only_cel_expr ASSET_CEL_EXPR_DEF"

definition NO_CACHE_ASSET_CACHE_CONTROL :: bytes where
  "NO_CACHE_ASSET_CACHE_CONTROL = str_bytes ''public, no-cache, no-store''"

definition METRICS_REQ_PATH :: bytes where
  "METRICS_REQ_PATH = str_bytes ''/metrics''"

subsection \<open>Responses\<close>

definition get_asset_headers :: "header_field list \<Rightarrow> nat \<Rightarrow> bytes \<Rightarrow> header_field list" where
  "get_asset_headers additional_headers content_length cel_expr =
     [(str_bytes ''strict-transport-security'', str_bytes ''max-age=31536000; includeSubDomains''),
        (str_bytes ''x-frame-options'', str_bytes ''DENY''),
        (str_bytes ''x-content-type-options'', str_bytes ''nosniff''),
        (str_bytes ''content-security-policy'', str_bytes ''default-src 'self'; form-action 'self'; object-src 'none'; '' @
          str_bytes ''frame-ancestors 'none'; upgrade-insecure-requests; '' @
          str_bytes ''block-all-mixed-content''),
        (str_bytes ''referrer-policy'', str_bytes ''no-referrer''),
        (str_bytes ''permissions-policy'', str_bytes ''accelerometer=(),ambient-light-sensor=(),autoplay=(),battery=(),'' @
          str_bytes ''camera=(),display-capture=(),document-domain=(),encrypted-media=(),'' @
          str_bytes ''fullscreen=(),gamepad=(),geolocation=(),gyroscope=(),'' @
          str_bytes ''layout-animations=(self),legacy-image-formats=(self),magnetometer=(),'' @
          str_bytes ''microphone=(),midi=(),oversized-images=(self),payment=(),'' @
          str_bytes ''picture-in-picture=(),publickey-credentials-get=(),'' @
          str_bytes ''speaker-selection=(),sync-xhr=(self),unoptimized-images=(self),'' @
          str_bytes ''unsized-media=(self),usb=(),screen-wake-lock=(),web-share=(),'' @
          str_bytes ''xr-spatial-tracking=()''),
        (str_bytes ''cross-origin-embedder-policy'', str_bytes ''require-corp''),
        (str_bytes ''cross-origin-opener-policy'', str_bytes ''same-origin''),
        (str_bytes ''content-length'', decimal content_length),
        (CERTIFICATE_EXPRESSION_HEADER_NAME, cel_expr)] @ additional_headers"

definition create_asset_response :: "header_field list \<Rightarrow> bytes \<Rightarrow> bytes \<Rightarrow> http_response" where
  "create_asset_response additional_headers body cel_expr =
     build_response (response_ok body (get_asset_headers additional_headers (length body) cel_expr))"

definition create_metrics_response :: "custom_lib \<Rightarrow> 64 word \<Rightarrow> http_response option" where
  "create_metrics_response lib canister_balance = do {
     body \<leftarrow> cu_json lib (metrics_json canister_balance);
     let additional_headers = [(str_bytes ''content-type'', str_bytes ''application/json''),
       (str_bytes ''cache-control'', NO_CACHE_ASSET_CACHE_CONTROL)];
     let headers = get_asset_headers additional_headers (length body) (create_cel_expr skip_certification);
     Some (build_response (response_ok body headers))
   }"

subsection \<open>Certification\<close>

definition add_certification_skips :: "(bytes \<Rightarrow> hash) \<Rightarrow> custom_state \<Rightarrow> custom_state option" where
  "add_certification_skips H s = do {
     t \<leftarrow> ct_insert H (cu_tree s)
       \<lparr>entry_path = Exact_Path METRICS_REQ_PATH, entry_certification = certification_skip H\<rparr>;
     Some (s\<lparr>cu_tree := t\<rparr>)
   }"

definition certify_asset_response ::
  "(bytes \<Rightarrow> hash) \<Rightarrow> custom_lib \<Rightarrow> bytes \<Rightarrow> header_field list \<Rightarrow> certification_path \<Rightarrow> bytes \<Rightarrow>
     custom_state \<Rightarrow> custom_state option" where
  "certify_asset_response H lib body additional_headers asset_tree_path asset_req_path s = do {
     let response = create_asset_response additional_headers body ASSET_CEL_EXPR;
     certification \<leftarrow> unwrap_result (certification_response_only H (cu_leb lib) (cu_lower lib)
       ASSET_CEL_EXPR_DEF response None);
     t \<leftarrow> ct_insert H (cu_tree s) \<lparr>entry_path = asset_tree_path, entry_certification = certification\<rparr>;
     Some (s\<lparr>cu_tree := t, responses := AList.update asset_req_path
       \<lparr>chr_response = response, chr_certification = certification\<rparr> (responses s)\<rparr>)
   }"

definition certify_asset_with_encoding ::
  "(bytes \<Rightarrow> hash) \<Rightarrow> custom_lib \<Rightarrow> bytes \<Rightarrow> certification_path \<Rightarrow> bytes \<Rightarrow> bytes \<Rightarrow> header_field list \<Rightarrow>
     custom_state \<Rightarrow> custom_state option" where
  "certify_asset_with_encoding H lib asset_file_path asset_tree_path asset_req_path encoding additional_headers s =
     (case dir_get_file lib (asset_file_path @ str_bytes ''.'' @ encoding) of
        Some body \<Rightarrow> do {
          let headers = (str_bytes ''content-encoding'', encoding) # additional_headers;
          let response = create_asset_response headers body ASSET_CEL_EXPR;
          certification \<leftarrow> unwrap_result (certification_response_only H (cu_leb lib) (cu_lower lib)
            ASSET_CEL_EXPR_DEF response None);
          t \<leftarrow> ct_insert H (cu_tree s) \<lparr>entry_path = asset_tree_path, entry_certification = certification\<rparr>;
          Some (s\<lparr>cu_tree := t, encoded_responses := AList.update (asset_req_path, encoding)
            \<lparr>chr_response = response, chr_certification = certification\<rparr> (encoded_responses s)\<rparr>)
        }
      | None \<Rightarrow> Some s)"

definition certify_asset ::
  "(bytes \<Rightarrow> hash) \<Rightarrow> custom_lib \<Rightarrow> bytes \<Rightarrow> bytes \<Rightarrow> certification_path \<Rightarrow> bytes \<Rightarrow> header_field list \<Rightarrow>
     custom_state \<Rightarrow> custom_state option" where
  "certify_asset H lib body asset_file_path asset_tree_path asset_req_path additional_headers s = do {
     s \<leftarrow> certify_asset_response H lib body additional_headers asset_tree_path asset_req_path s;
     s \<leftarrow> certify_asset_with_encoding H lib asset_file_path asset_tree_path asset_req_path (str_bytes ''gzip'')
       additional_headers s;
     certify_asset_with_encoding H lib asset_file_path asset_tree_path asset_req_path (str_bytes ''br'')
       additional_headers s
   }"

definition certify_index_asset :: "(bytes \<Rightarrow> hash) \<Rightarrow> custom_lib \<Rightarrow> custom_state \<Rightarrow> custom_state option" where
  "certify_index_asset H lib s = do {
     let additional_headers = [(str_bytes ''content-type'', str_bytes ''text/html''),
       (str_bytes ''cache-control'', NO_CACHE_ASSET_CACHE_CONTROL)];
     body \<leftarrow> dir_get_file lib INDEX_FILE_PATH;
     certify_asset H lib body INDEX_FILE_PATH INDEX_TREE_PATH INDEX_REQ_PATH additional_headers s
   }"

definition file_req_path :: "bytes \<Rightarrow> bytes" where
  "file_req_path asset_file_path =
     (if starts_with asset_file_path (str_bytes ''/'') then asset_file_path else str_bytes ''/'' @ asset_file_path)"

fun certify_entries ::
  "(bytes \<Rightarrow> hash) \<Rightarrow> custom_lib \<Rightarrow> bytes \<Rightarrow> dir_entry list \<Rightarrow> custom_state \<Rightarrow> custom_state option" where
  "certify_entries H lib content_type [] s = Some s"
| "certify_entries H lib content_type (Directory_Entry asset_path # es) s = None"
| "certify_entries H lib content_type (File_Entry asset_file_path body # es) s = do {
     let req_path = file_req_path asset_file_path;
     let additional_headers = [(str_bytes ''content-type'', content_type),
       (str_bytes ''cache-control'', str_bytes ''public, max-age=31536000, immutable'')];
     s \<leftarrow> certify_asset H lib body asset_file_path (Exact_Path req_path) req_path additional_headers s;
     certify_entries H lib content_type es s
   }"

definition certify_asset_glob ::
  "(bytes \<Rightarrow> hash) \<Rightarrow> custom_lib \<Rightarrow> bytes \<Rightarrow> bytes \<Rightarrow> custom_state \<Rightarrow> custom_state option" where
  "certify_asset_glob H lib glob content_type s = do {
     es \<leftarrow> dir_find lib glob;
     certify_entries H lib content_type es s
   }"

fun certify_globs ::
  "(bytes \<Rightarrow> hash) \<Rightarrow> custom_lib \<Rightarrow> (bytes \<times> bytes) list \<Rightarrow> custom_state \<Rightarrow> custom_state option" where
  "certify_globs H lib [] s = Some s"
| "certify_globs H lib ((glob, content_type) # globs) s = do {
     s \<leftarrow> certify_asset_glob H lib glob content_type s;
     certify_globs H lib globs s
   }"

definition asset_globs :: "(bytes \<times> bytes) list" where
  "asset_globs =
     [(str_bytes ''assets/**/*.css'', str_bytes ''text/css''),
      (str_bytes ''assets/**/*.js'', str_bytes ''text/javascript''),
      (str_bytes ''assets/**/*.ico'', str_bytes ''image/x-icon''),
      (str_bytes ''assets/**/*.svg'', str_bytes ''image/svg+xml'')]"

definition update_certified_data :: "(bytes \<Rightarrow> hash) \<Rightarrow> custom_state \<Rightarrow> custom_state" where
  "update_certified_data H s = s\<lparr>cu_certified_data := Some (ct_root_hash H (cu_tree s))\<rparr>"

definition certify_all_assets :: "(bytes \<Rightarrow> hash) \<Rightarrow> custom_lib \<Rightarrow> custom_state \<Rightarrow> custom_state option" where
  "certify_all_assets H lib s = do {
     s \<leftarrow> add_certification_skips H s;
     s \<leftarrow> certify_index_asset H lib s;
     s \<leftarrow> certify_globs H lib asset_globs s;
     Some (update_certified_data H s)
   }"

definition custom_init :: "(bytes \<Rightarrow> hash) \<Rightarrow> custom_lib \<Rightarrow> custom_state \<Rightarrow> custom_state option" where
  "custom_init = certify_all_assets"

definition custom_post_upgrade :: "(bytes \<Rightarrow> hash) \<Rightarrow> custom_lib \<Rightarrow> custom_state \<Rightarrow> custom_state option" where
  "custom_post_upgrade = custom_init"

subsection \<open>Handlers\<close>

text \<open>\<^verbatim>\<open>str::contains\<close>.\<close>

fun str_contains :: "bytes \<Rightarrow> bytes \<Rightarrow> bool" where
  "str_contains [] p \<longleftrightarrow> p = []"
| "str_contains (c # s) p \<longleftrightarrow> starts_with (c # s) p \<or> str_contains s p"

definition accept_encoding :: "custom_lib \<Rightarrow> http_request \<Rightarrow> bytes option" where
  "accept_encoding lib req =
     map_option snd (List.find (\<lambda>(name, value). cu_lower lib name = str_bytes ''accept-encoding'') (req_headers req))"

definition identity_response ::
  "(bytes \<Rightarrow> hash) \<Rightarrow> custom_lib \<Rightarrow> 64 word \<Rightarrow> bytes \<Rightarrow> custom_state \<Rightarrow>
     (bytes \<times> certification_path \<times> certified_http_response) option" where
  "identity_response H lib canister_balance req_path s =
     (if req_path = METRICS_REQ_PATH then do {
        response \<leftarrow> create_metrics_response lib canister_balance;
        Some (METRICS_REQ_PATH, Exact_Path METRICS_REQ_PATH,
          \<lparr>chr_response = response, chr_certification = certification_skip H\<rparr>)
      }
      else (case map_of (responses s) req_path of
          Some r \<Rightarrow> Some (req_path, Exact_Path req_path, r)
        | None \<Rightarrow> map_option (\<lambda>r. (INDEX_REQ_PATH, INDEX_TREE_PATH, r)) (map_of (responses s) INDEX_REQ_PATH)))"

definition encoded_response :: "custom_state \<Rightarrow> bytes \<Rightarrow> bytes \<Rightarrow> certified_http_response option" where
  "encoded_response s req_path encoding =
     (let br = map_of (encoded_responses s) (req_path, str_bytes ''br'') in
      if str_contains encoding (str_bytes ''br'') \<and> br \<noteq> None then br
      else if str_contains encoding (str_bytes ''gzip'')
      then map_of (encoded_responses s) (req_path, str_bytes ''gzip'')
      else None)"

definition asset_handler ::
  "(bytes \<Rightarrow> hash) \<Rightarrow> custom_lib \<Rightarrow> api_call \<Rightarrow> 64 word \<Rightarrow> http_request \<Rightarrow> custom_state \<Rightarrow> http_response option" where
  "asset_handler H lib call canister_balance req s = do {
     req_path \<leftarrow> unwrap_result (get_path (cu_http lib) req);
     (asset_req_path, asset_tree_path, identity) \<leftarrow> identity_response H lib canister_balance req_path s;
     let chosen = unwrap_or (Option.bind (accept_encoding lib req) (encoded_response s asset_req_path)) identity;
     data_certificate \<leftarrow> call_data_certificate call;
     witness \<leftarrow> ct_witness H (cu_tree s)
       \<lparr>entry_path = asset_tree_path, entry_certification = chr_certification chosen\<rparr> req_path;
     witness \<leftarrow> unwrap_result witness;
     Some (add_v2_certificate_header (call_b64 call) (call_self_describe call) (call_enc call)
       data_certificate (chr_response chosen) witness (to_expr_path asset_tree_path))
   }"

end
