(* ===== verification/Custom_Assets_Correct.thy ===== *)
theory Custom_Assets_Correct
  imports Custom_Assets Asset_Invariant Response_Theorems
begin

text \<open>
  The custom assets canister against its specification: after its initialisation it answers every
  request with the file that the directory holds for it, and the verifier accepts the answer.
\<close>

declare path_to_tree_path.simps [simp del] to_expr_path.simps [simp del]

subsection \<open>Specification\<close>

text \<open>The files that the globs find.\<close>

definition entry_file :: "dir_entry \<Rightarrow> bytes option" where
  "entry_file e = (case e of File_Entry p _ \<Rightarrow> Some p | Directory_Entry _ \<Rightarrow> None)"

definition glob_files :: "custom_lib \<Rightarrow> bytes \<Rightarrow> bytes list" where
  "glob_files lib glob = (case dir_find lib glob of Some es \<Rightarrow> List.map_filter entry_file es | None \<Rightarrow> [])"

definition found_files :: "custom_lib \<Rightarrow> bytes list" where
  "found_files lib = concat (map (glob_files lib \<circ> fst) asset_globs)"

text \<open>The directory: it has an index page, the paths of the files are relative, below \<^verbatim>\<open>assets\<close>, valid
  UTF-8 and none of their segments is a terminator of the tree.\<close>

definition file_documented :: "bytes \<Rightarrow> bool" where
  "file_documented p \<longleftrightarrow> starts_with p (str_bytes ''assets/'') \<and> plain_path (Exact_Path (47 # p)) \<and>
     length p < 2 ^ 32 \<and> (\<forall>x \<in> set (url_segments (47 # p)). utf8_valid x)"

definition custom_documented :: "custom_lib \<Rightarrow> bool" where
  "custom_documented lib \<longleftrightarrow> lower_ascii (cu_lower lib) \<and> (\<forall>v. cu_json lib v \<noteq> None) \<and>
     dir_get_file lib INDEX_FILE_PATH \<noteq> None \<and>
     (\<forall>(glob, _) \<in> set asset_globs. \<exists>es. dir_find lib glob = Some es \<and>
        (\<forall>e \<in> set es. \<exists>p c. e = File_Entry p c \<and> dir_get_file lib p = Some c \<and> file_documented p))"

text \<open>The key of a response is the empty path for the index page and the path of a file otherwise.\<close>

definition known_key :: "custom_lib \<Rightarrow> bytes \<Rightarrow> bool" where
  "known_key lib k \<longleftrightarrow> k = [] \<or> (\<exists>p \<in> set (found_files lib). k = 47 # p)"

definition key_path :: "bytes \<Rightarrow> certification_path" where
  "key_path k = (if k = [] then INDEX_TREE_PATH else Exact_Path k)"

definition key_file :: "bytes \<Rightarrow> bytes" where
  "key_file k = (if k = [] then INDEX_FILE_PATH else tl k)"

text \<open>The file to serve: the index page when no file has the path, and of it the encoding that the
  request accepts, Brotli first, when the directory has it.\<close>

definition encoding_accepted :: "custom_lib \<Rightarrow> http_request \<Rightarrow> bytes \<Rightarrow> bytes \<Rightarrow> bool" where
  "encoding_accepted lib request file encoding \<longleftrightarrow>
     (case accept_encoding lib request of None \<Rightarrow> False | Some v \<Rightarrow> str_contains v encoding) \<and>
     dir_get_file lib (file @ str_bytes ''.'' @ encoding) \<noteq> None"

definition negotiated :: "custom_lib \<Rightarrow> http_request \<Rightarrow> bytes \<Rightarrow> bytes" where
  "negotiated lib request file =
     (if encoding_accepted lib request file (str_bytes ''br'') then file @ str_bytes ''.br''
      else if encoding_accepted lib request file (str_bytes ''gzip'') then file @ str_bytes ''.gzip''
      else file)"

definition file_to_serve :: "custom_lib \<Rightarrow> http_request \<Rightarrow> bytes \<Rightarrow> bytes" where
  "file_to_serve lib request url =
     negotiated lib request (if list_ex (\<lambda>p. url = 47 # p) (found_files lib) then tl url else INDEX_FILE_PATH)"

lemma custom_documentedD:
  assumes "custom_documented lib"
  shows "lower_ascii (cu_lower lib)" and "\<exists>bs. cu_json lib v = Some bs"
    and "\<exists>c. dir_get_file lib INDEX_FILE_PATH = Some c"
    and "(glob, ct) \<in> set asset_globs \<Longrightarrow> \<exists>es. dir_find lib glob = Some es \<and>
        (\<forall>e \<in> set es. \<exists>p c. e = File_Entry p c \<and> dir_get_file lib p = Some c \<and> file_documented p)"
  using assms by (auto simp: custom_documented_def)

lemma found_documented:
  assumes "custom_documented lib" and "p \<in> set (found_files lib)"
  shows "file_documented p"
proof -
  from assms(2) obtain glob ct where g: "(glob, ct) \<in> set asset_globs" "p \<in> set (glob_files lib glob)"
    by (auto simp: found_files_def)
  with custom_documentedD(4) [OF assms(1) g(1)] show ?thesis
    by (fastforce simp: glob_files_def map_filter_def entry_file_def)
qed

subsection \<open>The tree\<close>

definition metrics_entry :: "(bytes \<Rightarrow> hash) \<Rightarrow> tree_entry" where
  "metrics_entry H = entry_of (Exact_Path METRICS_REQ_PATH) (certification_skip H)"

definition custom_leaf :: "path \<Rightarrow> bool" where
  "custom_leaf p \<longleftrightarrow> asset_leaf p \<and> hd p \<noteq> str_bytes ''metrics'' \<and> path_small p"

definition custom_tree_ok :: "(bytes \<Rightarrow> hash) \<Rightarrow> certification_tree \<Rightarrow> bool" where
  "custom_tree_ok H t \<longleftrightarrow> ct_ok H t \<and>
     (\<forall>p \<in> certified_paths t. p = entry_to_tree_path (metrics_entry H) \<or> custom_leaf p)"

lemma metrics_segments: "url_segments METRICS_REQ_PATH = [str_bytes ''metrics'']"
  by (simp add: url_segments_def METRICS_REQ_PATH_def str_bytes_def ends_with_def)

lemma metrics_leaf:
  "entry_to_tree_path (metrics_entry H) =
     [str_bytes ''metrics'', EXACT_PATH_TERMINATOR, sha_hash H (create_cel_expr skip_certification)]"
  by (simp add: entry_to_tree_path_def metrics_entry_def metrics_segments certification_skip_def del: terminators)

lemma split_lengths: "x \<in> set (split_on c s) \<Longrightarrow> length x \<le> length s"
  by (induction s arbitrary: x) (fastforce split: if_splits list.splits)+

lemma split_length: "length (split_on c s) \<le> length s + 1"
  by (induction s) (auto split: list.splits)

lemma segments_short: "x \<in> set (url_segments p) \<Longrightarrow> length x \<le> length p"
  by (auto simp: url_segments_def dest: split_lengths split: if_splits)

lemma segments_few: "length (url_segments p) \<le> length p + 2"
  using le_trans [OF length_filter_le split_length, of "\<lambda>e. e \<noteq> []" 47 p] by (auto simp: url_segments_def)

lemma asset_segments:
  assumes "starts_with p (str_bytes ''assets/'')"
  shows "\<exists>us. url_segments (47 # p) = str_bytes ''assets'' # us"
proof -
  from assms obtain q where "p = str_bytes ''assets'' @ 47 # q" by (auto simp: starts_with_iff str_bytes_def)
  moreover have "split_on 47 (str_bytes ''assets'' @ 47 # q) = str_bytes ''assets'' # split_on 47 q"
    by (rule split_on_append) (simp add: str_bytes_def)
  ultimately show ?thesis by (simp add: url_segments_def) (simp add: str_bytes_def)
qed

lemma asset_leafI:
  assumes "T \<in> {EXACT_PATH_TERMINATOR, WILDCARD_PATH_TERMINATOR}"
    and "set us \<inter> {EXACT_PATH_TERMINATOR, WILDCARD_PATH_TERMINATOR} = {}"
  shows "asset_leaf (us @ [T, a, b, c])"
  unfolding asset_leaf_def
  by (rule exI [of _ us], rule exI [of _ T], rule exI [of _ a], rule exI [of _ b], rule exI [of _ c])
    (use assms in blast)

lemma known_leaf:
  assumes "custom_documented lib" and "known_key lib k" and "cert_sized cert"
  shows "custom_leaf (entry_to_tree_path (entry_of (key_path k) cert))"
proof -
  from assms(3) obtain a b c where c: "certification_to_tree_path cert = [a, b, c]"
    "length a \<le> 32" "length b \<le> 32" "length c \<le> 32" unfolding cert_sized_def by blast
  have names: "WILDCARD_PATH_TERMINATOR \<noteq> str_bytes ''metrics''" "length EXACT_PATH_TERMINATOR = 3"
    "length WILDCARD_PATH_TERMINATOR = 3" "str_bytes ''assets'' \<noteq> str_bytes ''metrics''"
    by (simp_all add: WILDCARD_PATH_TERMINATOR_def EXACT_PATH_TERMINATOR_def str_bytes_def del: terminators)
  show ?thesis
  proof (cases "k = []")
    case True
    have "url_segments [] = []" by (simp add: url_segments_def ends_with_def)
    then have "entry_to_tree_path (entry_of (key_path k) cert) = [] @ [WILDCARD_PATH_TERMINATOR, a, b, c]"
      using True c(1) by (simp add: entry_to_tree_path_def key_path_def INDEX_TREE_PATH_def INDEX_REQ_PATH_def)
    moreover have "asset_leaf ([] @ [WILDCARD_PATH_TERMINATOR, a, b, c])" by (rule asset_leafI) simp_all
    moreover have "path_small [WILDCARD_PATH_TERMINATOR, a, b, c]"
      unfolding path_small_def using c(2-4) names(3) by (simp del: terminators)
    ultimately show ?thesis using names(1) by (simp add: custom_leaf_def del: terminators)
  next
    case False
    with assms(2) obtain p where p: "p \<in> set (found_files lib)" "k = 47 # p" by (auto simp: known_key_def)
    with found_documented [OF assms(1)] have d: "file_documented p" by blast
    let ?us = "url_segments (47 # p)"
    have e: "entry_to_tree_path (entry_of (key_path k) cert) = ?us @ [EXACT_PATH_TERMINATOR, a, b, c]"
      using p(2) c(1) by (simp add: entry_to_tree_path_def key_path_def)
    have "set ?us \<inter> {EXACT_PATH_TERMINATOR, WILDCARD_PATH_TERMINATOR} = {}"
      using d by (auto simp: file_documented_def plain_path_def butlast_append simp del: terminators)
    then have "asset_leaf (?us @ [EXACT_PATH_TERMINATOR, a, b, c])" by (intro asset_leafI) simp_all
    moreover have "path_small (?us @ [EXACT_PATH_TERMINATOR, a, b, c])"
      using segments_short d c(2-4) names(2) by (fastforce simp: path_small_def file_documented_def simp del: terminators)
    moreover obtain us where "?us = str_bytes ''assets'' # us"
      using asset_segments d unfolding file_documented_def by blast
    ultimately show ?thesis using names(4) by (simp add: custom_leaf_def e del: terminators)
  qed
qed

lemma custom_tree_insert:
  assumes "custom_tree_ok H t" and "custom_leaf (entry_to_tree_path e) \<or> e = metrics_entry H"
  shows "\<exists>t'. ct_insert H t e = Some t' \<and> custom_tree_ok H t' \<and>
    certified_paths t' = insert (entry_to_tree_path e) (certified_paths t)"
proof -
  let ?p = "entry_to_tree_path e" and ?m = "entry_to_tree_path (metrics_entry H)" and ?C = "certified_paths t"
  have apart: "\<not> starts_with q ?m \<and> \<not> starts_with ?m q" if "custom_leaf q" for q
    using that by (cases q) (auto simp: custom_leaf_def asset_leaf_def metrics_leaf starts_with_iff simp del: terminators)
  from assms(1) have "ct_ok H t" and leaves: "\<forall>q \<in> ?C. q = ?m \<or> custom_leaf q" by (auto simp: custom_tree_ok_def)
  with insert_total obtain t' where t': "ct_insert H t e = Some t'" "ct_ok H t'"
    "certified_paths t' = ct_spec_step (CtInsert e) ?C" by blast
  have "q = ?p" if "q \<in> ?C" "starts_with q ?p \<or> starts_with ?p q" for q
    using that leaves assms(2) apart asset_leaf_prefix unfolding custom_leaf_def by metis
  then have "{q \<in> ?C. \<not> starts_with q ?p \<and> \<not> starts_with ?p q} \<union> {?p} = ?C \<union> {?p}" by blast
  with t'(3) have "certified_paths t' = insert ?p ?C" by simp
  with t'(1,2) leaves assms(2) show ?thesis by (auto simp: custom_tree_ok_def)
qed

lemma custom_tree_small:
  assumes "custom_tree_ok H t" and "hash32 H"
  shows "tree_small (ct_as_hash_tree H t)"
proof (rule certification_tree_small)
  have "length EXACT_PATH_TERMINATOR = 3" "length (str_bytes ''metrics'') = 7"
    by (simp_all add: EXACT_PATH_TERMINATOR_def del: terminators)
  then have "path_small (entry_to_tree_path (metrics_entry H))"
    by (simp add: metrics_leaf path_small_def sha_hash_def assms(2) del: terminators)
  then show "\<forall>p \<in> certified_paths t. path_small p" using assms(1) by (auto simp: custom_tree_ok_def custom_leaf_def)
qed (use assms(1) in \<open>simp add: custom_tree_ok_def\<close>)

subsection \<open>The responses are certified\<close>

lemma asset_headers:
  obtains pre where "get_asset_headers hs n cel = pre @ (CERTIFICATE_EXPRESSION_HEADER_NAME, cel) # hs"
    and "map fst pre = map str_bytes [''strict-transport-security'', ''x-frame-options'', ''x-content-type-options'',
      ''content-security-policy'', ''referrer-policy'', ''permissions-policy'', ''cross-origin-embedder-policy'',
      ''cross-origin-opener-policy'', ''content-length'']"
proof -
  let ?own = "get_asset_headers [] n cel"
  have names: "map fst ?own = map str_bytes [''strict-transport-security'', ''x-frame-options'', ''x-content-type-options'',
      ''content-security-policy'', ''referrer-policy'', ''permissions-policy'', ''cross-origin-embedder-policy'',
      ''cross-origin-opener-policy'', ''content-length''] @ [CERTIFICATE_EXPRESSION_HEADER_NAME]"
    unfolding get_asset_headers_def by (simp only: append.simps append_Nil2 list.map fst_conv)
  have "last ?own = (CERTIFICATE_EXPRESSION_HEADER_NAME, cel)"
    unfolding get_asset_headers_def by (simp only: append.simps append_Nil2 last.simps list.distinct simp_thms if_False if_True)
  moreover have "?own \<noteq> []" using names by auto
  ultimately obtain pre where own: "?own = pre @ [(CERTIFICATE_EXPRESSION_HEADER_NAME, cel)]"
    by (metis append_butlast_last_id)
  have "get_asset_headers hs n cel = ?own @ hs"
    unfolding get_asset_headers_def by (simp only: append.simps append_Nil2)
  then have "get_asset_headers hs n cel = pre @ (CERTIFICATE_EXPRESSION_HEADER_NAME, cel) # hs"
    unfolding own by simp
  then show thesis by (rule that) (use names own in simp)
qed

lemma no_expression_names:
  assumes "lower_ascii lower" and "list_all (\<lambda>n. is_ascii n \<and> to_ascii_lowercase n \<noteq>
    to_ascii_lowercase CERTIFICATE_EXPRESSION_HEADER_NAME) (map fst hs)"
  shows "no_expression_header lower hs"
proof -
  have "is_ascii CERTIFICATE_EXPRESSION_HEADER_NAME"
    by (simp add: CERTIFICATE_EXPRESSION_HEADER_NAME_def str_bytes_def is_ascii_def)
  with assms show ?thesis by (auto simp: no_expression_header_def list_all_iff lower_text [OF assms(1)])
qed

lemma asset_validated:
  assumes "lower_ascii lower" and "no_expression_header lower hs"
  shows "validate_response lower (create_asset_response hs body cel) cel = Inr ()"
proof -
  obtain pre where pre: "get_asset_headers hs (length body) cel = pre @ (CERTIFICATE_EXPRESSION_HEADER_NAME, cel) # hs"
    "map fst pre = map str_bytes [''strict-transport-security'', ''x-frame-options'', ''x-content-type-options'',
      ''content-security-policy'', ''referrer-policy'', ''permissions-policy'', ''cross-origin-embedder-policy'',
      ''cross-origin-opener-policy'', ''content-length'']"
    by (rule asset_headers)
  have "no_expression_header lower pre"
    by (rule no_expression_names [OF assms(1)], unfold pre(2))
      (simp add: CERTIFICATE_EXPRESSION_HEADER_NAME_def str_bytes_def is_ascii_def to_ascii_lowercase_def ascii_lower_def)
  moreover have "resp_headers (create_asset_response hs body cel) = pre @ (CERTIFICATE_EXPRESSION_HEADER_NAME, cel) # hs"
    by (simp add: create_asset_response_def build_response_def response_ok_def response_with_def with_headers_def
        with_body_def with_status_code_def response_builder_new_def pre(1))
  moreover have "validate_response_headers lower cel True hs = Inr True"
    using validate_headers_skip [OF assms(2), of cel True "[]"] by simp
  ultimately show ?thesis by (simp add: validate_response_def validate_headers_skip)
qed

lemma asset_body: "resp_body (create_asset_response hs body cel) = body"
  by (simp add: create_asset_response_def build_response_def response_ok_def response_with_def with_headers_def
      with_body_def with_status_code_def response_builder_new_def)

text \<open>A stored response is that of a file and certified for its path.\<close>

definition custom_stored ::
  "(bytes \<Rightarrow> hash) \<Rightarrow> custom_lib \<Rightarrow> certification_tree \<Rightarrow> bytes \<Rightarrow> bytes \<Rightarrow> certified_http_response \<Rightarrow> bool" where
  "custom_stored H lib t k file r \<longleftrightarrow> known_key lib k \<and> dir_get_file lib file = Some (resp_body (chr_response r)) \<and>
     certification_response_only H (cu_leb lib) (cu_lower lib) ASSET_CEL_EXPR_DEF (chr_response r) None =
       Inr (chr_certification r) \<and>
     entry_to_tree_path (entry_of (key_path k) (chr_certification r)) \<in> certified_paths t"

definition custom_inv :: "(bytes \<Rightarrow> hash) \<Rightarrow> custom_lib \<Rightarrow> custom_state \<Rightarrow> bool" where
  "custom_inv H lib s \<longleftrightarrow> custom_tree_ok H (cu_tree s) \<and>
     entry_to_tree_path (metrics_entry H) \<in> certified_paths (cu_tree s) \<and>
     (\<forall>k r. map_of (responses s) k = Some r \<longrightarrow> custom_stored H lib (cu_tree s) k (key_file k) r) \<and>
     (\<forall>k e r. map_of (encoded_responses s) (k, e) = Some r \<longrightarrow>
        custom_stored H lib (cu_tree s) k (key_file k @ str_bytes ''.'' @ e) r)"

text \<open>Every response has its encodings.\<close>

definition encodings_complete :: "custom_lib \<Rightarrow> custom_state \<Rightarrow> bool" where
  "encodings_complete lib s \<longleftrightarrow> (\<forall>k \<in> dom (map_of (responses s)). \<forall>e \<in> {str_bytes ''gzip'', str_bytes ''br''}.
     dir_get_file lib (key_file k @ str_bytes ''.'' @ e) \<noteq> None \<longrightarrow> map_of (encoded_responses s) (k, e) \<noteq> None)"

lemma stored_mono:
  "custom_stored H lib t k file r \<Longrightarrow> certified_paths t \<subseteq> certified_paths t' \<Longrightarrow> custom_stored H lib t' k file r"
  by (auto simp: custom_stored_def)

lemma certified_file:
  assumes "custom_documented lib" and "hash32 H" and "custom_tree_ok H t" and "known_key lib k"
    and "dir_get_file lib file = Some body" and "no_expression_header (cu_lower lib) hs"
  shows "\<exists>cert t'. certification_response_only H (cu_leb lib) (cu_lower lib) ASSET_CEL_EXPR_DEF
      (create_asset_response hs body ASSET_CEL_EXPR) None = Inr cert \<and>
    ct_insert H t (entry_of (key_path k) cert) = Some t' \<and> custom_tree_ok H t' \<and>
    certified_paths t \<subseteq> certified_paths t' \<and>
    custom_stored H lib t' k file \<lparr>chr_response = create_asset_response hs body ASSET_CEL_EXPR, chr_certification = cert\<rparr>"
proof -
  let ?r = "create_asset_response hs body ASSET_CEL_EXPR"
  from asset_validated [OF custom_documentedD(1) [OF assms(1)] assms(6)]
  obtain cert where cert: "certification_response_only H (cu_leb lib) (cu_lower lib) ASSET_CEL_EXPR_DEF ?r None = Inr cert"
    by (simp add: certification_response_only_def ASSET_CEL_EXPR_def Let_def)
  from known_leaf [OF assms(1,4) certification_only_sized [OF assms(2) cert]] custom_tree_insert [OF assms(3)]
  obtain t' where "ct_insert H t (entry_of (key_path k) cert) = Some t'" "custom_tree_ok H t'"
    "certified_paths t' = insert (entry_to_tree_path (entry_of (key_path k) cert)) (certified_paths t)" by blast
  with cert assms(4,5) show ?thesis by (auto simp: custom_stored_def asset_body)
qed

lemma certify_response_step:
  assumes "custom_documented lib" and "hash32 H" and "custom_inv H lib s" and "known_key lib k"
    and "dir_get_file lib (key_file k) = Some body" and "no_expression_header (cu_lower lib) hs"
  shows "\<exists>s'. certify_asset_response H lib body hs (key_path k) k s = Some s' \<and> custom_inv H lib s' \<and>
    dom (map_of (responses s')) = insert k (dom (map_of (responses s))) \<and> encoded_responses s' = encoded_responses s"
proof -
  from assms(3) have "custom_tree_ok H (cu_tree s)" by (simp add: custom_inv_def)
  from certified_file [OF assms(1,2) this assms(4-6)] obtain cert t' where c:
    "certification_response_only H (cu_leb lib) (cu_lower lib) ASSET_CEL_EXPR_DEF
      (create_asset_response hs body ASSET_CEL_EXPR) None = Inr cert"
    "ct_insert H (cu_tree s) (entry_of (key_path k) cert) = Some t'" "custom_tree_ok H t'"
    "certified_paths (cu_tree s) \<subseteq> certified_paths t'"
    "custom_stored H lib t' k (key_file k)
      \<lparr>chr_response = create_asset_response hs body ASSET_CEL_EXPR, chr_certification = cert\<rparr>" by blast
  let ?s = "s\<lparr>cu_tree := t', responses := AList.update k
    \<lparr>chr_response = create_asset_response hs body ASSET_CEL_EXPR, chr_certification = cert\<rparr> (responses s)\<rparr>"
  have "custom_inv H lib ?s"
    using assms(3) c(3-5) stored_mono [OF _ c(4)] by (auto simp: custom_inv_def update_conv' split: if_splits)
  then show ?thesis
    using c(1,2) by (intro exI [of _ ?s]) (auto simp: certify_asset_response_def Let_def unwrap_result_def update_conv')
qed

lemma certify_encoding_step:
  assumes "custom_documented lib" and "hash32 H" and "custom_inv H lib s" and "known_key lib k"
    and "no_expression_header (cu_lower lib) ((str_bytes ''content-encoding'', e) # hs)"
  shows "\<exists>s'. certify_asset_with_encoding H lib (key_file k) (key_path k) k e hs s = Some s' \<and> custom_inv H lib s' \<and>
    responses s' = responses s \<and>
    dom (map_of (encoded_responses s)) \<subseteq> dom (map_of (encoded_responses s')) \<and>
    (dir_get_file lib (key_file k @ str_bytes ''.'' @ e) \<noteq> None \<longrightarrow> map_of (encoded_responses s') (k, e) \<noteq> None)"
proof (cases "dir_get_file lib (key_file k @ str_bytes ''.'' @ e)")
  case None
  with assms(3) show ?thesis by (simp add: certify_asset_with_encoding_def)
next
  case (Some body)
  let ?r = "create_asset_response ((str_bytes ''content-encoding'', e) # hs) body ASSET_CEL_EXPR"
  from assms(3) have "custom_tree_ok H (cu_tree s)" by (simp add: custom_inv_def)
  from certified_file [OF assms(1,2) this assms(4) Some assms(5)] obtain cert t' where c:
    "certification_response_only H (cu_leb lib) (cu_lower lib) ASSET_CEL_EXPR_DEF ?r None = Inr cert"
    "ct_insert H (cu_tree s) (entry_of (key_path k) cert) = Some t'" "custom_tree_ok H t'"
    "certified_paths (cu_tree s) \<subseteq> certified_paths t'"
    "custom_stored H lib t' k (key_file k @ str_bytes ''.'' @ e) \<lparr>chr_response = ?r, chr_certification = cert\<rparr>" by blast
  let ?s = "s\<lparr>cu_tree := t', encoded_responses := AList.update (k, e)
    \<lparr>chr_response = ?r, chr_certification = cert\<rparr> (encoded_responses s)\<rparr>"
  have "custom_inv H lib ?s"
    using assms(3) c(3-5) stored_mono [OF _ c(4)] by (auto simp: custom_inv_def update_conv' split: if_splits)
  then show ?thesis
    using c(1,2) Some
    by (intro exI [of _ ?s]) (auto simp: certify_asset_with_encoding_def Let_def unwrap_result_def update_conv')
qed

subsection \<open>Initialisation\<close>

lemma plain_headers:
  assumes "lower_ascii lower"
  shows "no_expression_header lower [(str_bytes ''content-type'', x), (str_bytes ''cache-control'', y)]"
    and "no_expression_header lower
      [(str_bytes ''content-encoding'', e), (str_bytes ''content-type'', x), (str_bytes ''cache-control'', y)]"
  by (rule no_expression_names [OF assms], simp add: CERTIFICATE_EXPRESSION_HEADER_NAME_def str_bytes_def is_ascii_def
      to_ascii_lowercase_def ascii_lower_def)+

text \<open>The state after certifying the responses for a set of keys.\<close>

definition custom_ok :: "(bytes \<Rightarrow> hash) \<Rightarrow> custom_lib \<Rightarrow> bytes set \<Rightarrow> custom_state \<Rightarrow> bool" where
  "custom_ok H lib K s \<longleftrightarrow> custom_inv H lib s \<and> encodings_complete lib s \<and> dom (map_of (responses s)) = K"

lemma certify_asset_step:
  assumes "custom_documented lib" and "hash32 H" and "custom_ok H lib K s" and "known_key lib k"
    and "dir_get_file lib (key_file k) = Some body"
    and "hs = [(str_bytes ''content-type'', x), (str_bytes ''cache-control'', y)]"
  shows "\<exists>s'. certify_asset H lib body (key_file k) (key_path k) k hs s = Some s' \<and> custom_ok H lib (insert k K) s'"
proof -
  have headers: "no_expression_header (cu_lower lib) hs"
    "no_expression_header (cu_lower lib) ((str_bytes ''content-encoding'', e) # hs)" for e
    using plain_headers [OF custom_documentedD(1) [OF assms(1)]] unfolding assms(6) by blast+
  from assms(3) have s: "custom_inv H lib s" "encodings_complete lib s" "dom (map_of (responses s)) = K"
    by (simp_all add: custom_ok_def)
  from certify_response_step [OF assms(1,2) s(1) assms(4,5) headers(1)] obtain s1 where s1:
    "certify_asset_response H lib body hs (key_path k) k s = Some s1" "custom_inv H lib s1"
    "dom (map_of (responses s1)) = insert k K" "encoded_responses s1 = encoded_responses s" using s(3) by auto
  from certify_encoding_step [OF assms(1,2) s1(2) assms(4) headers(2)] obtain s2 where s2:
    "certify_asset_with_encoding H lib (key_file k) (key_path k) k (str_bytes ''gzip'') hs s1 = Some s2"
    "custom_inv H lib s2" "responses s2 = responses s1"
    "dom (map_of (encoded_responses s1)) \<subseteq> dom (map_of (encoded_responses s2))"
    "dir_get_file lib (key_file k @ str_bytes ''.'' @ str_bytes ''gzip'') \<noteq> None \<longrightarrow>
      map_of (encoded_responses s2) (k, str_bytes ''gzip'') \<noteq> None" by blast
  from certify_encoding_step [OF assms(1,2) s2(2) assms(4) headers(2)] obtain s3 where s3:
    "certify_asset_with_encoding H lib (key_file k) (key_path k) k (str_bytes ''br'') hs s2 = Some s3"
    "custom_inv H lib s3" "responses s3 = responses s2"
    "dom (map_of (encoded_responses s2)) \<subseteq> dom (map_of (encoded_responses s3))"
    "dir_get_file lib (key_file k @ str_bytes ''.'' @ str_bytes ''br'') \<noteq> None \<longrightarrow>
      map_of (encoded_responses s3) (k, str_bytes ''br'') \<noteq> None" by blast
  have "encodings_complete lib s3"
    using s(2,3) s1(3,4) s2(3-5) s3(3-5) by (fastforce simp: encodings_complete_def domIff subset_iff)
  with s1 s2 s3 show ?thesis by (intro exI [of _ s3]) (simp add: certify_asset_def custom_ok_def)
qed

lemma certify_entries_ok:
  assumes "custom_documented lib" and "hash32 H"
  shows "custom_ok H lib K s \<Longrightarrow> \<forall>e \<in> set es. \<exists>p c. e = File_Entry p c \<and> dir_get_file lib p = Some c \<and>
      p \<in> set (found_files lib) \<Longrightarrow>
    \<exists>s'. certify_entries H lib ct es s = Some s' \<and>
      custom_ok H lib (K \<union> Cons 47 ` set (List.map_filter entry_file es)) s'"
proof (induction es arbitrary: K s)
  case (Cons e es)
  from Cons.prems(2) obtain p c where e: "e = File_Entry p c" "dir_get_file lib p = Some c" "p \<in> set (found_files lib)"
    by auto
  let ?k = "47 # p"
  from found_documented [OF assms(1) e(3)] have req: "file_req_path p = ?k"
    by (auto simp: file_req_path_def file_documented_def starts_with_iff str_bytes_def)
  have k: "known_key lib ?k" "dir_get_file lib (key_file ?k) = Some c" "key_path ?k = Exact_Path ?k" "key_file ?k = p"
    using e by (auto simp: known_key_def key_file_def key_path_def)
  from certify_asset_step [OF assms Cons.prems(1) k(1,2) refl, of ct
      "str_bytes ''public, max-age=31536000, immutable''"] obtain s' where s':
    "certify_asset H lib c p (Exact_Path ?k) ?k [(str_bytes ''content-type'', ct),
       (str_bytes ''cache-control'', str_bytes ''public, max-age=31536000, immutable'')] s = Some s'"
    "custom_ok H lib (insert ?k K) s'" unfolding k(3,4) by blast
  from Cons.IH [OF s'(2)] Cons.prems(2) obtain s'' where "certify_entries H lib ct es s' = Some s''"
    "custom_ok H lib (insert ?k K \<union> Cons 47 ` set (List.map_filter entry_file es)) s''" by auto
  with s'(1) req e(1) show ?case by (simp add: map_filter_def entry_file_def)
qed (simp add: map_filter_def)

lemma certify_globs_ok:
  assumes "custom_documented lib" and "hash32 H"
  shows "custom_ok H lib K s \<Longrightarrow> set globs \<subseteq> set asset_globs \<Longrightarrow>
    \<exists>s'. certify_globs H lib globs s = Some s' \<and>
      custom_ok H lib (K \<union> Cons 47 ` (\<Union>g \<in> fst ` set globs. set (glob_files lib g))) s'"
proof (induction globs arbitrary: K s)
  case (Cons g globs)
  obtain glob ct where g: "g = (glob, ct)" by (cases g)
  with Cons.prems(2) have "(glob, ct) \<in> set asset_globs" by simp
  from custom_documentedD(4) [OF assms(1) this] obtain es where es: "dir_find lib glob = Some es"
    "\<forall>e \<in> set es. \<exists>p c. e = File_Entry p c \<and> dir_get_file lib p = Some c \<and> file_documented p" by blast
  then have files: "glob_files lib glob = List.map_filter entry_file es" by (simp add: glob_files_def)
  have "p \<in> set (found_files lib)" if "File_Entry p c \<in> set es" for p c
    using that es(1) \<open>(glob, ct) \<in> set asset_globs\<close>
    by (force simp: found_files_def glob_files_def map_filter_def entry_file_def)
  with es(2) have "\<forall>e \<in> set es. \<exists>p c. e = File_Entry p c \<and> dir_get_file lib p = Some c \<and> p \<in> set (found_files lib)"
    by metis
  from certify_entries_ok [OF assms Cons.prems(1) this, of ct] obtain s' where s':
    "certify_asset_glob H lib glob ct s = Some s'" "custom_ok H lib (K \<union> Cons 47 ` set (glob_files lib glob)) s'"
    using es(1) unfolding files by (auto simp: certify_asset_glob_def)
  from Cons.IH [OF s'(2)] Cons.prems(2) obtain s'' where "certify_globs H lib globs s' = Some s''"
    "custom_ok H lib (K \<union> Cons 47 ` set (glob_files lib glob) \<union>
      Cons 47 ` (\<Union>g \<in> fst ` set globs. set (glob_files lib g))) s''" by auto
  with s'(1) g show ?case by (simp add: image_Un Un_assoc)
qed simp

lemma custom_init_ok:
  assumes "custom_documented lib" and "hash32 H"
  shows "\<exists>s. custom_init H lib custom_state_new = Some s \<and> custom_ok H lib (insert [] (Cons 47 ` set (found_files lib))) s \<and>
    cu_certified_data s = Some (ct_root_hash H (cu_tree s))"
proof -
  have "custom_tree_ok H ct_default" by (simp add: custom_tree_ok_def)
  from custom_tree_insert [OF this, of "metrics_entry H"] obtain t where t:
    "ct_insert H ct_default (metrics_entry H) = Some t" "custom_tree_ok H t"
    "entry_to_tree_path (metrics_entry H) \<in> certified_paths t" by auto
  let ?s = "custom_state_new\<lparr>cu_tree := t\<rparr>"
  have s: "add_certification_skips H custom_state_new = Some ?s" "custom_ok H lib {} ?s"
    using t by (auto simp: add_certification_skips_def custom_state_new_def metrics_entry_def custom_ok_def
        custom_inv_def encodings_complete_def)
  from custom_documentedD(3) [OF assms(1)] obtain c where c: "dir_get_file lib INDEX_FILE_PATH = Some c" by blast
  have k: "known_key lib []" "key_file [] = INDEX_FILE_PATH" "key_path [] = INDEX_TREE_PATH" "INDEX_REQ_PATH = []"
    by (simp_all add: known_key_def key_file_def key_path_def INDEX_REQ_PATH_def)
  from certify_asset_step [OF assms s(2) k(1) _ refl, of c "str_bytes ''text/html''" NO_CACHE_ASSET_CACHE_CONTROL] c
  obtain s1 where s1: "certify_index_asset H lib ?s = Some s1" "custom_ok H lib {[]} s1"
    by (auto simp: certify_index_asset_def k)
  from certify_globs_ok [OF assms s1(2), of asset_globs] obtain s2 where s2:
    "certify_globs H lib asset_globs s1 = Some s2" "custom_ok H lib (insert [] (Cons 47 ` set (found_files lib))) s2"
    by (auto simp: found_files_def)
  let ?s2 = "update_certified_data H s2"
  have "custom_ok H lib (insert [] (Cons 47 ` set (found_files lib))) ?s2"
    using s2(2) by (simp add: update_certified_data_def custom_ok_def custom_inv_def encodings_complete_def)
  then show ?thesis using s(1) s1(1) s2(1)
    by (intro exI [of _ ?s2]) (simp add: custom_init_def certify_all_assets_def update_certified_data_def)
qed

end
