(* ===== verification/Custom_Assets_Served.thy ===== *)
theory Custom_Assets_Served
  imports Custom_Assets_Correct Json_Api_Served
begin

text \<open>
  The custom assets canister against the verifier: every request is answered with the file that the
  specification names, and the answer is accepted.
\<close>

declare path_to_tree_path.simps [simp del] to_expr_path.simps [simp del]

subsection \<open>The chosen response\<close>

abbreviation custom_keys :: "custom_lib \<Rightarrow> bytes set" where
  "custom_keys lib \<equiv> insert [] (Cons 47 ` set (found_files lib))"

abbreviation chosen_response ::
  "custom_lib \<Rightarrow> custom_state \<Rightarrow> http_request \<Rightarrow> bytes \<Rightarrow> certified_http_response \<Rightarrow> certified_http_response" where
  "chosen_response lib s request k identity \<equiv>
     unwrap_or (Option.bind (accept_encoding lib request) (encoded_response s k)) identity"

lemma encoded_None_iff:
  assumes "custom_ok H lib K s" and "k \<in> K" and "e \<in> {str_bytes ''gzip'', str_bytes ''br''}"
  shows "map_of (encoded_responses s) (k, e) = None \<longleftrightarrow> dir_get_file lib (key_file k @ str_bytes ''.'' @ e) = None"
proof -
  have "map_of (encoded_responses s) (k, e) \<noteq> None"
    if "dir_get_file lib (key_file k @ str_bytes ''.'' @ e) \<noteq> None"
    using assms that by (auto simp: custom_ok_def encodings_complete_def)
  moreover have "dir_get_file lib (key_file k @ str_bytes ''.'' @ e) \<noteq> None"
    if "map_of (encoded_responses s) (k, e) = Some r" for r
    using assms(1) that by (auto simp: custom_ok_def custom_inv_def custom_stored_def)
  ultimately show ?thesis
    by (cases "map_of (encoded_responses s) (k, e)"; cases "dir_get_file lib (key_file k @ str_bytes ''.'' @ e)") auto
qed

lemma encoded_stored:
  "custom_ok H lib K s \<Longrightarrow> map_of (encoded_responses s) (k, e) = Some r \<Longrightarrow>
     custom_stored H lib (cu_tree s) k (key_file k @ str_bytes ''.'' @ e) r"
  by (simp add: custom_ok_def custom_inv_def)

lemma chosen_stored:
  assumes "custom_ok H lib K s" and "map_of (responses s) k = Some r"
  shows "custom_stored H lib (cu_tree s) k (negotiated lib request (key_file k)) (chosen_response lib s request k r)"
proof -
  let ?br = "str_bytes ''br''" and ?gzip = "str_bytes ''gzip''"
  from assms have k: "k \<in> K" by (auto simp: custom_ok_def)
  have names: "str_bytes ''.br'' = str_bytes ''.'' @ ?br" "str_bytes ''.gzip'' = str_bytes ''.'' @ ?gzip"
    by (simp_all add: str_bytes_def)
  have none: "map_of (encoded_responses s) (k, e) = None \<longleftrightarrow> dir_get_file lib (key_file k @ str_bytes ''.'' @ e) = None"
    if "e \<in> {?gzip, ?br}" for e using encoded_None_iff [OF assms(1) k that] .
  have r: "custom_stored H lib (cu_tree s) k (key_file k) r" using assms by (simp add: custom_ok_def custom_inv_def)
  show ?thesis
  proof (cases "accept_encoding lib request")
    case None
    with r show ?thesis by (simp add: negotiated_def encoding_accepted_def)
  next
    case (Some v)
    have acc: "encoding_accepted lib request (key_file k) e \<longleftrightarrow>
        str_contains v e \<and> map_of (encoded_responses s) (k, e) \<noteq> None" if "e \<in> {?gzip, ?br}" for e
      using none [OF that] Some by (simp add: encoding_accepted_def)
    show ?thesis
      using encoded_stored [OF assms(1), of k ?br] encoded_stored [OF assms(1), of k ?gzip] r
      by (auto simp: negotiated_def acc names Some encoded_response_def Let_def)
  qed
qed

lemma metrics_unknown: "custom_documented lib \<Longrightarrow> \<not> known_key lib METRICS_REQ_PATH"
  by (auto simp: known_key_def METRICS_REQ_PATH_def str_bytes_def starts_with_iff file_documented_def
      dest!: found_documented)

lemma metrics_chosen:
  assumes "custom_documented lib" and "custom_ok H lib K s"
  shows "chosen_response lib s request METRICS_REQ_PATH r = r"
proof -
  have "map_of (encoded_responses s) (METRICS_REQ_PATH, e) = None" for e
    using encoded_stored [OF assms(2), of METRICS_REQ_PATH e] metrics_unknown [OF assms(1)]
    by (cases "map_of (encoded_responses s) (METRICS_REQ_PATH, e)") (auto simp: custom_stored_def)
  then show ?thesis by (cases "accept_encoding lib request") (simp_all add: encoded_response_def)
qed

lemma key_expr_path:
  assumes "custom_documented lib" and "known_key lib k"
  shows "\<forall>x \<in> set (to_expr_path (key_path k)). utf8_valid x \<and> length x < 2 ^ 64"
    and "length (to_expr_path (key_path k)) < 2 ^ 64"
proof -
  have names: "\<forall>x \<in> {PATH_PREFIX, EXACT_PATH_TERMINATOR, WILDCARD_PATH_TERMINATOR}. utf8_valid x \<and> length x < 2 ^ 64"
    by (simp add: PATH_PREFIX_def EXACT_PATH_TERMINATOR_def WILDCARD_PATH_TERMINATOR_def str_bytes_def del: terminators)
  have none: "url_segments INDEX_REQ_PATH = []" by (simp add: url_segments_def ends_with_def INDEX_REQ_PATH_def)
  have both: "(\<forall>x \<in> set (to_expr_path (key_path k)). utf8_valid x \<and> length x < 2 ^ 64) \<and>
    length (to_expr_path (key_path k)) < 2 ^ 64"
  proof (cases "k = []")
    case True
    with names none show ?thesis by (simp add: key_path_def INDEX_TREE_PATH_def)
  next
    case False
    with assms(2) obtain p where p: "p \<in> set (found_files lib)" "k = 47 # p" by (auto simp: known_key_def)
    with found_documented [OF assms(1)] have d: "file_documented p" by blast
    then have "length (url_segments k) < 2 ^ 33" using segments_few [of k] p(2) by (simp add: file_documented_def)
    moreover have "utf8_valid x \<and> length x < 2 ^ 64" if "x \<in> set (url_segments k)" for x
      using segments_short [OF that] that d p(2) by (auto simp: file_documented_def)
    ultimately show ?thesis using False names by (auto simp: key_path_def)
  qed
  from both show "\<forall>x \<in> set (to_expr_path (key_path k)). utf8_valid x \<and> length x < 2 ^ 64"
    and "length (to_expr_path (key_path k)) < 2 ^ 64" by blast+
qed

subsection \<open>Acceptance\<close>

text \<open>A request is answered with a certified response of the given body.\<close>

definition answer_ready ::
  "(bytes \<Rightarrow> hash) \<Rightarrow> custom_lib \<Rightarrow> 64 word \<Rightarrow> http_request \<Rightarrow> bytes \<Rightarrow> custom_state \<Rightarrow> bytes \<Rightarrow> bool" where
  "answer_ready H lib cycles request url s body \<longleftrightarrow> (\<exists>k tp identity r cert src.
     identity_response H lib cycles url s = Some (k, tp, identity) \<and>
     chosen_response lib s request k identity = \<lparr>chr_response = r, chr_certification = cert\<rparr> \<and> resp_body r = body \<and>
     entry_to_tree_path (entry_of tp cert) \<in> certified_paths (cu_tree s) \<and>
     source_certification H (cu_leb lib) (cu_http lib) (cu_lower lib) src = Inr cert \<and> expr_ok (source_expr src) \<and>
     canister_answer (cu_http lib) (cu_lower lib) request r src \<and> routed (cu_tree s) url tp \<and>
     (\<forall>x \<in> set (to_expr_path tp). utf8_valid x \<and> length x < 2 ^ 64) \<and> length (to_expr_path tp) < 2 ^ 64)"

lemma answer_accepted:
  fixes vl :: "('e, 'f, 'p::linorder, 'b, 'c, 'd) verify_lib"
  assumes libs: "nom_documented (cl_nom (vl_cert vl))" "header_lib_documented (vl_header vl)"
      "cbor_documented (call_enc call)" "b64_documented (call_b64 call) (vl_b64 vl)" "lower_ascii (vl_lower vl)" "hash32 H"
    and same: "cu_leb lib = vl_leb vl" "cu_http lib = vl_http vl" "cu_lower lib = vl_lower vl"
      "call_self_describe call = self_describe_tag" "call_data_certificate call = Some dc"
    and t: "custom_tree_ok H (cu_tree s)" and url: "get_path (vl_http vl) request = Inr url"
    and ready: "answer_ready H lib cycles request url s body"
    and cert: "certificate_from_cbor (cl_nom (vl_cert vl)) dc = Inr crt"
      "certificate_verify H (vl_cert vl) crt canister_id key now offset c = Some (Inr (), c')"
      "lookup_path (cert_tree crt) [str_bytes ''canister'', canister_id, str_bytes ''certified_data''] =
         LR_Found (ct_root_hash H (cu_tree s))"
    and min: "min_version \<le> 2"
  shows "\<exists>response info. asset_handler H lib call cycles request s = Some response \<and> resp_body response = body \<and>
    verify_request_response_pair H vl request response canister_id now offset key min_version c =
      Some (Inr info, c') \<and> vi_verification_version info = 2"
proof -
  from ready [unfolded answer_ready_def same] obtain k tp identity r cert src where
    choice: "identity_response H lib cycles url s = Some (k, tp, identity)"
      "chosen_response lib s request k identity = \<lparr>chr_response = r, chr_certification = cert\<rparr>" "resp_body r = body"
    and e: "entry_to_tree_path (entry_of tp cert) \<in> certified_paths (cu_tree s)"
    and src: "source_certification H (vl_leb vl) (vl_http vl) (vl_lower vl) src = Inr cert" "expr_ok (source_expr src)"
      "canister_answer (vl_http vl) (vl_lower vl) request r src" and tp: "routed (cu_tree s) url tp"
      "\<forall>x \<in> set (to_expr_path tp). utf8_valid x \<and> length x < 2 ^ 64" "length (to_expr_path tp) < 2 ^ 64" by blast
  let ?t = "cu_tree s" and ?e = "entry_of tp cert"
  from t have ok: "ct_ok H ?t" by (simp add: custom_tree_ok_def)
  have routed: "routed ?t url (entry_path ?e)" using tp(1) by simp
  from routed_witness [OF ok routed e] obtain w where w: "ct_witness H ?t ?e url = Some (Inr w)" by blast
  let ?response = "add_v2_certificate_header (call_b64 call) self_describe_tag (call_enc call) dc r w (to_expr_path tp)"
  have "asset_handler H lib call cycles request s = Some ?response"
    using choice w url by (simp add: asset_handler_def unwrap_result_def same Let_def)
  moreover have "resp_body ?response = body" using choice(3) by (simp add: add_v2_certificate_header_def add_header_def)
  moreover have "\<exists>info. verify_request_response_pair H vl request ?response canister_id now offset key min_version c =
      Some (Inr info, c') \<and> vi_verification_version info = 2"
    using tree_response_accepted [OF libs ok e _ src(2,3) url routed w
        witness_small [OF libs(6) ok custom_tree_small [OF t libs(6)] routed e w] _ _ cert min] src(1) tp(2,3) by simp
  ultimately show ?thesis by blast
qed

lemma metrics_response:
  assumes "custom_documented lib"
  obtains body r where "create_metrics_response lib cycles = Some r" and "resp_body r = body"
    and "cu_json lib (metrics_json cycles) = Some body"
    and "canister_answer (cu_http lib) (cu_lower lib) request r Source_Skip"
proof -
  from custom_documentedD(2) [OF assms] obtain body where body: "cu_json lib (metrics_json cycles) = Some body" by blast
  let ?r = "create_asset_response [(str_bytes ''content-type'', str_bytes ''application/json''),
       (str_bytes ''cache-control'', NO_CACHE_ASSET_CACHE_CONTROL)] body (create_cel_expr skip_certification)"
  have "create_metrics_response lib cycles = Some ?r"
    using body by (simp add: create_metrics_response_def create_asset_response_def Let_def)
  moreover have "canister_answer (cu_http lib) (cu_lower lib) request ?r Source_Skip"
    using asset_validated [OF custom_documentedD(1) [OF assms] plain_headers(1) [OF custom_documentedD(1) [OF assms]]]
    by simp
  ultimately show thesis using that body asset_body by blast
qed

lemma metrics_ready:
  assumes "custom_documented lib" and "custom_ok H lib K s"
  shows "\<exists>body. cu_json lib (metrics_json cycles) = Some body \<and>
    answer_ready H lib cycles request METRICS_REQ_PATH s body"
proof -
  obtain body r where r: "create_metrics_response lib cycles = Some r" "resp_body r = body"
    "cu_json lib (metrics_json cycles) = Some body"
    "canister_answer (cu_http lib) (cu_lower lib) request r Source_Skip" by (rule metrics_response [OF assms(1)])
  let ?tp = "Exact_Path METRICS_REQ_PATH" and ?skip = "\<lparr>chr_response = r, chr_certification = certification_skip H\<rparr>"
  from assms(2) have e: "entry_to_tree_path (metrics_entry H) \<in> certified_paths (cu_tree s)"
    by (simp add: custom_ok_def custom_inv_def)
  have "routed (cu_tree s) METRICS_REQ_PATH ?tp"
    using exact_routed [OF e, of METRICS_REQ_PATH] by (simp add: metrics_entry_def)
  moreover have "identity_response H lib cycles METRICS_REQ_PATH s = Some (METRICS_REQ_PATH, ?tp, ?skip)"
    using r(1) by (simp add: identity_response_def)
  moreover have "(\<forall>x \<in> set (to_expr_path ?tp). utf8_valid x \<and> length x < 2 ^ 64) \<and> length (to_expr_path ?tp) < 2 ^ 64"
    by (simp add: metrics_segments PATH_PREFIX_def EXACT_PATH_TERMINATOR_def str_bytes_def del: terminators)
  moreover have "source_certification H (cu_leb lib) (cu_http lib) (cu_lower lib) Source_Skip = Inr (certification_skip H)"
    "expr_ok (source_expr Source_Skip)" by simp_all
  ultimately have "answer_ready H lib cycles request METRICS_REQ_PATH s body"
    unfolding answer_ready_def using metrics_chosen [OF assms, of request ?skip] r(2,4) e [unfolded metrics_entry_def]
    by blast
  with r(3) show ?thesis by blast
qed

lemma file_ready:
  assumes "custom_documented lib" and "custom_ok H lib (custom_keys lib) s" and "url \<noteq> []" and "url \<noteq> METRICS_REQ_PATH"
    and "\<not> list_ex (\<lambda>p. url = 47 # p) (found_files lib) \<Longrightarrow> routed (cu_tree s) url INDEX_TREE_PATH"
  shows "\<exists>body. dir_get_file lib (file_to_serve lib request url) = Some body \<and>
    answer_ready H lib cycles request url s body"
proof -
  let ?known = "list_ex (\<lambda>p. url = 47 # p) (found_files lib)"
  let ?k = "if ?known then url else []"
  from assms(2) have dom: "dom (map_of (responses s)) = custom_keys lib" by (simp add: custom_ok_def)
  moreover have "?k \<in> custom_keys lib" by (auto simp: list_ex_iff)
  ultimately obtain r0 where r0: "map_of (responses s) ?k = Some r0" by blast
  let ?r = "chosen_response lib s request ?k r0"
  from chosen_stored [OF assms(2) r0, of request] have st: "known_key lib ?k"
    "dir_get_file lib (negotiated lib request (key_file ?k)) = Some (resp_body (chr_response ?r))"
    "certification_response_only H (cu_leb lib) (cu_lower lib) ASSET_CEL_EXPR_DEF (chr_response ?r) None =
       Inr (chr_certification ?r)"
    "entry_to_tree_path (entry_of (key_path ?k) (chr_certification ?r)) \<in> certified_paths (cu_tree s)"
    unfolding custom_stored_def by blast+
  have served: "negotiated lib request (key_file ?k) = file_to_serve lib request url"
    using assms(3) by (auto simp: file_to_serve_def key_file_def)
  have "map_of (responses s) url = None" if "\<not> ?known" using that dom assms(3) by (auto simp: list_ex_iff domIff)
  then have "identity_response H lib cycles url s = Some (?k, key_path ?k, r0)"
    using assms(3,4) r0 by (auto simp: identity_response_def key_path_def INDEX_REQ_PATH_def)
  moreover have "routed (cu_tree s) url (key_path ?k)"
    using exact_routed [OF st(4), of url] assms(3,5) by (auto simp: key_path_def)
  moreover have "?r = \<lparr>chr_response = chr_response ?r, chr_certification = chr_certification ?r\<rparr>" by simp
  moreover have "source_certification H (cu_leb lib) (cu_http lib) (cu_lower lib)
      (Source_ResponseOnly ASSET_CEL_EXPR_DEF (chr_response ?r)) = Inr (chr_certification ?r)" using st(3) by simp
  moreover have "expr_ok (source_expr (Source_ResponseOnly ASSET_CEL_EXPR_DEF (chr_response ?r)))"
    by (simp add: ASSET_CEL_EXPR_DEF_def only_build_def only_with_response_certification_def
        response_only_certification_def response_names_ok_def response_list_def)
  moreover have "canister_answer (cu_http lib) (cu_lower lib) request (chr_response ?r)
      (Source_ResponseOnly ASSET_CEL_EXPR_DEF (chr_response ?r))" by simp
  ultimately have "answer_ready H lib cycles request url s (resp_body (chr_response ?r))"
    unfolding answer_ready_def using st(4) key_expr_path [OF assms(1) st(1)] by blast
  with st(2) served show ?thesis by auto
qed


subsection \<open>An exchange\<close>

text \<open>A directory with an index page and a script that has a Brotli encoding.\<close>

definition plain_custom :: custom_lib where
  "plain_custom = \<lparr>cu_http = plain_http, cu_leb = two_bytes, cu_lower = to_ascii_lowercase,
     cu_json = (\<lambda>v. Some (json_text v)),
     dir_get_file = map_of [(str_bytes ''index.html'', [73]), (str_bytes ''assets/a.js'', [74]),
       (str_bytes ''assets/a.js.br'', [66])],
     dir_find = (\<lambda>glob. Some (if glob = str_bytes ''assets/**/*.js''
       then [File_Entry (str_bytes ''assets/a.js'') [74]] else []))\<rparr>"

lemma plain_custom_files: "found_files plain_custom = [str_bytes ''assets/a.js'']"
  by (simp add: found_files_def asset_globs_def glob_files_def plain_custom_def entry_file_def map_filter_def str_bytes_def)

lemma plain_custom_documented: "custom_documented plain_custom"
proof -
  let ?p = "str_bytes ''assets/a.js''"
  have "url_segments (47 # ?p) = [str_bytes ''assets'', str_bytes ''a.js'']"
    by (simp add: url_segments_def str_bytes_def ends_with_def)
  then have "file_documented ?p"
    by (simp add: file_documented_def plain_path_def starts_with_iff EXACT_PATH_TERMINATOR_def
        WILDCARD_PATH_TERMINATOR_def PATH_PREFIX_def str_bytes_def del: terminators)
  moreover have "dir_get_file plain_custom ?p = Some [74]" "dir_get_file plain_custom INDEX_FILE_PATH \<noteq> None"
    by (simp_all add: plain_custom_def INDEX_FILE_PATH_def str_bytes_def)
  moreover have "lower_ascii (cu_lower plain_custom)" "\<forall>v. cu_json plain_custom v \<noteq> None"
    by (simp_all add: plain_custom_def)
  moreover have "\<exists>es. dir_find plain_custom glob = Some es \<and> set es \<subseteq> {File_Entry ?p [74]}" for glob
    by (auto simp: plain_custom_def)
  ultimately have "\<exists>es. dir_find plain_custom glob = Some es \<and> (\<forall>e \<in> set es. \<exists>p c. e = File_Entry p c \<and>
      dir_get_file plain_custom p = Some c \<and> file_documented p)" for glob
    by (meson singletonD subsetD)
  with \<open>lower_ascii _\<close> \<open>\<forall>v. _\<close> \<open>dir_get_file plain_custom INDEX_FILE_PATH \<noteq> None\<close> show ?thesis
    by (simp add: custom_documented_def)
qed

definition script_request :: http_request where
  "script_request = \<lparr>req_method = str_bytes ''GET'', req_url = str_bytes ''/assets/a.js'',
     req_headers = [(str_bytes ''Accept-Encoding'', str_bytes ''gzip, br'')], req_body = [], req_certificate_version = Some 2\<rparr>"

lemma script_served: "file_to_serve plain_custom script_request (str_bytes ''/assets/a.js'') = str_bytes ''assets/a.js.br''"
proof -
  have "list_ex (\<lambda>p. str_bytes ''/assets/a.js'' = 47 # p) (found_files plain_custom)"
    by (simp add: plain_custom_files) (simp add: str_bytes_def)
  moreover have "encoding_accepted plain_custom script_request (str_bytes ''assets/a.js'') (str_bytes ''br'')"
    by (simp add: encoding_accepted_def accept_encoding_def script_request_def plain_custom_def str_bytes_def
        to_ascii_lowercase_def ascii_lower_def starts_with_iff)
  moreover have "tl (str_bytes ''/assets/a.js'') = str_bytes ''assets/a.js''"
    "str_bytes ''assets/a.js'' @ str_bytes ''.br'' = str_bytes ''assets/a.js.br''" by (simp_all add: str_bytes_def)
  ultimately show ?thesis by (simp add: file_to_serve_def negotiated_def)
qed


end
