(* ===== verification/Spec2Isabelle.thy ===== *)
theory Spec2Isabelle
  imports Rust_Prelude Hash_Tree Hash_Tree_Pruning Hash_Tree_Serde Rb_Tree Rb_Delete Rb_Witness
    Rb_Map Rb_Delete_Correct Rb_Correct Rb_Witness_Correct Rb_Iter Nested_Tree Rep_Indep_Hash Cbor
    Cbor_Roundtrip Rust_Str Http_Types Cel_Expr Cel_Parser Cel_Ast Cel_Roundtrip Http_Hash
    Wildcard_Paths Certification_Tree Certification_Witness Certificate_Verification Signature_Cache
    Certificate_Chain Response_Types Certificate_Header Header_Roundtrip Response_Validation
    Response_Verification Response_Soundness Response_Correct Response_Properties
    Response_Complete Tree_Sizes Skip_Certification Response_Checks Response_Theorems
    Rust_Comp Rust_Num Asset_Config Asset_Router Asset_Operations Asset_Invariant Asset_Ranges
    Asset_Properties Asset_Served Certificate_Serde Parser_Fuel V1_Assets
    Certificate_Builder Builder_Correct
    Json_Api Json_Api_Tree Json_Api_Correct Json_Api_History Json_Api_Served
    Custom_Assets Custom_Assets_Correct Custom_Assets_Served
begin

text \<open>
  Response verification for the Internet Computer.

  A canister answers HTTP requests with responses that one replica delivers. It certifies them: a tree
  of hashes over its responses is part of the state that the subnet signs, and a response carries a
  certificate (the signed root hash of the state) and a witness (a pruned copy of the tree). This
  library models the two sides of the repository: the crates with which a canister certifies responses
  and the crate with which a client verifies them, and proves that they fit together.

  \<^bold>\<open>Parts and their theories\<close> (paths under \<^verbatim>\<open>src/packages\<close>)

  \<^item> Shared vocabulary. \<^verbatim>\<open>Rust_Prelude\<close>: bytes, the order of byte slices, results with \<^verbatim>\<open>?\<close>.
    \<^verbatim>\<open>Rust_Str\<close>: string functions of the standard library on UTF-8 bytes. \<^verbatim>\<open>Rust_Num\<close>: decimal printing
    and \<^verbatim>\<open>parse::<usize>\<close>. \<^verbatim>\<open>Rust_Comp\<close>: computations on a mutable state with early return and panic.
  \<^item> \<^verbatim>\<open>ic-certification\<close>. \<^verbatim>\<open>Hash_Tree\<close> and \<^verbatim>\<open>Hash_Tree_Serde\<close>: nodes, digests, lookups and serialisation
    of \<^verbatim>\<open>hash_tree/mod.rs\<close>. \<^verbatim>\<open>Rb_Tree\<close>, \<^verbatim>\<open>Rb_Delete\<close>, \<^verbatim>\<open>Rb_Witness\<close>, \<^verbatim>\<open>Rb_Iter\<close>: the red-black tree of
    \<^verbatim>\<open>rb_tree/mod.rs\<close>. \<^verbatim>\<open>Nested_Tree\<close>: the tree of trees of \<^verbatim>\<open>nested_rb_tree.rs\<close>; its \<^verbatim>\<open>merge_hash_trees\<close>
    is in \<^verbatim>\<open>Hash_Tree_Pruning\<close>. \<^verbatim>\<open>Certificate_Serde\<close>: the deserialisation of \<^verbatim>\<open>certificate.rs\<close>.
  \<^item> \<^verbatim>\<open>ic-representation-independent-hash\<close>: \<^verbatim>\<open>Rep_Indep_Hash\<close>.
  \<^item> \<^verbatim>\<open>ic-cbor\<close>: \<^verbatim>\<open>Cbor\<close>, with the readers of certificates, hash trees and expression paths.
  \<^item> \<^verbatim>\<open>ic-http-certification\<close>. \<^verbatim>\<open>Http_Types\<close>: requests, responses and builders. \<^verbatim>\<open>Cel_Expr\<close>: expressions.
    \<^verbatim>\<open>Http_Hash\<close>: request and response hashes. \<^verbatim>\<open>Wildcard_Paths\<close>: \<^verbatim>\<open>utils/wildcard_paths.rs\<close>.
    \<^verbatim>\<open>Certification_Tree\<close>: certified paths, certifications, the tree of certified responses and its
    witnesses, the response headers and the skip certification helpers.
  \<^item> \<^verbatim>\<open>ic-asset-certification\<close>. \<^verbatim>\<open>Asset_Config\<close>: assets, configurations and keys. \<^verbatim>\<open>Asset_Router\<close>: the state
    of the router, range requests and the choice of a response. \<^verbatim>\<open>Asset_Operations\<close>: certification and
    deletion of assets, their chunks, encodings, aliases, fallbacks and redirects.
  \<^item> \<^verbatim>\<open>ic-certificate-verification\<close>. \<^verbatim>\<open>Certificate_Verification\<close>: the checks of a certificate.
    \<^verbatim>\<open>Signature_Cache\<close>: the shared cache of verified signatures.
  \<^item> \<^verbatim>\<open>ic-response-verification\<close>. \<^verbatim>\<open>Response_Types\<close>: errors, codes and results. \<^verbatim>\<open>Cel_Parser\<close>, \<^verbatim>\<open>Cel_Ast\<close>: the
    reader of expressions. \<^verbatim>\<open>Certificate_Header\<close>: the \<^verbatim>\<open>IC-Certificate\<close> header. \<^verbatim>\<open>Response_Validation\<close>: the
    checks on the tree. \<^verbatim>\<open>Response_Verification\<close>: decoding of bodies, both versions and the entry point.
  \<^item> \<^verbatim>\<open>ic-response-verification-test-utils\<close>: \<^verbatim>\<open>V1_Assets\<close>, the asset tree and the headers of version 1.
  \<^item> \<^verbatim>\<open>ic-certification-testing\<close>: \<^verbatim>\<open>Certificate_Builder\<close>, which makes the certificates of the tests, with their
    trees, keys, signatures and delegations.
  \<^item> \<^verbatim>\<open>src/examples/http-certification/json-api/src/backend\<close>: \<^verbatim>\<open>Json_Api\<close>, a canister that keeps todo items and
    certifies the responses that list them; its calls, its routes and its thread-local state.
  \<^item> \<^verbatim>\<open>src/examples/http-certification/custom-assets/src/backend\<close>: \<^verbatim>\<open>Custom_Assets\<close>, a canister that certifies the
    files of a directory with their encodings, and skips the certification of its metrics.

  \<^bold>\<open>How they interact.\<close> The asset router writes responses with the headers and expressions of
  \<^verbatim>\<open>ic-http-certification\<close> into a certification tree, which is a nested tree of red-black trees with cached
  hashes; its root hash is the certified data of the canister. To answer a request it selects a stored
  response and adds the header with the serialised witness. The verifier reads the header and the
  certificate with the CBOR readers, checks the certificate (time, signature through the cache,
  delegation), compares the root hash of the witness with the certified data, looks up the expression
  path and hashes in the witness, and recomputes the hashes of the request and the response. The JSON API and the custom assets are
  clients of the canister side; the builder makes certificates for the verifier.

  \<^bold>\<open>State.\<close> \<^verbatim>\<open>&mut self\<close> is a state that is passed and returned: a red-black tree is its root, a nested tree
  a tree of them, a router the record of its tree and of its two maps as association lists. The cells of the JSON API are one
  record; a call that traps leaves it as it was, and an upgrade starts from fresh cells. The global
  signature cache is a state threaded through the verification; concurrent checks are the step relation
  of \<^verbatim>\<open>Signature_Cache\<close>, in which a check locks the cache once to look up and once to insert. A panic
  (\<^verbatim>\<open>unwrap\<close>, \<^verbatim>\<open>panic!\<close>, a failed debug assertion, an index out of range) is \<^term>\<open>None\<close>; a \<^verbatim>\<open>Result\<close> is a
  sum whose left side is the error.

  \<^bold>\<open>What is proved.\<close>
  \<^item> Hash trees: a pruned tree with the digest of a full one answers every lookup as the full tree or says
    Unknown (\<^verbatim>\<open>Hash_Tree_Pruning\<close>); merging witnesses loses nothing.
  \<^item> Red-black trees: every history of insertions and deletions refines a map, keeps balance and cached
    hashes and never panics (\<^verbatim>\<open>Rb_Map\<close>, \<^verbatim>\<open>Rb_Delete_Correct\<close>, \<^verbatim>\<open>Rb_Correct\<close>); every witness has the root hash
    and proves presence or absence (\<^verbatim>\<open>Rb_Witness_Correct\<close>); iteration is exact (\<^verbatim>\<open>Rb_Iter\<close>). The locale
    \<^verbatim>\<open>hashed_map\<close> is the contract that the nested tree uses, \<^verbatim>\<open>as_hash_tree\<close> the one of the values of a tree.
  \<^item> Nested trees and certification trees: histories, witnesses of paths, refinement of the set of certified
    paths (\<^verbatim>\<open>Nested_Tree\<close>, \<^verbatim>\<open>Certification_Witness\<close> with the locale \<^verbatim>\<open>authenticated_tree\<close>).
  \<^item> Encodings: CBOR, CEL, header and hash tree round trips (\<^verbatim>\<open>Cbor_Roundtrip\<close>, \<^verbatim>\<open>Cel_Roundtrip\<close>,
    \<^verbatim>\<open>Header_Roundtrip\<close>); what each hash binds (\<^verbatim>\<open>Rep_Indep_Hash\<close>, \<^verbatim>\<open>Http_Hash\<close>).
  \<^item> Certificates: acceptance means a time in the window and a chain of signatures (\<^verbatim>\<open>Certificate_Chain\<close>);
    the cache changes no verdict, in sequence or interleaved (\<^verbatim>\<open>Signature_Cache\<close>).
  \<^item> Responses: an accepted response is one that the canister certified, for an entry that its tree lets answer
    the request (\<^verbatim>\<open>Response_Soundness\<close>, \<^verbatim>\<open>Response_Correct\<close>), what the library builds is accepted
    (\<^verbatim>\<open>Response_Complete\<close>, \<^verbatim>\<open>Skip_Certification\<close>), whatever the version the certificate was checked
    (\<^verbatim>\<open>Response_Checks\<close>), and the same for version 1 and asset trees (\<^verbatim>\<open>V1_Assets\<close>); \<^verbatim>\<open>Response_Properties\<close> and \<^verbatim>\<open>Response_Theorems\<close> state these at the entry point.
  \<^item> The asset router: histories of its operations keep every stored response the one certified for its key,
    and certified in the tree (\<^verbatim>\<open>Asset_Invariant\<close>, locales \<^verbatim>\<open>router_invariant\<close> and \<^verbatim>\<open>router_deletion\<close>); range
    requests reassemble the content (\<^verbatim>\<open>Asset_Ranges\<close>, \<^verbatim>\<open>Asset_Properties\<close>); what it serves is accepted by the
    verifier (\<^verbatim>\<open>Asset_Served\<close>).
  \<^item> The certificate builder: what it builds with at most one delegation is accepted under the key that it
    returns, and with a nested one never (\<^verbatim>\<open>Builder_Correct\<close>).
  \<^item> The JSON API: its tree holds the certifications of its two paths only and fits the wire format
    (\<^verbatim>\<open>Json_Api_Tree\<close>); initialisation and the handlers keep the list certified (\<^verbatim>\<open>Json_Api_Correct\<close>); every
    history of calls refines a map of items (\<^verbatim>\<open>Json_Api_History\<close>), and the list that it serves is current and
    accepted by the verifier (\<^verbatim>\<open>Json_Api_Served\<close>, which also shows the queries that trap).
  \<^item> Custom assets: after the initialisation every stored response is certified for its path and has the encodings
    of the directory (\<^verbatim>\<open>Custom_Assets_Correct\<close>), and every request is answered with the file of the specification,
    accepted by the verifier (\<^verbatim>\<open>Custom_Assets_Served\<close>). \<^verbatim>\<open>Tree_Sizes\<close> bounds trees and witnesses for all clients.

  \<^bold>\<open>Loops, fuel and bounds.\<close> Deletion terminates because rotations keep the number of nodes. \<^verbatim>\<open>nt_insert\<close>
  retries after clearing a leaf or creating a subtree, at most three steps for a key, so it starts with
  fuel above three times the length of the path. The iterator takes three steps for a node; \<^verbatim>\<open>rb_items\<close> gives it one
  more. Every call of the CBOR value parser and of \<^verbatim>\<open>cel_value\<close> consumes input, so fuel above the length of the
  input is enough; running out has an error of its own, and \<^verbatim>\<open>Parser_Fuel\<close> proves that it is never
  returned and that more fuel changes nothing. The wildcard search and
  the decoding loop are \<^theory_text>\<open>partial_function\<close>s; that they end is proved. The loops over chunks advance by the
  chunk size of 2,000,000 bytes and end by a measure. Machine integers that can wrap are words (CBOR
  integers, the sizes in hashes); the 128-bit time bounds saturate; \<^verbatim>\<open>usize\<close> is \<^typ>\<open>nat\<close> with its
  maximum as an argument where a parse is bounded by it.

  \<^bold>\<open>Parameters.\<close> Code outside the repository is an argument: SHA-256, BLS signatures, \<^verbatim>\<open>leb128\<close>, the combinators
  of \<^verbatim>\<open>nom\<close>, \<^verbatim>\<open>serde_cbor\<close>, the principals of \<^verbatim>\<open>candid\<close>, \<^verbatim>\<open>base64\<close>, \<^verbatim>\<open>http\<close> and \<^verbatim>\<open>urlencoding\<close>, the LRU cache of
  \<^verbatim>\<open>cached\<close>, the decoders of \<^verbatim>\<open>flate2\<close>, \<^verbatim>\<open>globset\<close>, the order of hash maps, the unstable sort and Unicode
  case, \<^verbatim>\<open>matchit\<close>, \<^verbatim>\<open>serde_json\<close> and \<^verbatim>\<open>include_dir\<close>, and for the builder the threshold signatures, the random numbers and the
  hash tree builder of the Internet Computer. A theorem that relies on one of them says what: records ending in \<^verbatim>\<open>_lib\<close> hold the functions,
  predicates ending in \<^verbatim>\<open>_documented\<close> and the law \<^verbatim>\<open>lower_ascii\<close> the documented behaviour, each with a witness.
  Where a theorem needs that a hash function does not collide it names the inputs on which it must not.

  \<^bold>\<open>Not modelled.\<close> Display and Debug texts and log output; conversions to JavaScript and Candid; the wasm
  crates and the JavaScript packages, which only convert and call the crates above; the fixtures
  that put the test support together, and tests; the other examples, which only call the crates; the sharing of the tree of a
  router with other owners through \<^verbatim>\<open>Rc\<close>, beyond its content being an argument; statistics of the cache.
\<close>

end
